(* ===== verification/Prelude.thy ===== *)
theory Prelude
  imports Main "HOL-Library.Signed_Division" "HOL-Library.Multiset"
begin

text \<open>
  Shared base of the development: the result type of fallible Go functions, Go's integer
  range and truncating division, generic lemmas on lists used by several components, and
  the reachability predicate and interface that the state machines instantiate.
\<close>

named_theorems go_defs \<open>definitions of the modelled Go functions, unfolded on request\<close>

section \<open>Results and integers\<close>

text \<open>
  A Go function returning \<open>(value, error)\<close> is modelled by a sum: \<open>Inl\<close> carries the
  error, \<open>Inr\<close> the value.
\<close>

type_synonym ('e, 'a) result = "'e + 'a"

definition is_ok :: "'e + 'a \<Rightarrow> bool" where
  "is_ok r = (case r of Inl _ \<Rightarrow> False | Inr _ \<Rightarrow> True)"

lemma is_ok_simps [simp]: "is_ok (Inr a)" "\<not> is_ok (Inl e)"
  by (simp_all add: is_ok_def)

lemma is_ok_iff: "is_ok r \<longleftrightarrow> (\<exists>a. r = Inr a)"
  by (cases r) simp_all

text \<open>
  Go's \<open>int\<close> is 64 bits wide on the supported platforms. Integers are modelled as
  \<open>int\<close>; where the code guards against overflow, or a product could leave the range,
  a lemma states that the results stay within \<open>int64_range\<close>.
\<close>

definition max_int64 :: int where
  "max_int64 = 2 ^ 63 - 1"

definition int64_range :: "int \<Rightarrow> bool" where
  "int64_range x \<longleftrightarrow> - (2 ^ 63) \<le> x \<and> x \<le> max_int64"

lemma max_int64_value: "max_int64 = 9223372036854775807"
  by (simp add: max_int64_def)

text \<open>
  Two's complement wrap-around of a 64-bit result. It is written out where a modelled
  computation multiplies values that are not known to be small.
\<close>

definition wrap64 :: "int \<Rightarrow> int" where
  "wrap64 x = (x + 2 ^ 63) mod 2 ^ 64 - 2 ^ 63"

lemma wrap64_id: "int64_range x \<Longrightarrow> wrap64 x = x"
  by (simp add: wrap64_def int64_range_def max_int64_def)

lemma wrap64_range: "int64_range (wrap64 x)"
proof -
  have "(x + 2 ^ 63) mod 2 ^ 64 < 2 ^ 64" by (rule pos_mod_bound) simp
  then show ?thesis by (simp add: wrap64_def int64_range_def max_int64_def)
qed

text \<open>Go's \<open>/\<close> and \<open>%\<close> truncate towards zero: \<open>sdiv\<close> and \<open>smod\<close> of the library.\<close>

lemma sdiv_nonneg: "0 \<le> a \<Longrightarrow> 0 \<le> b \<Longrightarrow> a sdiv b = a div (b::int)"
  by (cases "a = 0"; cases "b = 0") (auto simp: signed_divide_int_def sgn_if)

lemma smod_nonneg: "0 \<le> a \<Longrightarrow> 0 \<le> b \<Longrightarrow> a smod b = a mod (b::int)"
  by (cases "a = 0") (simp_all add: signed_modulo_int_def)

lemma ceil_div_eq:
  fixes a b :: int
  assumes "0 < b"
  shows "(a + b - 1) div b = a div b + (if a mod b = 0 then 0 else 1)"
proof -
  have a: "a = b * (a div b) + a mod b" by simp
  have m: "0 \<le> a mod b" "a mod b < b" using assms by simp_all
  have "(a + b - 1) div b = (b * (a div b) + (a mod b + b - 1)) div b"
    by (subst a) (simp add: algebra_simps)
  also have "\<dots> = a div b + (a mod b + b - 1) div b"
    using assms by simp
  also have "(a mod b + b - 1) div b = (if a mod b = 0 then 0 else 1)"
  proof (cases "a mod b = 0")
    case True
    with assms show ?thesis by (simp add: div_pos_pos_trivial)
  next
    case False
    with m have "0 < a mod b" by simp
    with m have "(a mod b - 1) div b = 0" by (simp add: div_pos_pos_trivial)
    moreover have "(a mod b + b - 1) div b = (a mod b - 1 + b) div b"
      by (simp add: algebra_simps)
    moreover have "(a mod b - 1 + b) div b = (a mod b - 1) div b + 1"
      using assms by (intro div_add_self2) simp
    ultimately show ?thesis using False by simp
  qed
  finally show ?thesis .
qed

section \<open>Lists\<close>

lemma sum_list_nonneg_int: "(\<And>x. x \<in> set xs \<Longrightarrow> 0 \<le> f x) \<Longrightarrow> 0 \<le> (\<Sum>x\<leftarrow>xs. f x :: int)"
  by (induction xs) auto

lemma member_le_sum_list_int:
  "(\<And>x. x \<in> set xs \<Longrightarrow> 0 \<le> f x) \<Longrightarrow> x \<in> set xs \<Longrightarrow> f x \<le> (\<Sum>x\<leftarrow>xs. f x :: int)"
proof (induction xs)
  case Nil
  then show ?case by simp
next
  case (Cons y ys)
  have "0 \<le> (\<Sum>x\<leftarrow>ys. f x)" using Cons.prems(1) by (intro sum_list_nonneg_int) simp
  moreover have "0 \<le> f y" using Cons.prems(1) by simp
  ultimately show ?case using Cons by force
qed

text \<open>
  A sorting function as Go documents \<^verbatim>\<open>slices.SortFunc\<close>: a permutation, ordered by the key,
  with no promise about equal keys.
\<close>

definition sorts_by :: "('a \<Rightarrow> int) \<Rightarrow> ('a list \<Rightarrow> 'a list) \<Rightarrow> bool" where
  "sorts_by key f \<longleftrightarrow> (\<forall>xs. mset (f xs) = mset xs \<and> sorted (map key (f xs)))"

lemma sorts_by_sort_key: "sorts_by key (sort_key key)"
  by (simp add: sorts_by_def)

lemma sorted_take_le_drop:
  "sorted (map key xs) \<Longrightarrow> x \<in> set (take n xs) \<Longrightarrow> y \<in> set (drop n xs) \<Longrightarrow> key x \<le> (key y :: int)"
proof -
  assume a: "sorted (map key xs)" "x \<in> set (take n xs)" "y \<in> set (drop n xs)"
  have "map key xs = map key (take n xs) @ map key (drop n xs)"
    by (metis append_take_drop_id map_append)
  with a show ?thesis by (auto simp: sorted_append)
qed

text \<open>\<open>pieces_of\<close>: consecutive nonempty pieces whose concatenation is the list.\<close>

definition pieces_of :: "'a list list \<Rightarrow> 'a list \<Rightarrow> bool" where
  "pieces_of ps xs \<longleftrightarrow> concat ps = xs \<and> [] \<notin> set ps"

lemma pieces_of_Nil [simp]: "pieces_of [] xs \<longleftrightarrow> xs = []"
  by (auto simp: pieces_of_def)

lemma pieces_of_Cons: "pieces_of (p # ps) xs \<longleftrightarrow> p \<noteq> [] \<and> (\<exists>ys. xs = p @ ys \<and> pieces_of ps ys)"
  by (auto simp: pieces_of_def)

text \<open>Loops that search an index range upwards or downwards.\<close>

lemma find_filter: "find Q (filter P xs) = find (\<lambda>x. P x \<and> Q x) xs"
  by (induction xs) auto

lemma find_cong_set: "(\<And>x. x \<in> set xs \<Longrightarrow> P x = Q x) \<Longrightarrow> find P xs = find Q xs"
  by (induction xs) auto

lemma find_append: "find P (xs @ ys) = (case find P xs of Some x \<Rightarrow> Some x | None \<Rightarrow> find P ys)"
  by (induction xs) auto

lemma find_upt_Some:
  "find P [a..<b] = Some i \<longleftrightarrow> a \<le> i \<and> i < b \<and> P i \<and> (\<forall>j. a \<le> j \<and> j < i \<longrightarrow> \<not> P j)"
proof (induction "b - a" arbitrary: a)
  case (Suc n)
  then have "a < b" by simp
  then have u: "[a..<b] = a # [Suc a..<b]" by (rule upt_conv_Cons)
  from Suc(2) have "n = b - Suc a" by simp
  note IH = Suc(1) [OF this]
  have step: "a \<le> j \<longleftrightarrow> j = a \<or> Suc a \<le> j" for j by auto
  show ?case
  proof (cases "P a")
    case True
    with \<open>a < b\<close> show ?thesis unfolding u by (auto simp: order.order_iff_strict)
  next
    case False
    with IH show ?thesis unfolding u step by auto
  qed
qed simp

lemma find_rev_upt_Some:
  "find P (rev [a..<b]) = Some i \<longleftrightarrow> a \<le> i \<and> i < b \<and> P i \<and> (\<forall>j. i < j \<and> j < b \<longrightarrow> \<not> P j)"
proof (induction b)
  case (Suc b)
  then show ?case by (cases "a \<le> b") (auto simp: less_Suc_eq)
qed simp

lemma find_upt_None: "find P [a..<b] = None \<longleftrightarrow> (\<forall>j. a \<le> j \<and> j < b \<longrightarrow> \<not> P j)"
  by (auto simp: find_None_iff)

lemma find_rev_upt_None: "find P (rev [a..<b]) = None \<longleftrightarrow> (\<forall>j. a \<le> j \<and> j < b \<longrightarrow> \<not> P j)"
  by (auto simp: find_None_iff)

section \<open>ORDER BY\<close>

text \<open>
  The sorting of query results by a comparison of rows. A comparison that is a strict total order
  on the rows makes the result unique, so selecting and limiting rows can be reasoned about as taking
  prefixes and suffixes of one sorted list.
\<close>

fun insert_by :: "('a \<Rightarrow> 'a \<Rightarrow> bool) \<Rightarrow> 'a \<Rightarrow> 'a list \<Rightarrow> 'a list" where
  "insert_by before x [] = [x]"
| "insert_by before x (y # ys) = (if before y x then y # insert_by before x ys else x # y # ys)"

definition order_by :: "('a \<Rightarrow> 'a \<Rightarrow> bool) \<Rightarrow> 'a list \<Rightarrow> 'a list" where
  "order_by before xs = foldr (insert_by before) xs []"

lemma insert_by_mset [simp]: "mset (insert_by before x xs) = add_mset x (mset xs)"
  by (induction xs) auto

lemma order_by_mset [simp]: "mset (order_by before xs) = mset xs"
  by (induction xs) (simp_all add: order_by_def)

lemma order_by_set [simp]: "set (order_by before xs) = set xs"
  using order_by_mset by (metis set_mset_mset)

lemma order_by_length [simp]: "length (order_by before xs) = length xs"
  using order_by_mset by (metis size_mset)

lemma sorted_insert_by:
  assumes "transp before"
  shows "totalp_on (set (x # ys)) before \<Longrightarrow> sorted_wrt before ys \<Longrightarrow> x \<notin> set ys \<Longrightarrow>
    sorted_wrt before (insert_by before x ys)"
proof (induction ys)
  case (Cons y ys)
  have s: "set (insert_by before x ys) = insert x (set ys)" by (metis insert_by_mset set_mset_mset set_mset_add_mset_insert)
  show ?case
  proof (cases "before y x")
    case True
    have "totalp_on (set (x # ys)) before" using Cons.prems(1) by (rule totalp_on_subset) auto
    from Cons.IH [OF this] True Cons.prems(2,3) show ?thesis by (simp add: s)
  next
    case False
    with totalp_onD [OF Cons.prems(1), of x y] Cons.prems(3) have xy: "before x y" by auto
    have "before x z" if "z \<in> set ys" for z using transpD [OF assms xy] Cons.prems(2) that by simp
    with False xy Cons.prems(2) show ?thesis by simp
  qed
qed simp

lemma sorted_order_by:
  assumes "transp before"
  shows "totalp_on (set xs) before \<Longrightarrow> distinct xs \<Longrightarrow> sorted_wrt before (order_by before xs)"
proof (induction xs)
  case (Cons x xs)
  have "totalp_on (set xs) before" using Cons.prems(1) by (rule totalp_on_subset) auto
  with Cons have "sorted_wrt before (order_by before xs)" by simp
  then have "sorted_wrt before (insert_by before x (order_by before xs))"
    using Cons.prems by (intro sorted_insert_by assms) auto
  then show ?case by (simp add: order_by_def)
qed (simp add: order_by_def)

lemma sorted_wrt_unique:
  assumes "asymp before"
  shows "sorted_wrt before xs \<Longrightarrow> sorted_wrt before ys \<Longrightarrow> set xs = set ys \<Longrightarrow> xs = ys"
proof (induction xs arbitrary: ys)
  case (Cons x xs)
  then obtain y zs where y: "ys = y # zs" by (cases ys) auto
  have irr: "\<not> before z z" for z using asympD [OF assms] by blast
  have xy: "x = y"
  proof (rule ccontr)
    assume ne: "x \<noteq> y"
    have "y \<in> set xs" "x \<in> set zs" using ne Cons.prems(3) y by auto
    then have "before x y" "before y x" using Cons.prems(1,2) y by auto
    then show False using asympD [OF assms] by blast
  qed
  have "x \<notin> set xs" "x \<notin> set zs" using Cons.prems(1,2) irr y xy by auto
  then have "set xs = set zs" using Cons.prems(3) y xy by auto
  with Cons.IH [of zs] Cons.prems(1,2) y xy show ?case by simp
qed simp

section \<open>Reachable states\<close>

text \<open>
  Concurrent components are described by the atomic steps their goroutines can take; a
  behaviour is any interleaving of them, and \<open>reachable_from\<close> collects the states that
  some interleaving reaches.
\<close>

inductive reachable_from :: "('s \<Rightarrow> bool) \<Rightarrow> ('s \<Rightarrow> 's \<Rightarrow> bool) \<Rightarrow> 's \<Rightarrow> bool"
  for init :: "'s \<Rightarrow> bool" and step :: "'s \<Rightarrow> 's \<Rightarrow> bool" where
  start: "init s \<Longrightarrow> reachable_from init step s"
| step: "reachable_from init step s \<Longrightarrow> step s t \<Longrightarrow> reachable_from init step t"

text \<open>
  The contract of a machine with an inductive invariant. A component that discharges the
  two laws obtains the invariant in every reachable state.
\<close>

locale invariant_machine =
  fixes init :: "'s \<Rightarrow> bool"
    and step :: "'s \<Rightarrow> 's \<Rightarrow> bool"
    and inv :: "'s \<Rightarrow> bool"
  assumes init_inv: "init s \<Longrightarrow> inv s"
    and step_inv: "inv s \<Longrightarrow> step s t \<Longrightarrow> inv t"
begin

lemma reachable_inv: "reachable_from init step s \<Longrightarrow> inv s"
  by (induction rule: reachable_from.induct) (auto intro: init_inv step_inv)

lemma reachable_step_inv: "reachable_from init step s \<Longrightarrow> step s t \<Longrightarrow> inv t"
  by (blast intro: reachable_inv step_inv)

end

end
