(* ===== verification/Go_Strings.thy ===== *)
theory Go_Strings
  imports Prelude
begin

text \<open>
  Go strings. A Go string is a sequence of bytes, modelled by \<open>string\<close> (a list of 8-bit
  characters), so \<open>length\<close> is Go's \<open>len\<close>. The theory models the parts of the packages
  \<^verbatim>\<open>unicode/utf8\<close>, \<^verbatim>\<open>unicode\<close>, \<^verbatim>\<open>strings\<close> and \<^verbatim>\<open>strconv\<close> that the program uses:
  rune decoding with the replacement character for invalid input, white space trimming,
  splitting and joining, substring search, counting and replacement.
\<close>

section \<open>UTF-8\<close>

definition byte :: "char \<Rightarrow> nat" where
  "byte c = of_char c"

lemma byte_less: "byte c < 256"
  unfolding byte_def using nat_of_char_less_256 by simp

definition rune_error :: nat where
  "rune_error = 65533"

text \<open>A continuation byte \<open>10xxxxxx\<close>; every other byte may start a rune (\<open>utf8.RuneStart\<close>).\<close>

definition continuation :: "nat \<Rightarrow> bool" where
  "continuation b \<longleftrightarrow> 128 \<le> b \<and> b \<le> 191"

definition rune_start :: "nat \<Rightarrow> bool" where
  "rune_start b \<longleftrightarrow> \<not> continuation b"

text \<open>Accepted ranges of the second byte, by first byte (Go's \<open>acceptRanges\<close>).\<close>

definition second_ok :: "nat \<Rightarrow> nat \<Rightarrow> bool" where
  "second_ok b0 b1 \<longleftrightarrow>
     (if b0 = 224 then 160 \<le> b1 \<and> b1 \<le> 191
      else if b0 = 237 then 128 \<le> b1 \<and> b1 \<le> 159
      else if b0 = 240 then 144 \<le> b1 \<and> b1 \<le> 191
      else if b0 = 244 then 128 \<le> b1 \<and> b1 \<le> 143
      else continuation b1)"

text \<open>
  \<open>utf8.DecodeRuneInString\<close>: the first rune and its width in bytes; an invalid encoding
  gives the replacement rune of width one, the empty string width zero.
\<close>

definition decode_rune :: "string \<Rightarrow> nat \<times> nat" where
  "decode_rune s =
     (case map byte (take 4 s) of
        [] \<Rightarrow> (rune_error, 0)
      | b0 # bs \<Rightarrow>
          if b0 < 128 then (b0, 1)
          else if 194 \<le> b0 \<and> b0 \<le> 223 then
            (case bs of
               b1 # _ \<Rightarrow> if second_ok b0 b1 then ((b0 - 192) * 64 + (b1 - 128), 2) else (rune_error, 1)
             | _ \<Rightarrow> (rune_error, 1))
          else if 224 \<le> b0 \<and> b0 \<le> 239 then
            (case bs of
               b1 # b2 # _ \<Rightarrow>
                 if second_ok b0 b1 \<and> continuation b2
                 then ((b0 - 224) * 4096 + (b1 - 128) * 64 + (b2 - 128), 3) else (rune_error, 1)
             | _ \<Rightarrow> (rune_error, 1))
          else if 240 \<le> b0 \<and> b0 \<le> 244 then
            (case bs of
               b1 # b2 # b3 # _ \<Rightarrow>
                 if second_ok b0 b1 \<and> continuation b2 \<and> continuation b3
                 then ((b0 - 240) * 262144 + (b1 - 128) * 4096 + (b2 - 128) * 64 + (b3 - 128), 4)
                 else (rune_error, 1)
             | _ \<Rightarrow> (rune_error, 1))
          else (rune_error, 1))"

lemma decode_rune_Nil [simp]: "decode_rune [] = (rune_error, 0)"
  by (simp add: decode_rune_def)

lemma decode_rune_width:
  assumes "s \<noteq> []"
  shows "1 \<le> snd (decode_rune s)" and "snd (decode_rune s) \<le> length s"
proof -
  consider (1) a where "s = [a]" | (2) a b where "s = [a, b]" | (3) a b c where "s = [a, b, c]"
    | (4) a b c d r where "s = a # b # c # d # r"
    using assms by (metis neq_Nil_conv)
  then have "1 \<le> snd (decode_rune s) \<and> snd (decode_rune s) \<le> length s"
    by cases (simp_all add: decode_rune_def)
  then show "1 \<le> snd (decode_rune s)" and "snd (decode_rune s) \<le> length s" by blast+
qed

text \<open>The conversion \<open>[]rune(s)\<close>, and \<open>utf8.RuneCountInString\<close> as its length.\<close>

function go_runes :: "string \<Rightarrow> nat list" where
  "go_runes s =
     (if s = [] then []
      else fst (decode_rune s) # go_runes (drop (snd (decode_rune s)) s))"
  by pat_completeness auto
termination
proof (relation "measure length", simp)
  fix s :: string
  assume "s \<noteq> []"
  then show "(drop (snd (decode_rune s)) s, s) \<in> measure length"
    using decode_rune_width(1) [of s] by simp
qed

declare go_runes.simps [simp del]

definition rune_count :: "string \<Rightarrow> nat" where
  "rune_count s = length (go_runes s)"

lemma go_runes_Nil [simp]: "go_runes [] = []"
  by (simp add: go_runes.simps)

lemma go_runes_eq_Nil [simp]: "go_runes s = [] \<longleftrightarrow> s = []"
  by (subst go_runes.simps) simp

lemma rune_count_Nil [simp]: "rune_count [] = 0"
  by (simp add: rune_count_def)

lemma rune_count_eq_0 [simp]: "rune_count s = 0 \<longleftrightarrow> s = []"
  by (simp add: rune_count_def)

lemma rune_count_le_length: "rune_count s \<le> length s"
proof (induction s rule: go_runes.induct)
  case (1 s)
  show ?case
  proof (cases "s = []")
    case False
    then have "rune_count s = Suc (rune_count (drop (snd (decode_rune s)) s))"
      by (simp add: rune_count_def go_runes.simps [of s])
    also have "\<dots> \<le> Suc (length s - snd (decode_rune s))"
      using 1 [OF False] by simp
    also have "\<dots> \<le> length s"
      using decode_rune_width [OF False] by simp
    finally show ?thesis .
  qed simp
qed

text \<open>\<open>utf8.AppendRune\<close>, and the conversion \<open>string(runes)\<close>.\<close>

definition encode_rune :: "nat \<Rightarrow> string" where
  "encode_rune r =
     (if r < 128 then [char_of r]
      else if r < 2048 then [char_of (192 + r div 64), char_of (128 + r mod 64)]
      else if r > 1114111 \<or> (55296 \<le> r \<and> r \<le> 57343) then [char_of (239::nat), char_of (191::nat), char_of (189::nat)]
      else if r < 65536 then
        [char_of (224 + r div 4096), char_of (128 + r div 64 mod 64), char_of (128 + r mod 64)]
      else [char_of (240 + r div 262144), char_of (128 + r div 4096 mod 64),
            char_of (128 + r div 64 mod 64), char_of (128 + r mod 64)])"

definition string_of_runes :: "nat list \<Rightarrow> string" where
  "string_of_runes rs = concat (map encode_rune rs)"

section \<open>Encoding runes\<close>

text \<open>\<open>utf16.IsSurrogate\<close>; what a rune becomes when a string is made of it and read again.\<close>

definition surrogate :: "nat \<Rightarrow> bool" where
  "surrogate r \<longleftrightarrow> 55296 \<le> r \<and> r < 57344"

lemma byte_char_of: "n < 256 \<Longrightarrow> byte (char_of n) = n"
  by (simp add: byte_def of_char_of)

lemma decode_encode_rune:
  "decode_rune (encode_rune r @ y) = (if r > 1114111 \<or> surrogate r then rune_error else r, length (encode_rune r))"
proof -
  consider "r < 128" | "128 \<le> r" "r < 2048" | "r > 1114111 \<or> surrogate r" "2048 \<le> r"
    | "2048 \<le> r" "r < 65536" "\<not> surrogate r" | "65536 \<le> r" "r \<le> 1114111" "\<not> surrogate r"
    by linarith
  then show ?thesis
  proof cases
    case 1
    then show ?thesis by (simp add: encode_rune_def surrogate_def decode_rune_def byte_char_of)
  next
    case 2
    define q m where "q = r div 64" and "m = r mod 64"
    have "r = q * 64 + m" "2 \<le> q" "q \<le> 31" "m \<le> 63" using 2 by (auto simp: q_def m_def)
    moreover have "encode_rune r = [char_of (192 + q), char_of (128 + m)]"
      using 2 by (simp add: encode_rune_def q_def m_def)
    ultimately show ?thesis
      by (simp add: surrogate_def decode_rune_def byte_char_of second_ok_def continuation_def)
  next
    case 3
    then show ?thesis
      by (auto simp: encode_rune_def surrogate_def decode_rune_def byte_char_of second_ok_def continuation_def rune_error_def)
  next
    case 4
    define u where "u = r div 64"
    define a b c where "a = u div 64" and "b = u mod 64" and "c = r mod 64"
    have r: "r = u * 64 + c" "u = a * 64 + b" "b \<le> 63" "c \<le> 63" by (simp_all add: u_def a_def b_def c_def)
    have e: "encode_rune r = [char_of (224 + a), char_of (128 + b), char_of (128 + c)]"
      using 4 by (auto simp: encode_rune_def surrogate_def a_def b_def c_def u_def div_mult2_eq [symmetric])
    have "a \<le> 15" "a = 0 \<longrightarrow> 32 \<le> b" "a = 13 \<longrightarrow> b < 32" using 4 r unfolding surrogate_def by linarith+
    then show ?thesis using 4 r unfolding e
      by (auto simp: surrogate_def decode_rune_def byte_char_of second_ok_def continuation_def)
  next
    case 5
    define u where "u = r div 64"
    define v where "v = u div 64"
    define a b c d where "a = v div 64" and "b = v mod 64" and "c = u mod 64" and "d = r mod 64"
    have r: "r = u * 64 + d" "u = v * 64 + c" "v = a * 64 + b" "b \<le> 63" "c \<le> 63" "d \<le> 63"
      by (simp_all add: u_def v_def a_def b_def c_def d_def)
    have e: "encode_rune r = [char_of (240 + a), char_of (128 + b), char_of (128 + c), char_of (128 + d)]"
      using 5 by (auto simp: encode_rune_def surrogate_def a_def b_def c_def d_def u_def v_def div_mult2_eq [symmetric])
    have "a \<le> 4" "a = 0 \<longrightarrow> 16 \<le> b" "a = 4 \<longrightarrow> b < 16" using 5 r by linarith+
    then show ?thesis using 5 r unfolding e
      by (auto simp: surrogate_def decode_rune_def byte_char_of second_ok_def continuation_def)
  qed
qed

lemma encode_rune_nonempty: "encode_rune r \<noteq> []"
  by (simp add: encode_rune_def)

definition valid_rune :: "nat \<Rightarrow> bool" where
  "valid_rune r \<longleftrightarrow> r \<le> 1114111 \<and> \<not> surrogate r"

definition stored_rune :: "nat \<Rightarrow> nat" where
  "stored_rune r = (if valid_rune r then r else rune_error)"

lemma stored_rune_valid [simp]: "valid_rune (stored_rune r)"
  by (simp add: stored_rune_def valid_rune_def rune_error_def surrogate_def)

lemma stored_rune_id [simp]: "valid_rune r \<Longrightarrow> stored_rune r = r"
  by (simp add: stored_rune_def)

lemma go_runes_encode: "go_runes (encode_rune r @ s) = stored_rune r # go_runes s"
  using decode_encode_rune [of r s] encode_rune_nonempty [of r]
  by (subst go_runes.simps) (auto simp: stored_rune_def valid_rune_def)

text \<open>The conversion \<open>[]rune(string(runes))\<close> only replaces what is not a rune.\<close>

lemma go_runes_string_of_runes: "go_runes (string_of_runes rs) = map stored_rune rs"
  by (induction rs) (simp_all add: string_of_runes_def go_runes_encode)

lemma second_ok_le: "second_ok a b \<Longrightarrow> b \<le> 191"
  by (auto simp: second_ok_def continuation_def split: if_splits)

lemma small_rune_valid: "r < 55296 \<Longrightarrow> valid_rune r"
  by (simp add: valid_rune_def surrogate_def)

lemma two_bytes_valid: "a \<le> 223 \<Longrightarrow> b \<le> 191 \<Longrightarrow> valid_rune ((a - 192) * 64 + (b - 128))"
  by (rule small_rune_valid) linarith

lemma three_bytes_valid:
  assumes "a \<le> 239" and ok: "second_ok a b" and "c \<le> 191"
  shows "valid_rune ((a - 224) * 4096 + (b - 128) * 64 + (c - 128))"
proof -
  have b: "b \<le> 191" using ok by (rule second_ok_le)
  consider "a \<le> 236" | "a = 237" | "238 \<le> a" by linarith
  then show ?thesis
  proof cases
    case 1
    then have "(a - 224) * 4096 + (b - 128) * 64 + (c - 128) < 55296" using assms(3) b by simp
    then show ?thesis by (simp add: valid_rune_def surrogate_def)
  next
    case 2
    then have "b \<le> 159" using ok by (simp add: second_ok_def)
    then have "(b - 128) * 64 \<le> 31 * 64" by simp
    then show ?thesis using assms(3) 2 by (intro small_rune_valid) linarith
  next
    case 3
    then have "14 * 4096 \<le> (a - 224) * 4096" by simp
    moreover have "(a - 224) * 4096 \<le> 15 * 4096" using assms(1) by simp
    ultimately have "57344 \<le> (a - 224) * 4096 + (b - 128) * 64 + (c - 128)"
      and "(a - 224) * 4096 + (b - 128) * 64 + (c - 128) \<le> 1114111" using assms(3) b by linarith+
    then show ?thesis by (simp add: valid_rune_def surrogate_def)
  qed
qed

lemma four_bytes_valid:
  assumes "240 \<le> a" "a \<le> 244" and ok: "second_ok a b" and "c \<le> 191" "d \<le> 191"
  shows "valid_rune ((a - 240) * 262144 + (b - 128) * 4096 + (c - 128) * 64 + (d - 128))" (is "valid_rune ?r")
proof -
  have b: "b \<le> 191" using ok by (rule second_ok_le)
  have low: "(c - 128) * 64 + (d - 128) \<le> 4095" using assms(4,5) by linarith
  have ge: "57344 \<le> ?r"
  proof (cases "a = 240")
    case True
    then have "144 \<le> b" using ok by (simp add: second_ok_def)
    then have "16 * 4096 \<le> (b - 128) * 4096" by simp
    then show ?thesis by linarith
  next
    case False
    then have "262144 \<le> (a - 240) * 262144" using assms(1) by simp
    then show ?thesis by linarith
  qed
  have "?r \<le> 1114111"
  proof (cases "a = 244")
    case True
    then have "b \<le> 143" using ok by (simp add: second_ok_def)
    then have "(b - 128) * 4096 \<le> 15 * 4096" by simp
    then show ?thesis using True low by simp
  next
    case False
    then have "(a - 240) * 262144 \<le> 3 * 262144" using assms(2) by simp
    moreover have "(b - 128) * 4096 \<le> 63 * 4096" using b by simp
    ultimately show ?thesis using low by linarith
  qed
  with ge show ?thesis by (simp add: valid_rune_def surrogate_def)
qed

lemma valid_rune_error [simp]: "valid_rune rune_error"
  by (simp add: valid_rune_def rune_error_def surrogate_def)

lemma valid_rune_ascii: "r < 128 \<Longrightarrow> valid_rune r"
  by (simp add: valid_rune_def surrogate_def)

lemma decode_rune_valid: "valid_rune (fst (decode_rune s))"
  unfolding decode_rune_def
  by (auto split: list.split simp: valid_rune_ascii second_ok_le continuation_def
      simp del: Nat.add_diff_assoc Nat.add_diff_assoc2 intro: two_bytes_valid three_bytes_valid four_bytes_valid)

lemma go_runes_valid: "r \<in> set (go_runes s) \<Longrightarrow> valid_rune r"
proof (induction s rule: go_runes.induct)
  case (1 s)
  then show ?case using decode_rune_valid [of s]
    by (cases "s = []") (auto simp: go_runes.simps [of s])
qed

lemma map_stored_go_runes [simp]: "map stored_rune (go_runes s) = go_runes s"
  by (rule map_idI) (simp add: go_runes_valid)

section \<open>White space\<close>

text \<open>\<open>unicode.IsSpace\<close>.\<close>

definition is_space :: "nat \<Rightarrow> bool" where
  "is_space r \<longleftrightarrow> (9 \<le> r \<and> r \<le> 13) \<or> r = 32 \<or> r = 133 \<or> r = 160 \<or> r = 5760 \<or>
     (8192 \<le> r \<and> r \<le> 8202) \<or> r = 8232 \<or> r = 8233 \<or> r = 8239 \<or> r = 8287 \<or> r = 12288"

lemma not_space_rune_error [simp]: "\<not> is_space rune_error"
  by (simp add: is_space_def rune_error_def)

function trim_left :: "string \<Rightarrow> string" where
  "trim_left s =
     (if s \<noteq> [] \<and> is_space (fst (decode_rune s))
      then trim_left (drop (snd (decode_rune s)) s) else s)"
  by pat_completeness auto
termination
proof (relation "measure length", simp)
  fix s :: string
  assume "s \<noteq> [] \<and> is_space (fst (decode_rune s))"
  then show "(drop (snd (decode_rune s)) s, s) \<in> measure length"
    using decode_rune_width(1) [of s] by simp
qed

declare trim_left.simps [simp del]

text \<open>
  \<open>utf8.DecodeLastRuneInString\<close>: the decoder looks back over at most four bytes for a rune
  start and accepts what it decodes there only if it reaches exactly to the end.
\<close>

definition last_start :: "string \<Rightarrow> nat" where
  "last_start s =
     (let n = length s; lim = n - 4
      in case find (\<lambda>i. rune_start (byte (s ! i))) (rev [lim ..< n - 1]) of
           Some i \<Rightarrow> i
         | None \<Rightarrow> lim - 1)"

definition decode_last_rune :: "string \<Rightarrow> nat \<times> nat" where
  "decode_last_rune s =
     (if s = [] then (rune_error, 0)
      else if byte (last s) < 128 then (byte (last s), 1)
      else let st = last_start s; (r, w) = decode_rune (drop st s)
           in if st + w = length s then (r, w) else (rune_error, 1))"

lemma last_start_less: "s \<noteq> [] \<Longrightarrow> last_start s < length s"
proof -
  assume s: "s \<noteq> []"
  show ?thesis
  proof (cases "find (\<lambda>i. rune_start (byte (s ! i))) (rev [length s - 4 ..< length s - 1])")
    case None
    with s show ?thesis by (simp add: last_start_def Let_def)
  next
    case (Some i)
    then have "i \<in> set (rev [length s - 4 ..< length s - 1])"
      unfolding find_Some_iff by (metis nth_mem)
    then have "i < length s" by auto
    with Some show ?thesis by (simp add: last_start_def Let_def)
  qed
qed

lemma decode_last_rune_width:
  assumes "s \<noteq> []"
  shows "1 \<le> snd (decode_last_rune s)" and "snd (decode_last_rune s) \<le> length s"
proof -
  have ne: "drop (last_start s) s \<noteq> []" using last_start_less [OF assms] by simp
  have "1 \<le> snd (decode_last_rune s) \<and> snd (decode_last_rune s) \<le> length s"
    using decode_rune_width [OF ne] assms
    by (cases s) (auto simp: decode_last_rune_def Let_def split: prod.splits)
  then show "1 \<le> snd (decode_last_rune s)" and "snd (decode_last_rune s) \<le> length s" by blast+
qed

function trim_right :: "string \<Rightarrow> string" where
  "trim_right s =
     (if s \<noteq> [] \<and> is_space (fst (decode_last_rune s))
      then trim_right (take (length s - snd (decode_last_rune s)) s) else s)"
  by pat_completeness auto
termination
proof (relation "measure length", simp)
  fix s :: string
  assume "s \<noteq> [] \<and> is_space (fst (decode_last_rune s))"
  then show "(take (length s - snd (decode_last_rune s)) s, s) \<in> measure length"
    using decode_last_rune_width [of s] by auto
qed

declare trim_right.simps [simp del]

definition trim_space :: "string \<Rightarrow> string" where
  "trim_space s = trim_right (trim_left s)"

lemma trim_left_Nil [simp]: "trim_left [] = []"
  by (simp add: trim_left.simps)

lemma trim_right_Nil [simp]: "trim_right [] = []"
  by (simp add: trim_right.simps)

lemma trim_space_Nil [simp]: "trim_space [] = []"
  by (simp add: trim_space_def)

lemma trim_left_suffix: "\<exists>p. s = p @ trim_left s"
proof (induction s rule: trim_left.induct)
  case (1 s)
  show ?case
  proof (cases "s \<noteq> [] \<and> is_space (fst (decode_rune s))")
    case True
    with 1 obtain p where "drop (snd (decode_rune s)) s = p @ trim_left (drop (snd (decode_rune s)) s)"
      by blast
    then have "s = (take (snd (decode_rune s)) s @ p) @ trim_left (drop (snd (decode_rune s)) s)"
      by (metis append.assoc append_take_drop_id)
    moreover have "trim_left s = trim_left (drop (snd (decode_rune s)) s)"
      using True by (subst trim_left.simps) simp
    ultimately show ?thesis by metis
  next
    case False
    then have "trim_left s = s" by (subst trim_left.simps) auto
    then show ?thesis by simp
  qed
qed

lemma trim_right_prefix: "\<exists>p. s = trim_right s @ p"
proof (induction s rule: trim_right.induct)
  case (1 s)
  let ?t = "take (length s - snd (decode_last_rune s)) s"
  show ?case
  proof (cases "s \<noteq> [] \<and> is_space (fst (decode_last_rune s))")
    case True
    with 1 obtain p where "?t = trim_right ?t @ p" by blast
    then have "s = trim_right ?t @ (p @ drop (length s - snd (decode_last_rune s)) s)"
      by (metis append.assoc append_take_drop_id)
    moreover have "trim_right s = trim_right ?t"
      using True by (subst trim_right.simps) simp
    ultimately show ?thesis by metis
  next
    case False
    then have "trim_right s = s" by (subst trim_right.simps) auto
    then show ?thesis by simp
  qed
qed

text \<open>A string that begins with a printable ASCII character is not blank.\<close>

lemma decode_rune_ascii: "byte c < 128 \<Longrightarrow> decode_rune (c # s) = (byte c, 1)"
  by (simp add: decode_rune_def)

lemma decode_rune_append_ascii:
  assumes "u \<noteq> []" and c: "byte c < 128"
  shows "decode_rune (u @ c # v) = decode_rune u"
proof -
  have n: "\<not> continuation (byte c)" "\<not> second_ok b (byte c)" for b
    using c by (auto simp: continuation_def second_ok_def)
  from assms(1) consider (1) a where "u = [a]" | (2) a b where "u = [a, b]" | (3) a b d where "u = [a, b, d]"
    | (4) a b d e r where "u = a # b # d # e # r"
    by (metis neq_Nil_conv)
  then show ?thesis
    by cases (simp_all add: decode_rune_def n split: list.splits)
qed

lemma second_ok_ge: "second_ok a b \<Longrightarrow> 128 \<le> b"
  by (auto simp: second_ok_def continuation_def split: if_splits)

lemma decode_rune_tail_bytes:
  assumes "0 < i" and "i < snd (decode_rune s)"
  shows "128 \<le> byte (s ! i)"
proof -
  have "snd (decode_rune s) \<le> 4"
    by (simp add: decode_rune_def split: list.split)
  with assms have k: "i = 1 \<or> i = 2 \<or> i = 3" by auto
  have "s \<noteq> []" using assms by auto
  then consider (1) a where "s = [a]" | (2) a b where "s = [a, b]" | (3) a b d where "s = [a, b, d]"
    | (4) a b d e r where "s = a # b # d # e # r"
    by (metis neq_Nil_conv)
  then show ?thesis
  proof cases
    case 1
    with assms show ?thesis by (simp add: decode_rune_def split: if_splits)
  next
    case 2
    with assms show ?thesis by (auto simp: decode_rune_def nth_Cons' dest: second_ok_ge split: if_splits)
  next
    case 3
    with assms k show ?thesis
      by (elim disjE) (simp_all add: decode_rune_def continuation_def second_ok_ge split: if_splits)
  next
    case 4
    with assms k show ?thesis
      by (elim disjE) (simp_all add: decode_rune_def continuation_def second_ok_ge split: if_splits)
  qed
qed

lemma decode_last_rune_mid:
  assumes c: "byte c < 128" "\<not> is_space (byte c)"
    and sp: "is_space (fst (decode_last_rune (u @ c # v)))"
  shows "snd (decode_last_rune (u @ c # v)) \<le> length v"
proof (cases "byte (last (u @ c # v)) < 128")
  case True
  then have d: "decode_last_rune (u @ c # v) = (byte (last (u @ c # v)), 1)" by (simp add: decode_last_rune_def)
  with sp c have "v \<noteq> []" by auto
  with d show ?thesis by (cases v) auto
next
  case False
  let ?s = "u @ c # v"
  let ?st = "last_start ?s"
  from False sp obtain r w where d: "decode_rune (drop ?st ?s) = (r, w)" "?st + w = length ?s"
      "decode_last_rune ?s = (r, w)"
    by (auto simp: decode_last_rune_def Let_def split: prod.splits if_splits)
  have "length u < ?st"
  proof (rule ccontr)
    assume n: "\<not> length u < ?st"
    show False
    proof (cases "?st = length u")
      case True
      with d c(1) have "w = 1" by (simp add: decode_rune_ascii)
      with d(2) True have "v = []" by simp
      with False c(1) show False by simp
    next
      case lt: False
      have "128 \<le> byte (drop ?st ?s ! (length u - ?st))"
        using n lt d by (intro decode_rune_tail_bytes) auto
      moreover have "drop ?st ?s ! (length u - ?st) = c" using n by (simp add: nth_append)
      ultimately show False using c(1) by simp
    qed
  qed
  with d show ?thesis by simp
qed

lemma trim_right_keeps:
  "byte c < 128 \<Longrightarrow> \<not> is_space (byte c) \<Longrightarrow> \<exists>v' q. trim_right (u @ c # v) = u @ c # v' \<and> v = v' @ q"
proof (induction "u @ c # v" arbitrary: v rule: trim_right.induct)
  case 1
  show ?case
  proof (cases "is_space (fst (decode_last_rune (u @ c # v)))")
    case True
    let ?w = "snd (decode_last_rune (u @ c # v))"
    have le: "?w \<le> length v" using decode_last_rune_mid [OF 1(2,3) True] .
    then have t: "take (length (u @ c # v) - ?w) (u @ c # v) = u @ c # take (length v - ?w) v"
      by (simp add: Suc_diff_le)
    have "u @ c # v \<noteq> [] \<and> is_space (fst (decode_last_rune (u @ c # v)))" using True by simp
    from 1(1) [OF this t 1(2,3)] obtain v' q where
      v': "trim_right (u @ c # take (length v - ?w) v) = u @ c # v'" "take (length v - ?w) v = v' @ q" by blast
    have "trim_right (u @ c # v) = u @ c # v'"
      using True t v'(1) by (subst trim_right.simps) simp
    moreover have "v = v' @ (q @ drop (length v - ?w) v)"
      using v'(2) by (metis append.assoc append_take_drop_id)
    ultimately show ?thesis by blast
  next
    case False
    then have "trim_right (u @ c # v) = u @ c # v" by (subst trim_right.simps) simp
    then show ?thesis by auto
  qed
qed

lemma trim_right_ascii_head:
  "byte c < 128 \<Longrightarrow> \<not> is_space (byte c) \<Longrightarrow> trim_right (c # s) \<noteq> []"
  using trim_right_keeps [of c "[]" s] by auto

lemma trim_space_ascii_head:
  "byte c < 128 \<Longrightarrow> \<not> is_space (byte c) \<Longrightarrow> trim_space (c # s) \<noteq> []"
  by (simp add: trim_space_def trim_left.simps [of "c # s"] decode_rune_ascii trim_right_ascii_head)

lemma trim_space_graphic:
  assumes "list_all (\<lambda>c. 32 < byte c \<and> byte c < 127) s"
  shows "trim_space s = s"
proof (cases s rule: rev_cases)
  case (snoc u c)
  then obtain d v where s: "s = d # v" by (metis append_is_Nil_conv list.exhaust not_Cons_self2)
  have spaces: "\<not> is_space (byte x)" if "x \<in> set s" for x
    using assms that by (auto simp: is_space_def list_all_iff)
  have "trim_left s = s"
    using assms spaces [of d] s by (simp add: trim_left.simps [of "d # v"] decode_rune_ascii)
  moreover have "trim_right s = s"
    using assms spaces [of c] snoc trim_right_keeps [of c u "[]"] by auto
  ultimately show ?thesis by (simp add: trim_space_def)
qed simp

text \<open>Trimming returns a contiguous part of its argument.\<close>

lemma trim_space_infix: "\<exists>p q. s = p @ trim_space s @ q"
proof -
  obtain p where p: "s = p @ trim_left s" using trim_left_suffix by blast
  obtain q where "trim_left s = trim_space s @ q"
    unfolding trim_space_def using trim_right_prefix by blast
  with p show ?thesis by metis
qed

text \<open>Trimming twice changes nothing: removing trailing runes cannot create a leading space.\<close>

lemma decode_rune_append:
  assumes "decode_rune u = (r, w)" and "r \<noteq> rune_error"
  shows "decode_rune (u @ v) = (r, w)"
proof -
  have "u \<noteq> []" using assms by auto
  then consider (1) a where "u = [a]" | (2) a b where "u = [a, b]" | (3) a b c where "u = [a, b, c]"
    | (4) a b c d r where "u = a # b # c # d # r"
    by (metis neq_Nil_conv)
  then show ?thesis
    using assms by cases (auto simp: decode_rune_def split: if_splits)
qed

lemma trim_left_head: "trim_left s \<noteq> [] \<Longrightarrow> \<not> is_space (fst (decode_rune (trim_left s)))"
proof (induction s rule: trim_left.induct)
  case (1 s)
  show ?case
  proof (cases "s \<noteq> [] \<and> is_space (fst (decode_rune s))")
    case True
    then have "trim_left s = trim_left (drop (snd (decode_rune s)) s)"
      by (subst trim_left.simps) simp
    with 1 True show ?thesis by simp
  next
    case False
    then have "trim_left s = s" by (subst trim_left.simps) auto
    with False "1.prems" show ?thesis by simp
  qed
qed

lemma trim_left_fixed: "s = [] \<or> \<not> is_space (fst (decode_rune s)) \<Longrightarrow> trim_left s = s"
  by (subst trim_left.simps) auto

lemma trim_right_idem [simp]: "trim_right (trim_right s) = trim_right s"
proof (induction s rule: trim_right.induct)
  case (1 s)
  show ?case
  proof (cases "s \<noteq> [] \<and> is_space (fst (decode_last_rune s))")
    case True
    then have "trim_right s = trim_right (take (length s - snd (decode_last_rune s)) s)"
      by (subst trim_right.simps) simp
    with 1 True show ?thesis by simp
  next
    case False
    then have "trim_right s = s" by (subst trim_right.simps) auto
    then show ?thesis by simp
  qed
qed

lemma trim_space_idem [simp]: "trim_space (trim_space s) = trim_space s"
proof -
  let ?t = "trim_left s" and ?u = "trim_right (trim_left s)"
  obtain p where p: "?t = ?u @ p" using trim_right_prefix by blast
  have "?u = [] \<or> \<not> is_space (fst (decode_rune ?u))"
  proof (rule ccontr)
    assume "\<not> ?thesis"
    then have u: "?u \<noteq> []" "is_space (fst (decode_rune ?u))" by auto
    then have "fst (decode_rune ?u) \<noteq> rune_error" by auto
    then have "decode_rune (?u @ p) = decode_rune ?u"
      using decode_rune_append [of ?u "fst (decode_rune ?u)" "snd (decode_rune ?u)" p] by simp
    then have "is_space (fst (decode_rune ?t))" using u p by simp
    moreover have "?t \<noteq> []" using u p by auto
    ultimately show False using trim_left_head [of s] by blast
  qed
  then have "trim_left ?u = ?u" by (rule trim_left_fixed)
  then show ?thesis by (simp add: trim_space_def)
qed

lemma trim_space_fixed_left: "trim_space s = s \<Longrightarrow> trim_left s = s"
proof -
  assume a: "trim_space s = s"
  obtain p where p: "s = p @ trim_left s" using trim_left_suffix by blast
  obtain q where q: "trim_left s = trim_space s @ q"
    unfolding trim_space_def using trim_right_prefix by blast
  have "length (trim_left s) = length s + length q" using arg_cong [OF q, of length] a by simp
  with arg_cong [OF p, of length] have "p = []" by simp
  with p show ?thesis by simp
qed

lemma trim_left_keeps:
  assumes "trim_space s = s" and "s \<noteq> []" and "byte c < 128"
  shows "trim_left (s @ c # v) = s @ c # v"
proof -
  have "\<not> is_space (fst (decode_rune s))"
    using trim_left_head [of s] trim_space_fixed_left [OF assms(1)] assms(2) by simp
  then show ?thesis
    using decode_rune_append_ascii [OF assms(2,3), of v] by (intro trim_left_fixed) simp
qed

text \<open>Trimming stops at a trimmed prefix on the left and at a printable ASCII character on the right.\<close>

lemma trim_space_keeps:
  assumes "trim_space s = s" and "s \<noteq> []" and "byte c < 128" and "byte d < 128" "\<not> is_space (byte d)"
  shows "\<exists>v' q. trim_space (s @ c # u @ d # v) = s @ c # u @ d # v' \<and> v = v' @ q"
  using trim_left_keeps [OF assms(1-3)] trim_right_keeps [OF assms(4,5), of "s @ c # u" v]
  by (simp add: trim_space_def)

lemma trim_space_id:
  "byte c < 128 \<Longrightarrow> \<not> is_space (byte c) \<Longrightarrow> byte d < 128 \<Longrightarrow> \<not> is_space (byte d) \<Longrightarrow>
   trim_space (c # s @ [d]) = c # s @ [d]"
  using trim_right_keeps [of d "c # s" "[]"]
  by (simp add: trim_space_def trim_left_fixed decode_rune_ascii)

lemma length_trim_space: "length (trim_space s) \<le> length s"
  by (metis trim_space_infix length_append le_add1 le_add2 le_trans)

lemma rune_count_trim_le: "rune_count (trim_space s) \<le> length s"
  using rune_count_le_length [of "trim_space s"] length_trim_space [of s] by simp

section \<open>Splitting and joining\<close>

text \<open>\<open>strings.Split\<close> with a one-byte separator, and \<open>strings.Join\<close>.\<close>

fun split_byte :: "char \<Rightarrow> string \<Rightarrow> string list" where
  "split_byte c [] = [[]]"
| "split_byte c (x # xs) =
     (if x = c then [] # split_byte c xs
      else (case split_byte c xs of [] \<Rightarrow> [[x]] | l # ls \<Rightarrow> (x # l) # ls))"

fun join_with :: "string \<Rightarrow> string list \<Rightarrow> string" where
  "join_with sep [] = []"
| "join_with sep [l] = l"
| "join_with sep (l # ls) = l @ sep @ join_with sep ls"

lemma split_byte_nonempty [simp]: "split_byte c s \<noteq> []"
  by (cases s) (auto split: list.splits)

lemma join_with_Cons: "ls \<noteq> [] \<Longrightarrow> join_with sep (l # ls) = l @ sep @ join_with sep ls"
  by (cases ls) simp_all

lemma join_split_byte [simp]: "join_with [c] (split_byte c s) = s"
proof (induction s)
  case (Cons x xs)
  show ?case
  proof (cases "x = c")
    case True
    with Cons show ?thesis by (simp add: join_with_Cons)
  next
    case False
    obtain l ls where "split_byte c xs = l # ls" by (cases "split_byte c xs") auto
    with Cons False show ?thesis by (cases ls) (auto)
  qed
qed simp

lemma split_byte_no_sep: "l \<in> set (split_byte c s) \<Longrightarrow> c \<notin> set l"
proof (induction s arbitrary: l)
  case (Cons x xs)
  obtain m ms where "split_byte c xs = m # ms" by (cases "split_byte c xs") auto
  with Cons show ?case by (auto split: if_splits)
qed simp

text \<open>The length of joined lines: every line, and one separator between two of them.\<close>

lemma length_join_lines:
  "length (join_with [c] ls) = (\<Sum>l\<leftarrow>ls. length l) + (length ls - 1)"
proof (induction ls)
  case (Cons l ls)
  then show ?case by (cases ls) simp_all
qed simp

lemma join_with_append:
  "xs \<noteq> [] \<Longrightarrow> ys \<noteq> [] \<Longrightarrow> join_with sep (xs @ ys) = join_with sep xs @ sep @ join_with sep ys"
proof (induction xs)
  case (Cons x xs)
  then show ?case by (cases xs) (simp_all add: join_with_Cons)
qed simp

section \<open>Substrings\<close>

definition starts_with :: "string \<Rightarrow> string \<Rightarrow> bool" where
  "starts_with p s \<longleftrightarrow> take (length p) s = p"

lemma starts_with_iff: "starts_with p s \<longleftrightarrow> (\<exists>t. s = p @ t)"
  by (metis append_take_drop_id append_eq_conv_conj starts_with_def)

lemma starts_with_append [simp]: "starts_with p (p @ t)"
  by (simp add: starts_with_def)

lemma starts_with_drop: "starts_with p s \<Longrightarrow> s = p @ drop (length p) s"
  unfolding starts_with_def by (metis append_take_drop_id)

text \<open>\<open>strings.Index\<close>; \<open>None\<close> stands for \<open>-1\<close>.\<close>

fun str_index :: "string \<Rightarrow> string \<Rightarrow> nat option" where
  "str_index sub [] = (if sub = [] then Some 0 else None)"
| "str_index sub (c # cs) =
     (if starts_with sub (c # cs) then Some 0 else map_option Suc (str_index sub cs))"

definition str_contains :: "string \<Rightarrow> string \<Rightarrow> bool" where
  "str_contains sub s \<longleftrightarrow> str_index sub s \<noteq> None"

text \<open>\<open>strings.Count\<close> and \<open>strings.ReplaceAll\<close> for a nonempty search string.\<close>

function str_count :: "string \<Rightarrow> string \<Rightarrow> nat" where
  "str_count sub s =
     (if s = [] \<or> sub = [] then 0
      else if starts_with sub s then Suc (str_count sub (drop (length sub) s))
      else str_count sub (tl s))"
  by pat_completeness auto
termination by (relation "measure (length \<circ> snd)") (auto simp: diff_less)

declare str_count.simps [simp del]

function replace_all :: "string \<Rightarrow> string \<Rightarrow> string \<Rightarrow> string" where
  "replace_all old new s =
     (if s = [] \<or> old = [] then s
      else if starts_with old s then new @ replace_all old new (drop (length old) s)
      else hd s # replace_all old new (tl s))"
  by pat_completeness auto
termination by (relation "measure (\<lambda>(old, new, s). length s)") (auto simp: diff_less)

declare replace_all.simps [simp del]

lemma replace_all_absent: "c \<notin> set s \<Longrightarrow> replace_all (c # p) new s = s"
proof (induction s)
  case (Cons x s)
  then have "\<not> starts_with (c # p) (x # s)" by (auto simp: starts_with_def)
  with Cons show ?case by (subst replace_all.simps) simp
qed (simp add: replace_all.simps)

text \<open>
  \<open>strings.NewReplacer(pairs).Replace\<close>: at every position the first pair, in argument
  order, whose (nonempty) old string matches there.
\<close>

definition first_pair :: "(string \<times> string) list \<Rightarrow> string \<Rightarrow> (string \<times> string) option" where
  "first_pair pairs s = find (\<lambda>(old, new). old \<noteq> [] \<and> starts_with old s) pairs"

function replacer :: "(string \<times> string) list \<Rightarrow> string \<Rightarrow> string" where
  "replacer pairs s =
     (if s = [] then []
      else case first_pair pairs s of
             Some (old, new) \<Rightarrow> if old = [] then s else new @ replacer pairs (drop (length old) s)
           | None \<Rightarrow> hd s # replacer pairs (tl s))"
  by pat_completeness auto
termination by (relation "measure (length \<circ> snd)") (auto simp: diff_less)

declare replacer.simps [simp del]

lemma str_index_Some:
  "str_index sub s = Some i \<Longrightarrow> i + length sub \<le> length s \<and> take (length sub) (drop i s) = sub"
proof (induction s arbitrary: i)
  case Nil
  then show ?case by (simp split: if_splits)
next
  case (Cons c cs)
  show ?case
  proof (cases "starts_with sub (c # cs)")
    case True
    then have "length sub \<le> length (c # cs)"
      by (metis starts_with_def length_take min.cobounded1)
    with True Cons.prems show ?thesis by (simp add: starts_with_def)
  next
    case False
    with Cons.prems obtain j where "str_index sub cs = Some j" "i = Suc j" by auto
    with Cons.IH show ?thesis by simp
  qed
qed

text \<open>The index is the leftmost occurrence.\<close>

lemma str_index_least:
  "str_index sub s = Some i \<Longrightarrow> j < i \<Longrightarrow> \<not> starts_with sub (drop j s)"
proof (induction s arbitrary: i j)
  case Nil
  then show ?case by (simp split: if_splits)
next
  case (Cons c cs)
  then show ?case
    by (cases j) (auto split: if_splits)
qed

lemma str_index_None: "str_index sub s = None \<Longrightarrow> j \<le> length s \<Longrightarrow> \<not> starts_with sub (drop j s)"
proof (induction s arbitrary: j)
  case Nil
  then show ?case by (auto simp: starts_with_def split: if_splits)
next
  case (Cons c cs)
  then show ?case by (cases j) (auto split: if_splits)
qed

lemma starts_with_take: "starts_with p s \<Longrightarrow> length p \<le> length s"
  by (auto simp: starts_with_iff)

lemma str_index_SomeD: "str_index p s = Some i \<Longrightarrow> \<exists>v. s = take i s @ p @ v"
  using str_index_Some [of p s i] by (metis append_take_drop_id)

lemma str_index_None_iff: "str_index p s = None \<longleftrightarrow> (\<forall>u v. s \<noteq> u @ p @ v)"
proof
  assume n: "str_index p s = None"
  show "\<forall>u v. s \<noteq> u @ p @ v"
  proof (intro allI notI)
    fix u v
    assume "s = u @ p @ v"
    with str_index_None [OF n, of "length u"] show False by simp
  qed
next
  assume "\<forall>u v. s \<noteq> u @ p @ v"
  then show "str_index p s = None" by (cases "str_index p s") (auto dest: str_index_SomeD)
qed

lemma str_index_le: "s = u @ p @ v \<Longrightarrow> \<exists>i \<le> length u. str_index p s = Some i"
proof (cases "str_index p s")
  case (Some i)
  assume "s = u @ p @ v"
  then have "starts_with p (drop (length u) s)" by simp
  with str_index_least [OF Some, of "length u"] Some show ?thesis by (metis not_le_imp_less)
qed (auto simp: str_index_None_iff)

section \<open>Fields and numbers\<close>

text \<open>\<open>strings.Fields\<close>: the maximal runs of runes that are not white space.\<close>

function word_length :: "string \<Rightarrow> nat" where
  "word_length s =
     (if s = [] \<or> is_space (fst (decode_rune s)) then 0
      else snd (decode_rune s) + word_length (drop (snd (decode_rune s)) s))"
  by pat_completeness auto
termination
proof (relation "measure length", simp)
  fix s :: string
  assume "\<not> (s = [] \<or> is_space (fst (decode_rune s)))"
  then show "(drop (snd (decode_rune s)) s, s) \<in> measure length"
    using decode_rune_width(1) [of s] by simp
qed

declare word_length.simps [simp del]

function str_fields :: "string \<Rightarrow> string list" where
  "str_fields s =
     (let t = trim_left s
      in if t = [] \<or> word_length t = 0 then []
         else take (word_length t) t # str_fields (drop (word_length t) t))"
  by pat_completeness auto
termination
proof (relation "measure length", simp)
  fix s t :: string
  assume t: "t = trim_left s" "\<not> (t = [] \<or> word_length t = 0)"
  have "length t \<le> length s" using trim_left_suffix [of s] t(1) by (metis length_append le_add2)
  moreover have "length t - word_length t < length t" using t(2) by auto
  ultimately show "(drop (word_length t) t, s) \<in> measure length" by simp
qed

declare str_fields.simps [simp del]

text \<open>\<open>strconv.Itoa\<close>.\<close>

fun digits_of :: "nat \<Rightarrow> string" where
  "digits_of n = (if n < 10 then [char_of (48 + n)] else digits_of (n div 10) @ [char_of (48 + n mod 10)])"

declare digits_of.simps [simp del]

definition itoa :: "int \<Rightarrow> string" where
  "itoa i = (if i < 0 then CHR ''-'' # digits_of (nat (- i)) else digits_of (nat i))"

section \<open>Validity\<close>

text \<open>\<open>utf8.ValidString\<close>.\<close>

function valid_utf8 :: "string \<Rightarrow> bool" where
  "valid_utf8 s =
     (if s = [] then True
      else if decode_rune s = (rune_error, 1) then False
      else valid_utf8 (drop (snd (decode_rune s)) s))"
  by pat_completeness auto

termination
proof (relation "measure length", simp)
  fix s :: string
  assume "s \<noteq> []"
  then show "(drop (snd (decode_rune s)) s, s) \<in> measure length" using decode_rune_width(1) [of s] by simp
qed

declare valid_utf8.simps [simp del]

lemma valid_utf8_Nil [simp]: "valid_utf8 []"
  by (simp add: valid_utf8.simps)

lemma valid_utf8_ascii: "byte c < 128 \<Longrightarrow> valid_utf8 (c # s) = valid_utf8 s"
  by (subst valid_utf8.simps) (simp add: decode_rune_ascii rune_error_def)

end
