(* ===== verification/Entities.thy ===== *)
theory Entities
  imports Go_Strings
begin

text \<open>
  The entities of \<^verbatim>\<open>internal/database/entity.go\<close> that the session history is made of, and the
  rules of \<^verbatim>\<open>internal/model\<close> (messages.go, message_filter.go) and
  \<^verbatim>\<open>internal/database/validation.go\<close> for what a message may contain and which messages are
  replayed to a model. A Go string type with named constants is a datatype with one
  constructor per constant and one for any other string. Instants are nanoseconds since
  Go's zero time.
\<close>

section \<open>Data\<close>

type_synonym gotime = int

datatype role =
  RoleUser | RoleAssistant | RoleToolResult | RoleThinking | RoleCustom | RoleBashExecution
  | RoleBranchSummary | RoleCompactionSummary | RoleOther string

datatype entry_type =
  EntryMessage | EntryCustom | EntryCustomMessage | EntryCompaction | EntryBranchSummary
  | EntryLabel | EntryModelChange | EntrySessionInfo | EntryThinkingLevelChange | EntryOther string

datatype part_type = PartText | PartImage | PartOther string

record message_part =
  part_text :: string
  part_mime :: string
  part_name :: string
  part_type :: part_type
  part_data :: string
  part_width :: int
  part_height :: int

record message =
  msg_timestamp :: gotime
  msg_role :: role
  msg_content :: string
  msg_provider :: string
  msg_model :: string
  msg_parts :: "message_part list"

record entry =
  ent_created_at :: gotime
  ent_parent_id :: "string option"
  ent_tool_status :: string
  ent_session_id :: string
  ent_tool_args_json :: string
  ent_custom_type :: string
  ent_data_json :: string
  ent_id :: string
  ent_summary :: string
  ent_tool_name :: string
  ent_type :: entry_type
  ent_branch_from :: string
  ent_first_kept :: string
  ent_message :: message
  ent_tokens_before :: int
  ent_token_estimate :: int
  ent_display :: bool
  ent_model_facing :: bool

fun role_name :: "role \<Rightarrow> string" where
  "role_name RoleUser = ''user''"
| "role_name RoleAssistant = ''assistant''"
| "role_name RoleToolResult = ''toolResult''"
| "role_name RoleThinking = ''thinking''"
| "role_name RoleCustom = ''custom''"
| "role_name RoleBashExecution = ''bashExecution''"
| "role_name RoleBranchSummary = ''branchSummary''"
| "role_name RoleCompactionSummary = ''compactionSummary''"
| "role_name (RoleOther s) = s"

definition empty_message :: message where
  "empty_message = \<lparr>msg_timestamp = 0, msg_role = RoleOther [], msg_content = [],
     msg_provider = [], msg_model = [], msg_parts = []\<rparr>"

section \<open>Model-facing messages\<close>

definition newline :: string where
  "newline = [CHR 0x0A]"

definition compaction_summary_prefix :: string where
  "compaction_summary_prefix =
     ''The conversation history before this point was compacted into the following summary:''
     @ newline @ newline @ ''<summary>'' @ newline"

definition compaction_summary_suffix :: string where
  "compaction_summary_suffix = newline @ ''</summary>''"

definition branch_summary_prefix :: string where
  "branch_summary_prefix =
     ''The following is a summary of a branch that this conversation came back from:''
     @ newline @ newline @ ''<summary>'' @ newline"

definition branch_summary_suffix :: string where
  "branch_summary_suffix = ''</summary>''"

fun is_facing_role :: "role \<Rightarrow> bool" where
  "is_facing_role RoleUser = True"
| "is_facing_role RoleAssistant = True"
| "is_facing_role RoleBranchSummary = True"
| "is_facing_role RoleCompactionSummary = True"
| "is_facing_role RoleCustom = True"
| "is_facing_role RoleBashExecution = True"
| "is_facing_role RoleToolResult = False"
| "is_facing_role RoleThinking = False"
| "is_facing_role (RoleOther _) = False"

text \<open>Values are immutable in HOL, so \<open>cloneMessage\<close> is the identity on the message.\<close>

definition clone_message :: "message \<Rightarrow> message" where
  "clone_message m = m"

definition facing_message :: "message \<Rightarrow> message" where
  "facing_message m =
     (let converted = clone_message m in
      case msg_role m of
        RoleCompactionSummary \<Rightarrow>
          converted\<lparr>msg_role := RoleUser,
            msg_content := compaction_summary_prefix @ msg_content m @ compaction_summary_suffix\<rparr>
      | RoleBranchSummary \<Rightarrow>
          converted\<lparr>msg_role := RoleUser,
            msg_content := branch_summary_prefix @ msg_content m @ branch_summary_suffix\<rparr>
      | _ \<Rightarrow> converted)"

definition is_facing_message :: "message \<Rightarrow> bool" where
  "is_facing_message m \<longleftrightarrow>
     is_facing_role (msg_role m) \<and>
     (trim_space (msg_content m) \<noteq> [] \<or>
      (\<exists>part \<in> set (msg_parts m). part_type part = PartImage \<and> 0 < length (part_data part)))"

definition facing_messages :: "message list \<Rightarrow> message list" where
  "facing_messages ms = map facing_message (filter is_facing_message ms)"

lemma facing_message_parts [simp]: "msg_parts (facing_message m) = msg_parts m"
  by (simp add: facing_message_def clone_message_def Let_def split: role.split)

lemma facing_message_role:
  "is_facing_role (msg_role m) \<Longrightarrow>
   msg_role (facing_message m) \<in> {RoleUser, RoleAssistant, RoleCustom, RoleBashExecution}"
  by (cases "msg_role m") (simp_all add: facing_message_def clone_message_def)

lemma facing_message_other:
  "msg_role m \<noteq> RoleCompactionSummary \<Longrightarrow> msg_role m \<noteq> RoleBranchSummary \<Longrightarrow> facing_message m = m"
  by (simp add: facing_message_def clone_message_def Let_def split: role.split)

section \<open>Message part validation\<close>

datatype part_error =
  UnsupportedPartType string | TextPartBlank | TextPartHasData | ImagePartNoData
  | ImagePartHasText | ImagePartMime | ImagePartTooLarge | ImagePartDimensions

datatype parts_error = PartAt nat part_error | TooManyImages nat | ImageDataTotal

definition max_message_images :: nat where "max_message_images = 4"
definition max_message_image_bytes :: nat where "max_message_image_bytes = 5 * 1048576"
definition max_message_image_total :: nat where "max_message_image_total = 20 * 1048576"
definition max_message_image_pixels :: int where "max_message_image_pixels = 40000000"

definition validate_text_part :: "message_part \<Rightarrow> part_error option" where
  "validate_text_part p =
     (if trim_space (part_text p) = [] then Some TextPartBlank
      else if length (part_data p) \<noteq> 0 then Some TextPartHasData
      else None)"

text \<open>
  \<open>valid_mime\<close> stands for \<open>validImageMIMEType\<close>, which rests on the grammar of
  \<^verbatim>\<open>mime.ParseMediaType\<close> and is a parameter here.
\<close>

definition validate_image_part :: "(string \<Rightarrow> bool) \<Rightarrow> message_part \<Rightarrow> part_error option" where
  "validate_image_part valid_mime p =
     (if length (part_data p) = 0 then Some ImagePartNoData
      else if part_text p \<noteq> [] then Some ImagePartHasText
      else if \<not> valid_mime (part_mime p) then Some ImagePartMime
      else if length (part_data p) > max_message_image_bytes then Some ImagePartTooLarge
      else if part_width p \<le> 0 \<or> part_height p \<le> 0 \<or>
              part_width p > max_message_image_pixels sdiv part_height p
           then Some ImagePartDimensions
      else None)"

definition validate_part :: "(string \<Rightarrow> bool) \<Rightarrow> message_part \<Rightarrow> part_error option" where
  "validate_part valid_mime p =
     (case part_type p of
        PartText \<Rightarrow> validate_text_part p
      | PartImage \<Rightarrow> validate_image_part valid_mime p
      | PartOther s \<Rightarrow> Some (UnsupportedPartType s))"

text \<open>The loop of \<open>validateMessageParts\<close> with its running image count and size.\<close>

fun validate_parts_loop ::
  "(string \<Rightarrow> bool) \<Rightarrow> nat \<Rightarrow> nat \<Rightarrow> nat \<Rightarrow> message_part list \<Rightarrow> parts_error option" where
  "validate_parts_loop valid_mime i n bytes [] =
     (if n > max_message_images then Some (TooManyImages n)
      else if bytes > max_message_image_total then Some ImageDataTotal
      else None)"
| "validate_parts_loop valid_mime i n bytes (p # ps) =
     (case validate_part valid_mime p of
        Some e \<Rightarrow> Some (PartAt i e)
      | None \<Rightarrow>
          if part_type p = PartImage
          then validate_parts_loop valid_mime (Suc i) (Suc n) (bytes + length (part_data p)) ps
          else validate_parts_loop valid_mime (Suc i) n bytes ps)"

definition validate_message_parts :: "(string \<Rightarrow> bool) \<Rightarrow> message_part list \<Rightarrow> parts_error option" where
  "validate_message_parts valid_mime ps = validate_parts_loop valid_mime 0 0 0 ps"

definition is_image :: "message_part \<Rightarrow> bool" where
  "is_image p \<longleftrightarrow> part_type p = PartImage"

definition image_bytes :: "message_part list \<Rightarrow> nat" where
  "image_bytes ps = (\<Sum>p\<leftarrow>filter is_image ps. length (part_data p))"

lemma validate_parts_loop_None:
  "validate_parts_loop vm i n bytes ps = None \<longleftrightarrow>
   (\<forall>p \<in> set ps. validate_part vm p = None) \<and>
   n + length (filter is_image ps) \<le> max_message_images \<and>
   bytes + image_bytes ps \<le> max_message_image_total"
  by (induction vm i n bytes ps rule: validate_parts_loop.induct)
     (auto simp: is_image_def image_bytes_def split: option.splits)

text \<open>The division in the dimension check bounds the pixel count without multiplying.\<close>

lemma pos_div_mult_le: "0 < k \<Longrightarrow> n div k * k \<le> (n::int)"
  using pos_mod_sign [of k n] div_mult_mod_eq [of n k] by linarith

lemma validate_image_part_None:
  assumes "validate_image_part vm p = None"
  shows "0 < part_width p \<and> 0 < part_height p \<and>
    part_width p * part_height p \<le> max_message_image_pixels"
proof -
  from assms have w: "0 < part_width p" "0 < part_height p"
    "part_width p \<le> max_message_image_pixels sdiv part_height p"
    by (auto simp: validate_image_part_def split: if_splits)
  then have "part_width p \<le> max_message_image_pixels div part_height p"
    by (simp add: sdiv_nonneg max_message_image_pixels_def)
  with w have "part_width p * part_height p \<le>
      max_message_image_pixels div part_height p * part_height p"
    by (simp add: mult_right_mono)
  also have "\<dots> \<le> max_message_image_pixels"
    using w(2) by (rule pos_div_mult_le)
  finally show ?thesis using w by blast
qed

text \<open>\<open>messagePartsText\<close>: the scalar projection of the text parts.\<close>

definition message_parts_text :: "message_part list \<Rightarrow> string" where
  "message_parts_text ps = concat (map part_text (filter (\<lambda>p. part_type p = PartText) ps))"

section \<open>Properties\<close>

text \<open>
  A message whose parts pass validation holds at most four images, at most 20 MiB of
  image data, and every image part has bounded data and at most 40 megapixels; every text
  part is nonblank and has no binary data. Conversely a violation is always reported.
\<close>

theorem validate_message_parts_sound:
  assumes "validate_message_parts vm ps = None"
  shows "length (filter is_image ps) \<le> 4 \<and> image_bytes ps \<le> 20 * 1048576 \<and>
    (\<forall>p \<in> set ps.
       (is_image p \<longrightarrow> 0 < length (part_data p) \<and> length (part_data p) \<le> 5 * 1048576 \<and>
          part_text p = [] \<and> vm (part_mime p) \<and> part_width p * part_height p \<le> 40000000) \<and>
       (\<not> is_image p \<longrightarrow> part_type p = PartText \<and> trim_space (part_text p) \<noteq> [] \<and> part_data p = []))"
proof -
  from assms have all: "\<And>p. p \<in> set ps \<Longrightarrow> validate_part vm p = None"
    and n: "length (filter is_image ps) \<le> max_message_images"
    and b: "image_bytes ps \<le> max_message_image_total"
    by (auto simp: validate_message_parts_def validate_parts_loop_None)
  have img: "0 < length (part_data p) \<and> length (part_data p) \<le> 5 * 1048576 \<and>
          part_text p = [] \<and> vm (part_mime p) \<and> part_width p * part_height p \<le> 40000000"
    if "p \<in> set ps" "is_image p" for p
  proof -
    from all [OF that(1)] that(2) have v: "validate_image_part vm p = None"
      by (simp add: validate_part_def is_image_def)
    from validate_image_part_None [OF v] v show ?thesis
      by (auto simp: validate_image_part_def max_message_image_bytes_def max_message_image_pixels_def
          split: if_splits)
  qed
  have tx: "part_type p = PartText \<and> trim_space (part_text p) \<noteq> [] \<and> part_data p = []"
    if "p \<in> set ps" "\<not> is_image p" for p
    using all [OF that(1)] that(2)
    by (auto simp: validate_part_def is_image_def validate_text_part_def
        split: part_type.splits if_splits)
  from n b img tx show ?thesis
    by (simp add: max_message_images_def max_message_image_total_def)
qed

definition sample_image :: message_part where
  "sample_image = \<lparr>part_text = [], part_mime = ''image/png'', part_name = [], part_type = PartImage,
     part_data = ''x'', part_width = 8000, part_height = 5000\<rparr>"

theorem validate_message_parts_sound_witness:
  "validate_message_parts (\<lambda>m. m = ''image/png'') [sample_image] = None \<and>
   length (filter is_image [sample_image]) \<le> 4"
proof -
  have "validate_message_parts (\<lambda>m. m = ''image/png'') [sample_image] = None"
    by (simp add: validate_message_parts_def validate_part_def validate_image_part_def sample_image_def
        max_message_images_def max_message_image_bytes_def max_message_image_total_def
        max_message_image_pixels_def sdiv_nonneg)
  from this validate_message_parts_sound [OF this] show ?thesis by blast
qed

end
