(* ===== verification/Units.thy ===== *)
theory Units
  imports Prelude
begin

text \<open>
  The helper packages \<^verbatim>\<open>internal/units\<close> and \<^verbatim>\<open>internal/mapsutil\<close>: whole percentages
  computed through a 128-bit product, and Go maps with string keys. A Go map is \<open>None\<close>
  when it is nil and otherwise an association list with distinct keys; reading a nil map
  gives the zero value, as in Go.
\<close>

section \<open>Percentages\<close>

definition percent_scale :: int where
  "percent_scale = 100"

text \<open>
  \<open>bits.Mul64\<close> and \<open>bits.Div64\<close> of \<^verbatim>\<open>math/bits\<close>: the double-width product as a high and a
  low word, and the quotient of such a pair. \<open>Div64\<close> panics (\<open>None\<close>) on a zero divisor and
  when the quotient does not fit a word.
\<close>

definition uint64 :: "int \<Rightarrow> nat" where
  "uint64 v = nat (v mod 2 ^ 64)"

definition mul64 :: "nat \<Rightarrow> nat \<Rightarrow> nat \<times> nat" where
  "mul64 x y = (x * y div 2 ^ 64, x * y mod 2 ^ 64)"

definition div64 :: "nat \<Rightarrow> nat \<Rightarrow> nat \<Rightarrow> (nat \<times> nat) option" where
  "div64 hi lo y =
     (if y = 0 \<or> y \<le> hi then None
      else Some ((hi * 2 ^ 64 + lo) div y, (hi * 2 ^ 64 + lo) mod y))"

definition percent_of :: "int \<Rightarrow> int \<Rightarrow> int option" where
  "percent_of value whole =
     (if value \<le> 0 \<or> whole \<le> 0 then Some 0
      else if value \<ge> whole then Some percent_scale
      else (let (high, low) = mul64 (uint64 value) (uint64 percent_scale)
            in map_option (\<lambda>(percentage, _). int percentage) (div64 high low (uint64 whole))))"

lemma uint64_small: "0 \<le> v \<Longrightarrow> v < 2 ^ 64 \<Longrightarrow> uint64 v = nat v"
  by (simp add: uint64_def)

lemma div64_mul64:
  assumes "0 < y" and "x * k div 2 ^ 64 < y"
  shows "(let (h, l) = mul64 x k in div64 h l y) = Some (x * k div y, x * k mod y)"
proof -
  have "(x * k div 2 ^ 64) * 2 ^ 64 + x * k mod 2 ^ 64 = x * k"
    by (rule div_mult_mod_eq)
  with assms show ?thesis by (simp add: mul64_def div64_def)
qed

section \<open>Go maps with string keys\<close>

type_synonym 'v gomap = "(string \<times> 'v) list option"

definition map_entries :: "'v gomap \<Rightarrow> (string \<times> 'v) list" where
  "map_entries m = (case m of None \<Rightarrow> [] | Some kvs \<Rightarrow> kvs)"

definition map_find :: "'v gomap \<Rightarrow> string \<Rightarrow> 'v option" where
  "map_find m k = map_of (map_entries m) k"

definition map_get :: "'v \<Rightarrow> 'v gomap \<Rightarrow> string \<Rightarrow> 'v" where
  "map_get zero m k = (case map_find m k of None \<Rightarrow> zero | Some v \<Rightarrow> v)"

definition map_len :: "'v gomap \<Rightarrow> nat" where
  "map_len m = length (map_entries m)"

text \<open>Assignment \<open>m[k] = v\<close>; it panics on a nil map, so it is defined on an allocated one.\<close>

fun map_set :: "string \<Rightarrow> 'v \<Rightarrow> (string \<times> 'v) list \<Rightarrow> (string \<times> 'v) list" where
  "map_set k v [] = [(k, v)]"
| "map_set k v ((k', v') # kvs) = (if k' = k then (k, v) # kvs else (k', v') # map_set k v kvs)"

lemma map_of_map_set [simp]: "map_of (map_set k v kvs) = (map_of kvs)(k \<mapsto> v)"
  by (induction kvs) (auto simp: fun_eq_iff)

lemma set_keys_map_set: "set (map fst (map_set k v kvs)) = insert k (set (map fst kvs))"
  by (induction kvs rule: map_set.induct) (simp_all add: insert_commute)

lemma distinct_map_set: "distinct (map fst kvs) \<Longrightarrow> distinct (map fst (map_set k v kvs))"
proof (induction kvs)
  case (Cons kv kvs)
  then show ?case using set_keys_map_set [of k v kvs] by (cases kv) auto
qed simp

definition clone_or_empty :: "'v gomap \<Rightarrow> (string \<times> 'v) list" where
  "clone_or_empty values = (case values of None \<Rightarrow> [] | Some kvs \<Rightarrow> kvs)"

definition clone_preserve_nil :: "'v gomap \<Rightarrow> 'v gomap" where
  "clone_preserve_nil values = (case values of None \<Rightarrow> None | Some kvs \<Rightarrow> Some kvs)"

definition clone_or_nil :: "'v gomap \<Rightarrow> 'v gomap" where
  "clone_or_nil values = (if map_len values = 0 then None else values)"

lemma map_entries_clone_or_nil [simp]: "map_entries (clone_or_nil m) = map_entries m"
  by (auto simp: clone_or_nil_def map_len_def map_entries_def split: option.splits)

lemma map_len_clone_or_nil [simp]: "map_len (clone_or_nil m) = map_len m"
  by (simp add: map_len_def)

lemma clone_or_nil_idem [simp]: "clone_or_nil (clone_or_nil m) = clone_or_nil m"
  by (simp add: clone_or_nil_def)

lemma map_get_clone_or_nil [simp]: "map_get z (clone_or_nil m) k = map_get z m k"
  by (simp add: map_get_def map_find_def)

lemma map_get_Some_map_set [simp]:
  "map_get z (Some (map_set k v kvs)) k' = (if k' = k then v else map_get z (Some kvs) k')"
  by (simp add: map_get_def map_find_def map_entries_def)

section \<open>Properties\<close>

text \<open>
  \<open>PercentOf\<close> is the floor of the exact percentage, clamped to 0..100, for all 64-bit
  arguments: the 128-bit intermediate product never overflows and \<open>Div64\<close> never panics.
\<close>

theorem percent_of_exact:
  assumes "int64_range value" and "int64_range whole"
  shows "percent_of value whole =
    Some (if value \<le> 0 \<or> whole \<le> 0 then 0 else min 100 (100 * value div whole))"
proof (cases "value \<le> 0 \<or> whole \<le> 0 \<or> value \<ge> whole")
  case True
  moreover have "100 \<le> 100 * value div whole" if "0 < whole" "whole \<le> value"
  proof -
    have "100 * whole div whole \<le> 100 * value div whole"
      using that by (intro zdiv_mono1) auto
    with that show ?thesis by simp
  qed
  ultimately show ?thesis
    by (auto simp: percent_of_def percent_scale_def)
next
  case False
  then have p: "0 < value" "0 < whole" "value < whole" by auto
  have r: "value < 2 ^ 63" "whole < 2 ^ 63"
    using assms by (auto simp: int64_range_def max_int64_def)
  have v: "uint64 value = nat value" "uint64 whole = nat whole"
    using p r by (auto intro!: uint64_small)
  have h: "uint64 percent_scale = 100" by (simp add: percent_scale_def uint64_def)
  have "nat value * 100 < 2 ^ 64 * nat whole"
  proof -
    have "nat value < nat whole" using p by simp
    then have "nat value * 100 < 100 * nat whole" by simp
    also have "\<dots> \<le> 2 ^ 64 * nat whole" by simp
    finally show ?thesis .
  qed
  then have "nat value * 100 div 2 ^ 64 < nat whole"
    by (simp add: less_mult_imp_div_less mult.commute)
  then have d: "(let (h, l) = mul64 (nat value) 100 in div64 h l (nat whole)) =
      Some (nat value * 100 div nat whole, nat value * 100 mod nat whole)"
    using p by (intro div64_mul64) auto
  have q: "int (nat value * 100 div nat whole) = 100 * value div whole"
    using p by (simp add: zdiv_int mult.commute)
  have le: "100 * value div whole \<le> 100"
  proof -
    have "100 * value div whole \<le> 100 * whole div whole"
      using p by (intro zdiv_mono1) auto
    with p show ?thesis by simp
  qed
  have "percent_of value whole =
      map_option (\<lambda>(q, _). int q) (let (h, l) = mul64 (nat value) 100 in div64 h l (nat whole))"
    using p by (simp add: percent_of_def v h case_prod_beta Let_def)
  also have "\<dots> = Some (100 * value div whole)"
    unfolding d by (simp only: option.map prod.case q)
  finally show ?thesis using p le by simp
qed

theorem percent_of_exact_witness:
  "percent_of (max_int64 - 1) max_int64 = Some 99"
  using percent_of_exact [of "max_int64 - 1" max_int64]
  by (simp add: int64_range_def max_int64_value)

end
