(* ===== verification/Llm_Usage.thy ===== *)
theory Llm_Usage
  imports Units
begin

text \<open>
  Token usage: \<^verbatim>\<open>internal/llm/usage.go\<close>, \<^verbatim>\<open>usage_merge.go\<close> and the adapters of
  \<^verbatim>\<open>internal/llmconv/usage.go\<close>. \<open>llm.Usage\<close> and \<open>model.TokenUsage\<close> are field by field the
  same struct, modelled by the one record \<open>usage\<close>; the adapters' effect is what they do to
  the breakdown map and the contributor list.
\<close>

datatype provenance =
  ProvenanceNone | ProviderReported | ProviderAnchorEstimate | LocalEstimate | ProvenanceOther string

record token_contributor =
  tc_label :: string
  tc_role :: string
  tc_preview :: string
  tc_tokens :: int
  tc_chars :: int

record usage =
  breakdown :: "int gomap"
  provenance :: provenance
  top_contributors :: "token_contributor list"
  context_window :: int
  context_tokens :: int
  input_tokens :: int
  output_tokens :: int

definition empty_usage :: usage where
  "empty_usage = \<lparr>breakdown = None, provenance = ProvenanceNone, top_contributors = [],
     context_window = 0, context_tokens = 0, input_tokens = 0, output_tokens = 0\<rparr>"

definition with_reported :: "usage \<Rightarrow> usage" where
  "with_reported u = u\<lparr>provenance := ProviderReported\<rparr>"

definition reported :: "usage \<Rightarrow> bool" where
  "reported u \<longleftrightarrow> provenance u = ProviderReported"

definition total_tokens :: "usage \<Rightarrow> int" where
  "total_tokens u = input_tokens u + output_tokens u"

definition has_any :: "usage \<Rightarrow> bool" where
  "has_any u \<longleftrightarrow> reported u \<or> context_window u > 0 \<or> context_tokens u > 0 \<or> input_tokens u > 0 \<or>
     output_tokens u > 0 \<or> map_len (breakdown u) > 0 \<or> length (top_contributors u) > 0"

definition context_percent :: "usage \<Rightarrow> int option" where
  "context_percent u =
     (if context_window u \<le> 0 \<or> context_tokens u \<le> 0 then Some 0
      else percent_of (context_tokens u) (context_window u))"

definition clone_token_contributors :: "token_contributor list \<Rightarrow> token_contributor list" where
  "clone_token_contributors cs = cs"

definition merge_usage :: "usage \<Rightarrow> usage \<Rightarrow> usage" where
  "merge_usage estimated rep =
     (let u0 = estimated;
          u1 = (if reported rep then with_reported u0 else u0);
          u2 = (if context_window rep > 0 then u1\<lparr>context_window := context_window rep\<rparr> else u1);
          u3 = (if context_tokens rep > 0 then u2\<lparr>context_tokens := context_tokens rep\<rparr> else u2);
          u4 = (if input_tokens rep > 0 then u3\<lparr>input_tokens := input_tokens rep\<rparr> else u3);
          u5 = (if output_tokens rep > 0 then u4\<lparr>output_tokens := output_tokens rep\<rparr> else u4);
          u6 = (if map_len (breakdown u5) = 0 \<and> map_len (breakdown rep) > 0
                then u5\<lparr>breakdown := clone_or_nil (breakdown rep)\<rparr> else u5)
      in if length (top_contributors u6) = 0 \<and> length (top_contributors rep) > 0
         then u6\<lparr>top_contributors := clone_token_contributors (top_contributors rep)\<rparr> else u6)"

section \<open>Adapters\<close>

definition contributors_from_model :: "token_contributor list \<Rightarrow> token_contributor list" where
  "contributors_from_model cs =
     (if length cs = 0 then []
      else map (\<lambda>c. \<lparr>tc_label = tc_label c, tc_role = tc_role c, tc_preview = tc_preview c,
                     tc_tokens = tc_tokens c, tc_chars = tc_chars c\<rparr>) cs)"

definition contributors_to_model :: "token_contributor list \<Rightarrow> token_contributor list" where
  "contributors_to_model cs =
     (if length cs = 0 then []
      else map (\<lambda>c. \<lparr>tc_label = tc_label c, tc_role = tc_role c, tc_preview = tc_preview c,
                     tc_tokens = tc_tokens c, tc_chars = tc_chars c\<rparr>) cs)"

definition usage_from_model :: "usage \<Rightarrow> usage" where
  "usage_from_model u =
     (let converted = \<lparr>breakdown = clone_or_nil (breakdown u), provenance = provenance u,
        top_contributors = contributors_from_model (top_contributors u),
        context_window = context_window u, context_tokens = context_tokens u,
        input_tokens = input_tokens u, output_tokens = output_tokens u\<rparr>
      in if reported u then with_reported converted else converted)"

definition usage_to_model :: "usage \<Rightarrow> usage" where
  "usage_to_model u =
     (let converted = \<lparr>breakdown = clone_or_nil (breakdown u), provenance = provenance u,
        top_contributors = contributors_to_model (top_contributors u),
        context_window = context_window u, context_tokens = context_tokens u,
        input_tokens = input_tokens u, output_tokens = output_tokens u\<rparr>
      in if reported u then with_reported converted else converted)"

lemma contributors_from_model_id [simp]: "contributors_from_model cs = cs"
  by (simp add: contributors_from_model_def map_idI)

lemma contributors_to_model_id [simp]: "contributors_to_model cs = cs"
  by (simp add: contributors_to_model_def map_idI)

lemma usage_from_model_eq: "usage_from_model u = u\<lparr>breakdown := clone_or_nil (breakdown u)\<rparr>"
  by (cases u) (simp add: usage_from_model_def with_reported_def reported_def Let_def)

lemma usage_to_model_eq: "usage_to_model u = u\<lparr>breakdown := clone_or_nil (breakdown u)\<rparr>"
  by (cases u) (simp add: usage_to_model_def with_reported_def reported_def Let_def)

text \<open>The fields of a merged usage, one by one.\<close>

lemma merge_usage_fields:
  "provenance (merge_usage e r) = (if reported r then ProviderReported else provenance e)"
  "context_window (merge_usage e r) = (if context_window r > 0 then context_window r else context_window e)"
  "context_tokens (merge_usage e r) = (if context_tokens r > 0 then context_tokens r else context_tokens e)"
  "input_tokens (merge_usage e r) = (if input_tokens r > 0 then input_tokens r else input_tokens e)"
  "output_tokens (merge_usage e r) = (if output_tokens r > 0 then output_tokens r else output_tokens e)"
  "breakdown (merge_usage e r) =
     (if map_len (breakdown e) = 0 \<and> map_len (breakdown r) > 0 then breakdown r else breakdown e)"
  "top_contributors (merge_usage e r) =
     (if top_contributors e = [] then
        (if top_contributors r = [] then top_contributors e else top_contributors r)
      else top_contributors e)"
  by (auto simp: merge_usage_def with_reported_def clone_or_nil_def clone_token_contributors_def Let_def)

text \<open>
  The contract of combining usage records: the provider's positive numbers win, nothing
  is invented, and merging the same report again changes nothing.
\<close>

locale usage_overlay =
  fixes overlay :: "usage \<Rightarrow> usage \<Rightarrow> usage"
  assumes overlay_idem: "overlay (overlay e r) r = overlay e r"
    and overlay_window: "context_window (overlay e r) \<in> {context_window e, context_window r}"
    and overlay_window_pos: "context_window r > 0 \<Longrightarrow> context_window (overlay e r) = context_window r"
begin

lemma overlay_again: "overlay (overlay (overlay e r) r) r = overlay e r"
  by (simp add: overlay_idem)

lemma overlay_keeps_window:
  "context_window e = context_window r \<Longrightarrow> context_window (overlay e r) = context_window r"
  using overlay_window [of e r] by auto

end

lemma merge_usage_idem: "merge_usage (merge_usage e r) r = merge_usage e r"
  by (rule usage.equality) (auto simp: merge_usage_fields)

interpretation merge: usage_overlay merge_usage
  by unfold_locales (auto simp: merge_usage_idem merge_usage_fields)

end
