(* ===== verification/Context_Window.thy ===== *)
theory Context_Window
  imports Entities Llm_Usage
begin

text \<open>
  The token accounting of \<^verbatim>\<open>internal/contextwindow\<close>: the local token estimate (tokens.go), the
  input budget after reserves (budget.go), the usage estimate led by the provider's last
  report (usage.go), the target for the verbatim tail (recent_tail.go) and the budget of a
  summary request (summary_budget.go).
\<close>

section \<open>Token estimates\<close>

definition chars_per_estimated_token :: int where "chars_per_estimated_token = 4"
definition image_tile_pixels :: int where "image_tile_pixels = 512"
definition image_tile_tokens :: int where "image_tile_tokens = 200"
definition minimum_image_tokens :: int where "minimum_image_tokens = 256"
definition maximum_image_tokens :: int where "maximum_image_tokens = 16000"

lemmas token_consts = chars_per_estimated_token_def image_tile_pixels_def image_tile_tokens_def
  minimum_image_tokens_def maximum_image_tokens_def

definition estimate_tokens :: "string \<Rightarrow> int" where
  "estimate_tokens text =
     (let trimmed = trim_space text in
      if trimmed = [] then 0
      else let runes = int (rune_count trimmed) in
        if runes = 0 then 0
        else max 1 ((runes + chars_per_estimated_token - 1) sdiv chars_per_estimated_token))"

definition estimate_image_tokens :: "int \<Rightarrow> int \<Rightarrow> int" where
  "estimate_image_tokens width height =
     (if width \<le> 0 \<or> height \<le> 0 then maximum_image_tokens
      else
        let tiles_wide = width sdiv image_tile_pixels + (if width smod image_tile_pixels \<noteq> 0 then 1 else 0);
            tiles_high = height sdiv image_tile_pixels + (if height smod image_tile_pixels \<noteq> 0 then 1 else 0)
        in if tiles_wide > maximum_image_tokens sdiv image_tile_tokens sdiv tiles_high
           then maximum_image_tokens
           else min maximum_image_tokens
                  (max minimum_image_tokens (wrap64 (wrap64 (tiles_wide * tiles_high) * image_tile_tokens))))"

definition part_tokens :: "message_part \<Rightarrow> int" where
  "part_tokens part =
     (if part_type part = PartText then 0
      else if part_type part = PartImage then estimate_image_tokens (part_width part) (part_height part)
      else 0)"

definition estimate_one_message_tokens :: "message \<Rightarrow> int" where
  "estimate_one_message_tokens m =
     fold (\<lambda>part tokens. tokens + part_tokens part) (msg_parts m) (estimate_tokens (msg_content m))"

definition estimate_message_tokens :: "message list \<Rightarrow> int" where
  "estimate_message_tokens ms = fold (\<lambda>m tokens. tokens + estimate_one_message_tokens m) ms 0"

definition estimate_input_tokens :: "string \<Rightarrow> message list \<Rightarrow> int" where
  "estimate_input_tokens system_prompt ms =
     fold (\<lambda>m count. count + estimate_one_message_tokens m) ms (estimate_tokens system_prompt)"

lemma fold_add_int: "fold (\<lambda>x acc. acc + f x) xs a = a + (\<Sum>x\<leftarrow>xs. f x :: int)"
  by (induction xs arbitrary: a) simp_all

lemma estimate_one_message_tokens_eq:
  "estimate_one_message_tokens m = estimate_tokens (msg_content m) + (\<Sum>p\<leftarrow>msg_parts m. part_tokens p)"
  by (simp add: estimate_one_message_tokens_def fold_add_int)

lemma estimate_message_tokens_eq:
  "estimate_message_tokens ms = (\<Sum>m\<leftarrow>ms. estimate_one_message_tokens m)"
  by (simp add: estimate_message_tokens_def fold_add_int)

lemma estimate_input_tokens_eq:
  "estimate_input_tokens sp ms = estimate_tokens sp + estimate_message_tokens ms"
  by (simp add: estimate_input_tokens_def estimate_message_tokens_eq fold_add_int)

lemma estimate_tokens_eq:
  "estimate_tokens text = (int (rune_count (trim_space text)) + 3) div 4"
proof (cases "trim_space text = []")
  case False
  then have "1 \<le> int (rune_count (trim_space text))"
    using rune_count_eq_0 [of "trim_space text"] by linarith
  with False show ?thesis
    by (simp add: estimate_tokens_def token_consts sdiv_nonneg Let_def)
qed (simp add: estimate_tokens_def)

lemma estimate_tokens_nonneg [simp]: "0 \<le> estimate_tokens text"
  by (simp add: estimate_tokens_eq)

text \<open>The tile count of one dimension is the ceiling of pixels over tile size.\<close>

lemma tiles_ceiling:
  assumes "0 < w"
  shows "w sdiv 512 + (if w smod 512 \<noteq> 0 then 1 else 0) = (w + 511) div (512::int)"
  using assms ceil_div_eq [of 512 w] by (simp add: sdiv_nonneg smod_nonneg add.commute)

lemma estimate_image_tokens_bounds:
  "minimum_image_tokens \<le> estimate_image_tokens w h \<and> estimate_image_tokens w h \<le> maximum_image_tokens"
  by (simp add: estimate_image_tokens_def token_consts Let_def)

lemma part_tokens_nonneg [simp]: "0 \<le> part_tokens p"
  using estimate_image_tokens_bounds [of "part_width p" "part_height p"]
  by (simp add: part_tokens_def minimum_image_tokens_def)

lemma estimate_one_message_tokens_nonneg [simp]: "0 \<le> estimate_one_message_tokens m"
  by (simp add: estimate_one_message_tokens_eq sum_list_nonneg_int)

lemma estimate_message_tokens_nonneg [simp]: "0 \<le> estimate_message_tokens ms"
  by (simp add: estimate_message_tokens_eq sum_list_nonneg_int)

lemma estimate_message_tokens_append [simp]:
  "estimate_message_tokens (xs @ ys) = estimate_message_tokens xs + estimate_message_tokens ys"
  by (simp add: estimate_message_tokens_eq)

lemma estimate_message_tokens_Nil [simp]: "estimate_message_tokens [] = 0"
  by (simp add: estimate_message_tokens_eq)

lemma estimate_message_tokens_Cons:
  "estimate_message_tokens (m # ms) = estimate_one_message_tokens m + estimate_message_tokens ms"
  by (simp add: estimate_message_tokens_eq)

lemma estimate_message_tokens_single [simp]:
  "estimate_message_tokens [m] = estimate_one_message_tokens m"
  by (simp add: estimate_message_tokens_eq)

text \<open>A model-facing message never counts as free.\<close>

lemma estimate_tokens_pos: "trim_space s \<noteq> [] \<Longrightarrow> 0 < estimate_tokens s"
proof -
  assume "trim_space s \<noteq> []"
  then have "1 \<le> int (rune_count (trim_space s))"
    using rune_count_eq_0 [of "trim_space s"] by linarith
  then show ?thesis by (simp add: estimate_tokens_eq)
qed

lemma facing_message_tokens_pos:
  assumes "is_facing_message m"
  shows "0 < estimate_one_message_tokens m"
proof -
  have s: "0 \<le> (\<Sum>p\<leftarrow>msg_parts m. part_tokens p)" by (intro sum_list_nonneg_int) simp
  from assms consider "trim_space (msg_content m) \<noteq> []"
    | p where "p \<in> set (msg_parts m)" "part_type p = PartImage"
    by (auto simp: is_facing_message_def)
  then show ?thesis
  proof cases
    case 1
    with estimate_tokens_pos s show ?thesis by (simp add: estimate_one_message_tokens_eq add_pos_nonneg)
  next
    case 2
    then have "0 < part_tokens p"
      using estimate_image_tokens_bounds [of "part_width p" "part_height p"]
      by (simp add: part_tokens_def minimum_image_tokens_def)
    also have "part_tokens p \<le> (\<Sum>p\<leftarrow>msg_parts m. part_tokens p)"
      using 2 by (intro member_le_sum_list_int) auto
    finally show ?thesis
      by (simp add: estimate_one_message_tokens_eq add_nonneg_pos)
  qed
qed

section \<open>Properties\<close>

text \<open>
  The text estimate is a quarter of the runes of the trimmed text, rounded up; it is zero
  exactly for blank text, and surrounding white space never changes it.
\<close>

theorem estimate_tokens_ceiling:
  "int (rune_count (trim_space text)) \<le> 4 * estimate_tokens text \<and>
   4 * estimate_tokens text < int (rune_count (trim_space text)) + 4 \<and>
   (estimate_tokens text = 0 \<longleftrightarrow> trim_space text = []) \<and>
   estimate_tokens (trim_space text) = estimate_tokens text"
proof -
  have "int (rune_count (trim_space text)) \<le> 4 * estimate_tokens text"
    "4 * estimate_tokens text < int (rune_count (trim_space text)) + 4"
    unfolding estimate_tokens_eq by linarith+
  moreover have "estimate_tokens text = 0 \<longleftrightarrow> trim_space text = []"
  proof (cases "trim_space text = []")
    case False
    then show ?thesis using estimate_tokens_pos [OF False] by simp
  qed (simp add: estimate_tokens_eq)
  ultimately show ?thesis by (simp add: estimate_tokens_eq)
qed

lemma le_div_mult_iff:
  fixes a b c :: int
  assumes "0 < c"
  shows "a \<le> b div c \<longleftrightarrow> a * c \<le> b"
proof
  assume "a \<le> b div c"
  then have "a * c \<le> b div c * c" using assms by (simp add: mult_right_mono)
  also have "\<dots> \<le> b" using assms by (rule pos_div_mult_le)
  finally show "a * c \<le> b" .
next
  assume "a * c \<le> b"
  then have "a * c div c \<le> b div c" using assms by (rule zdiv_mono1)
  with assms show "a \<le> b div c" by simp
qed

lemma wrap64_tile_product: "n \<le> 80 \<Longrightarrow> 1 \<le> n \<Longrightarrow> wrap64 (wrap64 n * 200) = n * 200"
proof -
  assume n: "n \<le> 80" "1 \<le> n"
  then have "wrap64 n = n" "wrap64 (n * 200) = n * 200"
    by (auto intro!: wrap64_id simp: int64_range_def max_int64_value)
  then show ?thesis by simp
qed

text \<open>
  The image estimate equals the reference formula of 200 tokens per started 512-pixel
  tile, clamped to 256..16000, for every size: the division guard keeps the 64-bit product
  from wrapping around, and malformed sizes cost the maximum.
\<close>

theorem estimate_image_tokens_reference:
  "estimate_image_tokens width height =
    (if width \<le> 0 \<or> height \<le> 0 then 16000
     else min 16000 (max 256 (((width + 511) div 512) * ((height + 511) div 512) * 200)))"
proof (cases "width \<le> 0 \<or> height \<le> 0")
  case False
  then have p: "0 < width" "0 < height" by auto
  let ?w = "(width + 511) div 512" and ?h = "(height + 511) div 512"
  have pos: "1 \<le> ?w" "1 \<le> ?h" using p by linarith+
  have guard: "?w \<le> 80 div ?h \<longleftrightarrow> ?w * ?h \<le> 80"
    using pos by (intro le_div_mult_iff) simp
  have prod: "1 \<le> ?w * ?h" using mult_mono [of 1 ?w 1 ?h] pos by simp
  have e: "estimate_image_tokens width height =
    (if ?w > 80 div ?h then 16000 else min 16000 (max 256 (wrap64 (wrap64 (?w * ?h) * 200))))"
  proof -
    have c: "(16000::int) sdiv 200 sdiv ?h = 80 div ?h"
      using pos by (simp add: sdiv_nonneg)
    from p show ?thesis
      unfolding estimate_image_tokens_def token_consts Let_def
        tiles_ceiling [OF p(1)] tiles_ceiling [OF p(2)] c
      by (simp only: not_le [symmetric] if_False simp_thms)
  qed
  show ?thesis
  proof (cases "?w * ?h \<le> 80")
    case True
    then have "wrap64 (wrap64 (?w * ?h) * 200) = ?w * ?h * 200"
      using prod by (intro wrap64_tile_product)
    with True guard p e show ?thesis by simp
  next
    case False
    with guard p e show ?thesis by simp
  qed
qed (auto simp: estimate_image_tokens_def token_consts)

end
