(* ===== verification/Context_Budget.thy ===== *)
theory Context_Budget
  imports Context_Window
begin

text \<open>
  The input budget of \<^verbatim>\<open>internal/contextwindow/budget.go\<close>, the recent-tail target of
  recent_tail.go and the summary request budget of summary_budget.go.
\<close>

record context_config =
  cfg_compaction_provider :: string
  cfg_compaction_model :: string
  cfg_output_reserve :: int
  cfg_provider_reserve :: int
  cfg_safety_margin :: int
  cfg_extension_tokens :: int
  cfg_auto_threshold :: int
  cfg_retained_tail_max :: int
  cfg_summary_output :: int
  cfg_preflight_enabled :: bool
  cfg_auto_enabled :: bool

text \<open>The fields of \<open>model.Model\<close> that the budgets read.\<close>

record ai_model =
  mdl_provider :: string
  mdl_id :: string
  mdl_context_window :: int
  mdl_max_tokens :: int

section \<open>Input budget\<close>

definition default_output_reserve :: int where "default_output_reserve = 16384"
definition default_safety_margin :: int where "default_safety_margin = 8192"
definition default_provider_reserve :: int where "default_provider_reserve = 2048"
definition reserve_percent :: int where "reserve_percent = 20"

lemmas budget_consts = default_output_reserve_def default_safety_margin_def
  default_provider_reserve_def reserve_percent_def percent_scale_def

record budget =
  bud_input_tokens :: int
  bud_context_window :: int
  bud_usable_input :: int
  bud_output_reserve :: int
  bud_tool_schema_reserve :: int
  bud_provider_reserve :: int
  bud_safety_margin :: int

definition total_reserve :: "budget \<Rightarrow> int" where
  "total_reserve b = bud_output_reserve b + bud_tool_schema_reserve b + bud_provider_reserve b
     + bud_safety_margin b"

definition estimate_tool_schema_tokens :: "int option \<Rightarrow> int" where
  "estimate_tool_schema_tokens estimator = (case estimator of None \<Rightarrow> 0 | Some n \<Rightarrow> n)"

definition non_negative_or_default :: "int \<Rightarrow> int \<Rightarrow> int" where
  "non_negative_or_default v fallback = (if v \<ge> 0 then v else fallback)"

definition output_reserve :: "int \<Rightarrow> context_config \<Rightarrow> int" where
  "output_reserve window policy =
     (if cfg_output_reserve policy > 0 then cfg_output_reserve policy
      else if window > 0
           then min default_output_reserve (max 1 (wrap64 (window * reserve_percent) sdiv percent_scale))
           else default_output_reserve)"

definition new_budget ::
  "usage \<Rightarrow> ai_model option \<Rightarrow> context_config \<Rightarrow> int option \<Rightarrow> budget" where
  "new_budget u selected policy estimator =
     (let window = (case selected of
                      Some m \<Rightarrow> if context_window u \<le> 0 then mdl_context_window m else context_window u
                    | None \<Rightarrow> context_window u);
          b = \<lparr>bud_input_tokens = context_tokens u, bud_context_window = window, bud_usable_input = 0,
               bud_output_reserve = output_reserve window policy,
               bud_tool_schema_reserve = estimate_tool_schema_tokens estimator,
               bud_provider_reserve = non_negative_or_default (cfg_provider_reserve policy) default_provider_reserve,
               bud_safety_margin = non_negative_or_default (cfg_safety_margin policy) default_safety_margin\<rparr>
      in b\<lparr>bud_usable_input := max (window - total_reserve b) 0\<rparr>)"

datatype budget_error = ContextWindowExceeded int int int int

definition validate_budget :: "budget \<Rightarrow> budget_error option" where
  "validate_budget b =
     (if bud_context_window b \<le> 0 \<or> bud_input_tokens b \<le> bud_usable_input b then None
      else Some (ContextWindowExceeded (bud_input_tokens b) (bud_context_window b)
                  (bud_usable_input b) (total_reserve b)))"

definition usage_with_budget :: "budget \<Rightarrow> usage \<Rightarrow> usage" where
  "usage_with_budget b u =
     (let kvs = clone_or_empty (breakdown u);
          kvs = map_set ''reserve_output'' (bud_output_reserve b) kvs;
          kvs = map_set ''reserve_tools'' (bud_tool_schema_reserve b) kvs;
          kvs = map_set ''reserve_provider'' (bud_provider_reserve b) kvs;
          kvs = map_set ''reserve_safety'' (bud_safety_margin b) kvs;
          kvs = map_set ''usable_input'' (bud_usable_input b) kvs
      in u\<lparr>context_window := bud_context_window b, context_tokens := bud_input_tokens b,
           input_tokens := bud_input_tokens b, breakdown := Some kvs\<rparr>)"

definition budget_from_usage :: "usage \<Rightarrow> budget" where
  "budget_from_usage u =
     \<lparr>bud_input_tokens = context_tokens u, bud_context_window = context_window u,
      bud_usable_input = map_get 0 (breakdown u) ''usable_input'',
      bud_output_reserve = map_get 0 (breakdown u) ''reserve_output'',
      bud_tool_schema_reserve = map_get 0 (breakdown u) ''reserve_tools'',
      bud_provider_reserve = map_get 0 (breakdown u) ''reserve_provider'',
      bud_safety_margin = map_get 0 (breakdown u) ''reserve_safety''\<rparr>"

lemma total_reserve_usable [simp]: "total_reserve (b\<lparr>bud_usable_input := x\<rparr>) = total_reserve b"
  by (simp add: total_reserve_def)

lemma new_budget_usable:
  "bud_usable_input (new_budget u sel policy est) =
     max (bud_context_window (new_budget u sel policy est) - total_reserve (new_budget u sel policy est)) 0"
  by (simp add: new_budget_def Let_def total_reserve_def)

text \<open>
  The default reserve is a fifth of the window, at least one token and at most 16384, for
  every window whose product with the percentage stays in range.
\<close>

lemma output_reserve_default:
  assumes "cfg_output_reserve policy \<le> 0" and "0 < window" and "window * 20 \<le> max_int64"
  shows "output_reserve window policy = min 16384 (max 1 (window div 5))"
proof -
  have "wrap64 (window * 20) = window * 20"
    using assms by (intro wrap64_id) (simp add: int64_range_def)
  moreover have "window * 20 div 100 = window div 5"
  proof -
    have "window * 20 div (5 * 20) = window div 5" by (rule div_mult_mult2) simp
    then show ?thesis by simp
  qed
  ultimately show ?thesis
    using assms by (simp add: output_reserve_def budget_consts sdiv_nonneg)
qed

section \<open>Recent tail\<close>

definition default_recent_tail_tokens :: int where "default_recent_tail_tokens = 20000"
definition context_tail_divisor :: int where "context_tail_divisor = 3"

definition recent_tail_target :: "int \<Rightarrow> int \<Rightarrow> int" where
  "recent_tail_target window current =
     (let context_tail = (if window > 0 then max 1 (window sdiv context_tail_divisor)
                          else default_recent_tail_tokens)
      in if current \<le> 0 then context_tail
         else min context_tail (max 1 ((current + context_tail_divisor - 1) sdiv context_tail_divisor)))"

section \<open>Summary request budget\<close>

definition summary_reserve_percent :: int where "summary_reserve_percent = 80"
definition default_unknown_summary_max :: int where "default_unknown_summary_max = 4096"
definition minimum_summary_output :: int where "minimum_summary_output = 64"
definition default_summary_envelope :: int where "default_summary_envelope = 32"

lemmas summary_consts = summary_reserve_percent_def default_unknown_summary_max_def
  minimum_summary_output_def percent_scale_def

datatype summary_limit_error =
  InvalidSummaryBounds int int | SummaryOverflowInt64 | SummaryOverflowInt | SummaryBelowMinimum int int

definition summary_output_limit :: "int \<Rightarrow> int \<Rightarrow> summary_limit_error + int" where
  "summary_output_limit reserve model_max =
     (if reserve \<le> 0 \<or> model_max < 0 then Inl (InvalidSummaryBounds reserve model_max)
      else if int (uint64 reserve) > max_int64 div summary_reserve_percent then Inl SummaryOverflowInt64
      else let reserve_cap = wrap64 (reserve * summary_reserve_percent) sdiv percent_scale in
        if reserve_cap > max_int64 then Inl SummaryOverflowInt
        else let model_cap = (if model_max = 0 then default_unknown_summary_max else model_max);
                 limit = min reserve_cap model_cap
             in if limit < minimum_summary_output then Inl (SummaryBelowMinimum limit minimum_summary_output)
                else Inr limit)"

record summary_budget_input =
  sbi_context_window :: int
  sbi_system_prompt_tokens :: int
  sbi_previous_summary_tokens :: int
  sbi_split_turn_tokens :: int
  sbi_history_tokens :: int
  sbi_provider_reserve :: int
  sbi_safety_margin :: int
  sbi_envelope_tokens :: int
  sbi_max_output_tokens :: int

record summary_budget =
  sb_context_window :: int
  sb_system_prompt_tokens :: int
  sb_previous_summary_tokens :: int
  sb_split_turn_tokens :: int
  sb_fixed_input :: int
  sb_reducible_history :: int
  sb_max_input :: int
  sb_total_input :: int
  sb_provider_reserve :: int
  sb_safety_margin :: int
  sb_envelope_tokens :: int
  sb_max_output :: int

definition new_summary_budget :: "summary_budget_input \<Rightarrow> summary_budget" where
  "new_summary_budget i =
     (let fixed = max (sbi_system_prompt_tokens i) 0 + max (sbi_envelope_tokens i) 0;
          max_input = sbi_context_window i - max (sbi_max_output_tokens i) 0
                      - max (sbi_provider_reserve i) 0 - max (sbi_safety_margin i) 0
      in \<lparr>sb_context_window = sbi_context_window i,
          sb_system_prompt_tokens = sbi_system_prompt_tokens i,
          sb_previous_summary_tokens = sbi_previous_summary_tokens i,
          sb_split_turn_tokens = sbi_split_turn_tokens i,
          sb_fixed_input = fixed,
          sb_reducible_history = max (sbi_history_tokens i) 0,
          sb_max_input = max_input,
          sb_total_input = fixed + max (sbi_history_tokens i) 0,
          sb_provider_reserve = sbi_provider_reserve i,
          sb_safety_margin = sbi_safety_margin i,
          sb_envelope_tokens = sbi_envelope_tokens i,
          sb_max_output = sbi_max_output_tokens i\<rparr>)"

definition available_history_tokens :: "summary_budget \<Rightarrow> int" where
  "available_history_tokens b = max (sb_max_input b - sb_fixed_input b) 0"

datatype summary_budget_error = FixedOverhead int int | InputExceeds int int

definition validate_summary_budget :: "summary_budget \<Rightarrow> summary_budget_error option" where
  "validate_summary_budget b =
     (if sb_context_window b \<le> 0 \<or> sb_max_output b \<le> 0 \<or> sb_max_input b \<le> 0 \<or>
         sb_fixed_input b > sb_max_input b
      then Some (FixedOverhead (sb_fixed_input b) (sb_max_input b))
      else if sb_total_input b > sb_max_input b
      then Some (InputExceeds (sb_total_input b) (sb_max_input b))
      else None)"

lemma new_summary_budget_fields:
  "sb_context_window (new_summary_budget i) = sbi_context_window i"
  "sb_max_output (new_summary_budget i) = sbi_max_output_tokens i"
  "sb_total_input (new_summary_budget i) =
     sb_fixed_input (new_summary_budget i) + sb_reducible_history (new_summary_budget i)"
  "0 \<le> sb_reducible_history (new_summary_budget i)"
  "0 \<le> sb_fixed_input (new_summary_budget i)"
  by (simp_all add: new_summary_budget_def Let_def)

section \<open>Properties\<close>

text \<open>
  A budget accepted by \<open>Validate\<close> leaves room for every reserve: the estimated input and
  all reserves together fit the context window. It is rejected exactly when the window is
  known and the input exceeds what is left of it.
\<close>

theorem budget_validate_iff:
  fixes u sel policy est
  defines "b \<equiv> new_budget u sel policy est"
  assumes "0 < bud_context_window b" and "0 < bud_input_tokens b"
  shows "validate_budget b = None \<longleftrightarrow> bud_input_tokens b + total_reserve b \<le> bud_context_window b"
  using assms(2,3) new_budget_usable [of u sel policy est]
  by (auto simp: validate_budget_def b_def)

definition sample_policy :: context_config where
  "sample_policy = \<lparr>cfg_compaction_provider = [], cfg_compaction_model = [], cfg_output_reserve = 0,
     cfg_provider_reserve = -1, cfg_safety_margin = -1, cfg_extension_tokens = 0, cfg_auto_threshold = 0,
     cfg_retained_tail_max = 0, cfg_summary_output = 0, cfg_preflight_enabled = True, cfg_auto_enabled = True\<rparr>"

definition sample_usage :: usage where
  "sample_usage = empty_usage\<lparr>context_window := 128000, context_tokens := 100000\<rparr>"

theorem budget_validate_iff_witness:
  "validate_budget (new_budget sample_usage None sample_policy (Some 1000)) = None"
proof -
  let ?b = "new_budget sample_usage None sample_policy (Some 1000)"
  have out: "output_reserve 128000 sample_policy = 16384"
    using output_reserve_default [of sample_policy 128000]
    by (simp add: sample_policy_def max_int64_value)
  have f: "bud_context_window ?b = 128000" "bud_input_tokens ?b = 100000" "total_reserve ?b = 27624"
    by (simp_all add: new_budget_def total_reserve_def sample_usage_def empty_usage_def out Let_def
        estimate_tool_schema_tokens_def non_negative_or_default_def budget_consts,
        simp_all add: sample_policy_def)
  show ?thesis
    using budget_validate_iff [of sample_usage None sample_policy "Some 1000"] f by simp
qed

text \<open>
  The budget diagnostics written into a usage record are read back unchanged:
  \<open>BudgetFromUsage\<close> inverts \<open>UsageWithBudget\<close>.
\<close>

theorem budget_roundtrip: "budget_from_usage (usage_with_budget b u) = b"
  by (simp add: budget_from_usage_def usage_with_budget_def Let_def)

text \<open>
  The summary output limit: for positive reserves it is the smaller of four fifths of the
  reserve (rounded down) and the model's limit (4096 when the model declares none), and the
  call fails exactly on invalid bounds, on a reserve whose product with the percentage would
  overflow 64 bits, and when the limit is below 64 tokens.
\<close>

theorem summary_output_limit_exact:
  assumes "int64_range reserve" and "int64_range model_max"
  shows "summary_output_limit reserve model_max =
    (if reserve \<le> 0 \<or> model_max < 0 then Inl (InvalidSummaryBounds reserve model_max)
     else if reserve > max_int64 div 80 then Inl SummaryOverflowInt64
     else let limit = min (4 * reserve div 5) (if model_max = 0 then 4096 else model_max)
          in if limit < 64 then Inl (SummaryBelowMinimum limit 64) else Inr limit)"
proof (cases "reserve \<le> 0 \<or> model_max < 0 \<or> reserve > max_int64 div 80")
  case True
  then show ?thesis
    using assms uint64_small [of reserve]
    by (auto simp: summary_output_limit_def summary_consts int64_range_def max_int64_value)
next
  case False
  then have p: "0 < reserve" "0 \<le> model_max" "reserve \<le> max_int64 div 80" by auto
  from p(3) have m: "reserve * 80 \<le> max_int64" by (simp add: max_int64_value)
  have u: "int (uint64 reserve) = reserve"
    using p assms by (simp add: uint64_small int64_range_def max_int64_value)
  have w: "wrap64 (reserve * 80) sdiv 100 = 4 * reserve div 5"
  proof -
    have "wrap64 (reserve * 80) = reserve * 80"
      using p m by (intro wrap64_id) (simp add: int64_range_def)
    moreover have "reserve * 80 div 100 = 4 * reserve div 5"
    proof -
      have "(4 * reserve) * 20 div (5 * 20) = 4 * reserve div 5" by (rule div_mult_mult2) simp
      then show ?thesis by (simp add: algebra_simps)
    qed
    ultimately show ?thesis using p by (simp add: sdiv_nonneg)
  qed
  have "4 * reserve div 5 \<le> max_int64"
    using m p by (simp add: max_int64_value)
  with p u w show ?thesis
    by (auto simp: summary_output_limit_def summary_consts Let_def max_int64_value min_def)
qed

theorem summary_output_limit_exact_witness: "summary_output_limit 16384 0 = Inr 4096"
  using summary_output_limit_exact [of 16384 0] by (simp add: int64_range_def max_int64_value)

text \<open>
  A summary request passes validation exactly when the window and the output allowance are
  positive and the fixed overhead plus the history fit what is left after output, provider
  and safety reserves; the room reported for history is then enough for the history.
\<close>

theorem summary_budget_valid_iff:
  "validate_summary_budget (new_summary_budget i) = None \<longleftrightarrow>
     0 < sbi_context_window i \<and> 0 < sbi_max_output_tokens i \<and>
     0 < sb_max_input (new_summary_budget i) \<and>
     sb_fixed_input (new_summary_budget i) \<le> sb_max_input (new_summary_budget i) \<and>
     sb_reducible_history (new_summary_budget i) \<le> available_history_tokens (new_summary_budget i)"
  using new_summary_budget_fields [of i]
  by (auto simp: validate_summary_budget_def available_history_tokens_def)

text \<open>
  The verbatim tail kept by compaction is at least one token, at most a third of the
  window (one token for tiny windows) and at most a third, rounded up, of the current tokens.
\<close>

theorem recent_tail_target_bounds:
  "1 \<le> recent_tail_target window current \<and>
   (0 < window \<longrightarrow> recent_tail_target window current \<le> max 1 (window div 3)) \<and>
   (0 < current \<longrightarrow> 3 * recent_tail_target window current \<le> current + 2)"
proof -
  have c: "3 * ((current + 2) div 3) \<le> current + 2" by linarith
  have o: "1 \<le> (current + 2) div 3" if "0 < current" using that by linarith
  have r: "recent_tail_target window current =
    (let tail = (if window > 0 then max 1 (window div 3) else 20000)
     in if current \<le> 0 then tail else min tail (max 1 ((current + 2) div 3)))"
    by (simp add: recent_tail_target_def context_tail_divisor_def
        default_recent_tail_tokens_def sdiv_nonneg add.commute)
  show ?thesis
    using c o unfolding r Let_def min_def max_def by (simp split: if_split)
qed

theorem recent_tail_target_bounds_witness:
  "recent_tail_target 200000 9000 \<le> 66666 \<and> 3 * recent_tail_target 200000 9000 \<le> 9002"
  using recent_tail_target_bounds [where window = 200000 and current = 9000] by simp

end
