(* ===== verification/Context_Usage.thy ===== *)
theory Context_Usage
  imports Context_Budget
begin

text \<open>
  The model-facing usage of \<^verbatim>\<open>internal/contextwindow/usage.go\<close> and the extension
  contributions of contributions.go. Values of Go's type \<open>any\<close>, as decoded from an extension
  payload, are the datatype \<open>go_any\<close>. \<^verbatim>\<open>slices.SortFunc\<close> is not stable, so the ranking of
  contributors takes the sorting function as a parameter constrained by \<open>sorts_by\<close>;
  \<^verbatim>\<open>strconv.Quote\<close> is a parameter of the prompt rendering.
\<close>

section \<open>Data\<close>

datatype go_any =
  VNil | VBool bool | VInt int | VString string | VList "go_any list" | VMap "(string \<times> go_any) list"

record contribution =
  con_metadata :: "(string \<times> go_any) list"
  con_source :: string
  con_name :: string
  con_role :: string
  con_content :: string
  con_tokens :: int

record entry_usage =
  eu_context_window :: int
  eu_context_tokens :: int
  eu_input_tokens :: int
  eu_output_tokens :: int

record usage_anchor =
  anc_entry_id :: string
  anc_provider :: string
  anc_model :: string
  anc_usage :: entry_usage
  anc_message_index :: int

record build_result =
  br_breakdown :: "int gomap"
  br_anchor :: "usage_anchor option"
  br_system_prompt :: string
  br_contributions :: "contribution list"
  br_messages :: "message list"
  br_usage :: usage
  br_extension_limit :: int

definition contribution_max_tokens :: int where "contribution_max_tokens = 2048"
definition max_contributors :: nat where "max_contributors = 8"
definition preview_runes :: nat where "preview_runes = 96"
definition ellipsis :: string where "ellipsis = [CHR 0xE2, CHR 0x80, CHR 0xA6]"

section \<open>Breakdown and usage estimates\<close>

definition breakdown_of :: "int \<Rightarrow> int \<Rightarrow> int \<Rightarrow> contribution list \<Rightarrow> int gomap" where
  "breakdown_of system_tokens skill_tokens history_tokens cs =
     Some (fold (\<lambda>c m. map_set ''extensions'' (map_get 0 (Some m) ''extensions'' + con_tokens c) m) cs
       [(''system'', system_tokens), (''skills'', skill_tokens), (''history'', history_tokens),
        (''extensions'', 0)])"

definition contribution_total :: "contribution list \<Rightarrow> int" where
  "contribution_total cs = fold (\<lambda>c acc. acc + con_tokens c) cs 0"

definition estimate_trailing_input_tokens :: "message list \<Rightarrow> contribution list \<Rightarrow> nat \<Rightarrow> int" where
  "estimate_trailing_input_tokens ms cs start =
     fold (\<lambda>c acc. acc + con_tokens c) cs
       (fold (\<lambda>m acc. acc + estimate_tokens (msg_content m)) (drop start ms) 0)"

text \<open>An anchor is usable when it reports tokens and points into the message list.\<close>

definition anchor_usable :: "usage_anchor option \<Rightarrow> message list \<Rightarrow> bool" where
  "anchor_usable anchor ms \<longleftrightarrow>
     (case anchor of
        None \<Rightarrow> False
      | Some a \<Rightarrow> eu_context_tokens (anc_usage a) > 0 \<and> anc_message_index a \<ge> 0 \<and>
                  anc_message_index a < int (length ms))"

definition estimate_usage_led_input_tokens ::
  "string \<Rightarrow> message list \<Rightarrow> contribution list \<Rightarrow> usage_anchor option \<Rightarrow> int" where
  "estimate_usage_led_input_tokens system_prompt ms cs anchor =
     (case anchor of
        Some a \<Rightarrow>
          if anchor_usable anchor ms
          then eu_context_tokens (anc_usage a)
               + estimate_trailing_input_tokens ms cs (nat (anc_message_index a + 1))
          else fold (\<lambda>c acc. acc + con_tokens c) cs (estimate_input_tokens system_prompt ms)
      | None \<Rightarrow> fold (\<lambda>c acc. acc + con_tokens c) cs (estimate_input_tokens system_prompt ms))"

definition contributor_preview :: "string \<Rightarrow> string" where
  "contributor_preview content =
     (let preview = join_with '' '' (str_fields content) in
      if rune_count preview \<le> preview_runes then preview
      else string_of_runes (take preview_runes (go_runes preview)) @ ellipsis)"

definition new_token_contributor :: "string \<Rightarrow> string \<Rightarrow> string \<Rightarrow> int \<Rightarrow> token_contributor" where
  "new_token_contributor label rl content tokens =
     \<lparr>tc_label = label, tc_role = rl, tc_preview = contributor_preview content,
      tc_tokens = tokens, tc_chars = int (rune_count content)\<rparr>"

definition system_contributors :: "string \<Rightarrow> token_contributor list" where
  "system_contributors system_prompt =
     (if estimate_tokens system_prompt > 0
      then [new_token_contributor ''system prompt'' ''system'' system_prompt (estimate_tokens system_prompt)]
      else [])"

definition message_contributors :: "message list \<Rightarrow> token_contributor list" where
  "message_contributors ms =
     concat (map (\<lambda>(i, m).
       if estimate_tokens (msg_content m) > 0
       then [new_token_contributor (''message '' @ itoa (int i + 1)) (role_name (msg_role m))
               (msg_content m) (estimate_tokens (msg_content m))]
       else []) (enumerate 0 ms))"

definition extension_contributors :: "contribution list \<Rightarrow> token_contributor list" where
  "extension_contributors cs =
     map (\<lambda>(i, c).
       new_token_contributor
         (if con_name c = [] then ''extension contribution '' @ itoa (int i + 1) else con_name c)
         (con_role c) (con_content c) (con_tokens c)) (enumerate 0 cs)"

definition all_contributors :: "string \<Rightarrow> message list \<Rightarrow> contribution list \<Rightarrow> token_contributor list" where
  "all_contributors system_prompt ms cs =
     system_contributors system_prompt @ message_contributors ms @ extension_contributors cs"

definition ranked_contributors ::
  "(token_contributor list \<Rightarrow> token_contributor list) \<Rightarrow>
   string \<Rightarrow> message list \<Rightarrow> contribution list \<Rightarrow> token_contributor list" where
  "ranked_contributors sort_func system_prompt ms cs =
     (let contributors = sort_func (all_contributors system_prompt ms cs) in
      if length contributors > max_contributors then take max_contributors contributors
      else contributors)"

definition estimate_build_usage ::
  "(token_contributor list \<Rightarrow> token_contributor list) \<Rightarrow> string \<Rightarrow> message list \<Rightarrow> contribution list \<Rightarrow>
   ai_model option \<Rightarrow> int gomap \<Rightarrow> usage_anchor option \<Rightarrow> usage" where
  "estimate_build_usage sort_func system_prompt ms cs selected bd anchor =
     (let tokens = estimate_usage_led_input_tokens system_prompt ms cs anchor;
          window = (case selected of None \<Rightarrow> 0 | Some m \<Rightarrow> mdl_context_window m)
      in \<lparr>breakdown = clone_or_nil bd,
          provenance = (if anchor_usable anchor ms then ProviderAnchorEstimate else LocalEstimate),
          top_contributors = ranked_contributors sort_func system_prompt ms cs,
          context_window = window, context_tokens = tokens, input_tokens = tokens, output_tokens = 0\<rparr>)"

definition merge_model_usage :: "usage \<Rightarrow> usage \<Rightarrow> usage" where
  "merge_model_usage estimated rep =
     usage_to_model (merge_usage (usage_from_model estimated) (usage_from_model rep))"

definition provider_usage_entity :: "usage option \<Rightarrow> entry_usage option" where
  "provider_usage_entity u =
     (case u of
        None \<Rightarrow> None
      | Some u \<Rightarrow>
          if input_tokens u \<le> 0 \<and> context_tokens u \<le> 0 \<and> context_window u \<le> 0 \<and> output_tokens u \<le> 0
          then None
          else Some \<lparr>eu_context_window = context_window u, eu_context_tokens = context_tokens u,
                     eu_input_tokens = input_tokens u, eu_output_tokens = output_tokens u\<rparr>)"

section \<open>Extension contributions\<close>

definition string_from_any :: "go_any \<Rightarrow> string" where
  "string_from_any v = (case v of VString s \<Rightarrow> s | _ \<Rightarrow> [])"

definition map_from_any :: "go_any \<Rightarrow> (string \<times> go_any) list" where
  "map_from_any v = (case v of VMap m \<Rightarrow> m | _ \<Rightarrow> [])"

definition any_get :: "(string \<times> go_any) list \<Rightarrow> string \<Rightarrow> go_any" where
  "any_get m k = (case map_of m k of None \<Rightarrow> VNil | Some v \<Rightarrow> v)"

text \<open>\<open>numericMapValues\<close>: the values of keys "1", "2", ... up to the map's size; a gap empties the result.\<close>

definition numeric_map_values :: "(string \<times> go_any) list \<Rightarrow> go_any list" where
  "numeric_map_values m =
     (let vs = map (\<lambda>i. map_of m (itoa (int i))) [1 ..< length m + 1]
      in if None \<in> set vs then [] else map the vs)"

datatype contribution_cause = MustBeObject | ContentRequired | ContentExceedsLimit int

definition contribution_from_value :: "go_any \<Rightarrow> contribution_cause + contribution" where
  "contribution_from_value v =
     (case v of
        VMap obj \<Rightarrow>
          (let content = trim_space (string_from_any (any_get obj ''content'')) in
           if content = [] then Inl ContentRequired
           else let tokens = estimate_tokens content in
             if tokens > contribution_max_tokens then Inl (ContentExceedsLimit contribution_max_tokens)
             else let source = string_from_any (any_get obj ''source'');
                      rl = string_from_any (any_get obj ''role'')
                  in Inr \<lparr>con_metadata = map_from_any (any_get obj ''metadata''),
                          con_source = (if source = [] then ''extension'' else source),
                          con_name = string_from_any (any_get obj ''name''),
                          con_role = (if rl = [] then ''system'' else rl),
                          con_content = content, con_tokens = tokens\<rparr>)
      | _ \<Rightarrow> Inl MustBeObject)"

definition diagnostic_label :: "string \<Rightarrow> string" where
  "diagnostic_label label =
     (let label = trim_space label in
      if label = [] then ''<unnamed>''
      else let runes = go_runes label in
        if length runes > 64 then string_of_runes (take 64 runes) @ ellipsis else label)"

datatype contributions_error =
  InvalidContributionBudget int | ContributionsNotAList
  | InvalidContribution nat contribution_cause
  | ExtensionBudgetExceeded nat string string int int int

fun collect_contributions ::
  "int \<Rightarrow> nat \<Rightarrow> int \<Rightarrow> contribution list \<Rightarrow> go_any list \<Rightarrow> contributions_error + contribution list" where
  "collect_contributions limit i used acc [] = Inr acc"
| "collect_contributions limit i used acc (v # vs) =
     (case contribution_from_value v of
        Inl e \<Rightarrow> Inl (InvalidContribution i e)
      | Inr c \<Rightarrow>
          if con_tokens c > limit - used
          then Inl (ExtensionBudgetExceeded i (diagnostic_label (con_name c))
                      (diagnostic_label (con_source c)) (con_tokens c) used limit)
          else collect_contributions limit (Suc i) (used + con_tokens c) (acc @ [c]) vs)"

definition contributions_from_payload ::
  "(string \<times> go_any) list \<Rightarrow> int \<Rightarrow> contributions_error + contribution list" where
  "contributions_from_payload payload limit =
     (if limit \<le> 0 then Inl (InvalidContributionBudget limit)
      else case map_of payload ''contributions'' of
             None \<Rightarrow> Inr []
           | Some VNil \<Rightarrow> Inr []
           | Some (VList vs) \<Rightarrow> collect_contributions limit 0 0 [] vs
           | Some (VMap m) \<Rightarrow> collect_contributions limit 0 0 [] (numeric_map_values m)
           | Some _ \<Rightarrow> Inl ContributionsNotAList)"

definition contribution_block :: "(string \<Rightarrow> string) \<Rightarrow> contribution \<Rightarrow> string" where
  "contribution_block quote c =
     newline @ ''<block'' @ (if con_name c \<noteq> [] then '' name='' @ quote (con_name c) else [])
     @ '' source='' @ quote (con_source c) @ '' role='' @ quote (con_role c)
     @ '' tokens='' @ itoa (con_tokens c) @ ''>'' @ newline @ con_content c @ newline @ ''</block>''"

definition append_contributions ::
  "(string \<Rightarrow> string) \<Rightarrow> build_result \<Rightarrow> contribution list \<Rightarrow> build_result" where
  "append_contributions quote result cs =
     (if cs = [] then result
      else result\<lparr>br_contributions := br_contributions result @ cs,
                  br_system_prompt := br_system_prompt result @ newline @ newline @ ''<extension_context>''
                    @ concat (map (contribution_block quote) cs) @ newline @ ''</extension_context>''\<rparr>)"

section \<open>Lemmas\<close>

lemma contribution_total_eq: "contribution_total cs = (\<Sum>c\<leftarrow>cs. con_tokens c)"
  by (simp add: contribution_total_def fold_add_int)

lemma estimate_trailing_eq:
  "estimate_trailing_input_tokens ms cs k =
     (\<Sum>m\<leftarrow>drop k ms. estimate_tokens (msg_content m)) + contribution_total cs"
  by (simp add: estimate_trailing_input_tokens_def contribution_total_eq fold_add_int)

definition image_cost :: "message list \<Rightarrow> int" where
  "image_cost ms = (\<Sum>m\<leftarrow>ms. \<Sum>p\<leftarrow>msg_parts m. part_tokens p)"

lemma estimate_message_tokens_split:
  "estimate_message_tokens ms = (\<Sum>m\<leftarrow>ms. estimate_tokens (msg_content m)) + image_cost ms"
  by (induction ms)
     (simp_all add: image_cost_def estimate_message_tokens_Cons estimate_one_message_tokens_eq)

lemma contribution_from_value_ok:
  "contribution_from_value v = Inr c \<Longrightarrow>
   con_tokens c = estimate_tokens (con_content c) \<and> 0 < con_tokens c \<and> con_tokens c \<le> 2048 \<and>
   con_source c \<noteq> [] \<and> con_role c \<noteq> []"
proof -
  assume ok: "contribution_from_value v = Inr c"
  then obtain obj where v: "v = VMap obj" by (cases v) (simp_all add: contribution_from_value_def)
  let ?s = "trim_space (string_from_any (any_get obj ''content''))"
  have "0 < estimate_tokens ?s" if "?s \<noteq> []"
    using that by (intro estimate_tokens_pos) simp
  with ok v show ?thesis
    by (auto simp: contribution_from_value_def contribution_max_tokens_def Let_def split: if_splits)
qed

lemma collect_contributions_ok:
  "collect_contributions limit i used acc vs = Inr cs \<Longrightarrow>
   \<exists>new. cs = acc @ new \<and> length new = length vs \<and>
     (\<forall>c \<in> set new. con_tokens c = estimate_tokens (con_content c) \<and> 0 < con_tokens c \<and> con_tokens c \<le> 2048) \<and>
     (\<forall>k < length vs. contribution_from_value (vs ! k) = Inr (new ! k)) \<and>
     (used \<le> limit \<longrightarrow> used + (\<Sum>c\<leftarrow>new. con_tokens c) \<le> limit)"
proof (induction limit i used acc vs rule: collect_contributions.induct)
  case (1 limit i used acc)
  then show ?case by simp
next
  case (2 limit i used acc v vs)
  then obtain c where c: "contribution_from_value v = Inr c" and le: "con_tokens c \<le> limit - used"
    and rest: "collect_contributions limit (Suc i) (used + con_tokens c) (acc @ [c]) vs = Inr cs"
    by (auto split: sum.splits if_splits)
  from "2.IH" [OF c _ rest] le obtain new where new: "cs = (acc @ [c]) @ new" "length new = length vs"
    "\<forall>c \<in> set new. con_tokens c = estimate_tokens (con_content c) \<and> 0 < con_tokens c \<and> con_tokens c \<le> 2048"
    "\<forall>k < length vs. contribution_from_value (vs ! k) = Inr (new ! k)"
    "used + con_tokens c \<le> limit \<longrightarrow> used + con_tokens c + (\<Sum>c\<leftarrow>new. con_tokens c) \<le> limit"
    by auto
  have "\<forall>k < length (v # vs). contribution_from_value ((v # vs) ! k) = Inr ((c # new) ! k)"
    using c new(4) by (auto simp: nth_Cons split: nat.splits)
  with new le contribution_from_value_ok [OF c] show ?case
    by (intro exI [of _ "c # new"]) auto
qed

lemma ranked_contributors_take:
  "ranked_contributors f sp ms cs = take 8 (f (all_contributors sp ms cs))"
  by (simp add: ranked_contributors_def max_contributors_def Let_def)

section \<open>Properties\<close>

lemma sample_text: "trim_space ''abcd'' = ''abcd''" "rune_count ''abcd'' = 4"
proof -
  show "trim_space ''abcd'' = ''abcd''"
    by (simp add: trim_space_def trim_left.simps [of "CHR ''a'' # _"] trim_right.simps [of "CHR ''a'' # _"]
        decode_rune_ascii decode_last_rune_def byte_def is_space_def)
  show "rune_count ''abcd'' = 4"
    by (simp add: rune_count_def go_runes.simps decode_rune_ascii byte_def)
qed

text \<open>
  Accepted extension contributions respect both limits: every contribution costs between
  1 and 2048 tokens, their sum stays within the aggregate limit, and they are the payload's
  entries one for one in payload order.
\<close>

theorem contributions_within_limits:
  assumes "map_of payload ''contributions'' = Some (VList vs)"
    and "contributions_from_payload payload limit = Inr cs"
  shows "contribution_total cs \<le> limit \<and> length cs = length vs \<and>
    (\<forall>c \<in> set cs. 0 < con_tokens c \<and> con_tokens c \<le> 2048) \<and>
    (\<forall>k < length vs. contribution_from_value (vs ! k) = Inr (cs ! k))"
proof -
  from assms have "0 < limit" "collect_contributions limit 0 0 [] vs = Inr cs"
    by (auto simp: contributions_from_payload_def split: if_splits)
  with collect_contributions_ok [of limit 0 0 "[]" vs cs] show ?thesis
    by (auto simp: contribution_total_eq)
qed

theorem contributions_within_limits_witness:
  "\<exists>cs. contributions_from_payload [(''contributions'', VList [VMap [(''content'', VString ''abcd'')]])] 2 = Inr cs
     \<and> length cs = 1 \<and> contribution_total cs \<le> 2"
proof -
  let ?v = "VMap [(''content'', VString ''abcd'')]"
  have "\<exists>cs. contributions_from_payload [(''contributions'', VList [?v])] 2 = Inr cs"
    by (simp add: contributions_from_payload_def contribution_from_value_def any_get_def string_from_any_def
        contribution_max_tokens_def estimate_tokens_eq sample_text Let_def)
  then obtain cs where cs: "contributions_from_payload [(''contributions'', VList [?v])] 2 = Inr cs" by blast
  from contributions_within_limits [OF _ cs, of "[?v]"] cs show ?thesis by simp
qed

text \<open>
  The contributor report is, for any sorting function that meets Go's contract, the eight
  (or fewer) largest contributors in descending order: everything left out is no larger than
  everything listed.
\<close>

theorem ranked_contributors_top:
  assumes "sorts_by (\<lambda>c. - tc_tokens c) sort_func"
  shows "length (ranked_contributors sort_func sp ms cs) = min 8 (length (all_contributors sp ms cs)) \<and>
    sorted (map (\<lambda>c. - tc_tokens c) (ranked_contributors sort_func sp ms cs)) \<and>
    (\<exists>omitted. mset (ranked_contributors sort_func sp ms cs) + mset omitted = mset (all_contributors sp ms cs) \<and>
       (\<forall>c \<in> set (ranked_contributors sort_func sp ms cs). \<forall>d \<in> set omitted. tc_tokens d \<le> tc_tokens c))"
proof -
  let ?all = "all_contributors sp ms cs" and ?s = "sort_func (all_contributors sp ms cs)"
  have m: "mset ?s = mset ?all" and so: "sorted (map (\<lambda>c. - tc_tokens c) ?s)"
    using assms by (auto simp: sorts_by_def)
  have "tc_tokens d \<le> tc_tokens c" if "c \<in> set (take 8 ?s)" "d \<in> set (drop 8 ?s)" for c d
    using sorted_take_le_drop [OF so that] by simp
  moreover have "mset (take 8 ?s) + mset (drop 8 ?s) = mset ?all"
    using m by (metis append_take_drop_id mset_append)
  moreover have "sorted (map (\<lambda>c. - tc_tokens c) (take 8 ?s))"
    using so by (metis sorted_wrt_take take_map)
  moreover have "length ?s = length ?all" using m by (metis size_mset)
  ultimately show ?thesis
    unfolding ranked_contributors_take by (auto intro!: exI [of _ "drop 8 ?s"])
qed

theorem ranked_contributors_top_witness:
  "length (ranked_contributors (sort_key (\<lambda>c. - tc_tokens c)) ''abcd'' [] []) = 1"
proof -
  have "length (all_contributors ''abcd'' [] []) = 1"
    by (simp add: all_contributors_def system_contributors_def message_contributors_def
        extension_contributors_def estimate_tokens_eq sample_text)
  with ranked_contributors_top [OF sorts_by_sort_key, of "''abcd''" "[]" "[]"]
  show ?thesis by simp
qed

text \<open>
  Led by a usable anchor, the estimate is the provider's reported context plus the text of
  the messages after the anchor and the contributions. It is the full local estimate of those
  messages short of exactly their image cost: images sent after the anchor count as free.
\<close>

theorem usage_led_estimate_gap:
  assumes "anchor_usable (Some a) ms"
  shows "estimate_usage_led_input_tokens sp ms cs (Some a) =
    eu_context_tokens (anc_usage a)
    + estimate_message_tokens (drop (nat (anc_message_index a + 1)) ms)
    - image_cost (drop (nat (anc_message_index a + 1)) ms)
    + contribution_total cs"
  using assms
  by (simp add: estimate_usage_led_input_tokens_def estimate_trailing_eq estimate_message_tokens_split)

definition sample_anchor :: usage_anchor where
  "sample_anchor = \<lparr>anc_entry_id = ''e1'', anc_provider = [], anc_model = [],
     anc_usage = \<lparr>eu_context_window = 0, eu_context_tokens = 500, eu_input_tokens = 0, eu_output_tokens = 0\<rparr>,
     anc_message_index = 0\<rparr>"

definition image_message :: message where
  "image_message = empty_message\<lparr>msg_role := RoleUser, msg_parts := [sample_image]\<rparr>"

theorem usage_led_estimate_gap_witness:
  "estimate_usage_led_input_tokens [] [empty_message, image_message] [] (Some sample_anchor) = 500 \<and>
   256 \<le> image_cost [image_message]"
proof -
  have u: "anchor_usable (Some sample_anchor) [empty_message, image_message]"
    by (simp add: anchor_usable_def sample_anchor_def)
  have c: "256 \<le> image_cost [image_message]"
    using estimate_image_tokens_bounds [of 8000 5000]
    by (simp add: image_cost_def image_message_def sample_image_def part_tokens_def minimum_image_tokens_def)
  have "estimate_message_tokens [image_message] = image_cost [image_message]"
    by (simp add: estimate_message_tokens_split image_message_def empty_message_def estimate_tokens_eq
        del: estimate_message_tokens_single)
  with usage_led_estimate_gap [OF u, of "[]" "[]"] c show ?thesis
    by (simp add: sample_anchor_def contribution_total_eq del: estimate_message_tokens_single)
qed

lemma merge_model_usage_eq:
  "merge_model_usage e r =
   (let m = merge_usage (e\<lparr>breakdown := clone_or_nil (breakdown e)\<rparr>) (r\<lparr>breakdown := clone_or_nil (breakdown r)\<rparr>)
    in m\<lparr>breakdown := clone_or_nil (breakdown m)\<rparr>)"
  by (simp add: merge_model_usage_def usage_from_model_eq usage_to_model_eq Let_def)

lemma merge_model_usage_fields:
  "reported (merge_model_usage e r) \<longleftrightarrow> reported e \<or> reported r"
  "context_window (merge_model_usage e r) = (if context_window r > 0 then context_window r else context_window e)"
  "context_tokens (merge_model_usage e r) = (if context_tokens r > 0 then context_tokens r else context_tokens e)"
  "input_tokens (merge_model_usage e r) = (if input_tokens r > 0 then input_tokens r else input_tokens e)"
  "output_tokens (merge_model_usage e r) = (if output_tokens r > 0 then output_tokens r else output_tokens e)"
  "map_entries (breakdown (merge_model_usage e r)) =
     (if map_len (breakdown e) = 0 then map_entries (breakdown r) else map_entries (breakdown e))"
  "top_contributors (merge_model_usage e r) =
     (if top_contributors e = [] then top_contributors r else top_contributors e)"
  by (auto simp: merge_model_usage_eq Let_def reported_def merge_usage_fields map_len_def)

lemma merge_model_usage_idem:
  "map_entries (breakdown (merge_model_usage (merge_model_usage e r) r)) =
     map_entries (breakdown (merge_model_usage e r))"
  by (simp add: merge_model_usage_fields map_len_def)

text \<open>
  Overlaying provider-reported usage on an estimate keeps the breakdown and contributor
  diagnostics of the estimate when it has any, takes every positive provider count, marks the
  result as reported exactly when either side was, and is idempotent.
\<close>

theorem merge_model_usage_overlay:
  "reported (merge_model_usage e r) = (reported e \<or> reported r) \<and>
   (\<forall>f \<in> {context_window, context_tokens, input_tokens, output_tokens}.
      f (merge_model_usage e r) = (if f r > 0 then f r else f e)) \<and>
   map_entries (breakdown (merge_model_usage e r)) =
     (if map_entries (breakdown e) = [] then map_entries (breakdown r) else map_entries (breakdown e)) \<and>
   merge_model_usage (merge_model_usage e r) r = merge_model_usage e r"
proof -
  have "merge_model_usage (merge_model_usage e r) r = merge_model_usage e r"
    by (rule usage.equality)
       (auto simp: merge_model_usage_eq merge_usage_fields reported_def clone_or_nil_def map_len_def Let_def)
  then show ?thesis by (simp add: merge_model_usage_fields map_len_def)
qed

theorem merge_model_usage_overlay_witness:
  "context_tokens (merge_model_usage (empty_usage\<lparr>context_tokens := 7, input_tokens := 9\<rparr>)
     (empty_usage\<lparr>context_tokens := 5\<rparr>)) = 5"
  using merge_model_usage_overlay [of "empty_usage\<lparr>context_tokens := 7, input_tokens := 9\<rparr>"
      "empty_usage\<lparr>context_tokens := 5\<rparr>"]
  by (simp add: empty_usage_def)

end
