(* ===== verification/Compaction_Groups.thy ===== *)
theory Compaction_Groups
  imports Context_Window
begin

text \<open>
  Semantic groups and their packing into summary requests
  (\<^verbatim>\<open>internal/compaction/groups.go\<close>). A slice position that only moves forward
  (\<open>index\<close>, \<open>nextIndex\<close>) is modelled by the list that remains from it on.
\<close>

section \<open>Data\<close>

datatype group_kind = HistoryTurn | Reduction

record semantic_group =
  grp_kind :: group_kind
  grp_entry_ids :: "string list"
  grp_messages :: "message list"
  grp_tokens :: int

record chunk =
  chk_groups :: "semantic_group list"
  chk_messages :: "message list"
  chk_tokens :: int

datatype partition_error =
  FixedOverheadAvailable int | EmptyGroup nat | OrphanedMessage nat | IndivisibleGroup int int
  | IndivisibleChunk | TooManyChunks nat | NoChunks

definition max_chunks_per_round :: nat where "max_chunks_per_round = 32"
definition max_reduction_depth :: nat where "max_reduction_depth = 4"

section \<open>Operations\<close>

definition starts_semantic_turn :: "role \<Rightarrow> bool" where
  "starts_semantic_turn r \<longleftrightarrow> r = RoleUser \<or> r = RoleCustom \<or> r = RoleBashExecution"

definition empty_turn :: semantic_group where
  "empty_turn = \<lparr>grp_kind = HistoryTurn, grp_entry_ids = [], grp_messages = [], grp_tokens = 0\<rparr>"

definition add_to_group :: "semantic_group \<Rightarrow> message \<Rightarrow> string option \<Rightarrow> semantic_group" where
  "add_to_group g m entry_id =
     g\<lparr>grp_messages := grp_messages g @ [m],
       grp_entry_ids := (case entry_id of
                           Some i \<Rightarrow> if i \<noteq> [] then grp_entry_ids g @ [i] else grp_entry_ids g
                         | None \<Rightarrow> grp_entry_ids g),
       grp_tokens := grp_tokens g + estimate_message_tokens [m]\<rparr>"

text \<open>
  The loop of \<open>GroupsFromMessages\<close>; \<open>ids\<close> are the entry ids from the current index on, so
  \<open>index < len(entryIDs)\<close> reads as \<open>ids \<noteq> []\<close>.
\<close>

fun groups_loop :: "semantic_group list \<Rightarrow> string list \<Rightarrow> message list \<Rightarrow> semantic_group list" where
  "groups_loop groups ids [] = groups"
| "groups_loop groups ids (m # ms) =
     (let groups = (if groups = [] \<or> starts_semantic_turn (msg_role m) then groups @ [empty_turn] else groups);
          entry_id = (case ids of [] \<Rightarrow> None | i # _ \<Rightarrow> Some i)
      in groups_loop (butlast groups @ [add_to_group (last groups) m entry_id]) (tl ids) ms)"

definition groups_from_messages :: "message list \<Rightarrow> string list \<Rightarrow> semantic_group list" where
  "groups_from_messages ms ids = groups_loop [] ids ms"

definition validate_semantic_group :: "semantic_group \<Rightarrow> nat \<Rightarrow> int \<Rightarrow> partition_error option" where
  "validate_semantic_group g index available =
     (case grp_messages g of
        [] \<Rightarrow> Some (EmptyGroup index)
      | m # _ \<Rightarrow>
          if grp_tokens g \<le> 0 then Some (EmptyGroup index)
          else if grp_kind g = HistoryTurn \<and> \<not> starts_semantic_turn (msg_role m)
          then Some (OrphanedMessage index)
          else if grp_tokens g > available then Some (IndivisibleGroup (grp_tokens g) available)
          else None)"

fun validate_groups :: "nat \<Rightarrow> int \<Rightarrow> semantic_group list \<Rightarrow> partition_error option" where
  "validate_groups index available [] = None"
| "validate_groups index available (g # gs) =
     (case validate_semantic_group g index available of
        Some e \<Rightarrow> Some e
      | None \<Rightarrow> validate_groups (Suc index) available gs)"

definition empty_chunk :: chunk where
  "empty_chunk = \<lparr>chk_groups = [], chk_messages = [], chk_tokens = 0\<rparr>"

fun pack_chunk :: "chunk \<Rightarrow> int \<Rightarrow> semantic_group list \<Rightarrow> chunk \<times> semantic_group list" where
  "pack_chunk c available [] = (c, [])"
| "pack_chunk c available (g # gs) =
     (if chk_tokens c + grp_tokens g \<le> available
      then pack_chunk
             \<lparr>chk_groups = chk_groups c @ [g], chk_messages = chk_messages c @ grp_messages g,
              chk_tokens = chk_tokens c + grp_tokens g\<rparr> available gs
      else (c, g # gs))"

definition group_weight :: "semantic_group list \<Rightarrow> int" where
  "group_weight gs = (\<Sum>g\<leftarrow>gs. grp_tokens g)"

lemma group_weight_simps [simp]:
  "group_weight [] = 0" "group_weight (g # gs) = grp_tokens g + group_weight gs"
  "group_weight (xs @ ys) = group_weight xs + group_weight ys"
  by (simp_all add: group_weight_def)

text \<open>
  What one packing step returns: a prefix of the remaining groups is added, it fits, and the
  next group, if any, would not fit.
\<close>

lemma pack_chunk_prefix:
  "pack_chunk c available gs = (c', rest) \<Longrightarrow>
   \<exists>q. gs = q @ rest \<and> chk_groups c' = chk_groups c @ q \<and>
     chk_messages c' = chk_messages c @ concat (map grp_messages q) \<and>
     chk_tokens c' = chk_tokens c + group_weight q \<and>
     (chk_tokens c \<le> available \<longrightarrow> chk_tokens c' \<le> available) \<and>
     (rest \<noteq> [] \<longrightarrow> available < chk_tokens c' + grp_tokens (hd rest))"
proof (induction c available gs rule: pack_chunk.induct)
  case (1 c available)
  then show ?case by simp
next
  case (2 c available g gs)
  show ?case
  proof (cases "chk_tokens c + grp_tokens g \<le> available")
    case True
    with "2.prems" have "pack_chunk
        \<lparr>chk_groups = chk_groups c @ [g], chk_messages = chk_messages c @ grp_messages g,
         chk_tokens = chk_tokens c + grp_tokens g\<rparr> available gs = (c', rest)" by simp
    from "2.IH" [OF True this] obtain q where "gs = q @ rest"
      "chk_groups c' = chk_groups c @ g # q"
      "chk_messages c' = chk_messages c @ grp_messages g @ concat (map grp_messages q)"
      "chk_tokens c' = chk_tokens c + grp_tokens g + group_weight q"
      "chk_tokens c' \<le> available"
      "rest \<noteq> [] \<longrightarrow> available < chk_tokens c' + grp_tokens (hd rest)"
      using True by auto
    then show ?thesis by (intro exI [of _ "g # q"]) auto
  next
    case False
    with "2.prems" show ?thesis by (intro exI [of _ "[]"]) auto
  qed
qed

text \<open>The packing loop of \<open>Partition\<close>.\<close>

function pack_loop ::
  "int \<Rightarrow> nat \<Rightarrow> chunk list \<Rightarrow> semantic_group list \<Rightarrow> partition_error + chunk list" where
  "pack_loop available max_chunks chunks gs =
     (if gs = [] then Inr chunks
      else let (c, rest) = pack_chunk empty_chunk available gs in
        if chk_groups c = [] then Inl IndivisibleChunk
        else let chunks = chunks @ [c] in
          if length chunks > max_chunks then Inl (TooManyChunks max_chunks)
          else pack_loop available max_chunks chunks rest)"
  by pat_completeness auto
termination
proof (relation "measure (\<lambda>(_, _, _, gs). length gs)", simp, clarsimp)
  fix available :: int and gs rest :: "semantic_group list" and c :: chunk
  assume p: "(c, rest) = pack_chunk empty_chunk available gs" and ne: "chk_groups c \<noteq> []"
  from pack_chunk_prefix [OF p [symmetric]] ne show "length rest < length gs"
    by (auto simp: empty_chunk_def)
qed

declare pack_loop.simps [simp del]

text \<open>The clamp of \<open>maxChunks\<close> to the limit of a reduction round.\<close>

definition chunk_limit :: "int \<Rightarrow> nat" where
  "chunk_limit max_chunks =
     (if max_chunks \<le> 0 \<or> max_chunks > int max_chunks_per_round then max_chunks_per_round else nat max_chunks)"

definition partition :: "semantic_group list \<Rightarrow> int \<Rightarrow> int \<Rightarrow> partition_error + chunk list" where
  "partition groups available max_chunks =
     (if available \<le> 0 then Inl (FixedOverheadAvailable available)
      else
        let max_chunks = chunk_limit max_chunks in
        case validate_groups 0 available groups of
          Some e \<Rightarrow> Inl e
        | None \<Rightarrow>
            (case pack_loop available max_chunks [] groups of
               Inl e \<Rightarrow> Inl e
             | Inr chunks \<Rightarrow> if chunks = [] then Inl NoChunks else Inr chunks))"

section \<open>Grouping\<close>

definition well_grouped :: "semantic_group list \<Rightarrow> bool" where
  "well_grouped gs \<longleftrightarrow>
     (\<forall>g \<in> set gs. grp_kind g = HistoryTurn \<and> grp_messages g \<noteq> [] \<and>
        grp_tokens g = estimate_message_tokens (grp_messages g) \<and>
        (\<forall>m \<in> set (tl (grp_messages g)). \<not> starts_semantic_turn (msg_role m))) \<and>
     (\<forall>g \<in> set (tl gs). starts_semantic_turn (msg_role (hd (grp_messages g))))"

definition flat_messages :: "semantic_group list \<Rightarrow> message list" where
  "flat_messages gs = concat (map grp_messages gs)"

definition flat_ids :: "semantic_group list \<Rightarrow> string list" where
  "flat_ids gs = concat (map grp_entry_ids gs)"

lemma add_to_group_simps [simp]:
  "grp_messages (add_to_group g m i) = grp_messages g @ [m]"
  "grp_kind (add_to_group g m i) = grp_kind g"
  "grp_tokens (add_to_group g m i) = grp_tokens g + estimate_one_message_tokens m"
  by (simp_all add: add_to_group_def)

lemma add_to_group_ids:
  "grp_entry_ids (add_to_group g m i) =
     grp_entry_ids g @ (case i of Some j \<Rightarrow> if j \<noteq> [] then [j] else [] | None \<Rightarrow> [])"
  by (simp add: add_to_group_def split: option.split)

lemma well_grouped_new:
  assumes "well_grouped gs" and "gs = [] \<or> starts_semantic_turn (msg_role m)"
  shows "well_grouped (gs @ [add_to_group empty_turn m i])"
  using assms by (cases gs) (auto simp: well_grouped_def empty_turn_def)

lemma well_grouped_extend:
  assumes "well_grouped gs" and "gs \<noteq> []" and "\<not> starts_semantic_turn (msg_role m)"
  shows "well_grouped (butlast gs @ [add_to_group (last gs) m i])"
proof -
  from assms(2) obtain hs g where gs: "gs = hs @ [g]" by (cases gs rule: rev_cases) auto
  with assms show ?thesis
    by (cases hs) (auto simp: well_grouped_def)
qed

lemma groups_loop_well_grouped: "well_grouped gs \<Longrightarrow> well_grouped (groups_loop gs ids ms)"
proof (induction gs ids ms rule: groups_loop.induct)
  case (1 groups ids)
  then show ?case by simp
next
  case (2 groups ids m ms)
  let ?g = "if groups = [] \<or> starts_semantic_turn (msg_role m) then groups @ [empty_turn] else groups"
  let ?i = "case ids of [] \<Rightarrow> None | i # _ \<Rightarrow> Some i"
  have "well_grouped (butlast ?g @ [add_to_group (last ?g) m ?i])"
  proof (cases "groups = [] \<or> starts_semantic_turn (msg_role m)")
    case True
    with well_grouped_new [OF "2.prems" True] show ?thesis by simp
  next
    case False
    with well_grouped_extend [OF "2.prems"] show ?thesis by simp
  qed
  from "2.IH" [OF refl refl this] show ?case by (simp add: Let_def)
qed

lemma groups_loop_messages: "flat_messages (groups_loop gs ids ms) = flat_messages gs @ ms"
proof (induction gs ids ms rule: groups_loop.induct)
  case (2 groups ids m ms)
  have "flat_messages (butlast g @ [add_to_group (last g) m i]) = flat_messages g @ [m]"
    if "g \<noteq> []" for g i
    using that by (cases g rule: rev_cases) (auto simp: flat_messages_def)
  with 2 show ?case by (auto simp: Let_def flat_messages_def empty_turn_def)
qed simp

lemma groups_loop_ids:
  "length ids = length ms \<Longrightarrow>
   flat_ids (groups_loop gs ids ms) = flat_ids gs @ filter (\<lambda>i. i \<noteq> []) ids"
proof (induction gs ids ms rule: groups_loop.induct)
  case (2 groups ids m ms)
  then obtain j js where ids: "ids = j # js" by (cases ids) auto
  have "flat_ids (butlast g @ [add_to_group (last g) m (Some j)]) = flat_ids g @ (if j \<noteq> [] then [j] else [])"
    if "g \<noteq> []" for g
    using that by (cases g rule: rev_cases) (auto simp: flat_ids_def add_to_group_ids)
  with 2 ids show ?case by (auto simp: Let_def flat_ids_def empty_turn_def add_to_group_ids)
qed simp

section \<open>Packing\<close>

lemma validate_semantic_group_None:
  "validate_semantic_group g i a = None \<longleftrightarrow>
     grp_messages g \<noteq> [] \<and> 0 < grp_tokens g \<and> grp_tokens g \<le> a \<and>
     (grp_kind g = HistoryTurn \<longrightarrow> starts_semantic_turn (msg_role (hd (grp_messages g))))"
  by (auto simp: validate_semantic_group_def split: list.split)

lemma validate_groups_None:
  "validate_groups i a gs = None \<longleftrightarrow> (\<forall>g \<in> set gs. validate_semantic_group g 0 a = None)"
proof (induction gs arbitrary: i)
  case (Cons g gs)
  have "(validate_semantic_group g i a = None) = (validate_semantic_group g 0 a = None)"
    by (simp add: validate_semantic_group_None)
  with Cons show ?case by (cases "validate_semantic_group g i a") auto
qed simp

definition chunk_ok :: "int \<Rightarrow> chunk \<Rightarrow> bool" where
  "chunk_ok available c \<longleftrightarrow> chk_groups c \<noteq> [] \<and> chk_tokens c = group_weight (chk_groups c) \<and>
     chk_tokens c \<le> available \<and> chk_messages c = concat (map grp_messages (chk_groups c))"

lemma pack_first:
  assumes "pack_chunk empty_chunk available gs = (c, rest)" and "0 \<le> available"
  shows "gs = chk_groups c @ rest \<and> (chk_groups c \<noteq> [] \<longrightarrow> chunk_ok available c) \<and>
    (rest \<noteq> [] \<longrightarrow> available < group_weight (chk_groups c) + grp_tokens (hd rest))"
  using pack_chunk_prefix [OF assms(1)] assms(2) by (auto simp: empty_chunk_def chunk_ok_def)

text \<open>
  With weights that are not negative, every prefix that fits is contained in the packed one.
\<close>

lemma pack_longest:
  assumes p: "pack_chunk empty_chunk available gs = (c, rest)" and a: "0 \<le> available"
    and nn: "\<forall>g \<in> set gs. 0 \<le> grp_tokens g"
    and gs: "gs = p2 @ xs" and fits: "group_weight p2 \<le> available"
  shows "\<exists>ys. xs = ys @ rest"
proof (rule ccontr)
  assume no: "\<not> (\<exists>ys. xs = ys @ rest)"
  from pack_first [OF p a] have split: "gs = chk_groups c @ rest"
    and stop: "rest \<noteq> [] \<longrightarrow> available < group_weight (chk_groups c) + grp_tokens (hd rest)" by auto
  from split gs have eq: "chk_groups c @ rest = p2 @ xs" by simp
  then obtain us where us: "(chk_groups c = p2 @ us \<and> us @ rest = xs) \<or> (chk_groups c @ us = p2 \<and> rest = us @ xs)"
    by (auto simp: append_eq_append_conv2)
  with no have two: "chk_groups c @ us = p2" "rest = us @ xs" by auto
  then have "us \<noteq> []" using no by auto
  then obtain g vs where g: "us = g # vs" by (cases us) auto
  have "0 \<le> group_weight vs"
    unfolding group_weight_def using nn split two g by (intro sum_list_nonneg_int) auto
  then have "group_weight (chk_groups c) + grp_tokens g \<le> group_weight p2"
    using two(1) g by auto
  with fits stop two(2) g show False by simp
qed

lemma suffix_weight_le:
  assumes "\<forall>g \<in> set (xs @ ys). 0 \<le> grp_tokens g"
  shows "group_weight ys \<le> group_weight (xs @ ys)"
proof -
  have "0 \<le> group_weight xs"
    unfolding group_weight_def using assms by (intro sum_list_nonneg_int) auto
  then show ?thesis by simp
qed

definition feasible :: "int \<Rightarrow> semantic_group list list \<Rightarrow> semantic_group list \<Rightarrow> bool" where
  "feasible available ps gs \<longleftrightarrow> pieces_of ps gs \<and> (\<forall>p \<in> set ps. group_weight p \<le> available)"

text \<open>
  The packing loop never needs more chunks than any other division of the groups, or of any
  list that ends in them, into pieces that fit.
\<close>

lemma pack_loop_optimal:
  assumes "\<forall>g \<in> set xs. 0 < grp_tokens g \<and> grp_tokens g \<le> available" and "0 < available"
    and "feasible available ps xs" and "\<exists>pre. xs = pre @ gs"
    and "length chunks + length ps \<le> max_chunks"
  shows "\<exists>cs. pack_loop available max_chunks chunks gs = Inr (chunks @ cs) \<and> length cs \<le> length ps"
  using assms
proof (induction ps arbitrary: xs gs chunks)
  case Nil
  then have "gs = []" by (auto simp: feasible_def)
  then show ?case by (simp add: pack_loop.simps)
next
  case (Cons p ps)
  show ?case
  proof (cases "gs = []")
    case True
    then show ?thesis by (simp add: pack_loop.simps)
  next
    case False
    obtain c rest where pk: "pack_chunk empty_chunk available gs = (c, rest)"
      by (cases "pack_chunk empty_chunk available gs")
    from Cons.prems(3) obtain xs' where xs: "xs = p @ xs'" and feas: "feasible available ps xs'"
      and fits: "group_weight p \<le> available"
      by (auto simp: feasible_def pieces_of_Cons)
    from Cons.prems(4) obtain pre where pre: "xs = pre @ gs" by blast
    have nn: "\<forall>g \<in> set gs. 0 \<le> grp_tokens g"
      using Cons.prems(1) unfolding pre by (auto intro: less_imp_le)
    note first = pack_first [OF pk less_imp_le [OF Cons.prems(2)]]
    have ne: "chk_groups c \<noteq> []"
    proof
      assume e: "chk_groups c = []"
      with first False have "available < grp_tokens (hd gs)" by auto
      with Cons.prems(1) pre False show False by (metis hd_in_set in_set_conv_decomp list.set_sel(1)
          Un_iff linorder_not_less set_append)
    qed
    have "\<exists>ys. xs' = ys @ rest"
    proof -
      from xs pre have "p @ xs' = pre @ gs" by simp
      then consider (inside) us where "p = pre @ us" "gs = us @ xs'" | (after) us where "xs' = us @ gs"
        by (auto simp: append_eq_append_conv2)
      then show ?thesis
      proof cases
        case inside
        have "group_weight us \<le> group_weight p"
          unfolding inside(1) using Cons.prems(1) xs inside(1)
          by (intro suffix_weight_le) (fastforce intro: less_imp_le)
        with fits have "group_weight us \<le> available" by simp
        with pack_longest [OF pk less_imp_le [OF Cons.prems(2)] nn inside(2)] show ?thesis by blast
      next
        case after
        with first show ?thesis by auto
      qed
    qed
    then have "\<exists>cs. pack_loop available max_chunks (chunks @ [c]) rest = Inr ((chunks @ [c]) @ cs)
        \<and> length cs \<le> length ps"
      using Cons.prems xs feas by (intro Cons.IH [of xs']) auto
    moreover have "pack_loop available max_chunks chunks gs = pack_loop available max_chunks (chunks @ [c]) rest"
      using False pk ne Cons.prems(5) by (subst pack_loop.simps) (simp add: Let_def)
    ultimately show ?thesis by auto
  qed
qed

lemma pack_loop_sound:
  "pack_loop available max_chunks chunks gs = Inr result \<Longrightarrow> 0 \<le> available \<Longrightarrow>
   length chunks \<le> max_chunks \<Longrightarrow>
   \<exists>cs. result = chunks @ cs \<and> concat (map chk_groups cs) = gs \<and>
     (\<forall>c \<in> set cs. chunk_ok available c) \<and> length result \<le> max_chunks"
proof (induction available max_chunks chunks gs rule: pack_loop.induct)
  case (1 available max_chunks chunks gs)
  show ?case
  proof (cases "gs = []")
    case True
    with 1 show ?thesis by (auto simp: pack_loop.simps)
  next
    case False
    obtain c rest where pk: "pack_chunk empty_chunk available gs = (c, rest)"
      by (cases "pack_chunk empty_chunk available gs")
    have u: "(if chk_groups c = [] then Inl IndivisibleChunk
        else if length (chunks @ [c]) > max_chunks then Inl (TooManyChunks max_chunks)
        else pack_loop available max_chunks (chunks @ [c]) rest) = Inr result"
      using "1.prems"(1) False pk
      by (auto simp: pack_loop.simps [of _ _ _ gs] Let_def split: if_splits)
    from u have ne: "chk_groups c \<noteq> []" by (auto split: if_splits)
    from u ne have len: "length (chunks @ [c]) \<le> max_chunks" by (auto split: if_splits)
    from u ne len have rec: "pack_loop available max_chunks (chunks @ [c]) rest = Inr result" by simp
    have "\<not> max_chunks < length (chunks @ [c])" using len by simp
    from "1.IH" [OF False pk [symmetric] refl ne refl this rec "1.prems"(2) len]
    obtain cs where "result = (chunks @ [c]) @ cs" "concat (map chk_groups cs) = rest"
      "\<forall>c \<in> set cs. chunk_ok available c" "length result \<le> max_chunks" by auto
    with pack_first [OF pk "1.prems"(2)] ne show ?thesis by (intro exI [of _ "c # cs"]) auto
  qed
qed

section \<open>Properties\<close>

definition groups_valid :: "int \<Rightarrow> semantic_group list \<Rightarrow> bool" where
  "groups_valid available gs \<longleftrightarrow> (\<forall>g \<in> set gs.
     grp_messages g \<noteq> [] \<and> 0 < grp_tokens g \<and> grp_tokens g \<le> available \<and>
     (grp_kind g = HistoryTurn \<longrightarrow> starts_semantic_turn (msg_role (hd (grp_messages g)))))"

lemma validate_groups_iff: "validate_groups i available gs = None \<longleftrightarrow> groups_valid available gs"
  by (simp add: validate_groups_None validate_semantic_group_None groups_valid_def)

lemma chunk_limit_pos: "0 < chunk_limit n" "chunk_limit n \<le> 32"
  by (auto simp: chunk_limit_def max_chunks_per_round_def)

text \<open>What a successful partition says of its input.\<close>

lemma partition_InrD:
  assumes "partition gs available n = Inr cs"
  shows "0 < available \<and> groups_valid available gs \<and> cs \<noteq> [] \<and>
    pack_loop available (chunk_limit n) [] gs = Inr cs"
  using assms
  by (auto simp: partition_def validate_groups_iff
      split: if_splits option.splits sum.splits)

lemma flat_chunk_messages:
  "\<forall>c \<in> set cs. chk_messages c = concat (map grp_messages (chk_groups c)) \<Longrightarrow>
   concat (map chk_messages cs) = flat_messages (concat (map chk_groups cs))"
  by (induction cs) (auto simp: flat_messages_def)

lemma singletons_feasible:
  "groups_valid available gs \<Longrightarrow> feasible available (map (\<lambda>g. [g]) gs) gs"
  by (induction gs) (auto simp: feasible_def groups_valid_def pieces_of_def)

lemma groups_valid_bounds:
  "groups_valid available gs \<Longrightarrow> \<forall>g \<in> set gs. 0 < grp_tokens g \<and> grp_tokens g \<le> available"
  by (auto simp: groups_valid_def)

lemma partition_feasible:
  assumes "0 < available" and "groups_valid available gs" and "gs \<noteq> []"
    and "feasible available ps gs" and "length ps \<le> chunk_limit n"
  shows "\<exists>cs. partition gs available n = Inr cs \<and> length cs \<le> length ps"
proof -
  from pack_loop_optimal [OF groups_valid_bounds [OF assms(2)] assms(1,4), of gs "[]" "chunk_limit n"] assms(5)
  obtain cs where cs: "pack_loop available (chunk_limit n) [] gs = Inr cs" "length cs \<le> length ps"
    by auto
  from pack_loop_sound [OF cs(1)] assms(1) have "concat (map chk_groups cs) = gs" by auto
  with assms(3) have "cs \<noteq> []" by auto
  with cs assms show ?thesis
    by (auto simp: partition_def validate_groups_iff [of 0, symmetric])
qed

text \<open>
  Grouping loses nothing and cuts only at turn starts: the groups concatenate to the
  messages in order, their ids are the non-empty entry ids in order, every group carries the
  estimate of its own messages, every group but the first begins with a user, custom or bash
  message, and no later message of a group does.
\<close>
theorem groups_from_messages_correct:
  assumes "length ids = length ms"
  shows "flat_messages (groups_from_messages ms ids) = ms \<and>
    flat_ids (groups_from_messages ms ids) = filter (\<lambda>i. i \<noteq> []) ids \<and>
    well_grouped (groups_from_messages ms ids)"
  using assms groups_loop_well_grouped [of "[]" ids ms]
  by (simp add: groups_from_messages_def groups_loop_messages groups_loop_ids)
     (simp add: flat_messages_def flat_ids_def well_grouped_def)

definition sample_turn :: "role \<Rightarrow> string \<Rightarrow> message" where
  "sample_turn r c = empty_message\<lparr>msg_role := r, msg_content := c\<rparr>"

lemma sample_turn_facing:
  "is_facing_role r \<Longrightarrow> c = x # s \<Longrightarrow> byte x < 128 \<and> \<not> is_space (byte x) \<Longrightarrow>
   is_facing_message (sample_turn r c)"
  by (simp add: is_facing_message_def sample_turn_def trim_space_ascii_head)

theorem groups_from_messages_correct_witness:
  "flat_ids (groups_from_messages
     [sample_turn RoleUser ''fix it'', sample_turn RoleAssistant ''done'', sample_turn RoleUser ''go on'']
     [''a'', ''b'', ''c'']) = [''a'', ''b'', ''c'']"
  using groups_from_messages_correct [of "[''a'', ''b'', ''c'']"
      "[sample_turn RoleUser ''fix it'', sample_turn RoleAssistant ''done'', sample_turn RoleUser ''go on'']"]
  by simp

text \<open>
  C2. Whatever \<open>Partition\<close> returns is a faithful division: the chunks hold all groups in
  their order, each chunk is not empty, its messages and tokens are those of its groups, it
  fits the available input, and there are at most 32 of them (or the caller's smaller limit).
\<close>
theorem partition_sound:
  assumes "partition gs available n = Inr cs"
  shows "concat (map chk_groups cs) = gs \<and> concat (map chk_messages cs) = flat_messages gs \<and>
    (\<forall>c \<in> set cs. chk_groups c \<noteq> [] \<and> chk_messages c = flat_messages (chk_groups c) \<and>
       chk_tokens c = group_weight (chk_groups c) \<and> chk_tokens c \<le> available) \<and>
    cs \<noteq> [] \<and> length cs \<le> 32 \<and> (0 < n \<longrightarrow> int (length cs) \<le> n)"
proof -
  from partition_InrD [OF assms] have pl: "pack_loop available (chunk_limit n) [] gs = Inr cs"
    and ne: "cs \<noteq> []" and a: "0 < available" by auto
  from pack_loop_sound [OF pl] a have all: "concat (map chk_groups cs) = gs"
    "\<forall>c \<in> set cs. chunk_ok available c" "length cs \<le> chunk_limit n" by auto
  then have "concat (map chk_messages cs) = flat_messages gs"
    using flat_chunk_messages [of cs] by (simp add: chunk_ok_def)
  with all ne show ?thesis
    by (auto simp: chunk_ok_def flat_messages_def chunk_limit_def max_chunks_per_round_def
        split: if_splits)
qed

definition sample_group :: "string \<Rightarrow> int \<Rightarrow> semantic_group" where
  "sample_group i n = \<lparr>grp_kind = HistoryTurn, grp_entry_ids = [i],
     grp_messages = [sample_turn RoleUser i], grp_tokens = n\<rparr>"

theorem partition_sound_witness:
  "\<exists>cs. partition [sample_group ''a'' 3, sample_group ''b'' 4, sample_group ''c'' 5] 8 0 = Inr cs \<and>
     length cs \<le> 32"
proof -
  have "\<exists>cs. partition [sample_group ''a'' 3, sample_group ''b'' 4, sample_group ''c'' 5] 8 0 = Inr cs"
    by (simp add: partition_def chunk_limit_def max_chunks_per_round_def sample_group_def sample_turn_def
        validate_semantic_group_def starts_semantic_turn_def pack_loop.simps empty_chunk_def empty_message_def)
  with partition_sound show ?thesis by blast
qed

text \<open>
  \<open>Partition\<close> succeeds exactly when the input can be divided at all: there is at least one
  group, every group passes validation, and some division into consecutive pieces that fit uses
  no more pieces than the limit.
\<close>
theorem partition_complete:
  "(\<exists>cs. partition gs available n = Inr cs) \<longleftrightarrow>
     0 < available \<and> gs \<noteq> [] \<and> groups_valid available gs \<and>
     (\<exists>ps. feasible available ps gs \<and> length ps \<le> chunk_limit n)"
proof
  assume "\<exists>cs. partition gs available n = Inr cs"
  then obtain cs where cs: "partition gs available n = Inr cs" by blast
  note d = partition_InrD [OF cs]
  from d pack_loop_sound [of available "chunk_limit n" "[]" gs cs]
  have s: "concat (map chk_groups cs) = gs" "\<forall>c \<in> set cs. chunk_ok available c"
    "length cs \<le> chunk_limit n" by auto
  then have "feasible available (map chk_groups cs) gs"
    by (auto simp: feasible_def pieces_of_def chunk_ok_def)
  moreover from s d have "gs \<noteq> []"
    by (cases cs) (auto simp: chunk_ok_def)
  ultimately show "0 < available \<and> gs \<noteq> [] \<and> groups_valid available gs \<and>
     (\<exists>ps. feasible available ps gs \<and> length ps \<le> chunk_limit n)"
    using d s(3) by (metis length_map)
qed (use partition_feasible in blast)

text \<open>
  Greedy packing is optimal: no division of the groups into consecutive pieces that fit the
  available input has fewer pieces than \<open>Partition\<close> returns chunks.
\<close>
theorem partition_fewest_chunks:
  assumes "partition gs available n = Inr cs" and "feasible available ps gs"
  shows "length cs \<le> length ps"
proof (cases "length ps \<le> chunk_limit n")
  case True
  from partition_InrD [OF assms(1)] have "0 < available" "groups_valid available gs" by auto
  moreover have "gs \<noteq> []"
    using assms(1) by (auto simp: partition_def pack_loop.simps split: if_splits)
  ultimately show ?thesis using partition_feasible [OF _ _ _ assms(2) True] assms(1) by fastforce
next
  case False
  have "length cs \<le> chunk_limit n"
    using pack_loop_sound [of available "chunk_limit n" "[]" gs cs] partition_InrD [OF assms(1)] by auto
  with False show ?thesis by simp
qed

theorem partition_fewest_chunks_witness:
  "\<exists>cs. partition [sample_group ''a'' 3, sample_group ''b'' 4, sample_group ''c'' 5] 8 0 = Inr cs \<and>
     length cs \<le> 3"
proof -
  have f: "feasible 8 [[sample_group ''a'' 3], [sample_group ''b'' 4], [sample_group ''c'' 5]]
      [sample_group ''a'' 3, sample_group ''b'' 4, sample_group ''c'' 5]"
    by (simp add: feasible_def pieces_of_def sample_group_def)
  have "\<exists>cs. partition [sample_group ''a'' 3, sample_group ''b'' 4, sample_group ''c'' 5] 8 0 = Inr cs"
    by (simp add: partition_def chunk_limit_def max_chunks_per_round_def sample_group_def sample_turn_def
        validate_semantic_group_def starts_semantic_turn_def pack_loop.simps empty_chunk_def empty_message_def)
  with partition_fewest_chunks [OF _ f] show ?thesis by fastforce
qed

text \<open>
  A model-facing history that does not begin with a user, custom or bash message cannot be
  partitioned, whatever the budget: its first group is rejected as orphaned.
\<close>
theorem orphaned_history_rejected:
  assumes "0 < available" and "is_facing_message m" and "\<forall>x \<in> set ms. is_facing_message x"
    and "\<not> starts_semantic_turn (msg_role m)"
  shows "partition (groups_from_messages (m # ms) ids) available n = Inl (OrphanedMessage 0)"
proof -
  let ?gs = "groups_from_messages (m # ms) ids"
  have w: "well_grouped ?gs" unfolding groups_from_messages_def
    by (rule groups_loop_well_grouped) (simp add: well_grouped_def)
  have f: "flat_messages ?gs = m # ms"
    unfolding groups_from_messages_def groups_loop_messages by (simp add: flat_messages_def)
  then obtain g gs where gs: "?gs = g # gs" by (cases ?gs) (auto simp: flat_messages_def)
  with w f obtain rest where g: "grp_messages g = m # rest" "grp_kind g = HistoryTurn"
    "grp_tokens g = estimate_message_tokens (m # rest)"
    by (cases "grp_messages g") (auto simp: well_grouped_def flat_messages_def)
  have "0 < grp_tokens g"
    using facing_message_tokens_pos [OF assms(2)] by (simp add: g(3) estimate_message_tokens_Cons add_pos_nonneg)
  with assms(1,4) g gs show ?thesis by (simp add: partition_def validate_semantic_group_def)
qed

theorem orphaned_history_rejected_witness:
  "partition (groups_from_messages [sample_turn RoleAssistant ''half a turn''] [''b'']) 1000 0 =
     Inl (OrphanedMessage 0)"
proof -
  have "is_facing_message (sample_turn RoleAssistant ''half a turn'')"
    by (rule sample_turn_facing [OF _ refl]) (simp_all add: byte_def is_space_def)
  then show ?thesis
    using orphaned_history_rejected [of 1000 "sample_turn RoleAssistant ''half a turn''" "[]" "[''b'']" 0]
    by (simp add: sample_turn_def starts_semantic_turn_def)
qed

end
