(* ===== verification/Compaction_Plan.thy ===== *)
theory Compaction_Plan
  imports Compaction_Groups
begin

text \<open>
  The compaction planner (\<^verbatim>\<open>internal/compaction/plan.go\<close>): which part of a session branch is
  summarised, which tail stays verbatim, and the prompts of the summary request. Slice indices
  are natural numbers and \<open>-1\<close> is \<open>None\<close>. The collectors of file operations, validation and
  active work records (file_operations.go, appendices.go) are one parameter \<open>collect\<close>, which
  \<open>Record_Collectors\<close> instantiates, applied
  to the branch prefix the code hands them; a token counter is a function, \<open>None\<close> for Go's nil.
\<close>

section \<open>Data\<close>

record cut_point =
  cut_first_kept :: nat
  cut_turn_start :: "nat option"
  cut_is_split :: bool

record 'r plan =
  pln_first_kept_id :: string
  pln_messages :: "message list"
  pln_previous_summary :: string
  pln_split_turn_summary :: string
  pln_summarized_ids :: "string list"
  pln_kept_ids :: "string list"
  pln_records :: 'r
  pln_groups :: "semantic_group list"
  pln_tokens_before :: int
  pln_first_kept_index :: nat

section \<open>Which entries a model sees\<close>

definition candidate_message :: "entry \<Rightarrow> message" where
  "candidate_message e =
     (case ent_type e of
        EntryBranchSummary \<Rightarrow> (ent_message e)\<lparr>msg_role := RoleBranchSummary, msg_content := ent_summary e\<rparr>
      | EntryCompaction \<Rightarrow> (ent_message e)\<lparr>msg_role := RoleCompactionSummary, msg_content := ent_summary e\<rparr>
      | _ \<Rightarrow> ent_message e)"

definition message_for_context :: "entry \<Rightarrow> message option" where
  "message_for_context e =
     (let m = candidate_message e in
      if \<not> ent_model_facing e \<or> \<not> is_facing_message m then None else Some m)"

definition message_for_summary :: "entry \<Rightarrow> message option" where
  "message_for_summary e = (if ent_type e = EntryCompaction then None else message_for_context e)"

definition is_valid_cut_point :: "entry \<Rightarrow> bool" where
  "is_valid_cut_point e \<longleftrightarrow> message_for_summary e \<noteq> None"

definition is_turn_start_entry :: "entry \<Rightarrow> bool" where
  "is_turn_start_entry e \<longleftrightarrow>
     (case message_for_summary e of
        None \<Rightarrow> False
      | Some m \<Rightarrow> msg_role m = RoleUser \<or> msg_role m = RoleCustom)"

definition last_model_facing_entry_index :: "entry list \<Rightarrow> nat option" where
  "last_model_facing_entry_index branch =
     find (\<lambda>i. message_for_context (branch ! i) \<noteq> None) (rev [0..<length branch])"

definition model_facing_entries :: "entry list \<Rightarrow> entry list" where
  "model_facing_entries branch =
     concat (map (\<lambda>e. case message_for_context e of None \<Rightarrow> [] | Some m \<Rightarrow> [e\<lparr>ent_message := m\<rparr>]) branch)"

definition entry_index_by_id :: "entry list \<Rightarrow> string \<Rightarrow> nat option" where
  "entry_index_by_id entries i = find (\<lambda>k. ent_id (entries ! k) = i) [0..<length entries]"

text \<open>The history that a provider request replays: each compaction replaces what precedes its first kept entry.\<close>

definition effective_step :: "entry list \<Rightarrow> entry \<Rightarrow> entry list" where
  "effective_step effective e =
     (if ent_type e \<noteq> EntryCompaction then effective @ [e]
      else e # (case entry_index_by_id effective (ent_first_kept e) of
                  None \<Rightarrow> []
                | Some i \<Rightarrow> drop i effective))"

definition effective_model_facing_entries :: "entry list \<Rightarrow> entry list" where
  "effective_model_facing_entries branch =
     fold (\<lambda>e effective. effective_step effective e) (model_facing_entries branch) []"

section \<open>Token counts\<close>

definition count_runes_as_tokens :: "string \<Rightarrow> int" where
  "count_runes_as_tokens s = int (rune_count (trim_space s))"

definition message_tokens :: "(string \<Rightarrow> int) \<Rightarrow> message list \<Rightarrow> int" where
  "message_tokens count_tokens ms =
     fold (\<lambda>m tokens.
       let tokens = tokens + count_tokens (msg_content m);
           image_parts = filter (\<lambda>p. part_type p = PartImage) (msg_parts m) in
       if image_parts \<noteq> [] then tokens + estimate_message_tokens [empty_message\<lparr>msg_parts := image_parts\<rparr>]
       else tokens) ms 0"

definition branch_tokens :: "entry list \<Rightarrow> (string \<Rightarrow> int) \<Rightarrow> int" where
  "branch_tokens branch count_tokens =
     message_tokens count_tokens
       (concat (map (\<lambda>e. case message_for_context e of None \<Rightarrow> [] | Some m \<Rightarrow> [facing_message m])
          (effective_model_facing_entries branch)))"

section \<open>The cut point\<close>

definition previous_compaction_boundary :: "entry list \<Rightarrow> string \<times> nat" where
  "previous_compaction_boundary branch =
     (case find (\<lambda>i. ent_type (branch ! i) = EntryCompaction) (rev [0..<length branch]) of
        None \<Rightarrow> ([], 0)
      | Some i \<Rightarrow>
          (ent_summary (branch ! i),
           case entry_index_by_id branch (ent_first_kept (branch ! i)) of None \<Rightarrow> i + 1 | Some k \<Rightarrow> k))"

definition valid_cut_points :: "entry list \<Rightarrow> nat \<Rightarrow> nat \<Rightarrow> nat list" where
  "valid_cut_points entries start_index end_index =
     filter (\<lambda>i. is_valid_cut_point (entries ! i)) [start_index..<end_index]"

definition first_cut_point_at_or_after :: "nat list \<Rightarrow> nat \<Rightarrow> nat" where
  "first_cut_point_at_or_after cuts i = (case find (\<lambda>c. c \<ge> i) cuts of Some c \<Rightarrow> c | None \<Rightarrow> last cuts)"

definition first_cut_point_after :: "nat list \<Rightarrow> nat \<Rightarrow> nat" where
  "first_cut_point_after cuts i = (case find (\<lambda>c. c > i) cuts of Some c \<Rightarrow> c | None \<Rightarrow> last cuts)"

definition find_turn_start_entry_index :: "entry list \<Rightarrow> nat \<Rightarrow> nat \<Rightarrow> nat option" where
  "find_turn_start_entry_index entries entry_index start_index =
     find (\<lambda>i. is_turn_start_entry (entries ! i)) (rev [start_index..<Suc entry_index])"

text \<open>
  The loop of \<open>findCutPoint\<close>, over the indices from the end of the branch down: \<open>None\<close> when
  the accumulated tokens never reach the target.
\<close>

fun tail_start :: "entry list \<Rightarrow> (string \<Rightarrow> int) \<Rightarrow> int \<Rightarrow> int \<Rightarrow> nat list \<Rightarrow> nat option" where
  "tail_start entries count_tokens target accumulated [] = None"
| "tail_start entries count_tokens target accumulated (i # is) =
     (case message_for_summary (entries ! i) of
        None \<Rightarrow> tail_start entries count_tokens target accumulated is
      | Some m \<Rightarrow>
          let accumulated = accumulated + count_tokens (msg_content m) in
          if accumulated < target then tail_start entries count_tokens target accumulated is
          else Some i)"

definition split_cut :: "entry list \<Rightarrow> nat \<Rightarrow> nat \<Rightarrow> cut_point" where
  "split_cut entries cut_index start_index =
     (let turn_start = (if is_turn_start_entry (entries ! cut_index) then None
                        else find_turn_start_entry_index entries cut_index start_index) in
      \<lparr>cut_first_kept = cut_index, cut_turn_start = turn_start, cut_is_split = turn_start \<noteq> None\<rparr>)"

definition find_cut_point ::
  "entry list \<Rightarrow> nat \<Rightarrow> nat \<Rightarrow> int \<Rightarrow> (string \<Rightarrow> int) \<Rightarrow> cut_point" where
  "find_cut_point entries start_index end_index target count_tokens =
     (let cuts = valid_cut_points entries start_index end_index in
      if cuts = [] then \<lparr>cut_first_kept = start_index, cut_turn_start = None, cut_is_split = False\<rparr>
      else
        let cut_index = (case tail_start entries count_tokens target 0 (rev [start_index..<end_index]) of
                           None \<Rightarrow> hd cuts
                         | Some i \<Rightarrow> first_cut_point_at_or_after cuts i);
            cut_index = (if cut_index \<le> start_index then first_cut_point_after cuts start_index
                         else cut_index)
        in split_cut entries cut_index start_index)"

section \<open>The summary payload and the plan\<close>

definition has_model_facing_summary :: "entry list \<Rightarrow> nat \<Rightarrow> nat \<Rightarrow> bool" where
  "has_model_facing_summary entries start_index end_index \<longleftrightarrow>
     (\<exists>i \<in> set [start_index..<end_index]. message_for_summary (entries ! i) \<noteq> None)"

definition messages_in_range :: "entry list \<Rightarrow> nat \<Rightarrow> nat \<Rightarrow> message list \<times> string list" where
  "messages_in_range entries start_index end_index =
     (let picked = filter (\<lambda>i. message_for_summary (entries ! i) \<noteq> None) [start_index..<end_index] in
      (map (\<lambda>i. facing_message (the (message_for_summary (entries ! i)))) picked,
       map (\<lambda>i. ent_id (entries ! i)) picked))"

definition message_image_description :: "message \<Rightarrow> string" where
  "message_image_description m =
     (let images = length (filter (\<lambda>p. part_type p = PartImage) (msg_parts m)) in
      if images = 0 then [] else ''[attached images: '' @ itoa (int images) @ '']'')"

definition split_turn_block :: "message \<Rightarrow> string" where
  "split_turn_block m =
     (let content = trim_space (msg_content m); image_description = message_image_description m in
      if content = [] \<and> image_description = [] then []
      else newline @ ''['' @ role_name (msg_role m) @ '']'' @ newline @ content @
        (if content \<noteq> [] \<and> image_description \<noteq> [] then newline else []) @ image_description @ newline)"

definition format_split_turn_summary :: "message list \<Rightarrow> string" where
  "format_split_turn_summary ms =
     (if ms = [] then []
      else trim_space
        (''The compaction boundary split an in-progress turn. '' @
         ''The following earlier messages from that turn were compacted:'' @ newline @
         concat (map split_turn_block ms)))"

definition summary_payload :: "entry list \<Rightarrow> nat \<Rightarrow> cut_point \<Rightarrow> message list \<times> string list \<times> string" where
  "summary_payload branch boundary_start cp =
     (case cut_turn_start cp of
        Some turn_start \<Rightarrow>
          if cut_is_split cp then
            let (ms, ids) = messages_in_range branch boundary_start turn_start;
                (prefix_ms, prefix_ids) = messages_in_range branch turn_start (cut_first_kept cp) in
            if ms = [] then (prefix_ms, ids @ prefix_ids, [])
            else (ms, ids @ prefix_ids, format_split_turn_summary prefix_ms)
          else let (ms, ids) = messages_in_range branch boundary_start (cut_first_kept cp) in (ms, ids, [])
      | None \<Rightarrow> let (ms, ids) = messages_in_range branch boundary_start (cut_first_kept cp) in (ms, ids, []))"

definition kept_entry_ids :: "entry list \<Rightarrow> string list" where
  "kept_entry_ids entries = map ent_id (filter (\<lambda>e. message_for_context e \<noteq> None) entries)"

definition not_enough_history :: string where
  "not_enough_history = ''not enough model-facing history to compact''"

definition nothing_selected :: string where
  "nothing_selected = ''no model-facing history was selected for compaction''"

definition make_plan ::
  "(entry list \<Rightarrow> 'r) \<Rightarrow> entry list \<Rightarrow> string \<Rightarrow> nat \<Rightarrow> (string \<Rightarrow> int) \<Rightarrow> string \<Rightarrow>
   message list \<times> string list \<times> string \<Rightarrow> string + 'r plan" where
  "make_plan collect branch previous_summary first_kept count_tokens first_kept_id payload =
     (case payload of (ms, ids, split_summary) \<Rightarrow>
       if ms = [] \<and> trim_space split_summary = [] then Inl nothing_selected
       else Inr \<lparr>pln_first_kept_id = first_kept_id, pln_messages = ms,
         pln_previous_summary = previous_summary, pln_split_turn_summary = split_summary,
         pln_summarized_ids = ids, pln_kept_ids = kept_entry_ids (drop first_kept branch),
         pln_records = collect (take first_kept branch), pln_groups = groups_from_messages ms ids,
         pln_tokens_before = branch_tokens branch count_tokens, pln_first_kept_index = first_kept\<rparr>)"

definition default_counter :: "(string \<Rightarrow> int) option \<Rightarrow> string \<Rightarrow> int" where
  "default_counter count_tokens = (case count_tokens of None \<Rightarrow> count_runes_as_tokens | Some f \<Rightarrow> f)"

definition plan_branch ::
  "(entry list \<Rightarrow> 'r) \<Rightarrow> entry list \<Rightarrow> int \<Rightarrow> (string \<Rightarrow> int) option \<Rightarrow> string + 'r plan" where
  "plan_branch collect branch recent_tail_tokens count_tokens =
     (if branch = [] then Inl not_enough_history
      else case last_model_facing_entry_index branch of
        None \<Rightarrow> Inl not_enough_history
      | Some latest \<Rightarrow>
          if ent_type (branch ! latest) = EntryCompaction
          then Inl ''no new history to compact after the latest compaction''
          else if recent_tail_tokens \<le> 0
          then Inl ''recent tail token target must be greater than zero''
          else
            let count_tokens = default_counter count_tokens;
                (previous_summary, boundary_start) = previous_compaction_boundary branch;
                cp = find_cut_point branch boundary_start (length branch) recent_tail_tokens count_tokens in
            if cut_first_kept cp \<ge> length branch \<or>
               \<not> has_model_facing_summary branch boundary_start (cut_first_kept cp)
            then Inl ''not enough old history to compact while preserving the recent tail''
            else make_plan collect branch previous_summary (cut_first_kept cp) count_tokens
                   (ent_id (branch ! cut_first_kept cp)) (summary_payload branch boundary_start cp))"

definition plan_branch_from_first_kept ::
  "(entry list \<Rightarrow> 'r) \<Rightarrow> entry list \<Rightarrow> string \<Rightarrow> (string \<Rightarrow> int) option \<Rightarrow> string + 'r plan" where
  "plan_branch_from_first_kept collect branch first_kept_id count_tokens =
     (let count_tokens = default_counter count_tokens in
      case entry_index_by_id branch first_kept_id of
        None \<Rightarrow> Inl ''selected first kept entry was not found''
      | Some first_kept \<Rightarrow>
          let (previous_summary, boundary_start) = previous_compaction_boundary branch in
          if first_kept \<ge> length branch \<or> \<not> has_model_facing_summary branch boundary_start first_kept
          then Inl ''selected first kept entry leaves no old history to compact''
          else if message_for_context (branch ! first_kept) = None
          then Inl ''selected first kept entry is not model-facing''
          else make_plan collect branch previous_summary first_kept count_tokens first_kept_id
                 (summary_payload branch boundary_start (split_cut branch first_kept boundary_start)))"

section \<open>Lemmas\<close>

definition summary_weight :: "(string \<Rightarrow> int) \<Rightarrow> entry \<Rightarrow> int" where
  "summary_weight cnt e = (case message_for_summary e of None \<Rightarrow> 0 | Some m \<Rightarrow> cnt (msg_content m))"

text \<open>The text tokens of the verbatim tail that starts at an index.\<close>

definition tail_weight :: "(string \<Rightarrow> int) \<Rightarrow> entry list \<Rightarrow> nat \<Rightarrow> int" where
  "tail_weight cnt entries i = (\<Sum>e\<leftarrow>drop i entries. summary_weight cnt e)"

lemma tail_weight_end [simp]: "length entries \<le> i \<Longrightarrow> tail_weight cnt entries i = 0"
  by (simp add: tail_weight_def)

lemma tail_weight_step:
  "i < length entries \<Longrightarrow>
   tail_weight cnt entries i = summary_weight cnt (entries ! i) + tail_weight cnt entries (Suc i)"
  by (simp add: tail_weight_def Cons_nth_drop_Suc [symmetric])

lemma tail_start_find:
  "b \<le> length entries \<Longrightarrow>
   tail_start entries cnt target (tail_weight cnt entries b) (rev [a..<b]) =
   find (\<lambda>i. is_valid_cut_point (entries ! i) \<and> target \<le> tail_weight cnt entries i) (rev [a..<b])"
proof (induction b)
  case (Suc b)
  show ?case
  proof (cases "a \<le> b")
    case True
    from Suc.prems have "tail_weight cnt entries b =
        summary_weight cnt (entries ! b) + tail_weight cnt entries (Suc b)"
      by (intro tail_weight_step) simp
    with Suc True show ?thesis
      by (auto simp: is_valid_cut_point_def summary_weight_def Let_def add.commute split: option.splits)
  qed simp
qed simp

text \<open>
  The contract of a token counter that the planner relies on: counts are not negative. A
  counter that meets it gives tails that only shrink as the start moves forward.
\<close>

locale token_counter =
  fixes cnt :: "string \<Rightarrow> int"
  assumes count_nonneg: "0 \<le> cnt s"
begin

lemma summary_weight_nonneg: "0 \<le> summary_weight cnt e"
  by (simp add: summary_weight_def count_nonneg split: option.split)

lemma tail_weight_antimono: "i \<le> j \<Longrightarrow> tail_weight cnt entries j \<le> tail_weight cnt entries i"
proof (induction j rule: dec_induct)
  case (step n)
  have "tail_weight cnt entries (Suc n) \<le> tail_weight cnt entries n"
    using tail_weight_step [of n entries cnt] summary_weight_nonneg [of "entries ! n"]
    by (cases "n < length entries") auto
  with step.IH show ?case by simp
qed simp

lemma message_tokens_nonneg: "0 \<le> message_tokens cnt ms"
proof -
  have "0 \<le> acc \<Longrightarrow> 0 \<le> fold (\<lambda>m tokens.
       let tokens = tokens + cnt (msg_content m);
           image_parts = filter (\<lambda>p. part_type p = PartImage) (msg_parts m) in
       if image_parts \<noteq> [] then tokens + estimate_message_tokens [empty_message\<lparr>msg_parts := image_parts\<rparr>]
       else tokens) ms acc" for acc
    by (induction ms arbitrary: acc) (auto simp: Let_def count_nonneg)
  then show ?thesis unfolding message_tokens_def by blast
qed

end

interpretation estimated: token_counter estimate_tokens
  by unfold_locales simp

interpretation runes: token_counter count_runes_as_tokens
  by unfold_locales (simp add: count_runes_as_tokens_def)

lemma valid_cut_points_eq_Nil:
  "valid_cut_points entries b n = [] \<longleftrightarrow> (\<forall>i. b \<le> i \<and> i < n \<longrightarrow> \<not> is_valid_cut_point (entries ! i))"
  by (auto simp: valid_cut_points_def filter_empty_conv)

lemma hd_valid_cut_points:
  assumes "valid_cut_points entries b n \<noteq> []"
  shows "find (\<lambda>i. is_valid_cut_point (entries ! i)) [b..<n] = Some (hd (valid_cut_points entries b n))"
proof -
  have "find P xs = (case filter P xs of [] \<Rightarrow> None | y # ys \<Rightarrow> Some y)" for P and xs :: "nat list"
    by (induction xs) auto
  with assms show ?thesis unfolding valid_cut_points_def by (simp split: list.split)
qed

lemma at_or_after_valid:
  assumes "b \<le> i" and "i < n" and "is_valid_cut_point (entries ! i)"
  shows "first_cut_point_at_or_after (valid_cut_points entries b n) i = i"
proof -
  have "find (\<lambda>x. is_valid_cut_point (entries ! x) \<and> i \<le> x) [b..<n] = Some i"
    using assms by (auto simp: find_upt_Some)
  then show ?thesis by (simp add: first_cut_point_at_or_after_def valid_cut_points_def find_filter)
qed

lemma first_after_cases:
  assumes "valid_cut_points entries b n \<noteq> []"
  obtains (found) k where "first_cut_point_after (valid_cut_points entries b n) b = k" "b < k" "k < n"
      "is_valid_cut_point (entries ! k)" "\<forall>j. b < j \<and> j < k \<longrightarrow> \<not> is_valid_cut_point (entries ! j)"
    | (only) "first_cut_point_after (valid_cut_points entries b n) b = b" "is_valid_cut_point (entries ! b)"
      "\<forall>j. b < j \<and> j < n \<longrightarrow> \<not> is_valid_cut_point (entries ! j)"
proof (cases "find (\<lambda>x. is_valid_cut_point (entries ! x) \<and> b < x) [b..<n]")
  case None
  have l: "last (valid_cut_points entries b n) \<in> set (valid_cut_points entries b n)"
    using assms by (rule last_in_set)
  from None have no: "\<forall>j. b < j \<and> j < n \<longrightarrow> \<not> is_valid_cut_point (entries ! j)"
    unfolding find_upt_None by (meson less_imp_le)
  with l have "last (valid_cut_points entries b n) = b" "is_valid_cut_point (entries ! b)"
    by (auto simp: valid_cut_points_def le_less)
  with no None show ?thesis
    by (intro only) (simp_all add: first_cut_point_after_def valid_cut_points_def find_filter)
next
  case (Some k)
  from Some have "first_cut_point_after (valid_cut_points entries b n) b = k"
    by (simp add: first_cut_point_after_def valid_cut_points_def find_filter)
  moreover from Some have "b < k" "k < n" "is_valid_cut_point (entries ! k)"
    "\<forall>j. b < j \<and> j < k \<longrightarrow> \<not> is_valid_cut_point (entries ! j)"
    unfolding find_upt_Some by (auto dest: less_imp_le)
  ultimately show ?thesis by (rule found)
qed

text \<open>Where the cut falls, in terms of the tail that it keeps.\<close>

definition keeps_target :: "(string \<Rightarrow> int) \<Rightarrow> int \<Rightarrow> entry list \<Rightarrow> nat \<Rightarrow> bool" where
  "keeps_target cnt target entries k \<longleftrightarrow> target \<le> tail_weight cnt entries k \<and>
     (\<forall>j. k < j \<and> j < length entries \<and> is_valid_cut_point (entries ! j) \<longrightarrow> tail_weight cnt entries j < target)"

definition first_message_cut :: "(string \<Rightarrow> int) \<Rightarrow> int \<Rightarrow> entry list \<Rightarrow> nat \<Rightarrow> nat \<Rightarrow> bool" where
  "first_message_cut cnt target entries b k \<longleftrightarrow> is_valid_cut_point (entries ! b) \<and>
     (\<forall>j. b < j \<and> j < k \<longrightarrow> \<not> is_valid_cut_point (entries ! j)) \<and>
     (\<forall>j. b < j \<and> j < length entries \<and> is_valid_cut_point (entries ! j) \<longrightarrow> tail_weight cnt entries j < target)"

lemma has_model_facing_summary_iff:
  "has_model_facing_summary entries b k \<longleftrightarrow> (\<exists>i. b \<le> i \<and> i < k \<and> is_valid_cut_point (entries ! i))"
  by (auto simp: has_model_facing_summary_def is_valid_cut_point_def)

lemma split_cut_first_kept [simp]: "cut_first_kept (split_cut entries k b) = k"
  by (simp add: split_cut_def Let_def)

lemma find_cut_point_cases:
  fixes entries b target cnt
  defines "n \<equiv> length entries"
  defines "cp \<equiv> find_cut_point entries b n target cnt"
  assumes h: "has_model_facing_summary entries b (cut_first_kept cp)"
  shows "cp = split_cut entries (cut_first_kept cp) b \<and> b < cut_first_kept cp \<and> cut_first_kept cp < n \<and>
    is_valid_cut_point (entries ! cut_first_kept cp) \<and>
    (keeps_target cnt target entries (cut_first_kept cp) \<or>
     first_message_cut cnt target entries b (cut_first_kept cp))"
proof -
  let ?cuts = "valid_cut_points entries b n"
  let ?found = "tail_start entries cnt target 0 (rev [b..<n])"
  let ?c = "case ?found of None \<Rightarrow> hd ?cuts | Some i \<Rightarrow> first_cut_point_at_or_after ?cuts i"
  have ne: "?cuts \<noteq> []"
  proof
    assume "?cuts = []"
    then have "cut_first_kept cp = b" by (simp add: cp_def find_cut_point_def)
    with h show False by (auto simp: has_model_facing_summary_iff)
  qed
  have cp: "cp = split_cut entries (if ?c \<le> b then first_cut_point_after ?cuts b else ?c) b"
    using ne by (simp add: cp_def find_cut_point_def Let_def)
  have found: "?found = find (\<lambda>i. is_valid_cut_point (entries ! i) \<and> target \<le> tail_weight cnt entries i) (rev [b..<n])"
    using tail_start_find [of n entries cnt target b] by (simp add: n_def)
  show ?thesis
  proof (cases "?c \<le> b")
    case False
    show ?thesis
    proof (cases ?found)
      case None
      with False have "b < hd ?cuts" by simp
      moreover from hd_valid_cut_points [OF ne] have "\<forall>j. b \<le> j \<and> j < hd ?cuts \<longrightarrow> \<not> is_valid_cut_point (entries ! j)"
        by (auto simp: find_upt_Some)
      moreover from cp None False have "cut_first_kept cp = hd ?cuts" by simp
      ultimately show ?thesis using h by (auto simp: has_model_facing_summary_iff)
    next
      case (Some i)
      note Some [unfolded found find_rev_upt_Some]
      then have i: "b \<le> i" "i < n" "is_valid_cut_point (entries ! i)" "target \<le> tail_weight cnt entries i"
        "\<forall>j. i < j \<and> j < n \<longrightarrow> \<not> (is_valid_cut_point (entries ! j) \<and> target \<le> tail_weight cnt entries j)"
        by (auto simp: find_rev_upt_Some)
      with Some False cp show ?thesis
        by (auto simp: at_or_after_valid keeps_target_def n_def not_le)
    qed
  next
    case True
    have below: "\<forall>j. b < j \<and> j < n \<and> is_valid_cut_point (entries ! j) \<longrightarrow> tail_weight cnt entries j < target"
    proof (cases ?found)
      case None
      with found have "find (\<lambda>i. is_valid_cut_point (entries ! i) \<and> target \<le> tail_weight cnt entries i) (rev [b..<n]) = None"
        by simp
      then show ?thesis unfolding find_rev_upt_None by (auto simp: not_le less_imp_le)
    next
      case (Some i)
      note Some [unfolded found find_rev_upt_Some]
      then have i: "b \<le> i" "i < n" "is_valid_cut_point (entries ! i)"
        "\<forall>j. i < j \<and> j < n \<longrightarrow> \<not> (is_valid_cut_point (entries ! j) \<and> target \<le> tail_weight cnt entries j)"
        by (auto simp: find_rev_upt_Some)
      with True Some have "i = b" by (simp add: at_or_after_valid)
      with i show ?thesis by (auto simp: not_le)
    qed
    have v: "is_valid_cut_point (entries ! b)"
    proof (cases ?found)
      case None
      with True hd_valid_cut_points [OF ne] show ?thesis by (auto simp: find_upt_Some)
    next
      case (Some i)
      with Some [unfolded found find_rev_upt_Some] True show ?thesis by (auto simp: at_or_after_valid)
    qed
    from cp True have k: "cp = split_cut entries (first_cut_point_after ?cuts b) b" by simp
    from ne show ?thesis
    proof (cases rule: first_after_cases)
      case (found k')
      with k v below show ?thesis by (auto simp: first_message_cut_def n_def)
    next
      case only
      with k h show ?thesis by (auto simp: has_model_facing_summary_iff)
    qed
  qed
qed

lemma messages_in_range_append:
  assumes "b \<le> t" and "t \<le> k"
  shows "fst (messages_in_range entries b k) =
      fst (messages_in_range entries b t) @ fst (messages_in_range entries t k)"
    and "snd (messages_in_range entries b k) =
      snd (messages_in_range entries b t) @ snd (messages_in_range entries t k)"
proof -
  have "[b..<k] = [b..<t] @ [t..<k]"
    using upt_add_eq_append [OF assms(1), of "k - t"] assms(2) by simp
  then show "fst (messages_in_range entries b k) =
      fst (messages_in_range entries b t) @ fst (messages_in_range entries t k)"
    and "snd (messages_in_range entries b k) =
      snd (messages_in_range entries b t) @ snd (messages_in_range entries t k)"
    by (simp_all add: messages_in_range_def Let_def)
qed

lemma messages_in_range_Nil:
  "fst (messages_in_range entries b k) = [] \<longleftrightarrow> \<not> has_model_facing_summary entries b k"
  by (auto simp: messages_in_range_def Let_def filter_empty_conv has_model_facing_summary_def)

lemma messages_in_range_ids:
  assumes "k \<le> length entries"
  shows "snd (messages_in_range entries b k) =
    map ent_id (filter is_valid_cut_point (drop b (take k entries)))"
proof -
  have "drop b (take k entries) = map ((!) entries) [b..<k]"
    using assms by (intro nth_equalityI) auto
  then show ?thesis
    by (simp add: messages_in_range_def Let_def filter_map comp_def is_valid_cut_point_def)
qed

lemma split_cut_turn_start:
  "cut_turn_start (split_cut entries k b) = Some t \<Longrightarrow>
   b \<le> t \<and> t \<le> k \<and> is_turn_start_entry (entries ! t) \<and>
   (\<forall>j. t < j \<and> j \<le> k \<longrightarrow> \<not> is_turn_start_entry (entries ! j))"
  unfolding split_cut_def Let_def find_turn_start_entry_index_def
  by (auto simp: find_rev_upt_Some less_Suc_eq le_less split: if_splits)

text \<open>The payload of a cut that leaves something to summarise.\<close>

lemma summary_payload_cases:
  assumes k: "b < k" and h: "has_model_facing_summary entries b k"
    and p: "summary_payload entries b (split_cut entries k b) = (ms, ids, sp)"
  shows "ids = snd (messages_in_range entries b k) \<and> ms \<noteq> [] \<and>
    ((sp = [] \<and> ms = fst (messages_in_range entries b k)) \<or>
     (\<exists>t. b < t \<and> t \<le> k \<and> is_turn_start_entry (entries ! t) \<and>
        (\<forall>j. t < j \<and> j \<le> k \<longrightarrow> \<not> is_turn_start_entry (entries ! j)) \<and>
        ms = fst (messages_in_range entries b t) \<and>
        sp = format_split_turn_summary (fst (messages_in_range entries t k))))"
proof (cases "cut_turn_start (split_cut entries k b)")
  case None
  moreover from h have "fst (messages_in_range entries b k) \<noteq> []" by (simp add: messages_in_range_Nil)
  ultimately show ?thesis using p by (auto simp: summary_payload_def case_prod_beta)
next
  case (Some t)
  then have sp: "cut_is_split (split_cut entries k b)" by (simp add: split_cut_def Let_def)
  note t = split_cut_turn_start [OF Some]
  note app = messages_in_range_append [of b t k entries]
  from h have ne: "fst (messages_in_range entries b k) \<noteq> []" by (simp add: messages_in_range_Nil)
  show ?thesis
  proof (cases "fst (messages_in_range entries b t) = []")
    case True
    with p Some sp ne t app show ?thesis
      by (auto simp: summary_payload_def case_prod_beta)
  next
    case False
    then have "b < t" using t by (cases "b = t") (auto simp: messages_in_range_def)
    with False p Some sp t app show ?thesis
      by (auto simp: summary_payload_def case_prod_beta)
  qed
qed

lemma make_plan_Inr:
  "make_plan collect branch ps k cnt i (ms, ids, sp) = Inr p \<Longrightarrow>
   pln_first_kept_id p = i \<and> pln_messages p = ms \<and> pln_previous_summary p = ps \<and>
   pln_split_turn_summary p = sp \<and> pln_summarized_ids p = ids \<and>
   pln_kept_ids p = kept_entry_ids (drop k branch) \<and> pln_records p = collect (take k branch) \<and>
   pln_groups p = groups_from_messages ms ids \<and> pln_tokens_before p = branch_tokens branch cnt \<and>
   pln_first_kept_index p = k"
  by (auto simp: make_plan_def split: if_splits)

definition boundary_of :: "entry list \<Rightarrow> nat" where
  "boundary_of branch = snd (previous_compaction_boundary branch)"

text \<open>Everything a successful \<open>PlanBranch\<close> says of its cut and of its payload.\<close>

lemma plan_branch_InrD:
  fixes branch :: "entry list"
  assumes "plan_branch collect branch target counter = Inr p"
  defines "b \<equiv> boundary_of branch" and "k \<equiv> pln_first_kept_index p" and "cnt \<equiv> default_counter counter"
  shows "0 < target \<and> b < k \<and> k < length branch \<and> is_valid_cut_point (branch ! k) \<and>
    has_model_facing_summary branch b k \<and>
    (keeps_target cnt target branch k \<or> first_message_cut cnt target branch b k) \<and>
    make_plan collect branch (fst (previous_compaction_boundary branch)) k cnt (ent_id (branch ! k))
      (summary_payload branch b (split_cut branch k b)) = Inr p"
proof -
  let ?cp = "find_cut_point branch b (length branch) target cnt"
  from assms(1) have pos: "0 < target"
    by (auto simp: plan_branch_def split: if_splits option.splits prod.splits)
  from assms(1) have h: "has_model_facing_summary branch b (cut_first_kept ?cp)"
    and mk: "make_plan collect branch (fst (previous_compaction_boundary branch)) (cut_first_kept ?cp) cnt
      (ent_id (branch ! cut_first_kept ?cp)) (summary_payload branch b ?cp) = Inr p"
    by (auto simp: plan_branch_def Let_def b_def boundary_of_def cnt_def
        split: if_splits option.splits prod.splits)
  obtain ms ids sp where pay: "summary_payload branch b ?cp = (ms, ids, sp)" by (rule prod_cases3)
  from make_plan_Inr [OF mk [unfolded pay]] have k: "cut_first_kept ?cp = k" by (simp add: k_def)
  from find_cut_point_cases [OF h] h mk pos show ?thesis unfolding k by auto
qed

section \<open>Properties\<close>

text \<open>
  C1. A plan splits the history without loss: the summarised ids are those of the model-facing
  entries (compactions apart) from the previous boundary up to the cut, the kept ids those of
  the model-facing entries from the cut on, the cut lies strictly after the boundary and inside
  the branch, and the entry named as first kept is the one at the cut.
\<close>
theorem plan_branch_partition:
  assumes "plan_branch collect branch target counter = Inr p"
  shows "boundary_of branch < pln_first_kept_index p \<and> pln_first_kept_index p < length branch \<and>
    pln_first_kept_id p = ent_id (branch ! pln_first_kept_index p) \<and>
    message_for_summary (branch ! pln_first_kept_index p) \<noteq> None \<and>
    pln_summarized_ids p = map ent_id (filter (\<lambda>e. message_for_summary e \<noteq> None)
      (drop (boundary_of branch) (take (pln_first_kept_index p) branch))) \<and>
    pln_summarized_ids p \<noteq> [] \<and>
    pln_kept_ids p = map ent_id (filter (\<lambda>e. message_for_context e \<noteq> None)
      (drop (pln_first_kept_index p) branch)) \<and>
    pln_records p = collect (take (pln_first_kept_index p) branch)"
proof -
  let ?k = "pln_first_kept_index p" and ?b = "boundary_of branch"
  note d = plan_branch_InrD [OF assms]
  obtain ms ids sp where pay: "summary_payload branch ?b (split_cut branch ?k ?b) = (ms, ids, sp)"
    by (rule prod_cases3)
  have eq: "is_valid_cut_point = (\<lambda>e. message_for_summary e \<noteq> None)"
    by (simp add: is_valid_cut_point_def fun_eq_iff)
  from summary_payload_cases [OF _ _ pay] d have ids: "ids = snd (messages_in_range branch ?b ?k)" by auto
  from d pay have mk: "make_plan collect branch (fst (previous_compaction_boundary branch)) ?k
      (default_counter counter) (ent_id (branch ! ?k)) (ms, ids, sp) = Inr p" by simp
  have "ids \<noteq> []"
    using d by (auto simp: ids messages_in_range_def Let_def filter_empty_conv has_model_facing_summary_def)
  with make_plan_Inr [OF mk] d ids messages_in_range_ids [of ?k branch ?b] show ?thesis
    by (simp add: kept_entry_ids_def eq)
qed

text \<open>
  The kept tail: either it holds at least the target and no later cut point does, so it is
  the shortest such tail; or no cut point after the boundary reaches the target, and then the
  plan summarises exactly the one message at the boundary and keeps everything after it.
\<close>
theorem plan_branch_tail:
  assumes "plan_branch collect branch target counter = Inr p"
  shows "(target \<le> tail_weight (default_counter counter) branch (pln_first_kept_index p) \<and>
      (\<forall>j. pln_first_kept_index p < j \<and> j < length branch \<and> is_valid_cut_point (branch ! j) \<longrightarrow>
         tail_weight (default_counter counter) branch j < target)) \<or>
    (pln_summarized_ids p = [ent_id (branch ! boundary_of branch)] \<and>
      (\<forall>j. boundary_of branch < j \<and> j < length branch \<and> is_valid_cut_point (branch ! j) \<longrightarrow>
         tail_weight (default_counter counter) branch j < target))"
proof -
  let ?k = "pln_first_kept_index p" and ?b = "boundary_of branch"
  note d = plan_branch_InrD [OF assms]
  then consider "keeps_target (default_counter counter) target branch ?k"
    | (first) "first_message_cut (default_counter counter) target branch ?b ?k" by blast
  then show ?thesis
  proof cases
    case first
    obtain ms ids sp where pay: "summary_payload branch ?b (split_cut branch ?k ?b) = (ms, ids, sp)"
      by (rule prod_cases3)
    from d summary_payload_cases [OF _ _ pay] have ids: "ids = snd (messages_in_range branch ?b ?k)" by auto
    from d pay have mk: "make_plan collect branch (fst (previous_compaction_boundary branch)) ?k
        (default_counter counter) (ent_id (branch ! ?k)) (ms, ids, sp) = Inr p" by simp
    from d have u: "[?b..<?k] = ?b # [Suc ?b..<?k]" by (intro upt_conv_Cons) simp
    have "filter (\<lambda>i. message_for_summary (branch ! i) \<noteq> None) [?b..<?k] = [?b]"
      using first unfolding u by (auto simp: first_message_cut_def is_valid_cut_point_def filter_empty_conv Suc_le_eq)
    then have "ids = [ent_id (branch ! ?b)]" by (simp add: ids messages_in_range_def)
    with first make_plan_Inr [OF mk] show ?thesis by (auto simp: first_message_cut_def)
  qed (auto simp: keeps_target_def)
qed

text \<open>
  A compaction never cuts the meaning of a turn away: either the cut keeps the range whole
  and every summarised message goes into the request in model-facing form, or the cut falls
  inside a turn; then the request holds the messages before that turn and the prefix of the turn
  is spelled out in the split-turn section of the prompt.
\<close>
theorem plan_branch_payload:
  assumes "plan_branch collect branch target counter = Inr p"
  shows "pln_messages p \<noteq> [] \<and>
    pln_groups p = groups_from_messages (pln_messages p) (pln_summarized_ids p) \<and>
    ((pln_split_turn_summary p = [] \<and>
      pln_messages p = fst (messages_in_range branch (boundary_of branch) (pln_first_kept_index p))) \<or>
     (\<exists>t. boundary_of branch < t \<and> t \<le> pln_first_kept_index p \<and> is_turn_start_entry (branch ! t) \<and>
        (\<forall>j. t < j \<and> j \<le> pln_first_kept_index p \<longrightarrow> \<not> is_turn_start_entry (branch ! j)) \<and>
        pln_messages p = fst (messages_in_range branch (boundary_of branch) t) \<and>
        pln_split_turn_summary p =
          format_split_turn_summary (fst (messages_in_range branch t (pln_first_kept_index p)))))"
proof -
  let ?k = "pln_first_kept_index p" and ?b = "boundary_of branch"
  note d = plan_branch_InrD [OF assms]
  obtain ms ids sp where pay: "summary_payload branch ?b (split_cut branch ?k ?b) = (ms, ids, sp)"
    by (rule prod_cases3)
  from d pay have mk: "make_plan collect branch (fst (previous_compaction_boundary branch)) ?k
      (default_counter counter) (ent_id (branch ! ?k)) (ms, ids, sp) = Inr p" by simp
  have "pln_messages p = ms" "pln_split_turn_summary p = sp" "pln_summarized_ids p = ids"
    "pln_groups p = groups_from_messages ms ids"
    using make_plan_Inr [OF mk] by auto
  with summary_payload_cases [OF _ _ pay] d show ?thesis by simp
qed

lemma make_plan_succeeds: "ms \<noteq> [] \<Longrightarrow> \<exists>p. make_plan collect branch ps k cnt i (ms, ids, sp) = Inr p"
  by (simp add: make_plan_def)

lemma find_cut_point_found:
  assumes "b \<le> i" and "i < j" and "j < length entries" and "is_valid_cut_point (entries ! i)"
    and "is_valid_cut_point (entries ! j)" and "target \<le> tail_weight cnt entries j \<or> i = b"
  shows "has_model_facing_summary entries b (cut_first_kept (find_cut_point entries b (length entries) target cnt))
    \<and> cut_first_kept (find_cut_point entries b (length entries) target cnt) < length entries"
proof -
  let ?n = "length entries"
  let ?cuts = "valid_cut_points entries b ?n"
  let ?found = "tail_start entries cnt target 0 (rev [b..<?n])"
  let ?c = "case ?found of None \<Rightarrow> hd ?cuts | Some i \<Rightarrow> first_cut_point_at_or_after ?cuts i"
  have "i < ?n" using assms by simp
  with assms have ne: "?cuts \<noteq> []" unfolding valid_cut_points_eq_Nil by blast
  have cp: "cut_first_kept (find_cut_point entries b ?n target cnt) =
      (if ?c \<le> b then first_cut_point_after ?cuts b else ?c)"
    using ne by (simp add: find_cut_point_def Let_def)
  have found: "?found = find (\<lambda>i. is_valid_cut_point (entries ! i) \<and> target \<le> tail_weight cnt entries i) (rev [b..<?n])"
    using tail_start_find [of ?n entries cnt target b] by simp
  show ?thesis
  proof (cases "?c \<le> b")
    case True
    have vb: "is_valid_cut_point (entries ! b)"
    proof (cases ?found)
      case None
      with True hd_valid_cut_points [OF ne] show ?thesis by (auto simp: find_upt_Some)
    next
      case (Some m)
      with Some [unfolded found find_rev_upt_Some] True show ?thesis by (auto simp: at_or_after_valid)
    qed
    from ne show ?thesis
    proof (cases rule: first_after_cases)
      case (found k)
      with True vb show ?thesis unfolding cp by (auto simp: has_model_facing_summary_iff)
    next
      case only
      have "b < j" using assms by simp
      with only assms show ?thesis by blast
    qed
  next
    case False
    show ?thesis
    proof (cases ?found)
      case None
      then have no: "\<forall>x. b \<le> x \<and> x < ?n \<longrightarrow> \<not> (is_valid_cut_point (entries ! x) \<and> target \<le> tail_weight cnt entries x)"
        unfolding found find_rev_upt_None .
      from False None have "b < hd ?cuts" by simp
      moreover from hd_valid_cut_points [OF ne] have "\<forall>x. b \<le> x \<and> x < hd ?cuts \<longrightarrow> \<not> is_valid_cut_point (entries ! x)"
        by (auto simp: find_upt_Some)
      ultimately have "i \<noteq> b" using assms by auto
      with assms no show ?thesis by auto
    next
      case (Some m)
      note m = Some [unfolded found find_rev_upt_Some]
      from False Some m have c: "?c = m" "b < m" by (auto simp: at_or_after_valid)
      have "i < m"
      proof (rule ccontr)
        assume "\<not> i < m"
        with m assms c show False by force
      qed
      with c m assms False show ?thesis unfolding cp by (auto simp: has_model_facing_summary_iff)
    qed
  qed
qed

lemma plan_branch_succeeds:
  "(\<exists>p. plan_branch collect branch target counter = Inr p) \<longleftrightarrow>
     0 < target \<and>
     (\<exists>latest. last_model_facing_entry_index branch = Some latest \<and>
        ent_type (branch ! latest) \<noteq> EntryCompaction) \<and>
     (\<exists>i j. boundary_of branch \<le> i \<and> i < j \<and> j < length branch \<and>
        is_valid_cut_point (branch ! i) \<and> is_valid_cut_point (branch ! j) \<and>
        (target \<le> tail_weight (default_counter counter) branch j \<or> i = boundary_of branch))"
    (is "?succ = (0 < target \<and> ?latest \<and> ?two)")
proof
  assume ?succ
  then obtain p where p: "plan_branch collect branch target counter = Inr p" by blast
  note d = plan_branch_InrD [OF p]
  let ?k = "pln_first_kept_index p" and ?b = "boundary_of branch"
  from p have ?latest by (auto simp: plan_branch_def split: if_splits option.splits)
  moreover have ?two
    using d unfolding keeps_target_def first_message_cut_def has_model_facing_summary_iff
    by (metis order_refl)
  ultimately show "0 < target \<and> ?latest \<and> ?two" using d by blast
next
  assume a: "0 < target \<and> ?latest \<and> ?two"
  let ?b = "boundary_of branch" and ?cnt = "default_counter counter"
  let ?cp = "find_cut_point branch ?b (length branch) target ?cnt"
  from a obtain i j where "?b \<le> i" "i < j" "j < length branch" "is_valid_cut_point (branch ! i)"
    "is_valid_cut_point (branch ! j)" "target \<le> tail_weight ?cnt branch j \<or> i = ?b" by blast
  from find_cut_point_found [OF this] have h: "has_model_facing_summary branch ?b (cut_first_kept ?cp)"
    and lt: "cut_first_kept ?cp < length branch" by auto
  note c = find_cut_point_cases [OF h]
  obtain k where k: "k = cut_first_kept ?cp" by blast
  with c have sc: "?cp = split_cut branch k ?b" by blast
  obtain ms ids sp where pay: "summary_payload branch ?b ?cp = (ms, ids, sp)" by (rule prod_cases3)
  have "b < k \<Longrightarrow> has_model_facing_summary branch ?b k" for b using h k by simp
  moreover have "?b < k" using c k by blast
  ultimately have "ms \<noteq> []" using summary_payload_cases [OF _ _ pay [unfolded sc]] by blast
  with make_plan_succeeds obtain p where "make_plan collect branch (fst (previous_compaction_boundary branch))
      (cut_first_kept ?cp) ?cnt (ent_id (branch ! cut_first_kept ?cp)) (ms, ids, sp) = Inr p" by blast
  moreover have "branch \<noteq> []" using lt by auto
  ultimately have "plan_branch collect branch target counter = Inr p"
    using a h lt pay by (auto simp: plan_branch_def Let_def boundary_of_def case_prod_beta)
  then show ?succ by blast
qed

text \<open>
  When there is something to compact: with a positive target and a branch whose last
  model-facing entry is not a compaction, planning succeeds exactly when two model-facing
  entries follow the boundary such that the later one starts a tail that reaches the target, or
  the earlier one is the entry at the boundary itself. The check for an empty payload never fires.
\<close>
theorem plan_branch_succeeds_iff:
  "(\<exists>p. plan_branch collect branch target counter = Inr p) \<longleftrightarrow>
     0 < target \<and>
     (\<exists>latest. last_model_facing_entry_index branch = Some latest \<and>
        ent_type (branch ! latest) \<noteq> EntryCompaction) \<and>
     (\<exists>i j. boundary_of branch \<le> i \<and> i < j \<and> j < length branch \<and>
        is_valid_cut_point (branch ! i) \<and> is_valid_cut_point (branch ! j) \<and>
        (target \<le> tail_weight (default_counter counter) branch j \<or> i = boundary_of branch))"
  by (rule plan_branch_succeeds)

section \<open>Witnesses\<close>

definition sample_entry :: "string \<Rightarrow> role \<Rightarrow> string \<Rightarrow> entry" where
  "sample_entry i r c = \<lparr>ent_created_at = 0, ent_parent_id = None, ent_tool_status = [],
     ent_session_id = ''s'', ent_tool_args_json = [], ent_custom_type = [], ent_data_json = [],
     ent_id = i, ent_summary = [], ent_tool_name = [], ent_type = EntryMessage, ent_branch_from = [],
     ent_first_kept = [], ent_message = sample_turn r c, ent_tokens_before = 0, ent_token_estimate = 0,
     ent_display = True, ent_model_facing = True\<rparr>"

definition sample_branch :: "entry list" where
  "sample_branch = [sample_entry ''a'' RoleUser ''fix'', sample_entry ''b'' RoleAssistant ''ok'']"

definition sample_plan :: "nat plan" where
  "sample_plan = projr (plan_branch length sample_branch 1 (Some (\<lambda>s. int (length s))))"

lemma sample_entry_message:
  "message_for_summary (sample_entry i r c) =
     (if is_facing_message (sample_turn r c) then Some (sample_turn r c) else None)"
  by (simp add: message_for_summary_def message_for_context_def candidate_message_def sample_entry_def)

lemma sample_entry_facing:
  "is_valid_cut_point (sample_entry ''a'' RoleUser ''fix'')"
  "is_valid_cut_point (sample_entry ''b'' RoleAssistant ''ok'')"
proof -
  have "is_facing_message (sample_turn RoleUser ''fix'')" by (rule sample_turn_facing [OF _ refl]) (simp_all add: byte_def is_space_def)
  moreover have "is_facing_message (sample_turn RoleAssistant ''ok'')" by (rule sample_turn_facing [OF _ refl]) (simp_all add: byte_def is_space_def)
  ultimately show "is_valid_cut_point (sample_entry ''a'' RoleUser ''fix'')"
    and "is_valid_cut_point (sample_entry ''b'' RoleAssistant ''ok'')"
    by (simp_all add: is_valid_cut_point_def sample_entry_message)
qed

lemma sample_branch_planned: "\<exists>p. plan_branch collect sample_branch 1 (Some (\<lambda>s. int (length s))) = Inr p"
proof -
  let ?c = "Some (\<lambda>s :: string. int (length s))"
  have b: "boundary_of sample_branch = 0"
    by (simp add: boundary_of_def previous_compaction_boundary_def sample_branch_def sample_entry_def)
  have "last_model_facing_entry_index sample_branch = Some 1"
    using sample_entry_facing(2)
    by (simp add: last_model_facing_entry_index_def sample_branch_def is_valid_cut_point_def
        message_for_summary_def split: if_splits)
  moreover have "ent_type (sample_branch ! 1) \<noteq> EntryCompaction"
    by (simp add: sample_branch_def sample_entry_def)
  ultimately show "\<exists>p. plan_branch collect sample_branch 1 ?c = Inr p"
    unfolding plan_branch_succeeds b using sample_entry_facing
    by (intro conjI exI [of _ "0::nat"] exI [of _ "1::nat"]) (simp_all add: sample_branch_def)
qed

lemma sample_plan: "plan_branch length sample_branch 1 (Some (\<lambda>s. int (length s))) = Inr sample_plan"
  using sample_branch_planned [of length] by (auto simp: sample_plan_def)

theorem plan_branch_partition_witness: "pln_summarized_ids sample_plan \<noteq> []"
  using plan_branch_partition [OF sample_plan] by blast

theorem plan_branch_tail_witness:
  "tail_weight (\<lambda>s. int (length s)) sample_branch (pln_first_kept_index sample_plan) \<ge> 1 \<or>
   pln_summarized_ids sample_plan = [''a'']"
proof -
  have "ent_id (sample_branch ! boundary_of sample_branch) = ''a''"
    by (simp add: boundary_of_def previous_compaction_boundary_def sample_branch_def sample_entry_def)
  with plan_branch_tail [OF sample_plan] show ?thesis by (auto simp: default_counter_def)
qed

theorem plan_branch_payload_witness: "pln_messages sample_plan \<noteq> []"
  using plan_branch_payload [OF sample_plan] by blast

end
