(* ===== verification/Checkpoint.thy ===== *)
theory Checkpoint
  imports Compaction_Plan
begin

text \<open>
  The structure that a generated checkpoint must have
  (\<^verbatim>\<open>internal/compaction/checkpoint.go\<close>), the prompts that ask for it (plan.go) and the
  identity of a compaction operation (contracts.go). The scanning loop of \<open>ValidateCheckpoint\<close>
  is a function of the remaining lines and of the loop variables; the map \<open>seen\<close> is the list of
  headings met.
\<close>

section \<open>Data\<close>

datatype checkpoint_code = CkDuplicate | CkEmpty | CkMissing | CkOrder | CkPrefix | CkReserved

type_synonym checkpoint_error = "checkpoint_code \<times> string"

definition checkpoint_headings :: "string list" where
  "checkpoint_headings =
     [''Goal'', ''User constraints and preferences'', ''Completed work'', ''Work in progress'',
      ''Files changed/read'', ''Commands and validation'', ''Decisions'', ''Errors and blockers'',
      ''Exact next steps'']"

definition heading_mark :: string where "heading_mark = ''## ''"
definition bullet_mark :: string where "bullet_mark = ''- ''"
definition reserved_mark :: string where "reserved_mark = ''### Librecode ''"

section \<open>Validation\<close>

definition trim_right_blank :: "string \<Rightarrow> string" where
  "trim_right_blank s = rev (dropWhile (\<lambda>c. c = CHR '' '' \<or> c = CHR 0x09) (rev s))"

definition trim_prefix :: "string \<Rightarrow> string \<Rightarrow> string" where
  "trim_prefix p s = (if starts_with p s then drop (length p) s else s)"

definition validate_non_heading_line ::
  "string list \<Rightarrow> string \<Rightarrow> nat \<Rightarrow> bool \<Rightarrow> checkpoint_error + bool" where
  "validate_non_heading_line headings line wanted has_bullet =
     (if starts_with reserved_mark line then Inl (CkReserved, trim_prefix ''### '' line)
      else if starts_with heading_mark line then Inr has_bullet
      else if wanted = 0 \<and> trim_space line \<noteq> [] then Inl (CkPrefix, headings ! 0)
      else if wanted > 0 \<and> starts_with bullet_mark (trim_space line) then Inr True
      else Inr has_bullet)"

definition validate_heading ::
  "string list \<Rightarrow> string list \<Rightarrow> string \<Rightarrow> nat \<Rightarrow> bool \<Rightarrow> checkpoint_error option" where
  "validate_heading headings seen heading wanted has_bullet =
     (if wanted > 0 \<and> \<not> has_bullet then Some (CkEmpty, headings ! (wanted - 1))
      else if heading \<in> set seen then Some (CkDuplicate, heading)
      else if wanted \<ge> length headings \<or> heading \<noteq> headings ! wanted then Some (CkOrder, heading)
      else None)"

definition validate_checkpoint_end :: "string list \<Rightarrow> nat \<Rightarrow> bool \<Rightarrow> checkpoint_error option" where
  "validate_checkpoint_end headings wanted has_bullet =
     (if wanted \<noteq> length headings then Some (CkMissing, headings ! wanted)
      else if \<not> has_bullet then Some (CkEmpty, headings ! (length headings - 1))
      else None)"

fun scan_checkpoint ::
  "string list \<Rightarrow> nat \<Rightarrow> bool \<Rightarrow> string list \<Rightarrow> string list \<Rightarrow> checkpoint_error option" where
  "scan_checkpoint headings wanted has_bullet seen [] = validate_checkpoint_end headings wanted has_bullet"
| "scan_checkpoint headings wanted has_bullet seen (raw # lines) =
     (let line = trim_right_blank raw in
      case validate_non_heading_line headings line wanted has_bullet of
        Inl e \<Rightarrow> Some e
      | Inr has_bullet \<Rightarrow>
          if \<not> starts_with heading_mark line
          then scan_checkpoint headings wanted has_bullet seen lines
          else
            let heading = trim_prefix heading_mark line in
            case validate_heading headings seen heading wanted has_bullet of
              Some e \<Rightarrow> Some e
            | None \<Rightarrow> scan_checkpoint headings (Suc wanted) False (heading # seen) lines)"

definition checkpoint_lines :: "string \<Rightarrow> string list" where
  "checkpoint_lines s =
     split_byte (CHR 0x0A) (trim_space (replace_all [CHR 0x0D, CHR 0x0A] newline s))"

definition validate_checkpoint :: "string \<Rightarrow> checkpoint_error option" where
  "validate_checkpoint s = scan_checkpoint checkpoint_headings 0 False [] (checkpoint_lines s)"

section \<open>Prompts\<close>

definition prompt_lines :: "string list \<Rightarrow> string" where
  "prompt_lines ls = join_with newline ls"

definition checkpoint_contract :: string where
  "checkpoint_contract = prompt_lines
     [''Return a structured coding checkpoint with exactly these level-two headings in this order:'',
      ''## Goal'', ''## User constraints and preferences'', ''## Completed work'', ''## Work in progress'',
      ''## Files changed/read'', ''## Commands and validation'', ''## Decisions'', ''## Errors and blockers'',
      ''## Exact next steps'', [],
      ''Under every heading use concise factual \"- \" bullets, or exactly \"- None\" when no fact is known.'',
      ''Return only the checkpoint. Do not invent status, command outcomes, file changes, errors, paths, commands,'',
      ''or identifiers. Preserve exact commands, paths, error messages, identifiers, and user prohibitions when present.'',
      ''Distinguish changed files from files only read. A tool invocation alone does not prove completion.'',
      ''Do not emit headings beginning with \"Librecode\"; those are reserved for deterministic appendices.'']"

definition repair_prompt :: string where
  "repair_prompt = prompt_lines
     [checkpoint_contract, [],
      ''Repair only the structure of the checkpoint supplied in the user message. Preserve every factual bullet,'',
      ''add no facts, and return only the complete repaired checkpoint.'']"

definition summary_prompt :: string where
  "summary_prompt = prompt_lines
     [''Summarize the supplied conversation history for a coding agent that will continue the same session.'',
      [], checkpoint_contract]"

definition update_prompt :: "string \<Rightarrow> string" where
  "update_prompt previous = prompt_lines
     [''Update the existing compaction summary by merging the supplied newer history into the existing coding checkpoint.'',
      [],
      ''Retain active constraints and preferences until explicitly superseded. Retain unresolved blockers and unknown ''
        @ ''validation outcomes. Remove facts only when newer history proves them obsolete. Preserve exact next steps ''
        @ ''until completed or superseded. Return a complete checkpoint, not a patch. Never copy deterministic ''
        @ ''Librecode appendices into generated prose.'',
      [], checkpoint_contract, [], ''Existing checkpoint:'', ''<checkpoint>'', previous, ''</checkpoint>'']"

definition open_tag :: "string \<Rightarrow> string" where "open_tag tag = ''<'' @ tag @ ''>''"
definition close_tag :: "string \<Rightarrow> string" where "close_tag tag = ''</'' @ tag @ ''>''"

definition neutralize_prompt_delimiters :: "string \<Rightarrow> string \<Rightarrow> string" where
  "neutralize_prompt_delimiters content tag =
     replacer [(open_tag tag, ''&lt;'' @ tag @ ''&gt;''), (close_tag tag, ''&lt;/'' @ tag @ ''&gt;'')] content"

definition base_system_prompt :: "string \<Rightarrow> string" where
  "base_system_prompt previous =
     (if trim_space previous = [] then summary_prompt
      else update_prompt (neutralize_prompt_delimiters previous ''checkpoint''))"

definition split_turn_prompt_section :: "string \<Rightarrow> string" where
  "split_turn_prompt_section s =
     trim_space (prompt_lines [''Additional split-turn context:'', ''<split_turn_summary>'',
       neutralize_prompt_delimiters (trim_space s) ''split_turn_summary'', ''</split_turn_summary>''])"

definition system_prompt :: "string \<Rightarrow> string \<Rightarrow> string" where
  "system_prompt previous split_summary =
     (let prompt = base_system_prompt previous in
      if trim_space split_summary = [] then prompt
      else prompt @ newline @ newline @ split_turn_prompt_section split_summary)"

section \<open>Operation identity\<close>

datatype compaction_reason =
  ReasonManual | ReasonPreRequest | ReasonPostResponse | ReasonProviderOverflow | ReasonOther string

datatype retry_intent = RetryNone | RetryAfterCompaction | RetryIntentOther string

record operation =
  op_id :: string
  op_reason :: compaction_reason
  op_retry_intent :: retry_intent

datatype operation_error = OperationIdEmpty | InvalidReason string | InvalidRetryIntent string

definition validate_reason :: "compaction_reason \<Rightarrow> operation_error option" where
  "validate_reason r = (case r of ReasonOther s \<Rightarrow> Some (InvalidReason (trim_space s)) | _ \<Rightarrow> None)"

definition validate_retry_intent :: "retry_intent \<Rightarrow> operation_error option" where
  "validate_retry_intent i = (case i of RetryIntentOther s \<Rightarrow> Some (InvalidRetryIntent (trim_space s)) | _ \<Rightarrow> None)"

definition validate_operation :: "operation \<Rightarrow> operation_error option" where
  "validate_operation x =
     (if trim_space (op_id x) = [] then Some OperationIdEmpty
      else case validate_reason (op_reason x) of
        Some e \<Rightarrow> Some e
      | None \<Rightarrow> validate_retry_intent (op_retry_intent x))"

section \<open>The accepted checkpoints\<close>

definition body_line :: "string \<Rightarrow> bool" where
  "body_line l \<longleftrightarrow> \<not> starts_with reserved_mark l \<and> \<not> starts_with heading_mark l"

definition is_bullet :: "string \<Rightarrow> bool" where
  "is_bullet l \<longleftrightarrow> starts_with bullet_mark (trim_space l)"

definition section_body :: "string list \<Rightarrow> bool" where
  "section_body ls \<longleftrightarrow> (\<forall>l \<in> set ls. body_line l) \<and> (\<exists>l \<in> set ls. is_bullet l)"

text \<open>
  The grammar: blank lines, then for every heading its line and a body; bodies hold at least
  one bullet and no line that looks like a heading or like a reserved one.
\<close>

definition checkpoint_shape :: "string list \<Rightarrow> string list \<Rightarrow> bool" where
  "checkpoint_shape headings ls \<longleftrightarrow>
     (\<exists>pre bodies. length bodies = length headings \<and> (\<forall>l \<in> set pre. trim_space l = []) \<and>
        (\<forall>b \<in> set bodies. section_body b) \<and>
        ls = pre @ concat (map2 (\<lambda>h b. (heading_mark @ h) # b) headings bodies))"

definition rest_shape :: "string list \<Rightarrow> nat \<Rightarrow> bool \<Rightarrow> string list \<Rightarrow> bool" where
  "rest_shape headings wanted has_bullet ls \<longleftrightarrow>
     (\<exists>b bodies. length bodies = length headings - wanted \<and> (\<forall>l \<in> set b. body_line l) \<and>
        (wanted = 0 \<longrightarrow> (\<forall>l \<in> set b. trim_space l = [])) \<and>
        (wanted > 0 \<longrightarrow> has_bullet \<or> (\<exists>l \<in> set b. is_bullet l)) \<and>
        (\<forall>b \<in> set bodies. section_body b) \<and>
        ls = b @ concat (map2 (\<lambda>h b. (heading_mark @ h) # b) (drop wanted headings) bodies))"

lemma checkpoint_shape_rest: "checkpoint_shape headings ls \<longleftrightarrow> rest_shape headings 0 False ls"
proof -
  have "trim_space l = [] \<Longrightarrow> body_line l" for l
  proof -
    assume "trim_space l = []"
    then show "body_line l"
      using trim_space_ascii_head [of "CHR ''#''"]
      by (auto simp: body_line_def starts_with_iff reserved_mark_def heading_mark_def byte_def is_space_def)
  qed
  then show ?thesis by (auto simp: checkpoint_shape_def rest_shape_def)
qed

lemma rest_shape_Nil: "wanted \<le> length headings \<Longrightarrow>
  rest_shape headings wanted has_bullet [] \<longleftrightarrow> wanted = length headings \<and> (wanted > 0 \<longrightarrow> has_bullet)"
proof
  assume w: "wanted \<le> length headings" and r: "rest_shape headings wanted has_bullet []"
  then obtain bodies where b: "length bodies = length headings - wanted" "wanted > 0 \<longrightarrow> has_bullet"
    "concat (map2 (\<lambda>h b. (heading_mark @ h) # b) (drop wanted headings) bodies) = []"
    by (auto simp: rest_shape_def)
  have "drop wanted headings = []"
    using b by (cases "drop wanted headings"; cases bodies) (auto dest: arg_cong [where f = length])
  with w b show "wanted = length headings \<and> (wanted > 0 \<longrightarrow> has_bullet)" by simp
qed (auto simp: rest_shape_def intro!: exI [of _ "[]"])

lemma heading_mark_body: "\<not> body_line (heading_mark @ h)"
  by (simp add: body_line_def)

lemma rest_shape_heading:
  assumes "wanted \<le> length headings"
  shows "rest_shape headings wanted has_bullet ((heading_mark @ h) # ls) \<longleftrightarrow>
    wanted < length headings \<and> h = headings ! wanted \<and> (wanted > 0 \<longrightarrow> has_bullet) \<and>
    rest_shape headings (Suc wanted) False ls"
proof
  assume "rest_shape headings wanted has_bullet ((heading_mark @ h) # ls)"
  then obtain b bodies where b: "length bodies = length headings - wanted" "\<forall>l \<in> set b. body_line l"
    "wanted > 0 \<longrightarrow> has_bullet \<or> (\<exists>l \<in> set b. is_bullet l)" "\<forall>b \<in> set bodies. section_body b"
    "(heading_mark @ h) # ls = b @ concat (map2 (\<lambda>h b. (heading_mark @ h) # b) (drop wanted headings) bodies)"
    by (auto simp: rest_shape_def)
  from b(2,5) have e: "b = []" by (cases b) (auto simp: heading_mark_body)
  with b(5) have "drop wanted headings \<noteq> []" by (cases "drop wanted headings") simp_all
  then have lt: "wanted < length headings" by simp
  then have d: "drop wanted headings = headings ! wanted # drop (Suc wanted) headings"
    by (rule Cons_nth_drop_Suc [symmetric])
  from b(1) lt obtain c cs where bodies: "bodies = c # cs" by (cases bodies) auto
  from b(5) have "h = headings ! wanted"
    "ls = c @ concat (map2 (\<lambda>h b. (heading_mark @ h) # b) (drop (Suc wanted) headings) cs)"
    by (auto simp: e d bodies)
  moreover have "section_body c" "\<forall>b \<in> set cs. section_body b" using b(4) bodies by auto
  ultimately show "wanted < length headings \<and> h = headings ! wanted \<and> (wanted > 0 \<longrightarrow> has_bullet) \<and>
      rest_shape headings (Suc wanted) False ls"
    using b(1,3) lt e bodies unfolding rest_shape_def
    by (auto simp: section_body_def intro!: exI [of _ c] exI [of _ cs])
next
  assume r: "wanted < length headings \<and> h = headings ! wanted \<and> (wanted > 0 \<longrightarrow> has_bullet) \<and>
    rest_shape headings (Suc wanted) False ls"
  then have d: "drop wanted headings = h # drop (Suc wanted) headings"
    by (auto simp: Cons_nth_drop_Suc [symmetric])
  from r obtain c cs where "length cs = length headings - Suc wanted" "section_body c"
    "\<forall>b \<in> set cs. section_body b"
    "ls = c @ concat (map2 (\<lambda>h b. (heading_mark @ h) # b) (drop (Suc wanted) headings) cs)"
    by (auto simp: rest_shape_def section_body_def)
  then show "rest_shape headings wanted has_bullet ((heading_mark @ h) # ls)"
    unfolding rest_shape_def using r
    by (intro exI [of _ "[]"] exI [of _ "c # cs"]) (auto simp: d)
qed

lemma rest_shape_body:
  assumes "\<not> starts_with heading_mark l"
  shows "rest_shape headings wanted has_bullet (l # ls) \<longleftrightarrow>
    \<not> starts_with reserved_mark l \<and> (wanted = 0 \<longrightarrow> trim_space l = []) \<and>
    rest_shape headings wanted (has_bullet \<or> wanted > 0 \<and> is_bullet l) ls"
proof
  assume "rest_shape headings wanted has_bullet (l # ls)"
  then obtain b bodies where b: "length bodies = length headings - wanted" "\<forall>l \<in> set b. body_line l"
    "wanted = 0 \<longrightarrow> (\<forall>l \<in> set b. trim_space l = [])"
    "wanted > 0 \<longrightarrow> has_bullet \<or> (\<exists>l \<in> set b. is_bullet l)" "\<forall>b \<in> set bodies. section_body b"
    "l # ls = b @ concat (map2 (\<lambda>h b. (heading_mark @ h) # b) (drop wanted headings) bodies)"
    by (auto simp: rest_shape_def)
  have "b \<noteq> []"
  proof
    assume "b = []"
    with b(6) have "\<exists>h. l = heading_mark @ h"
      by (cases "drop wanted headings"; cases bodies) auto
    with assms show False by auto
  qed
  with b(6) obtain b' where b': "b = l # b'" by (cases b) auto
  with b show "\<not> starts_with reserved_mark l \<and> (wanted = 0 \<longrightarrow> trim_space l = []) \<and>
      rest_shape headings wanted (has_bullet \<or> wanted > 0 \<and> is_bullet l) ls"
    unfolding rest_shape_def body_line_def
    by (intro conjI exI [of _ b'] exI [of _ bodies]) auto
next
  assume r: "\<not> starts_with reserved_mark l \<and> (wanted = 0 \<longrightarrow> trim_space l = []) \<and>
    rest_shape headings wanted (has_bullet \<or> wanted > 0 \<and> is_bullet l) ls"
  then obtain b bodies where "length bodies = length headings - wanted" "\<forall>l \<in> set b. body_line l"
    "wanted = 0 \<longrightarrow> (\<forall>l \<in> set b. trim_space l = [])"
    "wanted > 0 \<longrightarrow> has_bullet \<or> is_bullet l \<or> (\<exists>l \<in> set b. is_bullet l)"
    "\<forall>b \<in> set bodies. section_body b"
    "ls = b @ concat (map2 (\<lambda>h b. (heading_mark @ h) # b) (drop wanted headings) bodies)"
    by (auto simp: rest_shape_def)
  with r assms show "rest_shape headings wanted has_bullet (l # ls)"
    unfolding rest_shape_def
    by (intro exI [of _ "l # b"] exI [of _ bodies]) (auto simp: body_line_def)
qed

lemma scan_checkpoint_accepts:
  assumes "distinct headings" and "headings \<noteq> []"
  shows "wanted \<le> length headings \<Longrightarrow> set seen = set (take wanted headings) \<Longrightarrow>
    (wanted = 0 \<longrightarrow> \<not> has_bullet) \<Longrightarrow>
    scan_checkpoint headings wanted has_bullet seen ls = None \<longleftrightarrow>
    rest_shape headings wanted has_bullet (map trim_right_blank ls)"
proof (induction ls arbitrary: wanted has_bullet seen)
  case Nil
  with assms(2) show ?case by (auto simp: rest_shape_Nil validate_checkpoint_end_def)
next
  case (Cons raw ls)
  let ?l = "trim_right_blank raw"
  show ?case
  proof (cases "starts_with heading_mark ?l")
    case True
    then obtain h where h: "?l = heading_mark @ h" by (auto simp: starts_with_iff)
    have nr: "\<not> starts_with reserved_mark (heading_mark @ h)"
      by (simp add: starts_with_def reserved_mark_def heading_mark_def)
    have th: "trim_prefix heading_mark (heading_mark @ h) = h" by (simp add: trim_prefix_def)
    have new: "headings ! wanted \<notin> set seen" if "wanted < length headings"
      using that assms(1) Cons.prems(2) by (auto simp: distinct_conv_nth in_set_conv_nth)
    have "set (h # seen) = set (take (Suc wanted) headings)"
      if "wanted < length headings" "h = headings ! wanted"
      using that Cons.prems(2) by (simp add: take_Suc_conv_app_nth)
    then have "scan_checkpoint headings (Suc wanted) False (h # seen) ls = None \<longleftrightarrow>
        rest_shape headings (Suc wanted) False (map trim_right_blank ls)"
      if "wanted < length headings" "h = headings ! wanted"
      using that by (intro Cons.IH) auto
    then have step: "scan_checkpoint headings (Suc wanted) False (h # seen) ls = None \<longleftrightarrow>
        rest_shape headings (Suc wanted) False (map trim_right_blank ls)"
      if "wanted < length headings" "h = headings ! wanted" using that by blast
    have vh: "validate_heading headings seen h wanted has_bullet = None \<longleftrightarrow>
        (wanted > 0 \<longrightarrow> has_bullet) \<and> wanted < length headings \<and> h = headings ! wanted"
      using new assms(2) by (cases "wanted = 0") (auto simp: validate_heading_def)
    have "scan_checkpoint headings wanted has_bullet seen (raw # ls) =
        (case validate_heading headings seen h wanted has_bullet of Some e \<Rightarrow> Some e
         | None \<Rightarrow> scan_checkpoint headings (Suc wanted) False (h # seen) ls)"
      using nr th by (simp add: h validate_non_heading_line_def)
    moreover have "rest_shape headings wanted has_bullet (map trim_right_blank (raw # ls)) \<longleftrightarrow>
        wanted < length headings \<and> h = headings ! wanted \<and> (wanted > 0 \<longrightarrow> has_bullet) \<and>
        rest_shape headings (Suc wanted) False (map trim_right_blank ls)"
      using Cons.prems(1) by (simp add: h rest_shape_heading)
    ultimately show ?thesis
      using vh step by (cases "validate_heading headings seen h wanted has_bullet") auto
  next
    case False
    have IH: "scan_checkpoint headings wanted b seen ls = None \<longleftrightarrow>
        rest_shape headings wanted b (map trim_right_blank ls)" if "wanted = 0 \<longrightarrow> \<not> b" for b
      using that Cons.prems by (intro Cons.IH) auto
    show ?thesis
      using False Cons.prems(3) IH
      by (auto simp: rest_shape_body validate_non_heading_line_def is_bullet_def Let_def)
  qed
qed

section \<open>Neutralised delimiters\<close>

definition delimiter_pairs :: "string \<Rightarrow> (string \<times> string) list" where
  "delimiter_pairs tag =
     [(open_tag tag, ''&lt;'' @ tag @ ''&gt;''), (close_tag tag, ''&lt;/'' @ tag @ ''&gt;'')]"

lemma delimiter_first_pair:
  "first_pair (delimiter_pairs tag) s = Some (old, new) \<Longrightarrow>
   old \<noteq> [] \<and> (\<exists>r. new = CHR ''&'' # r) \<and> (CHR ''<'' \<notin> set tag \<longrightarrow> CHR ''<'' \<notin> set new)"
  by (auto simp: first_pair_def delimiter_pairs_def open_tag_def close_tag_def split: if_splits)

lemma replacer_delimiters:
  assumes "s \<noteq> []"
  shows "(\<exists>t rest. t = first_pair (delimiter_pairs tag) s \<and> t \<noteq> None \<and>
      replacer (delimiter_pairs tag) s = CHR ''&'' # rest) \<or>
    (first_pair (delimiter_pairs tag) s = None \<and>
      replacer (delimiter_pairs tag) s = hd s # replacer (delimiter_pairs tag) (tl s))"
proof (cases "first_pair (delimiter_pairs tag) s")
  case None
  with assms show ?thesis by (simp add: replacer.simps [of _ s])
next
  case (Some p)
  obtain old new where p: "p = (old, new)" by (cases p)
  with Some delimiter_first_pair [of tag s old new] have "old \<noteq> []" "\<exists>r. new = CHR ''&'' # r" by auto
  with Some p assms show ?thesis by (auto simp: replacer.simps [of _ s])
qed

text \<open>A word without \<open><\<close> and \<open>&\<close> at the front of the output was at the front of the input.\<close>

lemma replacer_plain_prefix:
  "CHR ''&'' \<notin> set w \<Longrightarrow> starts_with w (replacer (delimiter_pairs tag) s) \<Longrightarrow> starts_with w s"
proof (induction w arbitrary: s)
  case Nil
  then show ?case by (simp add: starts_with_def)
next
  case (Cons c w)
  have "s \<noteq> []" using Cons.prems(2) by (auto simp: starts_with_def replacer.simps)
  with replacer_delimiters [OF this, of tag] Cons.prems
  have eq: "replacer (delimiter_pairs tag) s = hd s # replacer (delimiter_pairs tag) (tl s)"
    by (auto simp: starts_with_def)
  with Cons.prems have "c = hd s" "starts_with w (replacer (delimiter_pairs tag) (tl s))"
    by (auto simp: starts_with_def)
  with Cons.IH [of "tl s"] Cons.prems \<open>s \<noteq> []\<close> show ?case
    by (cases s) (auto simp: starts_with_def)
qed

lemma replacer_no_delimiter_at:
  assumes "CHR ''&'' \<notin> set tag" and "p = open_tag tag \<or> p = close_tag tag"
  shows "\<not> starts_with p (replacer (delimiter_pairs tag) s)"
proof
  assume st: "starts_with p (replacer (delimiter_pairs tag) s)"
  have plain: "CHR ''&'' \<notin> set p" using assms by (auto simp: open_tag_def close_tag_def)
  from replacer_plain_prefix [OF plain st] have ps: "starts_with p s" .
  with assms(2) have "s \<noteq> []" by (auto simp: starts_with_def open_tag_def close_tag_def)
  moreover have "first_pair (delimiter_pairs tag) s \<noteq> None"
    using ps assms(2) by (auto simp: first_pair_def delimiter_pairs_def open_tag_def close_tag_def)
  ultimately obtain rest where "replacer (delimiter_pairs tag) s = CHR ''&'' # rest"
    using replacer_delimiters [of s tag] by auto
  with st assms(2) show False by (auto simp: starts_with_def open_tag_def close_tag_def)
qed

lemma str_index_plain:
  "CHR ''<'' \<notin> set w \<Longrightarrow> p = CHR ''<'' # r \<Longrightarrow> str_index p (w @ s) = None \<longleftrightarrow> str_index p s = None"
  by (induction w) (auto simp: starts_with_def)

lemma validate_checkpoint_shape:
  "validate_checkpoint s = None \<longleftrightarrow>
     checkpoint_shape checkpoint_headings (map trim_right_blank (checkpoint_lines s))"
proof -
  have "distinct checkpoint_headings" "checkpoint_headings \<noteq> []"
    by (simp_all add: checkpoint_headings_def)
  from scan_checkpoint_accepts [OF this, of 0 "[]" False] show ?thesis
    by (simp add: validate_checkpoint_def checkpoint_shape_rest)
qed

section \<open>Properties\<close>

text \<open>
  C28. A checkpoint is accepted exactly when its lines, with trailing blanks removed, have the
  required shape: optional blank lines, then the nine headings in order, each followed by a
  body that holds at least one bullet and no heading-like or reserved line.
\<close>
theorem validate_checkpoint_iff_shape:
  "validate_checkpoint s = None \<longleftrightarrow>
     checkpoint_shape checkpoint_headings (map trim_right_blank (checkpoint_lines s))"
  by (rule validate_checkpoint_shape)

text \<open>
  Quoted material cannot close its own section of the prompt: after neutralisation neither
  the opening nor the closing delimiter occurs anywhere in it.
\<close>
theorem neutralized_has_no_delimiter:
  assumes "CHR ''<'' \<notin> set tag" and "CHR ''&'' \<notin> set tag"
  shows "\<not> str_contains (open_tag tag) (neutralize_prompt_delimiters content tag) \<and>
    \<not> str_contains (close_tag tag) (neutralize_prompt_delimiters content tag)"
proof -
  have none: "str_index p (replacer (delimiter_pairs tag) content) = None"
    if "p = open_tag tag \<or> p = close_tag tag" for p
  proof (induction "length content" arbitrary: content rule: less_induct)
    case less
    from that obtain r where r: "p = CHR ''<'' # r" by (auto simp: open_tag_def close_tag_def)
    show ?case
    proof (cases "content = []")
      case True
      then show ?thesis by (simp add: replacer.simps r)
    next
      case False
      show ?thesis
      proof (cases "first_pair (delimiter_pairs tag) content")
        case None
        with False have eq: "replacer (delimiter_pairs tag) content =
            hd content # replacer (delimiter_pairs tag) (tl content)"
          by (simp add: replacer.simps [of _ content])
        have "length (tl content) < length content" using False by simp
        from less [OF this] replacer_no_delimiter_at [OF assms(2) that, of content]
        show ?thesis unfolding eq by simp
      next
        case (Some q)
        obtain old new where q: "q = (old, new)" by (cases q)
        with Some delimiter_first_pair [of tag content old new] assms(1)
        have on: "old \<noteq> []" "CHR ''<'' \<notin> set new" by auto
        with Some q False have eq: "replacer (delimiter_pairs tag) content =
            new @ replacer (delimiter_pairs tag) (drop (length old) content)"
          by (simp add: replacer.simps [of _ content])
        have "length (drop (length old) content) < length content" using False on(1) by simp
        from less [OF this] show ?thesis unfolding eq str_index_plain [OF on(2) r] by simp
      qed
    qed
  qed
  then show ?thesis
    by (simp add: str_contains_def neutralize_prompt_delimiters_def delimiter_pairs_def)
qed

theorem neutralized_has_no_delimiter_witness:
  "\<not> str_contains ''</checkpoint>'' (neutralize_prompt_delimiters ''x</checkpoint>'' ''checkpoint'')"
  using neutralized_has_no_delimiter [of "''checkpoint''" "''x</checkpoint>''"]
  by (simp add: close_tag_def)

end
