(* ===== verification/Appendices.thy ===== *)
theory Appendices
  imports Compaction_Plan
begin

text \<open>
  The deterministic state appended to a generated summary
  (\<^verbatim>\<open>internal/compaction/appendices.go\<close>): rendering of the file operation, validation and
  active work records, the token limit of each section, and the removal of the sections before
  a summary is reused. The records are collected in \<open>Record_Collectors\<close>.
\<close>

section \<open>Data\<close>

record file_operation =
  fo_entry_id :: string
  fo_action :: string
  fo_path :: string
  fo_tool :: string
  fo_command :: string

datatype validation_outcome =
  ValidationPassed | ValidationFailed | ValidationCanceled | ValidationUnknown | ValidationOther string

record validation_record =
  vr_entry_id :: string
  vr_command :: string
  vr_outcome :: validation_outcome

record active_work_record =
  aw_entry_id :: string
  aw_id :: string
  aw_kind :: string
  aw_state :: string
  aw_owning_session :: string

fun outcome_name :: "validation_outcome \<Rightarrow> string" where
  "outcome_name ValidationPassed = ''passed''"
| "outcome_name ValidationFailed = ''failed''"
| "outcome_name ValidationCanceled = ''canceled''"
| "outcome_name ValidationUnknown = ''unknown''"
| "outcome_name (ValidationOther s) = s"

definition max_file_operations :: nat where "max_file_operations = 64"
definition max_validation_records :: nat where "max_validation_records = 32"
definition max_active_work_records :: nat where "max_active_work_records = 32"
definition validation_token_limit :: int where "validation_token_limit = 1024"
definition active_work_token_limit :: int where "active_work_token_limit = 768"
definition file_token_limit :: int where "file_token_limit = 1024"

definition file_heading :: string where "file_heading = ''### Librecode file operations''"
definition validation_heading :: string where "validation_heading = ''### Librecode validation records''"
definition work_heading :: string where "work_heading = ''### Librecode active work records''"
definition legacy_heading :: string where "legacy_heading = ''File operations preserved during compaction:''"

section \<open>Operations\<close>

definition retain_newest :: "'a list \<Rightarrow> nat \<Rightarrow> 'a list" where
  "retain_newest records limit =
     (if length records \<le> limit then records else drop (length records - limit) records)"

definition optional_via :: "string \<Rightarrow> string" where
  "optional_via name = (if name = [] then [] else '' (via '' @ name @ '')'')"

definition omission_marker :: "nat \<Rightarrow> string" where
  "omission_marker omitted = ''- ... '' @ itoa (int omitted) @ '' older records omitted''"

fun append_omission_marker :: "string list \<Rightarrow> int \<Rightarrow> nat \<Rightarrow> int \<Rightarrow> string list" where
  "append_omission_marker [] used omitted limit =
     (if used + estimate_tokens (omission_marker omitted) > limit then [] else [omission_marker omitted])"
| "append_omission_marker (k # kept) used omitted limit =
     (if used + estimate_tokens (omission_marker omitted) > limit
      then append_omission_marker kept (used - estimate_tokens k) (omitted + 1) limit
      else (k # kept) @ [omission_marker omitted])"

text \<open>The backward loop of \<open>appendBoundedSection\<close>; its list holds the lines not yet seen, newest first.\<close>

fun bounded_lines :: "int \<Rightarrow> int \<Rightarrow> string list \<Rightarrow> string list \<Rightarrow> string list \<times> int \<times> nat" where
  "bounded_lines limit used kept [] = (kept, used, 0)"
| "bounded_lines limit used kept (line # older) =
     (let cost = estimate_tokens line in
      if used + cost > limit then (kept, used, length older + 1)
      else bounded_lines limit (used + cost) (line # kept) older)"

definition section_lines :: "string \<Rightarrow> string list \<Rightarrow> int \<Rightarrow> string list" where
  "section_lines heading ls limit =
     (let (kept, used, omitted) = bounded_lines limit (estimate_tokens heading) [] (rev ls) in
      if omitted > 0 then append_omission_marker kept used omitted limit else kept)"

definition append_bounded_section :: "string list \<Rightarrow> string \<Rightarrow> string list \<Rightarrow> int \<Rightarrow> string list" where
  "append_bounded_section sections heading ls limit =
     (if ls = [] then sections
      else sections @ [heading @ newline @ join_with newline (section_lines heading ls limit)])"

definition file_line :: "file_operation \<Rightarrow> string" where
  "file_line r = ''- '' @ fo_action r @ '': '' @ fo_path r @ optional_via (fo_tool r)"

definition validation_line :: "validation_record \<Rightarrow> string" where
  "validation_line r = ''- '' @ outcome_name (vr_outcome r) @ '': '' @ vr_command r @ '' (entry '' @ vr_entry_id r @ '')''"

definition work_line :: "active_work_record \<Rightarrow> string" where
  "work_line r = ''- '' @ aw_kind r @ '' '' @ aw_id r @ '': '' @ aw_state r @
     (if aw_owning_session r \<noteq> [] then '' (session '' @ aw_owning_session r @ '')'' else [])"

text \<open>\<open>strings.Cut\<close>, as \<open>StripDeterministicState\<close> uses it: the part before the first occurrence, if any.\<close>

definition cut_before :: "string \<Rightarrow> string \<Rightarrow> string" where
  "cut_before heading s = (case str_index heading s of Some i \<Rightarrow> take i s | None \<Rightarrow> s)"

definition state_headings :: "string list" where
  "state_headings = [file_heading, validation_heading, work_heading, legacy_heading]"

definition strip_deterministic_state :: "string \<Rightarrow> string" where
  "strip_deterministic_state summary = trim_space (fold cut_before state_headings summary)"

definition append_deterministic_state ::
  "string \<Rightarrow> file_operation list \<Rightarrow> validation_record list \<Rightarrow> active_work_record list \<Rightarrow> string" where
  "append_deterministic_state summary files validations work =
     (let summary = strip_deterministic_state summary;
          sections = [summary];
          files = retain_newest files max_file_operations;
          validations = retain_newest validations max_validation_records;
          work = retain_newest work max_active_work_records;
          sections = append_bounded_section sections file_heading (map file_line files) file_token_limit;
          sections = append_bounded_section sections validation_heading (map validation_line validations)
                       validation_token_limit;
          sections = append_bounded_section sections work_heading (map work_line work) active_work_token_limit
      in trim_space (join_with (newline @ newline) sections))"

section \<open>Bounded sections\<close>

definition lines_weight :: "string list \<Rightarrow> int" where
  "lines_weight ls = (\<Sum>l\<leftarrow>ls. estimate_tokens l)"

lemma lines_weight_simps [simp]:
  "lines_weight [] = 0" "lines_weight (l # ls) = estimate_tokens l + lines_weight ls"
  "lines_weight (xs @ ys) = lines_weight xs + lines_weight ys"
  by (simp_all add: lines_weight_def)

lemma bounded_lines_spec:
  assumes "bounded_lines limit used kept rls = (kept', used', omitted)"
  shows "\<exists>new. kept' = new @ kept \<and> rev rls = take omitted (rev rls) @ new \<and>
    omitted = length rls - length new \<and> length new \<le> length rls \<and> used' = used + lines_weight new \<and>
    (used \<le> limit \<longrightarrow> used' \<le> limit)"
  using assms
proof (induction limit used kept rls rule: bounded_lines.induct)
  case (1 limit used kept)
  then show ?case by simp
next
  case (2 limit used kept line older)
  show ?case
  proof (cases "used + estimate_tokens line > limit")
    case True
    with 2 show ?thesis by (intro exI [of _ "[]"]) auto
  next
    case False
    with "2.prems" have "bounded_lines limit (used + estimate_tokens line) (line # kept) older = (kept', used', omitted)"
      by (simp add: Let_def)
    from "2.IH" [OF refl False this] obtain new where n: "kept' = new @ line # kept"
      "rev older = take omitted (rev older) @ new" "omitted = length older - length new"
      "length new \<le> length older" "used' = used + estimate_tokens line + lines_weight new"
      "used + estimate_tokens line \<le> limit \<longrightarrow> used' \<le> limit" by auto
    then have "take omitted (rev older @ [line]) = take omitted (rev older)" by simp
    with n False show ?thesis by (intro exI [of _ "new @ [line]"]) auto
  qed
qed

lemma append_omission_marker_spec:
  assumes "used = base + lines_weight kept" and "base \<le> limit"
  shows "\<exists>old new. kept = old @ new \<and>
    (append_omission_marker kept used omitted limit = new @ [omission_marker (omitted + length old)] \<or>
     append_omission_marker kept used omitted limit = [] \<and> new = []) \<and>
    base + lines_weight (append_omission_marker kept used omitted limit) \<le> limit"
  using assms
proof (induction kept used omitted limit rule: append_omission_marker.induct)
  case (1 used omitted limit)
  then show ?case by auto
next
  case (2 k kept used omitted limit)
  show ?case
  proof (cases "used + estimate_tokens (omission_marker omitted) > limit")
    case True
    have "used - estimate_tokens k = base + lines_weight kept" using "2.prems"(1) by simp
    from "2.IH" [OF True this "2.prems"(2)] obtain old new where "kept = old @ new"
      "append_omission_marker kept (used - estimate_tokens k) (omitted + 1) limit =
         new @ [omission_marker (omitted + 1 + length old)] \<or>
       append_omission_marker kept (used - estimate_tokens k) (omitted + 1) limit = [] \<and> new = []"
      "base + lines_weight (append_omission_marker kept (used - estimate_tokens k) (omitted + 1) limit) \<le> limit"
      by blast
    with True show ?thesis by (intro exI [of _ "k # old"] exI [of _ new]) auto
  next
    case False
    with "2.prems" show ?thesis by (intro exI [of _ "[]"] exI [of _ "k # kept"]) auto
  qed
qed

section \<open>Stripping\<close>

definition state_free :: "string \<Rightarrow> bool" where
  "state_free s \<longleftrightarrow> (\<forall>h \<in> set state_headings. str_index h s = None)"

lemma cut_before_prefix: "\<exists>v. s = cut_before h s @ v"
  by (simp add: cut_before_def split: option.split) (metis append_take_drop_id)

lemma cut_before_free: "h \<noteq> [] \<Longrightarrow> str_index h (cut_before h s) = None"
proof (cases "str_index h s")
  case (Some i)
  assume "h \<noteq> []"
  have "take i s \<noteq> u @ h @ v" for u v
  proof
    assume t: "take i s = u @ h @ v"
    then have "s = u @ h @ (v @ drop i s)" by (metis append.assoc append_take_drop_id)
    from str_index_le [OF this] Some have "i \<le> length u" by auto
    moreover have "length (take i s) \<le> i" by simp
    ultimately show False using t \<open>h \<noteq> []\<close> by (cases h) auto
  qed
  with Some show ?thesis by (simp add: cut_before_def str_index_None_iff)
qed (simp add: cut_before_def)

lemma str_index_None_infix: "str_index h (p @ s @ q) = None \<Longrightarrow> str_index h s = None"
  unfolding str_index_None_iff by (metis append.assoc)

lemma fold_cut_before_free:
  assumes "[] \<notin> set hs"
  shows "\<forall>h \<in> set hs. str_index h (fold cut_before hs s) = None"
    and "\<exists>v. s = fold cut_before hs s @ v"
  using assms
proof (induction hs arbitrary: s)
  case (Cons h hs)
  { case 1
    from Cons.IH(2) [of "cut_before h s"] 1 obtain v where "cut_before h s = fold cut_before hs (cut_before h s) @ v" by auto
    with cut_before_free [of h s] 1 have "str_index h (fold cut_before hs (cut_before h s)) = None"
      by (metis append_Nil list.set_intros(1) str_index_None_infix)
    with Cons.IH(1) [of "cut_before h s"] 1 show ?case by simp
  next
    case 2
    from Cons.IH(2) [of "cut_before h s"] 2 cut_before_prefix [of s h] show ?case by simp (metis append.assoc) }
qed simp_all

lemma fold_cut_before_id: "\<forall>h \<in> set hs. str_index h s = None \<Longrightarrow> fold cut_before hs s = s"
  by (induction hs) (simp_all add: cut_before_def)

lemma strip_free: "state_free (strip_deterministic_state s)"
proof -
  have "[] \<notin> set state_headings"
    by (simp add: state_headings_def file_heading_def validation_heading_def work_heading_def legacy_heading_def)
  from fold_cut_before_free(1) [OF this, of s] show ?thesis
    unfolding state_free_def strip_deterministic_state_def
    by (metis trim_space_infix str_index_None_infix)
qed

lemma strip_trimmed [simp]: "trim_space (strip_deterministic_state s) = strip_deterministic_state s"
  by (simp add: strip_deterministic_state_def)

lemma strip_of_free: "state_free s \<Longrightarrow> strip_deterministic_state s = trim_space s"
  by (simp add: strip_deterministic_state_def state_free_def fold_cut_before_id)

text \<open>No heading begins inside another one.\<close>

definition section_headings :: "string list" where
  "section_headings = [file_heading, validation_heading, work_heading]"

lemma headings_do_not_overlap:
  "\<forall>g \<in> set state_headings. \<forall>h \<in> set section_headings. \<forall>k \<in> set [1..<length h].
     \<not> starts_with (take 3 (drop k h)) (take 3 g)"
  "\<forall>g \<in> set state_headings. \<forall>k \<in> set [1..<length g]. \<not> starts_with (take 3 (drop k g)) ''###''"
  by code_simp+

lemma heading_head:
  "h \<in> set section_headings \<Longrightarrow> \<exists>t. h = ''###'' @ t"
  by (auto simp: section_headings_def file_heading_def validation_heading_def work_heading_def)

lemma heading_length: "g \<in> set state_headings \<Longrightarrow> 3 \<le> length g"
  by (auto simp: state_headings_def file_heading_def validation_heading_def work_heading_def legacy_heading_def)

lemma starts_with_take3: "drop k h @ r = g @ v \<Longrightarrow> 3 \<le> length g \<Longrightarrow> starts_with (take 3 (drop k h)) (take 3 g)"
proof -
  assume e: "drop k h @ r = g @ v" and l: "3 \<le> length g"
  have "take 3 g = take 3 (drop k h @ r)" using l by (simp add: e)
  then show ?thesis by (simp add: starts_with_iff)
qed

text \<open>Cutting at one heading in a text whose first section heading is \<open>h\<close>.\<close>

lemma cut_before_section:
  assumes p: "state_free p" and g: "g \<in> set state_headings" and h: "h \<in> set section_headings"
  shows "cut_before g (p @ h @ r) = p \<or> (g \<noteq> h \<and> (\<exists>r'. cut_before g (p @ h @ r) = p @ h @ r'))"
proof (cases "str_index g (p @ h @ r)")
  case None
  then have "g \<noteq> h" by (auto simp: str_index_None_iff)
  with None show ?thesis by (simp add: cut_before_def)
next
  case (Some i)
  let ?z = "p @ h @ r"
  from str_index_SomeD [OF Some] obtain v where v: "?z = take i ?z @ g @ v" by blast
  from str_index_Some [OF Some] have il: "i \<le> length ?z" by simp
  with v have dz: "drop i ?z = g @ v" by (metis append_eq_conv_conj append_take_drop_id)
  have cb: "cut_before g ?z = take i ?z" using Some by (simp add: cut_before_def)
  consider "i < length p" | "i = length p" | "length p < i" "i < length p + length h"
    | "length p + length h \<le> i" by linarith
  then show ?thesis
  proof cases
    case 1
    have e: "drop i p @ h @ r = g @ v" using dz 1 by simp
    show ?thesis
    proof (cases "length g \<le> length p - i")
      case True
      then have "drop i p = g @ take (length p - i - length g) v"
        using arg_cong [OF e, of "take (length p - i)"] 1 by simp
      then have "p = take i p @ g @ take (length p - i - length g) v" by (metis append_take_drop_id)
      with p g show ?thesis by (auto simp: state_free_def str_index_None_iff)
    next
      case False
      let ?k = "length p - i"
      have "h @ r = drop ?k g @ v"
        using arg_cong [OF e, of "drop ?k"] False by simp
      moreover obtain t where "h = ''###'' @ t" using heading_head [OF h] by blast
      ultimately have "drop ?k g @ v = ''###'' @ (t @ r)" by simp
      then have "starts_with (take 3 (drop ?k g)) ''###''" using starts_with_take3 [of ?k g v "''###''" "t @ r"] by simp
      moreover have "?k \<in> set [1..<length g]" using 1 False by auto
      ultimately show ?thesis using headings_do_not_overlap(2) g by blast
    qed
  next
    case 2
    with cb show ?thesis by simp
  next
    case 3
    let ?k = "i - length p"
    have "drop ?k h @ r = g @ v" using dz 3 by simp
    from starts_with_take3 [OF this heading_length [OF g]]
    have "starts_with (take 3 (drop ?k h)) (take 3 g)" .
    moreover have "?k \<in> set [1..<length h]" using 3 by auto
    ultimately show ?thesis using headings_do_not_overlap(1) g h by blast
  next
    case 4
    then have "g \<noteq> h"
      using str_index_le [of ?z p g r] Some h by (auto simp: section_headings_def file_heading_def
          validation_heading_def work_heading_def)
    moreover from 4 have "take i ?z = p @ h @ take (i - length p - length h) r" by simp
    ultimately show ?thesis unfolding cb by blast
  qed
qed

lemma fold_cut_section:
  assumes "state_free p" and "h \<in> set section_headings"
  shows "set hs \<subseteq> set state_headings \<Longrightarrow> h \<in> set hs \<Longrightarrow> fold cut_before hs (p @ h @ r) = p"
proof (induction hs arbitrary: r)
  case (Cons g hs)
  have id: "fold cut_before hs p = p"
    using assms(1) Cons.prems(1) by (intro fold_cut_before_id) (auto simp: state_free_def)
  from cut_before_section [OF assms(1) _ assms(2), of g r] Cons.prems(1) Cons.IH Cons.prems(2) id
  show ?case by auto
qed simp

section \<open>Properties\<close>

text \<open>
  A section never outgrows its token limit: the heading and the lines it shows are at most
  the limit by the estimator, what it shows are the newest lines in their order, and when older
  ones are dropped the omission line counts exactly those.
\<close>
theorem section_lines_within_limit:
  assumes "estimate_tokens heading \<le> limit"
  shows "estimate_tokens heading + lines_weight (section_lines heading ls limit) \<le> limit \<and>
    (\<exists>old new. ls = old @ new \<and>
       (old = [] \<and> section_lines heading ls limit = new \<or>
        old \<noteq> [] \<and> section_lines heading ls limit = new @ [omission_marker (length old)] \<or>
        old \<noteq> [] \<and> new = [] \<and> section_lines heading ls limit = []))"
proof -
  obtain kept used omitted where b: "bounded_lines limit (estimate_tokens heading) [] (rev ls) = (kept, used, omitted)"
    by (rule prod_cases3)
  from bounded_lines_spec [OF b] assms have s: "ls = take omitted ls @ kept" "omitted = length ls - length kept"
    "length kept \<le> length ls" "used = estimate_tokens heading + lines_weight kept" "used \<le> limit" by auto
  show ?thesis
  proof (cases "omitted > 0")
    case False
    with s b have "ls = [] @ kept" "section_lines heading ls limit = kept" by (auto simp: section_lines_def)
    with s(4,5) show ?thesis by (metis (no_types))
  next
    case True
    from append_omission_marker_spec [OF s(4) assms, of omitted] obtain old new where m: "kept = old @ new"
      "append_omission_marker kept used omitted limit = new @ [omission_marker (omitted + length old)] \<or>
       append_omission_marker kept used omitted limit = [] \<and> new = []"
      "estimate_tokens heading + lines_weight (append_omission_marker kept used omitted limit) \<le> limit" by blast
    have sl: "section_lines heading ls limit = append_omission_marker kept used omitted limit"
      using b True by (simp add: section_lines_def)
    have "ls = (take omitted ls @ old) @ new" using s(1) m(1) by simp
    moreover have "length (take omitted ls @ old) = omitted + length old" using s(2) by simp
    moreover have "take omitted ls @ old \<noteq> []" using True s(2) by auto
    ultimately show ?thesis using m(2,3) unfolding sl by metis
  qed
qed

theorem section_lines_within_limit_witness:
  "estimate_tokens [] + lines_weight (section_lines [] [''- None'', ''- None''] 3) \<le> 3"
  using section_lines_within_limit [of "[]" 3 "[''- None'', ''- None'']"] by (simp add: estimate_tokens_eq)

text \<open>The sections that follow the summary, joined.\<close>

lemma append_sections_shape:
  assumes "\<forall>h \<in> set hs. h \<in> set section_headings"
  shows "\<exists>rest. fold (\<lambda>(h, ls, n) sections. append_bounded_section sections h ls n) (zip hs lss) [s] = s # rest \<and>
    (rest = [] \<or> (\<exists>h t. h \<in> set section_headings \<and> join_with (newline @ newline) rest = h @ t))"
proof -
  have "\<exists>rest'. fold (\<lambda>(h, ls, n) sections. append_bounded_section sections h ls n) (zip hs lss) (s # rest) = s # rest' \<and>
    (rest' = [] \<or> (\<exists>h t. h \<in> set section_headings \<and> join_with (newline @ newline) rest' = h @ t))"
    if "rest = [] \<or> (\<exists>h t. h \<in> set section_headings \<and> join_with (newline @ newline) rest = h @ t)"
      "\<forall>h \<in> set hs. h \<in> set section_headings" for rest
    using that
  proof (induction hs arbitrary: lss rest)
    case (Cons h hs)
    show ?case
    proof (cases lss)
      case (Cons a lss')
      obtain ls n where a: "a = (ls, n)" by (cases a)
      have "\<exists>rest'. append_bounded_section (s # rest) h ls n = s # rest' \<and>
        (rest' = [] \<or> (\<exists>h t. h \<in> set section_headings \<and> join_with (newline @ newline) rest' = h @ t))"
      proof (cases "ls = []")
        case True
        with Cons.prems show ?thesis by (auto simp: append_bounded_section_def)
      next
        case False
        let ?x = "h @ newline @ join_with newline (section_lines h ls n)"
        have "append_bounded_section (s # rest) h ls n = s # (rest @ [?x])"
          using False by (simp add: append_bounded_section_def)
        moreover have "\<exists>h' t. h' \<in> set section_headings \<and> join_with (newline @ newline) (rest @ [?x]) = h' @ t"
        proof (cases "rest = []")
          case True
          with Cons.prems(2) show ?thesis by auto
        next
          case False
          with Cons.prems(1) show ?thesis by (auto simp: join_with_append)
        qed
        ultimately show ?thesis by blast
      qed
      then obtain rest' where r: "append_bounded_section (s # rest) h ls n = s # rest'"
        "rest' = [] \<or> (\<exists>h t. h \<in> set section_headings \<and> join_with (newline @ newline) rest' = h @ t)" by blast
      from Cons.IH [OF r(2), of lss'] Cons.prems(2) r(1) show ?thesis by (simp add: Cons a)
    qed (use Cons.prems in auto)
  qed auto
  from this [of "[]"] assms show ?thesis by simp
qed

lemma append_deterministic_state_shape:
  "\<exists>rest. append_deterministic_state s fs vs ws =
     trim_space (join_with (newline @ newline) (strip_deterministic_state s # rest)) \<and>
     (rest = [] \<or> (\<exists>h t. h \<in> set section_headings \<and> join_with (newline @ newline) rest = h @ t))"
proof -
  let ?lss = "[(map file_line (retain_newest fs max_file_operations), file_token_limit),
    (map validation_line (retain_newest vs max_validation_records), validation_token_limit),
    (map work_line (retain_newest ws max_active_work_records), active_work_token_limit)]"
  have a: "append_deterministic_state s fs vs ws = trim_space (join_with (newline @ newline)
      (fold (\<lambda>(h, ls, n) sections. append_bounded_section sections h ls n) (zip section_headings ?lss)
        [strip_deterministic_state s]))"
    by (simp add: append_deterministic_state_def section_headings_def Let_def)
  obtain rest where r: "fold (\<lambda>(h, ls, n) sections. append_bounded_section sections h ls n)
      (zip section_headings ?lss) [strip_deterministic_state s] = strip_deterministic_state s # rest"
    "rest = [] \<or> (\<exists>h t. h \<in> set section_headings \<and> join_with (newline @ newline) rest = h @ t)"
    using append_sections_shape [of section_headings ?lss "strip_deterministic_state s"] by blast
  show ?thesis by (rule exI [of _ rest]) (use a r in simp)
qed

lemma state_free_newline: "state_free s \<Longrightarrow> state_free (s @ newline)"
proof -
  have step: "str_index h (s @ [c]) = None" if "str_index h s = None" "c \<notin> set h" "h \<noteq> []" for h c
    unfolding str_index_None_iff
  proof (intro allI notI)
    fix u v
    assume e: "s @ [c] = u @ h @ v"
    show False
    proof (cases v rule: rev_cases)
      case Nil
      with e have "last h = c" using that(3) by (metis append_Nil2 last_appendR last_snoc)
      with that(2,3) show False by auto
    next
      case (snoc v' d)
      with e have "s = u @ h @ v'" by simp
      with that(1) show False unfolding str_index_None_iff by blast
    qed
  qed
  assume "state_free s"
  then show "state_free (s @ newline)"
    unfolding state_free_def newline_def
    by (auto intro!: step simp: state_headings_def file_heading_def validation_heading_def work_heading_def
        legacy_heading_def)
qed

lemma trim_right_newline: "trim_right (s @ newline) = trim_right s"
proof -
  have "decode_last_rune (s @ newline) = (10, 1)" by (simp add: decode_last_rune_def newline_def byte_def)
  then show ?thesis by (subst trim_right.simps) (simp add: is_space_def newline_def)
qed

lemma trim_left_newline: "trim_left (newline @ s) = trim_left s"
  by (subst trim_left.simps) (simp add: newline_def decode_rune_ascii byte_def is_space_def)

lemma heading_last: "h \<in> set section_headings \<Longrightarrow> \<exists>u. h = CHR ''#'' # u @ CHR ''s'' # []"
  by (auto simp: section_headings_def file_heading_def validation_heading_def work_heading_def)

text \<open>
  C29. Stripping undoes appending: whatever records are appended to a summary, removing the
  deterministic sections gives back the summary that was appended to, so that state never
  accumulates over successive compactions.
\<close>
theorem strip_append_roundtrip:
  "strip_deterministic_state (append_deterministic_state s fs vs ws) = strip_deterministic_state s"
proof -
  let ?s = "strip_deterministic_state s"
  obtain rest where r: "append_deterministic_state s fs vs ws = trim_space (join_with (newline @ newline) (?s # rest))"
    "rest = [] \<or> (\<exists>h t. h \<in> set section_headings \<and> join_with (newline @ newline) rest = h @ t)"
    using append_deterministic_state_shape by blast
  show ?thesis
  proof (cases "rest = []")
    case True
    with r(1) show ?thesis by (simp add: strip_of_free strip_free)
  next
    case False
    with r(2) obtain h t where h: "h \<in> set section_headings" "join_with (newline @ newline) rest = h @ t" by blast
    have j: "join_with (newline @ newline) (?s # rest) = ?s @ newline @ newline @ h @ t"
      using False h(2) by (simp add: join_with_Cons)
    from heading_last [OF h(1)] obtain u where u: "h = CHR ''#'' # u @ [CHR ''s'']" by blast
    have ascii: "byte (CHR ''s'') < 128" "\<not> is_space (byte (CHR ''s''))" "byte (CHR ''#'') < 128"
      "\<not> is_space (byte (CHR ''#''))" "byte (CHR 0x0A) < 128"
      by (simp_all add: byte_def is_space_def)
    have hs: "h \<in> set state_headings" using h(1) by (auto simp: section_headings_def state_headings_def)
    show ?thesis
    proof (cases "?s = []")
      case True
      have tl: "trim_left (h @ t) = h @ t"
        using ascii(3,4) by (intro trim_left_fixed) (simp add: u decode_rune_ascii)
      from trim_right_keeps [OF ascii(1,2), of "CHR ''#'' # u" t] obtain v' where
        "trim_right (h @ t) = h @ v'" by (auto simp: u)
      then have "append_deterministic_state s fs vs ws = [] @ h @ v'"
        using r(1) j True tl by (simp add: trim_space_def trim_left_newline)
      moreover have "state_free []" using strip_free [of s] True by simp
      ultimately show ?thesis
        using fold_cut_section [of "[]" h state_headings v'] h(1) hs True
        by (simp add: strip_deterministic_state_def [of "h @ v'"])
    next
      case False
      from trim_space_keeps [OF strip_trimmed False ascii(5,1,2), of "newline @ CHR ''#'' # u" t]
      obtain v' where v': "trim_space (?s @ newline @ newline @ h @ t) = (?s @ newline @ newline) @ h @ v'"
        by (auto simp: u newline_def)
      have free: "state_free (?s @ newline @ newline)"
        using state_free_newline [OF state_free_newline [OF strip_free [of s]]] by simp
      have "trim_left (?s @ newline @ newline) = ?s @ newline @ newline"
        using trim_left_keeps [OF strip_trimmed False ascii(5), of newline] by (simp add: newline_def)
      then have "trim_space (?s @ newline @ newline) = trim_right ?s"
        using trim_right_newline [of "?s @ newline"] trim_right_newline [of ?s] by (simp add: trim_space_def)
      also have "\<dots> = ?s"
        using strip_trimmed [of s] trim_space_fixed_left [OF strip_trimmed [of s]] by (simp add: trim_space_def)
      finally have "trim_space (?s @ newline @ newline) = ?s" .
      then show ?thesis
        using fold_cut_section [OF free h(1) subset_refl hs, of v'] r(1) v' j
        by (simp add: strip_deterministic_state_def [of "strip_deterministic_state s @ newline @ newline @ h @ v'"])
    qed
  qed
qed

end
