(* ===== verification/Summary_Reduction.thy ===== *)
theory Summary_Reduction
  imports Checkpoint Appendices Context_Budget
begin

text \<open>
  Generation of a compaction summary (\<^verbatim>\<open>internal/assistant/context_summary.go\<close> and the
  summarising half of context_compaction.go): a request with at most one structural repair, and
  the bounded recursive reduction that splits a history whose summary was cut off. The provider
  client \<open>completeWithRetry\<close> is the parameter \<open>call\<close>: it maps its own state and a request to an
  error or a result and a new state. A Go pair \<open>(outcome, err)\<close> is a pair with an optional error.
\<close>

section \<open>Data\<close>

datatype finish_reason =
  FinishUnknown | FinishStop | FinishLength | FinishToolCalls | FinishContentFilter | FinishRefusal
  | FinishError | FinishAborted | FinishOther string

record completion_result =
  res_finish :: finish_reason
  res_incomplete_reason :: string
  res_provider_finish :: string
  res_text :: string
  res_usage :: usage

record completion_request =
  req_system_prompt :: string
  req_messages :: "message list"
  req_usage :: usage
  req_model :: ai_model
  req_max_tokens :: int

record summary_request =
  srq_completion :: completion_request
  srq_budget :: summary_budget

datatype summary_kind =
  SummaryInputOverflow | SummaryOutputTruncated | SummaryEmpty | SummaryContentFilter | SummaryRefusal
  | SummaryProviderFailure | SummaryAborted | SummaryNoProgress | SummaryFixedOverhead

datatype summary_cause =
  NoCause | BudgetCause summary_budget_error | PartitionCause partition_error | NotSplitCause

record summary_error =
  se_kind :: summary_kind
  se_cause :: summary_cause
  se_provider :: string
  se_model :: string
  se_reason :: compaction_reason
  se_input :: int
  se_limit :: int
  se_before :: int
  se_after :: int

datatype 'e failure =
  SummaryFailed summary_error | ProviderFailed 'e | StructureFailed checkpoint_error
  | JoinedFailures "'e failure" "'e failure"

record summary_outcome =
  out_text :: string
  out_provider :: string
  out_model :: string
  out_reason :: compaction_reason
  out_finish :: finish_reason
  out_estimated_input :: int
  out_reported_input :: int
  out_reported_output :: int
  out_limit :: int
  out_truncated :: bool

type_synonym ('w, 'e) client = "'w \<Rightarrow> completion_request \<Rightarrow> ('e + completion_result) \<times> 'w"
type_synonym ('w, 'e) summarized = "(summary_outcome \<times> 'e failure option) \<times> 'w"

text \<open>\<open>errors.Is(err, ErrSummaryOutputTruncated)\<close>.\<close>

fun is_output_truncated :: "'e failure \<Rightarrow> bool" where
  "is_output_truncated (SummaryFailed e) \<longleftrightarrow> se_kind e = SummaryOutputTruncated"
| "is_output_truncated (ProviderFailed _) \<longleftrightarrow> False"
| "is_output_truncated (StructureFailed _) \<longleftrightarrow> False"
| "is_output_truncated (JoinedFailures a b) \<longleftrightarrow> is_output_truncated a \<or> is_output_truncated b"

section \<open>One summary request\<close>

definition default_unknown_window :: int where "default_unknown_window = 64000"

definition summary_model_limits :: "ai_model option \<Rightarrow> int \<times> int" where
  "summary_model_limits selected =
     (let (window, model_max) = (case selected of
            None \<Rightarrow> (0, 0) | Some m \<Rightarrow> (mdl_context_window m, mdl_max_tokens m))
      in (if window < minimum_summary_output then default_unknown_window else window,
          if model_max < 0 then 0 else model_max))"

definition runtime_summary_output_limit ::
  "context_config \<Rightarrow> ai_model option \<Rightarrow> summary_limit_error + int" where
  "runtime_summary_output_limit cfg selected =
     (let (window, model_max) = summary_model_limits selected in
      case summary_output_limit (output_reserve window cfg) model_max of
        Inl e \<Rightarrow> Inl e
      | Inr limit \<Rightarrow> Inr (if cfg_summary_output cfg > 0 then min limit (cfg_summary_output cfg) else limit))"

definition compaction_request_usage :: "ai_model option \<Rightarrow> string \<Rightarrow> message list \<Rightarrow> usage" where
  "compaction_request_usage selected sp ms =
     (let window = (case selected of None \<Rightarrow> 0 | Some m \<Rightarrow> mdl_context_window m);
          tokens = estimate_input_tokens sp ms
      in \<lparr>breakdown = Some [(''system'', estimate_tokens sp), (''history'', estimate_message_tokens ms)],
          provenance = ProvenanceNone, top_contributors = [], context_window = window,
          context_tokens = tokens, input_tokens = tokens, output_tokens = 0\<rparr>)"

definition new_summary_request :: "context_config \<Rightarrow> completion_request \<Rightarrow> summary_request" where
  "new_summary_request cfg r =
     (let (window, _) = summary_model_limits (Some (req_model r)) in
      \<lparr>srq_completion = r,
       srq_budget = new_summary_budget
         \<lparr>sbi_context_window = window, sbi_system_prompt_tokens = estimate_tokens (req_system_prompt r),
          sbi_previous_summary_tokens = 0, sbi_split_turn_tokens = 0,
          sbi_history_tokens = estimate_message_tokens (req_messages r),
          sbi_provider_reserve = max (cfg_provider_reserve cfg) 0,
          sbi_safety_margin = max (cfg_safety_margin cfg) 0,
          sbi_envelope_tokens = default_summary_envelope,
          sbi_max_output_tokens = req_max_tokens r\<rparr>\<rparr>)"

definition summary_was_truncated :: "completion_result \<Rightarrow> bool" where
  "summary_was_truncated r \<longleftrightarrow> res_finish r = FinishLength \<or>
     res_incomplete_reason r = ''max_output_tokens'' \<or> res_provider_finish r = ''max_tokens''"

definition summary_has_context_overflow :: "completion_result \<Rightarrow> bool" where
  "summary_has_context_overflow r \<longleftrightarrow> res_provider_finish r = ''model_context_window_exceeded''"

definition outcome_error :: "summary_outcome \<Rightarrow> summary_kind \<Rightarrow> int \<Rightarrow> summary_error" where
  "outcome_error outcome k input =
     \<lparr>se_kind = k, se_cause = NoCause, se_provider = out_provider outcome, se_model = out_model outcome,
      se_reason = out_reason outcome, se_input = input, se_limit = out_limit outcome,
      se_before = 0, se_after = 0\<rparr>"

definition validate_summary_outcome ::
  "summary_outcome \<Rightarrow> completion_result \<Rightarrow> summary_error option" where
  "validate_summary_outcome outcome r =
     (let fail = (\<lambda>k. Some (outcome_error outcome k (out_estimated_input outcome))) in
      if out_truncated outcome then fail SummaryOutputTruncated
      else if out_finish outcome = FinishContentFilter then fail SummaryContentFilter
      else if out_finish outcome = FinishRefusal then fail SummaryRefusal
      else if out_finish outcome = FinishAborted then fail SummaryAborted
      else if out_finish outcome = FinishError \<or> summary_has_context_overflow r then fail SummaryProviderFailure
      else if out_text outcome = [] then fail SummaryEmpty
      else if estimate_tokens (out_text outcome) > out_limit outcome
      then Some (outcome_error outcome SummaryOutputTruncated (estimate_tokens (out_text outcome)))
      else None)"

definition initial_outcome :: "summary_request \<Rightarrow> operation \<Rightarrow> summary_outcome" where
  "initial_outcome request op =
     \<lparr>out_text = [], out_provider = mdl_provider (req_model (srq_completion request)),
      out_model = mdl_id (req_model (srq_completion request)), out_reason = op_reason op,
      out_finish = FinishUnknown, out_estimated_input = sb_total_input (srq_budget request),
      out_reported_input = 0, out_reported_output = 0,
      out_limit = req_max_tokens (srq_completion request), out_truncated = False\<rparr>"

definition budget_failure_kind :: "summary_budget \<Rightarrow> summary_kind" where
  "budget_failure_kind b =
     (if sb_context_window b \<le> 0 \<or> sb_max_output b \<le> 0 \<or> sb_max_input b \<le> 0 \<or>
         sb_fixed_input b > sb_max_input b
      then SummaryFixedOverhead else SummaryInputOverflow)"

definition complete_summary_attempt ::
  "('w, 'e) client \<Rightarrow> 'w \<Rightarrow> summary_request \<Rightarrow> operation \<Rightarrow> ('w, 'e) summarized" where
  "complete_summary_attempt call w request op =
     (let outcome = initial_outcome request op; b = srq_budget request in
      case validate_summary_budget b of
        Some e \<Rightarrow>
          ((outcome, Some (SummaryFailed
             \<lparr>se_kind = budget_failure_kind b, se_cause = BudgetCause e, se_provider = out_provider outcome,
              se_model = out_model outcome, se_reason = out_reason outcome, se_input = sb_total_input b,
              se_limit = sb_max_input b, se_before = 0, se_after = 0\<rparr>)), w)
      | None \<Rightarrow>
          (case call w (srq_completion request) of
             (Inl e, w) \<Rightarrow> ((outcome, Some (ProviderFailed e)), w)
           | (Inr r, w) \<Rightarrow>
               let outcome = outcome\<lparr>out_text := trim_space (res_text r), out_finish := res_finish r,
                     out_reported_input := input_tokens (res_usage r),
                     out_reported_output := output_tokens (res_usage r),
                     out_truncated := summary_was_truncated r\<rparr>
               in ((outcome, map_option SummaryFailed (validate_summary_outcome outcome r)), w)))"

definition user_message :: "string \<Rightarrow> message" where
  "user_message content = \<lparr>msg_timestamp = 0, msg_role = RoleUser, msg_content = content,
     msg_provider = [], msg_model = [], msg_parts = []\<rparr>"

definition repair_request :: "summary_request \<Rightarrow> string \<Rightarrow> summary_request" where
  "repair_request request checkpoint =
     (let base = srq_completion request; b = srq_budget request;
          repair = base\<lparr>req_system_prompt := repair_prompt, req_messages := [user_message checkpoint],
            req_usage := compaction_request_usage (Some (req_model base)) repair_prompt [user_message checkpoint]\<rparr>
      in \<lparr>srq_completion = repair,
          srq_budget = new_summary_budget
            \<lparr>sbi_context_window = sb_context_window b, sbi_system_prompt_tokens = estimate_tokens repair_prompt,
             sbi_previous_summary_tokens = 0, sbi_split_turn_tokens = 0,
             sbi_history_tokens = estimate_message_tokens (req_messages repair),
             sbi_provider_reserve = sb_provider_reserve b, sbi_safety_margin = sb_safety_margin b,
             sbi_envelope_tokens = sb_envelope_tokens b, sbi_max_output_tokens = req_max_tokens repair\<rparr>\<rparr>)"

definition complete_summary ::
  "('w, 'e) client \<Rightarrow> 'w \<Rightarrow> summary_request \<Rightarrow> operation \<Rightarrow> ('w, 'e) summarized" where
  "complete_summary call w request op =
     (case complete_summary_attempt call w request op of
        ((outcome, Some e), w) \<Rightarrow> ((outcome, Some e), w)
      | ((outcome, None), w) \<Rightarrow>
          if validate_checkpoint (out_text outcome) = None then ((outcome, None), w)
          else (case complete_summary_attempt call w (repair_request request (out_text outcome)) op of
                  ((repaired, Some e), w) \<Rightarrow> ((repaired, Some e), w)
                | ((repaired, None), w) \<Rightarrow>
                    ((repaired, map_option StructureFailed (validate_checkpoint (out_text repaired))), w)))"

section \<open>Reduction\<close>

definition empty_outcome :: summary_outcome where
  "empty_outcome = \<lparr>out_text = [], out_provider = [], out_model = [], out_reason = ReasonOther [],
     out_finish = FinishUnknown, out_estimated_input = 0, out_reported_input = 0, out_reported_output = 0,
     out_limit = 0, out_truncated = False\<rparr>"

definition reduction_divisor :: nat where "reduction_divisor = 2"

definition messages_from_groups :: "semantic_group list \<Rightarrow> message list" where
  "messages_from_groups gs = concat (map grp_messages gs)"

definition chunk_from_groups :: "semantic_group list \<Rightarrow> chunk" where
  "chunk_from_groups gs = \<lparr>chk_groups = gs, chk_messages = messages_from_groups gs,
     chk_tokens = estimate_message_tokens (messages_from_groups gs)\<rparr>"

definition partition_reduction_groups ::
  "semantic_group list \<Rightarrow> int \<Rightarrow> bool \<Rightarrow> summary_cause + chunk list" where
  "partition_reduction_groups gs history_limit force_split =
     (case partition gs history_limit (int max_chunks_per_round) of
        Inl e \<Rightarrow> Inl (PartitionCause e)
      | Inr chunks \<Rightarrow>
          let chunks = (if force_split \<and> length chunks = 1 \<and> length gs \<ge> reduction_divisor
                        then let half = length gs div reduction_divisor in
                             [chunk_from_groups (take half gs), chunk_from_groups (drop half gs)]
                        else chunks)
          in if length chunks < reduction_divisor then Inl NotSplitCause else Inr chunks)"

definition no_progress_error ::
  "completion_request \<Rightarrow> operation \<Rightarrow> int \<Rightarrow> int \<Rightarrow> int \<Rightarrow> summary_cause \<Rightarrow> summary_error" where
  "no_progress_error base op input limit after cause =
     \<lparr>se_kind = SummaryNoProgress, se_cause = cause, se_provider = mdl_provider (req_model base),
      se_model = mdl_id (req_model base), se_reason = op_reason op, se_input = input, se_limit = limit,
      se_before = input, se_after = after\<rparr>"

definition with_messages :: "completion_request \<Rightarrow> message list \<Rightarrow> completion_request" where
  "with_messages base ms = base\<lparr>req_messages := ms,
     req_usage := compaction_request_usage (Some (req_model base)) (req_system_prompt base) ms\<rparr>"

definition reduction_group :: "string \<Rightarrow> semantic_group" where
  "reduction_group checkpoint = \<lparr>grp_kind = Reduction, grp_entry_ids = [],
     grp_messages = [user_message checkpoint], grp_tokens = estimate_message_tokens [user_message checkpoint]\<rparr>"

text \<open>The loop of \<open>summarizeReductionChunks\<close>.\<close>

fun summarize_chunks ::
  "('w, 'e) client \<Rightarrow> context_config \<Rightarrow> completion_request \<Rightarrow> operation \<Rightarrow> semantic_group list \<Rightarrow> 'w \<Rightarrow> chunk list
   \<Rightarrow> (semantic_group list \<times> summary_outcome \<times> 'e failure option) \<times> 'w" where
  "summarize_chunks call cfg base op reduced w [] = ((reduced, empty_outcome, None), w)"
| "summarize_chunks call cfg base op reduced w (c # cs) =
     (case complete_summary call w (new_summary_request cfg (with_messages base (chk_messages c))) op of
        ((outcome, Some e), w) \<Rightarrow> (([], outcome, Some e), w)
      | ((outcome, None), w) \<Rightarrow>
          summarize_chunks call cfg base op (reduced @ [reduction_group (out_text outcome)]) w cs)"

function complete_reduced_summary_level ::
  "('w, 'e) client \<Rightarrow> context_config \<Rightarrow> completion_request \<Rightarrow> semantic_group list \<Rightarrow> operation \<Rightarrow> nat \<Rightarrow> bool
   \<Rightarrow> 'w \<Rightarrow> ('w, 'e) summarized" where
  "complete_reduced_summary_level call cfg base gs op depth force_split w =
     (let history_limit = available_history_tokens (srq_budget (new_summary_request cfg base));
          before = estimate_message_tokens (req_messages base) in
      if depth > max_reduction_depth
      then ((empty_outcome, Some (SummaryFailed (no_progress_error base op before history_limit before NoCause))), w)
      else case partition_reduction_groups gs history_limit force_split of
        Inl cause \<Rightarrow>
          ((empty_outcome, Some (SummaryFailed (no_progress_error base op before history_limit before cause))), w)
      | Inr chunks \<Rightarrow>
          (case summarize_chunks call cfg base op [] w chunks of
             ((_, outcome, Some e), w) \<Rightarrow> ((outcome, Some e), w)
           | ((reduced, _, None), w) \<Rightarrow>
               let ms = messages_from_groups reduced; after = estimate_message_tokens ms in
               if after \<ge> before
               then ((empty_outcome,
                      Some (SummaryFailed (no_progress_error base op before history_limit after NoCause))), w)
               else
                 let request = with_messages base ms in
                 if validate_summary_budget (srq_budget (new_summary_request cfg request)) = None
                 then complete_summary call w (new_summary_request cfg request) op
                 else complete_reduced_summary_level call cfg request reduced op (depth + 1) False w))"
  by pat_completeness auto
termination
  by (relation "measure (\<lambda>(_, _, _, _, _, depth, _, _). Suc max_reduction_depth - depth)") auto

declare complete_reduced_summary_level.simps [simp del]

definition complete_reduced_summary ::
  "('w, 'e) client \<Rightarrow> context_config \<Rightarrow> completion_request \<Rightarrow> semantic_group list \<Rightarrow> operation \<Rightarrow> 'w
   \<Rightarrow> ('w, 'e) summarized" where
  "complete_reduced_summary call cfg base gs op w =
     complete_reduced_summary_level call cfg base gs op 1 True w"

type_synonym state_records = "file_operation list \<times> validation_record list \<times> active_work_record list"

definition summarize_compaction ::
  "('w, 'e) client \<Rightarrow> context_config \<Rightarrow> ai_model \<Rightarrow> int \<Rightarrow> operation \<Rightarrow> state_records plan \<Rightarrow> 'w
   \<Rightarrow> ('e failure + string) \<times> 'w" where
  "summarize_compaction call cfg selected limit op p w =
     (let sp = system_prompt (pln_previous_summary p) (pln_split_turn_summary p);
          request = \<lparr>req_system_prompt = sp, req_messages = pln_messages p,
            req_usage = compaction_request_usage (Some selected) sp (pln_messages p),
            req_model = selected, req_max_tokens = limit\<rparr>;
          ((outcome, err), w) =
            (case complete_summary call w (new_summary_request cfg request) op of
               ((outcome, None), w) \<Rightarrow> ((outcome, None), w)
             | ((outcome, Some e), w) \<Rightarrow>
                 if is_output_truncated e
                 then (case complete_reduced_summary call cfg request (pln_groups p) op w of
                         ((outcome, None), w) \<Rightarrow> ((outcome, None), w)
                       | ((outcome, Some e'), w) \<Rightarrow> ((outcome, Some (JoinedFailures e e')), w))
                 else ((outcome, Some e), w))
      in case err of
           Some e \<Rightarrow> (Inl e, w)
         | None \<Rightarrow>
             (case pln_records p of (files, validations, work) \<Rightarrow>
               (Inr (append_deterministic_state (out_text outcome) files validations work), w)))"

section \<open>Requests made\<close>

definition within_budget :: "context_config \<Rightarrow> completion_request \<Rightarrow> bool" where
  "within_budget cfg r \<longleftrightarrow> validate_summary_budget (srq_budget (new_summary_request cfg r)) = None"

lemma new_summary_request_completion [simp]: "srq_completion (new_summary_request cfg r) = r"
  by (simp add: new_summary_request_def case_prod_beta Let_def)



lemma repair_request_max [simp]:
  "req_max_tokens (srq_completion (repair_request q t)) = req_max_tokens (srq_completion q)"
  by (simp add: repair_request_def Let_def)

lemma with_messages_max [simp]: "req_max_tokens (with_messages r ms) = req_max_tokens r"
  by (simp add: with_messages_def)




section \<open>Results\<close>

definition good_summary :: "int \<Rightarrow> string \<Rightarrow> bool" where
  "good_summary limit t \<longleftrightarrow> t \<noteq> [] \<and> trim_space t = t \<and> validate_checkpoint t = None \<and> estimate_tokens t \<le> limit"

lemma attempt_success:
  "complete_summary_attempt call w q op = ((out, None), w') \<Longrightarrow>
   out_text out \<noteq> [] \<and> trim_space (out_text out) = out_text out \<and>
   estimate_tokens (out_text out) \<le> req_max_tokens (srq_completion q)"
  by (auto simp: complete_summary_attempt_def initial_outcome_def validate_summary_outcome_def Let_def
      split: option.splits prod.splits sum.splits if_splits)

lemma complete_summary_success:
  "complete_summary call w q op = ((out, None), w') \<Longrightarrow>
   good_summary (req_max_tokens (srq_completion q)) (out_text out)"
  by (auto simp: complete_summary_def good_summary_def split: option.splits prod.splits if_splits
      dest!: attempt_success)

lemma level_success:
  "complete_reduced_summary_level call cfg base gs op depth force w = ((out, None), w') \<Longrightarrow>
   good_summary (req_max_tokens base) (out_text out)"
proof (induction "Suc max_reduction_depth - depth" arbitrary: depth base gs force w)
  case 0
  then show ?case by (simp add: complete_reduced_summary_level.simps Let_def)
next
  case (Suc n)
  then have d: "\<not> depth > max_reduction_depth" by simp
  let ?limit = "available_history_tokens (srq_budget (new_summary_request cfg base))"
  obtain chunks where p: "partition_reduction_groups gs ?limit force = Inr chunks"
    using Suc.prems d by (cases "partition_reduction_groups gs ?limit force")
      (auto simp: complete_reduced_summary_level.simps [of call cfg base gs op depth force w] Let_def)
  obtain reduced o1 err w1 where c: "summarize_chunks call cfg base op [] w chunks = ((reduced, o1, err), w1)"
    by (metis surj_pair)
  have e: "err = None"
    using Suc.prems d p c by (cases err)
      (auto simp: complete_reduced_summary_level.simps [of call cfg base gs op depth force w] Let_def)
  let ?r = "with_messages base (messages_from_groups reduced)"
  consider "complete_summary call w1 (new_summary_request cfg ?r) op = ((out, None), w')"
    | "complete_reduced_summary_level call cfg ?r reduced op (depth + 1) False w1 = ((out, None), w')"
    using Suc.prems d p c e
    by (auto simp: complete_reduced_summary_level.simps [of call cfg base gs op depth force w] Let_def
        split: if_splits)
  then show ?case
  proof cases
    case 1
    from complete_summary_success [OF this] show ?thesis by simp
  next
    case 2
    from Suc(1) [OF _ 2] Suc(2) show ?thesis by simp
  qed
qed

section \<open>A sample checkpoint\<close>

definition sample_checkpoint_lines :: "string list" where
  "sample_checkpoint_lines = concat (map (\<lambda>h. [heading_mark @ h, ''- x'']) checkpoint_headings)"

definition sample_checkpoint :: string where
  "sample_checkpoint = join_with newline sample_checkpoint_lines"

lemma sample_checkpoint_trim: "trim_space sample_checkpoint = sample_checkpoint"
proof -
  have "sample_checkpoint = CHR ''#'' # (take (length sample_checkpoint - 2) (tl sample_checkpoint)) @ [CHR ''x'']"
    by code_simp
  then obtain m where m: "sample_checkpoint = CHR ''#'' # m @ [CHR ''x'']" by blast
  show ?thesis unfolding m by (rule trim_space_id) (simp_all add: byte_def is_space_def)
qed

lemma sample_checkpoint_lines_eq: "checkpoint_lines sample_checkpoint = sample_checkpoint_lines"
proof -
  have "CHR 0x0D \<notin> set sample_checkpoint" by code_simp
  moreover have "split_byte (CHR 0x0A) sample_checkpoint = sample_checkpoint_lines" by code_simp
  ultimately show ?thesis by (simp add: checkpoint_lines_def replace_all_absent sample_checkpoint_trim)
qed

lemma sample_checkpoint_valid: "validate_checkpoint sample_checkpoint = None"
proof -
  have "trim_space ''- x'' = ''- x''"
    using trim_space_id [of "CHR ''-''" "CHR ''x''" "'' ''"] by (simp add: byte_def is_space_def)
  then have b: "section_body [''- x'']"
    by (simp add: section_body_def body_line_def is_bullet_def starts_with_def bullet_mark_def
        reserved_mark_def heading_mark_def)
  have "map trim_right_blank sample_checkpoint_lines =
      [] @ concat (map2 (\<lambda>h b. (heading_mark @ h) # b) checkpoint_headings (replicate 9 [''- x'']))"
    by code_simp
  moreover have "length (replicate 9 [''- x'']) = length checkpoint_headings"
    by (simp add: checkpoint_headings_def)
  ultimately show ?thesis
    unfolding validate_checkpoint_shape sample_checkpoint_lines_eq checkpoint_shape_def using b
    by (intro exI [of _ "[]"] exI [of _ "replicate 9 [''- x'']"]) auto
qed

section \<open>Properties\<close>


text \<open>
  C21. Only a sound checkpoint is ever stored: when summarising succeeds, the summary is the
  deterministic rendering of a text that is not blank, is trimmed, passes the structural check
  and does not exceed the output limit by the estimator, whatever the provider answered.
\<close>
theorem summarize_compaction_success:
  assumes "summarize_compaction call cfg m limit op p w = (Inr summary, w')"
  shows "\<exists>t. t \<noteq> [] \<and> trim_space t = t \<and> validate_checkpoint t = None \<and> estimate_tokens t \<le> limit \<and>
    summary = append_deterministic_state t (fst (pln_records p)) (fst (snd (pln_records p)))
      (snd (snd (pln_records p)))"
proof -
  let ?sp = "system_prompt (pln_previous_summary p) (pln_split_turn_summary p)"
  let ?r = "\<lparr>req_system_prompt = ?sp, req_messages = pln_messages p,
            req_usage = compaction_request_usage (Some m) ?sp (pln_messages p),
            req_model = m, req_max_tokens = limit\<rparr>"
  obtain out err w1 where a: "complete_summary call w (new_summary_request cfg ?r) op = ((out, err), w1)"
    by (metis surj_pair)
  obtain out2 err2 w2 where b: "complete_reduced_summary call cfg ?r (pln_groups p) op w1 = ((out2, err2), w2)"
    by (metis surj_pair)
  have "\<exists>t. good_summary limit t \<and> summary = append_deterministic_state t (fst (pln_records p))
      (fst (snd (pln_records p))) (snd (snd (pln_records p)))"
  proof (cases err)
    case None
    with complete_summary_success [OF a [unfolded None]] assms show ?thesis
      by (auto simp: summarize_compaction_def a Let_def split: prod.splits)
  next
    case (Some e)
    have "err2 = None \<and> summary = append_deterministic_state (out_text out2) (fst (pln_records p))
        (fst (snd (pln_records p))) (snd (snd (pln_records p)))"
      using assms Some by (auto simp: summarize_compaction_def a b Let_def split: prod.splits option.splits if_splits)
    moreover from this b have "good_summary limit (out_text out2)"
      unfolding complete_reduced_summary_def by (auto dest: level_success)
    ultimately show ?thesis by blast
  qed
  then show ?thesis by (auto simp: good_summary_def)
qed

definition sample_client :: "(unit, unit) client" where
  "sample_client w r = (Inr \<lparr>res_finish = FinishStop, res_incomplete_reason = [], res_provider_finish = [],
     res_text = sample_checkpoint, res_usage = empty_usage\<rparr>, w)"

definition sample_model :: ai_model where
  "sample_model = \<lparr>mdl_provider = ''p'', mdl_id = ''m'', mdl_context_window = 100000, mdl_max_tokens = 0\<rparr>"

definition sample_summary_plan :: "state_records plan" where
  "sample_summary_plan = \<lparr>pln_first_kept_id = ''b'', pln_messages = [sample_turn RoleUser ''fix''],
     pln_previous_summary = [], pln_split_turn_summary = [], pln_summarized_ids = [''a''],
     pln_kept_ids = [''b''], pln_records = ([], [], []),
     pln_groups = groups_from_messages [sample_turn RoleUser ''fix''] [''a''],
     pln_tokens_before = 2, pln_first_kept_index = 1\<rparr>"

lemma estimate_tokens_le_length: "estimate_tokens s \<le> (int (length s) + 3) div 4"
  using rune_count_trim_le [of s] by (simp add: estimate_tokens_eq zdiv_mono1)

lemma sample_checkpoint_good: "400 \<le> limit \<Longrightarrow> good_summary limit sample_checkpoint"
proof -
  assume l: "400 \<le> limit"
  have "int (length sample_checkpoint) \<le> 400" by code_simp
  with estimate_tokens_le_length [of sample_checkpoint] l have "estimate_tokens sample_checkpoint \<le> limit"
    by linarith
  moreover have "sample_checkpoint \<noteq> []" by code_simp
  ultimately show ?thesis
    by (simp add: good_summary_def sample_checkpoint_trim sample_checkpoint_valid)
qed

lemma sample_client_completes:
  assumes "within_budget cfg r" and "good_summary (req_max_tokens r) sample_checkpoint"
  shows "\<exists>out. complete_summary sample_client () (new_summary_request cfg r) op = ((out, None), ())"
  using assms
  by (simp add: complete_summary_def complete_summary_attempt_def within_budget_def sample_client_def
      initial_outcome_def validate_summary_outcome_def summary_was_truncated_def
      summary_has_context_overflow_def good_summary_def Let_def not_less)

theorem summarize_compaction_success_witness:
  "\<exists>summary t. fst (summarize_compaction sample_client sample_policy sample_model 4096
      \<lparr>op_id = ''o'', op_reason = ReasonManual, op_retry_intent = RetryNone\<rparr> sample_summary_plan ()) = Inr summary \<and>
    validate_checkpoint t = None \<and> summary = append_deterministic_state t [] [] []"
proof -
  let ?op = "\<lparr>op_id = ''o'', op_reason = ReasonManual, op_retry_intent = RetryNone\<rparr>"
  let ?ms = "[sample_turn RoleUser ''fix'']"
  let ?r = "\<lparr>req_system_prompt = summary_prompt, req_messages = ?ms,
            req_usage = compaction_request_usage (Some sample_model) summary_prompt ?ms,
            req_model = sample_model, req_max_tokens = 4096\<rparr>"
  have "int (length summary_prompt) \<le> 2000" by code_simp
  with estimate_tokens_le_length [of summary_prompt] have sp: "estimate_tokens summary_prompt \<le> 501"
    by linarith
  have ms: "estimate_message_tokens ?ms \<le> 40"
    using estimate_tokens_le_length [of "''fix''"]
    by (simp add: estimate_one_message_tokens_eq sample_turn_def empty_message_def)
  have "within_budget sample_policy ?r"
    using sp ms by (simp add: within_budget_def validate_summary_budget_def new_summary_request_def
        new_summary_budget_def case_prod_beta Let_def sample_policy_def sample_model_def
        summary_model_limits_def minimum_summary_output_def default_summary_envelope_def max_def)
  from sample_client_completes [OF this, of ?op] sample_checkpoint_good [of 4096]
  obtain out where "complete_summary sample_client () (new_summary_request sample_policy ?r) ?op = ((out, None), ())"
    by auto
  then have "\<exists>summary. summarize_compaction sample_client sample_policy sample_model 4096 ?op sample_summary_plan ()
      = (Inr summary, ())"
    by (simp add: summarize_compaction_def sample_summary_plan_def system_prompt_def base_system_prompt_def Let_def)
  then obtain summary where s: "summarize_compaction sample_client sample_policy sample_model 4096 ?op
      sample_summary_plan () = (Inr summary, ())" by blast
  from summarize_compaction_success [OF s] s show ?thesis by (auto simp: sample_summary_plan_def)
qed

end
