(* ===== verification/Truncation.thy ===== *)
theory Truncation
  imports Go_Strings
begin

text \<open>
  Bounded tool output (\<^verbatim>\<open>internal/tool/truncate.go\<close>): the first or the last complete lines
  that fit a line and a byte limit, and the rune limit of one displayed line. The loops of
  \<open>collectHeadLines\<close> and \<open>collectTailLines\<close> are functions of the lines not yet visited.
\<close>

section \<open>Data\<close>

datatype truncated_by = TruncatedByNone | TruncatedByLines | TruncatedByBytes

record truncation_options =
  opt_max_lines :: int
  opt_max_bytes :: int

record truncation_result =
  tr_by :: truncated_by
  tr_content :: string
  tr_total_lines :: int
  tr_total_bytes :: int
  tr_output_lines :: int
  tr_output_bytes :: int
  tr_max_lines :: int
  tr_max_bytes :: int
  tr_truncated :: bool
  tr_last_line_partial :: bool
  tr_first_line_exceeds :: bool

definition default_max_lines :: int where "default_max_lines = 2000"
definition default_max_bytes :: int where "default_max_bytes = 50 * 1024"
definition grep_max_line_length :: int where "grep_max_line_length = 500"

abbreviation line_feed :: string where "line_feed \<equiv> [CHR 0x0A]"

section \<open>Operations\<close>

definition normalize_truncation_options :: "truncation_options \<Rightarrow> truncation_options" where
  "normalize_truncation_options opts =
     (let limits = opts;
          limits = (if opt_max_lines limits \<le> 0 then limits\<lparr>opt_max_lines := default_max_lines\<rparr> else limits)
      in if opt_max_bytes limits \<le> 0 then limits\<lparr>opt_max_bytes := default_max_bytes\<rparr> else limits)"

definition new_truncation_result ::
  "string \<Rightarrow> bool \<Rightarrow> truncated_by \<Rightarrow> bool \<Rightarrow> bool \<Rightarrow> string list \<Rightarrow> truncation_options \<Rightarrow> truncation_result" where
  "new_truncation_result content truncated by partial first_exceeds ls limits =
     \<lparr>tr_by = by, tr_content = content, tr_total_lines = int (length ls), tr_total_bytes = int (length content),
      tr_output_lines = int (length ls), tr_output_bytes = int (length content),
      tr_max_lines = opt_max_lines limits, tr_max_bytes = opt_max_bytes limits, tr_truncated = truncated,
      tr_last_line_partial = partial, tr_first_line_exceeds = first_exceeds\<rparr>"

text \<open>
  \<open>collectHeadLines\<close>: \<open>out\<close> holds the lines taken so far, so the line index is its length;
  \<open>bytes\<close> is \<open>outputBytes\<close>.
\<close>

fun collect_head :: "truncation_options \<Rightarrow> string list \<Rightarrow> int \<Rightarrow> string list \<Rightarrow> string list \<times> truncated_by" where
  "collect_head limits out bytes [] = (out, TruncatedByLines)"
| "collect_head limits out bytes (l # ls) =
     (if int (length out) \<ge> opt_max_lines limits then (out, TruncatedByLines)
      else let line_bytes = int (length l) + (if out \<noteq> [] then 1 else 0) in
        if bytes + line_bytes > opt_max_bytes limits then (out, TruncatedByBytes)
        else collect_head limits (out @ [l]) (bytes + line_bytes) ls)"

definition collect_head_lines :: "string list \<Rightarrow> truncation_options \<Rightarrow> string list \<times> truncated_by" where
  "collect_head_lines ls limits = collect_head limits [] 0 ls"

text \<open>\<open>truncateStringFromEnd\<close>: the start moves forward to the next byte that can begin a rune.\<close>

definition truncate_string_from_end :: "string \<Rightarrow> int \<Rightarrow> string" where
  "truncate_string_from_end s max_bytes =
     (if int (length s) \<le> max_bytes then s
      else dropWhile (\<lambda>c. \<not> rune_start (byte c)) (drop (length s - nat max_bytes) s))"

text \<open>
  \<open>collectTailLines\<close>: the lines come last first; \<open>out\<close> is kept in the order of the text, which
  is the reversal that the code performs at the end.
\<close>

fun collect_tail ::
  "truncation_options \<Rightarrow> string list \<Rightarrow> int \<Rightarrow> string list \<Rightarrow> string list \<times> truncated_by \<times> bool" where
  "collect_tail limits out bytes [] = (out, TruncatedByLines, False)"
| "collect_tail limits out bytes (l # ls) =
     (if int (length out) \<ge> opt_max_lines limits then (out, TruncatedByLines, False)
      else let line_bytes = int (length l) + (if out \<noteq> [] then 1 else 0) in
        if bytes + line_bytes > opt_max_bytes limits
        then (if out = [] then ([truncate_string_from_end l (opt_max_bytes limits)], TruncatedByBytes, True)
              else (out, TruncatedByBytes, False))
        else collect_tail limits (l # out) (bytes + line_bytes) ls)"

definition collect_tail_lines :: "string list \<Rightarrow> truncation_options \<Rightarrow> string list \<times> truncated_by \<times> bool" where
  "collect_tail_lines ls limits = collect_tail limits [] 0 (rev ls)"

definition truncate_head :: "string \<Rightarrow> truncation_options \<Rightarrow> truncation_result" where
  "truncate_head content opts =
     (let limits = normalize_truncation_options opts; ls = split_byte (CHR 0x0A) content;
          total_bytes = int (length content) in
      if int (length ls) \<le> opt_max_lines limits \<and> total_bytes \<le> opt_max_bytes limits
      then new_truncation_result content False TruncatedByNone False False ls limits
      else if int (length (ls ! 0)) > opt_max_bytes limits
      then \<lparr>tr_by = TruncatedByBytes, tr_content = [], tr_total_lines = int (length ls),
            tr_total_bytes = total_bytes, tr_output_lines = 0, tr_output_bytes = 0,
            tr_max_lines = opt_max_lines limits, tr_max_bytes = opt_max_bytes limits,
            tr_truncated = True, tr_last_line_partial = False, tr_first_line_exceeds = True\<rparr>
      else let (out, by) = collect_head_lines ls limits; out_content = join_with line_feed out in
        \<lparr>tr_by = by, tr_content = out_content, tr_total_lines = int (length ls),
         tr_total_bytes = total_bytes, tr_output_lines = int (length out),
         tr_output_bytes = int (length out_content),
         tr_max_lines = opt_max_lines limits, tr_max_bytes = opt_max_bytes limits,
         tr_truncated = True, tr_last_line_partial = False, tr_first_line_exceeds = False\<rparr>)"

definition truncate_tail :: "string \<Rightarrow> truncation_options \<Rightarrow> truncation_result" where
  "truncate_tail content opts =
     (let limits = normalize_truncation_options opts; ls = split_byte (CHR 0x0A) content;
          total_bytes = int (length content) in
      if int (length ls) \<le> opt_max_lines limits \<and> total_bytes \<le> opt_max_bytes limits
      then new_truncation_result content False TruncatedByNone False False ls limits
      else let (out, by, partial) = collect_tail_lines ls limits; out_content = join_with line_feed out in
        \<lparr>tr_by = by, tr_content = out_content, tr_total_lines = int (length ls),
         tr_total_bytes = total_bytes, tr_output_lines = int (length out),
         tr_output_bytes = int (length out_content),
         tr_max_lines = opt_max_lines limits, tr_max_bytes = opt_max_bytes limits,
         tr_truncated = True, tr_last_line_partial = partial, tr_first_line_exceeds = False\<rparr>)"

definition truncate_line :: "string \<Rightarrow> int \<Rightarrow> string \<times> bool" where
  "truncate_line line max_characters =
     (let max_characters = (if max_characters \<le> 0 then grep_max_line_length else max_characters);
          runes = go_runes line in
      if int (length runes) \<le> max_characters then (line, False)
      else (string_of_runes (take (nat max_characters) runes) @ ''... [truncated]'', True))"

section \<open>Lemmas\<close>

lemma normalize_pos:
  "0 < opt_max_lines (normalize_truncation_options opts)" "0 < opt_max_bytes (normalize_truncation_options opts)"
  by (auto simp: normalize_truncation_options_def Let_def default_max_lines_def default_max_bytes_def)

definition joined_size :: "string list \<Rightarrow> int" where
  "joined_size ls = int (length (join_with line_feed ls))"

lemma joined_size_Nil [simp]: "joined_size [] = 0"
  by (simp add: joined_size_def)

lemma joined_size_snoc: "joined_size (ls @ [l]) = joined_size ls + int (length l) + (if ls \<noteq> [] then 1 else 0)"
  by (cases "ls = []") (simp_all add: joined_size_def join_with_append)

lemma joined_size_Cons: "joined_size (l # ls) = joined_size ls + int (length l) + (if ls \<noteq> [] then 1 else 0)"
  by (cases "ls = []") (simp_all add: joined_size_def join_with_Cons)

text \<open>The lines taken are the longest prefix that fits both limits.\<close>

definition fits :: "truncation_options \<Rightarrow> string list \<Rightarrow> bool" where
  "fits limits ls \<longleftrightarrow> int (length ls) \<le> opt_max_lines limits \<and> joined_size ls \<le> opt_max_bytes limits"

lemma collect_head_spec:
  "collect_head limits out (joined_size out) ls = (res, by) \<Longrightarrow> fits limits out \<Longrightarrow>
   \<exists>new rest. res = out @ new \<and> ls = new @ rest \<and> fits limits res \<and>
     (rest \<noteq> [] \<longrightarrow> \<not> fits limits (res @ [hd rest])) \<and>
     (by = TruncatedByBytes \<longleftrightarrow> rest \<noteq> [] \<and> int (length res) < opt_max_lines limits) \<and> by \<noteq> TruncatedByNone"
proof (induction ls arbitrary: out)
  case Nil
  then show ?case by auto
next
  case (Cons l ls)
  have snoc: "joined_size out + (int (length l) + (if out \<noteq> [] then 1 else 0)) = joined_size (out @ [l])"
    by (simp add: joined_size_snoc)
  consider (full) "int (length out) \<ge> opt_max_lines limits"
    | (big) "int (length out) < opt_max_lines limits" "joined_size (out @ [l]) > opt_max_bytes limits"
    | (ok) "int (length out) < opt_max_lines limits" "joined_size (out @ [l]) \<le> opt_max_bytes limits"
    by linarith
  then show ?case
  proof cases
    case full
    with Cons.prems show ?thesis by (auto simp: fits_def intro!: exI [of _ "[]"])
  next
    case big
    with Cons.prems(1) have "res = out" "by = TruncatedByBytes" by (auto simp: Let_def snoc)
    with big Cons.prems(2) show ?thesis by (auto simp: fits_def intro!: exI [of _ "[]"])
  next
    case ok
    with Cons.prems(1) have rec: "collect_head limits (out @ [l]) (joined_size (out @ [l])) ls = (res, by)"
      by (simp add: Let_def snoc)
    have "fits limits (out @ [l])" using ok by (simp add: fits_def)
    from Cons.IH [OF rec this] obtain new rest where "res = (out @ [l]) @ new" "ls = new @ rest"
      "fits limits res" "rest \<noteq> [] \<longrightarrow> \<not> fits limits (res @ [hd rest])"
      "by = TruncatedByBytes \<longleftrightarrow> rest \<noteq> [] \<and> int (length res) < opt_max_lines limits" "by \<noteq> TruncatedByNone" by blast
    then show ?thesis by (intro exI [of _ "l # new"] exI [of _ rest]) simp
  qed
qed

lemma collect_tail_spec:
  "collect_tail limits out (joined_size out) ls = (res, by, partial) \<Longrightarrow> fits limits out \<Longrightarrow>
   0 < opt_max_lines limits \<Longrightarrow> 0 < opt_max_bytes limits \<Longrightarrow>
   (partial \<and> out = [] \<and> (\<exists>l rest. ls = l # rest \<and> opt_max_bytes limits < int (length l) \<and>
      res = [truncate_string_from_end l (opt_max_bytes limits)])) \<or>
   (\<not> partial \<and> (\<exists>new rest. res = rev new @ out \<and> ls = new @ rest \<and> fits limits res \<and>
      (rest \<noteq> [] \<longrightarrow> \<not> fits limits (hd rest # res))))"
proof (induction ls arbitrary: out)
  case Nil
  then show ?case by auto
next
  case (Cons l ls)
  have cons: "joined_size out + (int (length l) + (if out \<noteq> [] then 1 else 0)) = joined_size (l # out)"
    by (simp add: joined_size_Cons)
  consider (full) "int (length out) \<ge> opt_max_lines limits"
    | (big) "int (length out) < opt_max_lines limits" "joined_size (l # out) > opt_max_bytes limits"
    | (ok) "int (length out) < opt_max_lines limits" "joined_size (l # out) \<le> opt_max_bytes limits"
    by linarith
  then show ?case
  proof cases
    case full
    with Cons.prems show ?thesis by (auto simp: fits_def intro!: exI [of _ "[]"])
  next
    case big
    show ?thesis
    proof (cases "out = []")
      case True
      with big Cons.prems(1) have "res = [truncate_string_from_end l (opt_max_bytes limits)]" "partial"
        by (auto simp: Let_def joined_size_Cons)
      with True big show ?thesis by (auto simp: joined_size_Cons)
    next
      case False
      with big Cons.prems(1) have "res = out" "\<not> partial" by (auto simp: Let_def joined_size_Cons split: if_splits)
      with big Cons.prems(2) show ?thesis by (auto simp: fits_def intro!: exI [of _ "[]"])
    qed
  next
    case ok
    with Cons.prems(1) have rec: "collect_tail limits (l # out) (joined_size (l # out)) ls = (res, by, partial)"
      by (simp add: Let_def cons)
    have "fits limits (l # out)" using ok by (simp add: fits_def)
    from Cons.IH [OF rec this Cons.prems(3,4)] obtain new rest where "\<not> partial" "res = rev new @ l # out"
      "ls = new @ rest" "fits limits res" "rest \<noteq> [] \<longrightarrow> \<not> fits limits (hd rest # res)" by auto
    then show ?thesis by (intro disjI2 conjI exI [of _ "l # new"] exI [of _ rest]) simp_all
  qed
qed

lemma truncate_string_from_end_spec:
  assumes "0 < m"
  shows "\<exists>p. s = p @ truncate_string_from_end s m" and "int (length (truncate_string_from_end s m)) \<le> m"
    and "m < int (length s) \<Longrightarrow> truncate_string_from_end s m = [] \<or> rune_start (byte (hd (truncate_string_from_end s m)))"
proof -
  let ?d = "drop (length s - nat m) s" and ?P = "\<lambda>c. \<not> rune_start (byte c)"
  show "\<exists>p. s = p @ truncate_string_from_end s m"
  proof (cases "int (length s) \<le> m")
    case False
    have "s = (take (length s - nat m) s @ takeWhile ?P ?d) @ dropWhile ?P ?d" by simp
    with False show ?thesis by (metis truncate_string_from_end_def)
  qed (simp add: truncate_string_from_end_def)
  have "length (dropWhile ?P ?d) \<le> length ?d" by (rule length_dropWhile_le)
  then show "int (length (truncate_string_from_end s m)) \<le> m"
    using assms by (auto simp: truncate_string_from_end_def)
  show "m < int (length s) \<Longrightarrow>
      truncate_string_from_end s m = [] \<or> rune_start (byte (hd (truncate_string_from_end s m)))"
    using hd_dropWhile [of ?P ?d] by (auto simp: truncate_string_from_end_def)
qed

text \<open>A rune-aligned suffix within the limit is contained in the truncated string.\<close>

lemma truncate_string_from_end_longest:
  assumes "s = p @ c # q" and "rune_start (byte c)" and "int (length (c # q)) \<le> m"
  shows "length (c # q) \<le> length (truncate_string_from_end s m)"
proof (cases "int (length s) \<le> m")
  case True
  with assms show ?thesis by (simp add: truncate_string_from_end_def)
next
  case False
  let ?k = "length s - nat m" and ?P = "\<lambda>c. \<not> rune_start (byte c)"
  have "?k \<le> length p" using assms False by simp
  then have d: "drop ?k s = drop ?k p @ c # q" using assms(1) by simp
  have "length (dropWhile ?P (drop ?k p @ c # q)) \<ge> length (c # q)" for u
    using assms(2) by (simp add: dropWhile_append)
  then show ?thesis using False d by (simp add: truncate_string_from_end_def)
qed

lemma joined_split [simp]: "joined_size (split_byte (CHR 0x0A) s) = int (length s)"
  by (simp add: joined_size_def)

section \<open>Properties\<close>

text \<open>
  Head truncation: content within both limits is returned as it is; otherwise, unless the
  first line alone exceeds the byte limit, the result is the longest nonempty proper prefix of
  complete lines that fits, and the reported sizes are those of what is returned.
\<close>
theorem truncate_head_longest_prefix:
  fixes content :: string
  defines "ls \<equiv> split_byte (CHR 0x0A) content"
  shows "if fits (normalize_truncation_options opts) ls
    then tr_content (truncate_head content opts) = content \<and> \<not> tr_truncated (truncate_head content opts)
    else tr_truncated (truncate_head content opts) \<and>
      tr_output_bytes (truncate_head content opts) = int (length (tr_content (truncate_head content opts))) \<and>
      (if int (length (hd ls)) > opt_max_bytes (normalize_truncation_options opts)
       then tr_content (truncate_head content opts) = [] \<and> tr_first_line_exceeds (truncate_head content opts)
       else \<exists>n. 0 < n \<and> n < length ls \<and> tr_content (truncate_head content opts) = join_with line_feed (take n ls) \<and>
         tr_output_lines (truncate_head content opts) = int n \<and>
         fits (normalize_truncation_options opts) (take n ls) \<and>
         \<not> fits (normalize_truncation_options opts) (take (Suc n) ls))"
proof -
  let ?lim = "normalize_truncation_options opts"
  have ls: "ls \<noteq> []" "ls ! 0 = hd ls" by (simp_all add: ls_def hd_conv_nth)
  have size: "joined_size ls = int (length content)" by (simp add: ls_def)
  show ?thesis
  proof (cases "fits ?lim ls")
    case True
    with size show ?thesis
      by (simp add: fits_def truncate_head_def new_truncation_result_def ls_def Let_def)
  next
    case False
    then have nf: "\<not> (int (length ls) \<le> opt_max_lines ?lim \<and> int (length content) \<le> opt_max_bytes ?lim)"
      by (simp add: fits_def size)
    obtain out by' where c: "collect_head_lines ls ?lim = (out, by')" by (cases "collect_head_lines ls ?lim")
    have e: "fits ?lim []" using normalize_pos [of opts] by (simp add: fits_def)
    from collect_head_spec [of ?lim "[]" ls out by'] c e obtain rest where
      r: "ls = out @ rest" "fits ?lim out" "rest \<noteq> [] \<longrightarrow> \<not> fits ?lim (out @ [hd rest])"
      by (auto simp: collect_head_lines_def)
    show ?thesis
    proof (cases "int (length (hd ls)) > opt_max_bytes ?lim")
      case True
      with False nf ls show ?thesis by (auto simp: truncate_head_def ls_def Let_def)
    next
      case small: False
      have rest: "rest \<noteq> []" using False r by auto
      have "out \<noteq> []"
      proof
        assume "out = []"
        with r rest have "\<not> fits ?lim [hd ls]" by simp
        with small normalize_pos [of opts] show False by (simp add: fits_def joined_size_Cons)
      qed
      moreover have "take (length out) ls = out" "take (Suc (length out)) ls = out @ [hd rest]"
        using r(1) rest by (auto simp: take_Suc_conv_app_nth hd_conv_nth nth_append)
      moreover have "truncate_head content opts = \<lparr>tr_by = by', tr_content = join_with line_feed out,
          tr_total_lines = int (length ls), tr_total_bytes = int (length content),
          tr_output_lines = int (length out), tr_output_bytes = int (length (join_with line_feed out)),
          tr_max_lines = opt_max_lines ?lim, tr_max_bytes = opt_max_bytes ?lim, tr_truncated = True,
          tr_last_line_partial = False, tr_first_line_exceeds = False\<rparr>"
        using small ls c unfolding truncate_head_def Let_def ls_def [symmetric] if_not_P [OF nf] by simp
      ultimately show ?thesis
        using False small r rest by (auto intro!: exI [of _ "length out"])
    qed
  qed
qed

text \<open>
  Tail truncation: content within both limits is returned as it is; otherwise the result is
  the longest proper suffix of complete lines that fits, or, when the last line alone exceeds
  the byte limit, a suffix of that line within the limit that begins at a rune boundary.
\<close>
theorem truncate_tail_longest_suffix:
  fixes content :: string
  defines "ls \<equiv> split_byte (CHR 0x0A) content"
  shows "if fits (normalize_truncation_options opts) ls
    then tr_content (truncate_tail content opts) = content \<and> \<not> tr_truncated (truncate_tail content opts)
    else tr_truncated (truncate_tail content opts) \<and>
      int (length (tr_content (truncate_tail content opts))) \<le> opt_max_bytes (normalize_truncation_options opts) \<and>
      (\<exists>p. content = p @ tr_content (truncate_tail content opts)) \<and>
      (if tr_last_line_partial (truncate_tail content opts)
       then opt_max_bytes (normalize_truncation_options opts) < int (length (last ls)) \<and>
         (tr_content (truncate_tail content opts) = [] \<or>
          rune_start (byte (hd (tr_content (truncate_tail content opts)))))
       else \<exists>n < length ls. tr_content (truncate_tail content opts) = join_with line_feed (drop (Suc n) ls) \<and>
         fits (normalize_truncation_options opts) (drop (Suc n) ls) \<and>
         \<not> fits (normalize_truncation_options opts) (drop n ls))"
proof -
  let ?lim = "normalize_truncation_options opts"
  have ls: "ls \<noteq> []" by (simp add: ls_def)
  have size: "joined_size ls = int (length content)" by (simp add: ls_def)
  have j: "join_with line_feed ls = content" by (simp add: ls_def)
  have suffix: "\<exists>p. content = p @ join_with line_feed ys" if "ls = xs @ ys" "ys \<noteq> []" for xs ys
    using that j by (cases "xs = []") (auto simp: join_with_append)
  show ?thesis
  proof (cases "fits ?lim ls")
    case True
    with size show ?thesis
      by (simp add: fits_def truncate_tail_def new_truncation_result_def ls_def Let_def)
  next
    case False
    then have nf: "\<not> (int (length ls) \<le> opt_max_lines ?lim \<and> int (length content) \<le> opt_max_bytes ?lim)"
      by (simp add: fits_def size)
    obtain out by' partial where c: "collect_tail_lines ls ?lim = (out, by', partial)"
      by (rule prod_cases3)
    have e: "fits ?lim []" using normalize_pos [of opts] by (simp add: fits_def)
    have tt: "tr_content (truncate_tail content opts) = join_with line_feed out"
      "tr_truncated (truncate_tail content opts)" "tr_last_line_partial (truncate_tail content opts) = partial"
      using c unfolding truncate_tail_def Let_def ls_def [symmetric] if_not_P [OF nf] by simp_all
    from collect_tail_spec [of ?lim "[]" "rev ls" out by' partial] c e normalize_pos [of opts]
    consider (partial) l rest where partial "rev ls = l # rest" "opt_max_bytes ?lim < int (length l)"
        "out = [truncate_string_from_end l (opt_max_bytes ?lim)]"
      | (whole) new rest where "\<not> partial" "out = rev new" "rev ls = new @ rest" "fits ?lim out"
        "rest \<noteq> [] \<longrightarrow> \<not> fits ?lim (hd rest # out)"
      by (auto simp: collect_tail_lines_def)
    then show ?thesis
    proof cases
      case partial
      let ?t = "truncate_string_from_end l (opt_max_bytes ?lim)"
      have lsl: "ls = rev rest @ [l]" using partial(2) by (metis rev.simps(2) rev_rev_ident)
      from truncate_string_from_end_spec [OF normalize_pos(2) [of opts], of l] obtain p where
        p: "l = p @ ?t" and le: "int (length ?t) \<le> opt_max_bytes ?lim" by blast
      have "?t = [] \<or> rune_start (byte (hd ?t))"
        using truncate_string_from_end_spec(3) [OF normalize_pos(2) partial(3)] .
      moreover from suffix [OF lsl] obtain q where "content = q @ l" by auto
      then have "content = (q @ p) @ ?t" using p by simp
      ultimately show ?thesis using False tt partial le lsl by auto
    next
      case whole
      have lsw: "ls = rev rest @ out" using whole(2,3) by (metis rev_append rev_rev_ident)
      with False whole(4) have rest: "rest \<noteq> []" by auto
      let ?n = "length rest - 1"
      have n: "Suc ?n = length rest" using rest by (cases rest) auto
      have d1: "drop (Suc ?n) ls = out" unfolding n lsw by simp
      have rr: "rev rest = rev (tl rest) @ [hd rest]" using rest by (cases rest) auto
      have d2: "drop ?n ls = hd rest # out" using rest by (simp add: lsw rr)
      have lt: "?n < length ls" using n lsw by simp
      have "int (length (join_with line_feed out)) \<le> opt_max_bytes ?lim"
        using whole(4) by (simp add: fits_def joined_size_def)
      moreover have "\<exists>p. content = p @ join_with line_feed out"
        using suffix [OF lsw] by (cases "out = []") auto
      ultimately show ?thesis using False tt whole rest lt d1 d2 by (auto intro!: exI [of _ ?n])
    qed
  qed
qed

end
