(* ===== verification/Steering_Inbox.thy ===== *)
theory Steering_Inbox
  imports Prelude
begin

text \<open>
  The steering inboxes of active runs (\<^verbatim>\<open>internal/assistant/steering_inbox.go\<close>). Inboxes
  are shared through pointers, so they live in a heap (a list; an address is an index) and the
  registry maps session ids to addresses. Every function here is one critical section of the
  code; an operation that releases the registry lock before it takes the inbox lock is the
  sequence of two of them, and the step relation interleaves them freely.
\<close>

section \<open>Data\<close>

record image_attachment =
  img_name :: string
  img_mime_type :: string
  img_data :: string
  img_width :: int
  img_height :: int

record steering_draft =
  dr_text :: string
  dr_images :: "image_attachment list"
  dr_hide_user_prompt :: bool

record steering_inbox =
  ibx_run_id :: string
  ibx_drafts :: "steering_draft list"
  ibx_capacity :: int
  ibx_closed :: bool

record steering_registry =
  srg_inboxes :: "string \<Rightarrow> nat option"
  srg_capacity :: int
  srg_heap :: "steering_inbox list"

datatype steering_error = SteeringInactive | SteeringStaleRun | SteeringClosed | SteeringCapacity

definition default_steering_capacity :: int where "default_steering_capacity = 32"

section \<open>Operations on one inbox\<close>

definition clone_steering_draft :: "steering_draft \<Rightarrow> steering_draft" where
  "clone_steering_draft d = \<lparr>dr_text = dr_text d,
     dr_images = map (\<lambda>i. \<lparr>img_name = img_name i, img_mime_type = img_mime_type i, img_data = img_data i,
       img_width = img_width i, img_height = img_height i\<rparr>) (dr_images d),
     dr_hide_user_prompt = dr_hide_user_prompt d\<rparr>"

definition clone_steering_drafts :: "steering_draft list \<Rightarrow> steering_draft list" where
  "clone_steering_drafts ds = (if length ds = 0 then [] else map clone_steering_draft ds)"

lemma clone_steering_draft_id [simp]: "clone_steering_draft d = d"
proof -
  have "map (\<lambda>i. \<lparr>img_name = img_name i, img_mime_type = img_mime_type i, img_data = img_data i,
       img_width = img_width i, img_height = img_height i\<rparr>) is = is" for "is" :: "image_attachment list"
    by (induction "is") simp_all
  then show ?thesis by (simp add: clone_steering_draft_def)
qed

lemma clone_steering_drafts_id [simp]: "clone_steering_drafts ds = ds"
  by (simp add: clone_steering_drafts_def map_idI)

definition inbox_accept :: "steering_inbox \<Rightarrow> string \<Rightarrow> steering_draft \<Rightarrow> steering_error + steering_inbox" where
  "inbox_accept ib run_id d =
     (if ibx_run_id ib \<noteq> run_id then Inl SteeringStaleRun
      else if ibx_closed ib then Inl SteeringClosed
      else if int (length (ibx_drafts ib)) \<ge> ibx_capacity ib then Inl SteeringCapacity
      else Inr (ib\<lparr>ibx_drafts := ibx_drafts ib @ [clone_steering_draft d]\<rparr>))"

definition inbox_drain :: "steering_inbox \<Rightarrow> string \<Rightarrow> steering_error + (steering_draft list \<times> steering_inbox)" where
  "inbox_drain ib run_id =
     (if ibx_run_id ib \<noteq> run_id then Inl SteeringStaleRun
      else if ibx_closed ib then Inl SteeringClosed
      else Inr (clone_steering_drafts (ibx_drafts ib), ib\<lparr>ibx_drafts := []\<rparr>))"

definition inbox_restore ::
  "steering_inbox \<Rightarrow> string \<Rightarrow> steering_draft list \<Rightarrow> steering_error + steering_inbox" where
  "inbox_restore ib run_id ds =
     (if length ds = 0 then Inr ib
      else if ibx_run_id ib \<noteq> run_id then Inl SteeringStaleRun
      else if ibx_closed ib then Inl SteeringClosed
      else if int (length (ibx_drafts ib)) + int (length ds) > ibx_capacity ib then Inl SteeringCapacity
      else Inr (ib\<lparr>ibx_drafts := clone_steering_drafts ds @ ibx_drafts ib\<rparr>))"

definition inbox_close :: "steering_inbox \<Rightarrow> string \<Rightarrow> steering_error + (steering_draft list \<times> steering_inbox)" where
  "inbox_close ib run_id =
     (if ibx_run_id ib \<noteq> run_id then Inl SteeringStaleRun
      else if ibx_closed ib then Inl SteeringClosed
      else Inr (clone_steering_drafts (ibx_drafts ib), ib\<lparr>ibx_closed := True, ibx_drafts := []\<rparr>))"

section \<open>Operations on the registry\<close>

definition new_steering_registry :: "int \<Rightarrow> steering_registry" where
  "new_steering_registry capacity =
     \<lparr>srg_inboxes = (\<lambda>_. None),
      srg_capacity = (if capacity \<le> 0 then default_steering_capacity else capacity), srg_heap = []\<rparr>"

definition registry_register ::
  "steering_registry \<Rightarrow> string \<Rightarrow> string \<Rightarrow> steering_error + steering_registry" where
  "registry_register r session_id run_id =
     (case srg_inboxes r session_id of
        Some _ \<Rightarrow> Inl SteeringStaleRun
      | None \<Rightarrow> Inr (r\<lparr>srg_inboxes := (srg_inboxes r)(session_id \<mapsto> length (srg_heap r)),
          srg_heap := srg_heap r @ [\<lparr>ibx_run_id = run_id, ibx_drafts = [], ibx_capacity = srg_capacity r,
            ibx_closed = False\<rparr>]\<rparr>))"

text \<open>
  The part that \<open>settleIfEmpty\<close> and \<open>drainFinal\<close> share: under both locks, an empty inbox is
  closed and removed. The result tells the drafts found.
\<close>

definition registry_settle ::
  "bool \<Rightarrow> steering_registry \<Rightarrow> string \<Rightarrow> string \<Rightarrow> steering_error + (steering_draft list \<times> steering_registry)" where
  "registry_settle drain r session_id run_id =
     (case srg_inboxes r session_id of
        None \<Rightarrow> Inl SteeringInactive
      | Some a \<Rightarrow>
          let ib = srg_heap r ! a in
          if ibx_run_id ib \<noteq> run_id then Inl SteeringStaleRun
          else if ibx_closed ib then Inl SteeringClosed
          else if length (ibx_drafts ib) \<noteq> 0
          then Inr (clone_steering_drafts (ibx_drafts ib),
                    if drain then r\<lparr>srg_heap := (srg_heap r)[a := ib\<lparr>ibx_drafts := []\<rparr>]\<rparr> else r)
          else Inr ([], r\<lparr>srg_heap := (srg_heap r)[a := ib\<lparr>ibx_closed := True, ibx_drafts := []\<rparr>],
                         srg_inboxes := (srg_inboxes r)(session_id := None)\<rparr>))"

definition registry_settle_if_empty ::
  "steering_registry \<Rightarrow> string \<Rightarrow> string \<Rightarrow> steering_error + (bool \<times> steering_registry)" where
  "registry_settle_if_empty r session_id run_id =
     (case registry_settle False r session_id run_id of
        Inl e \<Rightarrow> Inl e | Inr (ds, r') \<Rightarrow> Inr (ds = [], r'))"

definition registry_drain_final ::
  "steering_registry \<Rightarrow> string \<Rightarrow> string \<Rightarrow> steering_error + (steering_draft list \<times> steering_registry)" where
  "registry_drain_final r session_id run_id = registry_settle True r session_id run_id"

text \<open>The registry half of \<open>close\<close>: the inbox leaves the registry before it is closed.\<close>

definition registry_detach ::
  "steering_registry \<Rightarrow> string \<Rightarrow> string \<Rightarrow> steering_error + (nat \<times> steering_registry)" where
  "registry_detach r session_id run_id =
     (case srg_inboxes r session_id of
        None \<Rightarrow> Inl SteeringInactive
      | Some a \<Rightarrow>
          if ibx_run_id (srg_heap r ! a) \<noteq> run_id then Inl SteeringStaleRun
          else Inr (a, r\<lparr>srg_inboxes := (srg_inboxes r)(session_id := None)\<rparr>))"

text \<open>The operations without interleaving: lookup, then the operation on the inbox found.\<close>

definition registry_accept ::
  "steering_registry \<Rightarrow> string \<Rightarrow> string \<Rightarrow> steering_draft \<Rightarrow> steering_error + steering_registry" where
  "registry_accept r session_id run_id d =
     (case srg_inboxes r session_id of
        None \<Rightarrow> Inl SteeringInactive
      | Some a \<Rightarrow> map_sum id (\<lambda>ib. r\<lparr>srg_heap := (srg_heap r)[a := ib]\<rparr>) (inbox_accept (srg_heap r ! a) run_id d))"

definition registry_drain ::
  "steering_registry \<Rightarrow> string \<Rightarrow> string \<Rightarrow> steering_error + (steering_draft list \<times> steering_registry)" where
  "registry_drain r session_id run_id =
     (case srg_inboxes r session_id of
        None \<Rightarrow> Inl SteeringInactive
      | Some a \<Rightarrow> map_sum id (\<lambda>(ds, ib). (ds, r\<lparr>srg_heap := (srg_heap r)[a := ib]\<rparr>))
          (inbox_drain (srg_heap r ! a) run_id))"

definition registry_restore ::
  "steering_registry \<Rightarrow> string \<Rightarrow> string \<Rightarrow> steering_draft list \<Rightarrow> steering_error + steering_registry" where
  "registry_restore r session_id run_id ds =
     (case srg_inboxes r session_id of
        None \<Rightarrow> Inl SteeringInactive
      | Some a \<Rightarrow> map_sum id (\<lambda>ib. r\<lparr>srg_heap := (srg_heap r)[a := ib]\<rparr>) (inbox_restore (srg_heap r ! a) run_id ds))"

definition registry_close ::
  "steering_registry \<Rightarrow> string \<Rightarrow> string \<Rightarrow> steering_error + (steering_draft list \<times> steering_registry)" where
  "registry_close r session_id run_id =
     (case registry_detach r session_id run_id of
        Inl e \<Rightarrow> Inl e
      | Inr (a, r') \<Rightarrow> map_sum id (\<lambda>(ds, ib). (ds, r'\<lparr>srg_heap := (srg_heap r')[a := ib]\<rparr>))
          (inbox_close (srg_heap r' ! a) run_id))"

section \<open>Interleavings\<close>

text \<open>
  The system: the registry, the closes that have left the registry and not yet closed their
  inbox, and, for each inbox, what was accepted into it, restored to it and returned from it.
\<close>

record steering_sys =
  ss_registry :: steering_registry
  ss_closing :: "(nat \<times> string) list"
  ss_accepted :: "nat \<Rightarrow> steering_draft list"
  ss_restored :: "nat \<Rightarrow> steering_draft list"
  ss_returned :: "nat \<Rightarrow> steering_draft list"

definition put_inbox :: "steering_sys \<Rightarrow> nat \<Rightarrow> steering_inbox \<Rightarrow> steering_sys" where
  "put_inbox s a ib = s\<lparr>ss_registry := (ss_registry s)\<lparr>srg_heap := (srg_heap (ss_registry s))[a := ib]\<rparr>\<rparr>"

abbreviation inbox_at :: "steering_sys \<Rightarrow> nat \<Rightarrow> steering_inbox" where
  "inbox_at s a \<equiv> srg_heap (ss_registry s) ! a"

abbreviation allocated :: "steering_sys \<Rightarrow> nat \<Rightarrow> bool" where
  "allocated s a \<equiv> a < length (srg_heap (ss_registry s))"

definition steering_init :: "steering_sys \<Rightarrow> bool" where
  "steering_init s \<longleftrightarrow> (\<exists>capacity. ss_registry s = new_steering_registry capacity) \<and> ss_closing s = [] \<and>
     ss_accepted s = (\<lambda>_. []) \<and> ss_restored s = (\<lambda>_. []) \<and> ss_returned s = (\<lambda>_. [])"

text \<open>
  A pointer found by an earlier lookup may be used at any later time, so accepting, draining and
  restoring apply to every allocated inbox.
\<close>

inductive steering_step :: "steering_sys \<Rightarrow> steering_sys \<Rightarrow> bool" where
  register: "registry_register (ss_registry s) sid rid = Inr r \<Longrightarrow> steering_step s (s\<lparr>ss_registry := r\<rparr>)"
| accept: "allocated s a \<Longrightarrow> inbox_accept (inbox_at s a) rid d = Inr ib \<Longrightarrow>
    steering_step s ((put_inbox s a ib)\<lparr>ss_accepted := (ss_accepted s)(a := ss_accepted s a @ [d])\<rparr>)"
| drain: "allocated s a \<Longrightarrow> inbox_drain (inbox_at s a) rid = Inr (ds, ib) \<Longrightarrow>
    steering_step s ((put_inbox s a ib)\<lparr>ss_returned := (ss_returned s)(a := ss_returned s a @ ds)\<rparr>)"
| restore: "allocated s a \<Longrightarrow> inbox_restore (inbox_at s a) rid ds = Inr ib \<Longrightarrow>
    steering_step s ((put_inbox s a ib)\<lparr>ss_restored := (ss_restored s)(a := ds @ ss_restored s a)\<rparr>)"
| settle: "srg_inboxes (ss_registry s) sid = Some a \<Longrightarrow>
    registry_settle_if_empty (ss_registry s) sid rid = Inr (b, r) \<Longrightarrow> steering_step s (s\<lparr>ss_registry := r\<rparr>)"
| drain_final: "srg_inboxes (ss_registry s) sid = Some a \<Longrightarrow>
    registry_drain_final (ss_registry s) sid rid = Inr (ds, r) \<Longrightarrow>
    steering_step s (s\<lparr>ss_registry := r, ss_returned := (ss_returned s)(a := ss_returned s a @ ds)\<rparr>)"
| detach: "registry_detach (ss_registry s) sid rid = Inr (a, r) \<Longrightarrow>
    steering_step s (s\<lparr>ss_registry := r, ss_closing := (a, rid) # ss_closing s\<rparr>)"
| close: "(a, rid) \<in> set (ss_closing s) \<Longrightarrow> inbox_close (inbox_at s a) rid = Inr (ds, ib) \<Longrightarrow>
    steering_step s ((put_inbox s a ib)\<lparr>ss_closing := filter (\<lambda>c. fst c \<noteq> a) (ss_closing s),
      ss_returned := (ss_returned s)(a := ss_returned s a @ ds)\<rparr>)"

inductive_cases steering_stepE: "steering_step s t"

definition inbox_ok :: "steering_sys \<Rightarrow> nat \<Rightarrow> bool" where
  "inbox_ok s a \<longleftrightarrow>
     int (length (ibx_drafts (inbox_at s a))) \<le> ibx_capacity (inbox_at s a) \<and>
     (ibx_closed (inbox_at s a) \<longrightarrow> ibx_drafts (inbox_at s a) = []) \<and>
     mset (ss_accepted s a) + mset (ss_restored s a) = mset (ss_returned s a) + mset (ibx_drafts (inbox_at s a)) \<and>
     (ss_restored s a = [] \<longrightarrow> ss_accepted s a = ss_returned s a @ ibx_drafts (inbox_at s a))"

definition open_tracked :: "steering_sys \<Rightarrow> nat \<Rightarrow> bool" where
  "open_tracked s a \<longleftrightarrow> (\<not> ibx_closed (inbox_at s a) \<longleftrightarrow>
     (\<exists>sid. srg_inboxes (ss_registry s) sid = Some a) \<or> (\<exists>rid. (a, rid) \<in> set (ss_closing s)))"

definition steering_inv :: "steering_sys \<Rightarrow> bool" where
  "steering_inv s \<longleftrightarrow>
     0 < srg_capacity (ss_registry s) \<and>
     (\<forall>a. allocated s a \<longrightarrow> inbox_ok s a \<and> open_tracked s a \<and>
        ibx_capacity (inbox_at s a) = srg_capacity (ss_registry s)) \<and>
     (\<forall>a. \<not> allocated s a \<longrightarrow> ss_accepted s a = [] \<and> ss_restored s a = [] \<and> ss_returned s a = []) \<and>
     (\<forall>sid a. srg_inboxes (ss_registry s) sid = Some a \<longrightarrow> allocated s a \<and>
        (\<forall>sid'. srg_inboxes (ss_registry s) sid' = Some a \<longrightarrow> sid' = sid) \<and>
        (\<forall>rid. (a, rid) \<notin> set (ss_closing s))) \<and>
     (\<forall>(a, rid) \<in> set (ss_closing s). allocated s a \<and> rid = ibx_run_id (inbox_at s a))"

lemma put_inbox_simps [simp]:
  "srg_inboxes (ss_registry (put_inbox s a ib)) = srg_inboxes (ss_registry s)"
  "srg_capacity (ss_registry (put_inbox s a ib)) = srg_capacity (ss_registry s)"
  "srg_heap (ss_registry (put_inbox s a ib)) = (srg_heap (ss_registry s))[a := ib]"
  "ss_closing (put_inbox s a ib) = ss_closing s"
  "ss_accepted (put_inbox s a ib) = ss_accepted s"
  "ss_restored (put_inbox s a ib) = ss_restored s"
  "ss_returned (put_inbox s a ib) = ss_returned s"
  by (simp_all add: put_inbox_def)

lemma inbox_accept_InrD:
  "inbox_accept ib rid d = Inr ib' \<Longrightarrow> \<not> ibx_closed ib \<and> int (length (ibx_drafts ib)) < ibx_capacity ib \<and>
   ib' = ib\<lparr>ibx_drafts := ibx_drafts ib @ [d]\<rparr>"
  by (auto simp: inbox_accept_def split: if_splits)

lemma inbox_drain_InrD:
  "inbox_drain ib rid = Inr (ds, ib') \<Longrightarrow> \<not> ibx_closed ib \<and> ds = ibx_drafts ib \<and> ib' = ib\<lparr>ibx_drafts := []\<rparr>"
  by (auto simp: inbox_drain_def split: if_splits)

lemma inbox_restore_InrD:
  "inbox_restore ib rid ds = Inr ib' \<Longrightarrow> ib' = ib\<lparr>ibx_drafts := ds @ ibx_drafts ib\<rparr> \<and>
   (ds = [] \<or> \<not> ibx_closed ib \<and> int (length (ibx_drafts ib)) + int (length ds) \<le> ibx_capacity ib)"
  by (auto simp: inbox_restore_def split: if_splits)

lemma inbox_close_InrD:
  "inbox_close ib rid = Inr (ds, ib') \<Longrightarrow> \<not> ibx_closed ib \<and> ds = ibx_drafts ib \<and>
   ib' = ib\<lparr>ibx_closed := True, ibx_drafts := []\<rparr>"
  by (auto simp: inbox_close_def split: if_splits)

lemma registry_settle_InrD:
  assumes "registry_settle drain r sid rid = Inr (ds, r')" and "srg_inboxes r sid = Some a"
  shows "\<not> ibx_closed (srg_heap r ! a) \<and> ds = ibx_drafts (srg_heap r ! a) \<and>
    (ds \<noteq> [] \<and> r' = (if drain then r\<lparr>srg_heap := (srg_heap r)[a := (srg_heap r ! a)\<lparr>ibx_drafts := []\<rparr>]\<rparr> else r) \<or>
     ds = [] \<and> r' = r\<lparr>srg_heap := (srg_heap r)[a := (srg_heap r ! a)\<lparr>ibx_closed := True, ibx_drafts := []\<rparr>],
                     srg_inboxes := (srg_inboxes r)(sid := None)\<rparr>)"
  using assms by (auto simp: registry_settle_def Let_def split: if_splits)

section \<open>The invariant\<close>

lemma steering_invI:
  assumes "0 < srg_capacity (ss_registry t)"
    and "\<And>a. allocated t a \<Longrightarrow> inbox_ok t a" and "\<And>a. allocated t a \<Longrightarrow> open_tracked t a"
    and "\<And>a. allocated t a \<Longrightarrow> ibx_capacity (inbox_at t a) = srg_capacity (ss_registry t)"
    and "\<And>a. \<not> allocated t a \<Longrightarrow> ss_accepted t a = [] \<and> ss_restored t a = [] \<and> ss_returned t a = []"
    and "\<And>sid a. srg_inboxes (ss_registry t) sid = Some a \<Longrightarrow> allocated t a"
    and "\<And>sid sid' a. srg_inboxes (ss_registry t) sid = Some a \<Longrightarrow>
      srg_inboxes (ss_registry t) sid' = Some a \<Longrightarrow> sid' = sid"
    and "\<And>sid a rid. srg_inboxes (ss_registry t) sid = Some a \<Longrightarrow> (a, rid) \<notin> set (ss_closing t)"
    and "\<And>a rid. (a, rid) \<in> set (ss_closing t) \<Longrightarrow> allocated t a \<and> rid = ibx_run_id (inbox_at t a)"
  shows "steering_inv t"
  unfolding steering_inv_def using assms by (auto simp del: not_less)

lemma steering_invD:
  assumes "steering_inv s"
  shows "0 < srg_capacity (ss_registry s)"
    and "allocated s a \<Longrightarrow> inbox_ok s a" and "allocated s a \<Longrightarrow> open_tracked s a"
    and "allocated s a \<Longrightarrow> ibx_capacity (inbox_at s a) = srg_capacity (ss_registry s)"
    and "\<not> allocated s a \<Longrightarrow> ss_accepted s a = [] \<and> ss_restored s a = [] \<and> ss_returned s a = []"
    and "srg_inboxes (ss_registry s) sid = Some a \<Longrightarrow> allocated s a"
    and "srg_inboxes (ss_registry s) sid = Some a \<Longrightarrow> srg_inboxes (ss_registry s) sid' = Some a \<Longrightarrow> sid' = sid"
    and "srg_inboxes (ss_registry s) sid = Some a \<Longrightarrow> (a, rid) \<notin> set (ss_closing s)"
    and "(a, rid) \<in> set (ss_closing s) \<Longrightarrow> allocated s a \<and> rid = ibx_run_id (inbox_at s a)"
  using assms unfolding steering_inv_def by (auto simp del: not_less)

lemma steering_inv_init: "steering_init s \<Longrightarrow> steering_inv s"
  by (auto simp: steering_init_def steering_inv_def new_steering_registry_def default_steering_capacity_def)

lemma steering_inv_register:
  assumes "steering_inv s" and "registry_register (ss_registry s) sid rid = Inr r"
  shows "steering_inv (s\<lparr>ss_registry := r\<rparr>)"
proof -
  let ?r = "ss_registry s" and ?n = "length (srg_heap (ss_registry s))"
  from assms(2) have none: "srg_inboxes ?r sid = None" and r: "r = ?r\<lparr>srg_inboxes := (srg_inboxes ?r)(sid \<mapsto> ?n),
      srg_heap := srg_heap ?r @ [\<lparr>ibx_run_id = rid, ibx_drafts = [], ibx_capacity = srg_capacity ?r, ibx_closed = False\<rparr>]\<rparr>"
    by (auto simp: registry_register_def split: option.splits)
  have old: "inbox_at (s\<lparr>ss_registry := r\<rparr>) a = inbox_at s a" if "a < ?n" for a
    using that by (simp add: r nth_append)
  have ex: "(\<exists>x. srg_inboxes r x = Some a) \<longleftrightarrow> (\<exists>x. srg_inboxes ?r x = Some a)" if "a < ?n" for a
  proof
    assume "\<exists>x. srg_inboxes ?r x = Some a"
    then obtain x where "srg_inboxes ?r x = Some a" by blast
    with none have "srg_inboxes r x = Some a" by (cases "x = sid") (auto simp: r)
    then show "\<exists>x. srg_inboxes r x = Some a" by blast
  qed (use that in \<open>auto simp: r split: if_splits\<close>)
  have "open_tracked (s\<lparr>ss_registry := r\<rparr>) a" if "a < ?n" for a
    using assms(1) that ex [OF that] old [OF that] by (simp add: steering_inv_def open_tracked_def)
  moreover have "open_tracked (s\<lparr>ss_registry := r\<rparr>) ?n"
    by (auto simp: open_tracked_def r nth_append)
  moreover have "inbox_ok (s\<lparr>ss_registry := r\<rparr>) a" if "a < ?n" for a
  proof -
    have "inbox_ok (s\<lparr>ss_registry := r\<rparr>) a \<longleftrightarrow> inbox_ok s a" by (simp only: inbox_ok_def old [OF that]) simp
    with assms(1) that show ?thesis by (simp add: steering_inv_def)
  qed
  moreover have "inbox_ok (s\<lparr>ss_registry := r\<rparr>) ?n"
    using assms(1) by (auto simp: steering_inv_def inbox_ok_def r)
  ultimately show ?thesis
    using assms(1) by (fastforce simp: steering_inv_def r nth_append less_Suc_eq split: if_splits)
qed

lemma open_tracked_put:
  "allocated s b \<Longrightarrow> open_tracked s b \<Longrightarrow> ibx_closed ib = ibx_closed (inbox_at s a) \<Longrightarrow> open_tracked (put_inbox s a ib) b"
  by (cases "a = b") (auto simp: open_tracked_def)

text \<open>A change of one inbox that keeps its identity and its openness, with the matching record of it.\<close>

lemma steering_inv_put:
  assumes inv: "steering_inv s" and a: "allocated s a"
    and same: "ibx_run_id ib = ibx_run_id (inbox_at s a)" "ibx_capacity ib = ibx_capacity (inbox_at s a)"
      "ibx_closed ib = ibx_closed (inbox_at s a)"
    and t: "ss_registry t = ss_registry (put_inbox s a ib)" "ss_closing t = ss_closing s"
      "\<forall>b. b \<noteq> a \<longrightarrow> ss_accepted t b = ss_accepted s b \<and> ss_restored t b = ss_restored s b \<and> ss_returned t b = ss_returned s b"
    and ok: "inbox_ok t a"
  shows "steering_inv t"
proof -
  have at: "inbox_at t b = (if b = a then ib else inbox_at s b)" if "allocated s b" for b
    using t(1) that by simp
  have "open_tracked t b" if "allocated s b" for b
  proof -
    have "ibx_closed (inbox_at t b) = ibx_closed (inbox_at s b)" using at [OF that] same(3) by auto
    then have "open_tracked t b \<longleftrightarrow> open_tracked s b" using t(1,2) by (simp add: open_tracked_def)
    with inv that show ?thesis by (simp add: steering_inv_def)
  qed
  moreover have "inbox_ok t b" if "allocated s b" for b
  proof (cases "b = a")
    case False
    then have "inbox_ok t b \<longleftrightarrow> inbox_ok s b" using at [OF that] t(3) by (simp add: inbox_ok_def)
    with inv that show ?thesis by (simp add: steering_inv_def)
  qed (use ok in simp)
  moreover have "ibx_run_id (inbox_at t b) = ibx_run_id (inbox_at s b)"
      "ibx_capacity (inbox_at t b) = ibx_capacity (inbox_at s b)" if "allocated s b" for b
    using at [OF that] same by auto
  moreover have al: "allocated t b \<longleftrightarrow> allocated s b" "srg_inboxes (ss_registry t) = srg_inboxes (ss_registry s)"
      "srg_capacity (ss_registry t) = srg_capacity (ss_registry s)" for b using t(1) by simp_all
  ultimately show ?thesis
    using t(2,3) a by (intro steering_invI; unfold al t(2); metis steering_invD [OF inv])
qed

lemma steering_inv_accept:
  assumes "steering_inv s" and "allocated s a" and "inbox_accept (inbox_at s a) rid d = Inr ib"
  shows "steering_inv ((put_inbox s a ib)\<lparr>ss_accepted := (ss_accepted s)(a := ss_accepted s a @ [d])\<rparr>)"
proof (rule steering_inv_put [OF assms(1,2)])
  from inbox_accept_InrD [OF assms(3)] assms(1,2)
  show "inbox_ok ((put_inbox s a ib)\<lparr>ss_accepted := (ss_accepted s)(a := ss_accepted s a @ [d])\<rparr>) a"
    by (auto simp: inbox_ok_def steering_inv_def)
qed (use inbox_accept_InrD [OF assms(3)] in auto)

lemma steering_inv_drain:
  assumes "steering_inv s" and "allocated s a" and "inbox_drain (inbox_at s a) rid = Inr (ds, ib)"
  shows "steering_inv ((put_inbox s a ib)\<lparr>ss_returned := (ss_returned s)(a := ss_returned s a @ ds)\<rparr>)"
proof (rule steering_inv_put [OF assms(1,2)])
  from inbox_drain_InrD [OF assms(3)] assms(1,2)
  show "inbox_ok ((put_inbox s a ib)\<lparr>ss_returned := (ss_returned s)(a := ss_returned s a @ ds)\<rparr>) a"
    by (auto simp: inbox_ok_def steering_inv_def)
qed (use inbox_drain_InrD [OF assms(3)] in auto)

lemma steering_inv_restore:
  assumes "steering_inv s" and "allocated s a" and "inbox_restore (inbox_at s a) rid ds = Inr ib"
  shows "steering_inv ((put_inbox s a ib)\<lparr>ss_restored := (ss_restored s)(a := ds @ ss_restored s a)\<rparr>)"
proof (rule steering_inv_put [OF assms(1,2)])
  from inbox_restore_InrD [OF assms(3)] assms(1,2)
  show "inbox_ok ((put_inbox s a ib)\<lparr>ss_restored := (ss_restored s)(a := ds @ ss_restored s a)\<rparr>) a"
    by (auto simp: inbox_ok_def steering_inv_def union_ac)
qed (use inbox_restore_InrD [OF assms(3)] in auto)

text \<open>An inbox that leaves the registry or the pending closes while it is closed.\<close>

lemma steering_inv_shut:
  assumes inv: "steering_inv s" and a: "allocated s a"
    and ib: "ib = (inbox_at s a)\<lparr>ibx_closed := True, ibx_drafts := []\<rparr>"
    and heap: "srg_heap (ss_registry t) = (srg_heap (ss_registry s))[a := ib]"
    and cap: "srg_capacity (ss_registry t) = srg_capacity (ss_registry s)"
    and reg: "\<forall>sid b. srg_inboxes (ss_registry t) sid = Some b \<longleftrightarrow> srg_inboxes (ss_registry s) sid = Some b \<and> b \<noteq> a"
    and clo: "\<forall>b rid. (b, rid) \<in> set (ss_closing t) \<longleftrightarrow> (b, rid) \<in> set (ss_closing s) \<and> b \<noteq> a"
    and led: "ss_accepted t = ss_accepted s" "ss_restored t = ss_restored s"
      "ss_returned t = (ss_returned s)(a := ss_returned s a @ ibx_drafts (inbox_at s a))"
  shows "steering_inv t"
proof -
  have at: "inbox_at t b = (if b = a then ib else inbox_at s b)" if "allocated s b" for b
    using heap that by simp
  have al: "allocated t b \<longleftrightarrow> allocated s b" for b using heap by simp
  have tr: "open_tracked t b" if b: "allocated s b" for b
  proof (cases "b = a")
    case True
    with at [OF b] ib reg clo show ?thesis by (auto simp: open_tracked_def)
  next
    case False
    with at [OF b] reg clo have "open_tracked t b \<longleftrightarrow> open_tracked s b" by (simp add: open_tracked_def)
    with steering_invD(3) [OF inv b] show ?thesis by simp
  qed
  have ok: "inbox_ok t b" if b: "allocated s b" for b
  proof (cases "b = a")
    case True
    with at [OF b] steering_invD(2) [OF inv a] ib led show ?thesis by (auto simp: inbox_ok_def)
  next
    case False
    with at [OF b] led have "inbox_ok t b \<longleftrightarrow> inbox_ok s b" by (simp add: inbox_ok_def)
    with steering_invD(2) [OF inv b] show ?thesis by simp
  qed
  have same: "ibx_run_id (inbox_at t b) = ibx_run_id (inbox_at s b)"
      "ibx_capacity (inbox_at t b) = ibx_capacity (inbox_at s b)" if "allocated s b" for b
    using at [OF that] ib by auto
  have led': "ss_returned t b = ss_returned s b" if "\<not> allocated s b" for b
    using led(3) that a by auto
  show ?thesis
  proof (rule steering_invI)
    show "0 < srg_capacity (ss_registry t)" using cap steering_invD(1) [OF inv] by simp
    show "ibx_capacity (inbox_at t b) = srg_capacity (ss_registry t)" if "allocated t b" for b
      using that al same cap steering_invD(4) [OF inv] by metis
    show "ss_accepted t b = [] \<and> ss_restored t b = [] \<and> ss_returned t b = []" if "\<not> allocated t b" for b
      using that al led led' steering_invD(5) [OF inv] by metis
    show "sid' = sid" if "srg_inboxes (ss_registry t) sid = Some b" "srg_inboxes (ss_registry t) sid' = Some b"
      for sid sid' b
      using that reg steering_invD(7) [OF inv] by metis
    show "(b, rid) \<notin> set (ss_closing t)" if "srg_inboxes (ss_registry t) sid = Some b" for sid b rid
      using that reg clo steering_invD(8) [OF inv] by metis
    show "allocated t b \<and> rid = ibx_run_id (inbox_at t b)" if "(b, rid) \<in> set (ss_closing t)" for b rid
      using that clo al same steering_invD(9) [OF inv] by metis
    show "allocated t b" if "srg_inboxes (ss_registry t) sid = Some b" for sid b
      using that reg al steering_invD(6) [OF inv] by metis
  qed (use ok tr al in simp_all)
qed

lemma unregistered_iff:
  assumes "steering_inv s" and "srg_inboxes (ss_registry s) sid = Some a"
  shows "((srg_inboxes (ss_registry s))(sid := None)) x = Some b \<longleftrightarrow> srg_inboxes (ss_registry s) x = Some b \<and> b \<noteq> a"
proof (cases "x = sid")
  case False
  then have "srg_inboxes (ss_registry s) x = Some b \<Longrightarrow> b \<noteq> a"
    using steering_invD(7) [OF assms(1)] assms(2) by blast
  with False show ?thesis by auto
qed (use assms(2) in simp)

lemma steering_inv_settle:
  assumes inv: "steering_inv s" and sid: "srg_inboxes (ss_registry s) sid = Some a"
    and st: "registry_settle drain (ss_registry s) sid rid = Inr (ds, r)"
    and t: "ss_registry t = r" "ss_closing t = ss_closing s" "ss_accepted t = ss_accepted s"
      "ss_restored t = ss_restored s"
      "ss_returned t = (if drain then (ss_returned s)(a := ss_returned s a @ ds) else ss_returned s)"
  shows "steering_inv t"
proof -
  have a: "allocated s a" using steering_invD(6) [OF inv sid] .
  note ok = steering_invD(2) [OF inv a] and D = registry_settle_InrD [OF st sid]
  show ?thesis
  proof (cases "ds = []")
    case True
    with D have r: "r = (ss_registry s)\<lparr>srg_heap := (srg_heap (ss_registry s))[a := (inbox_at s a)\<lparr>ibx_closed := True, ibx_drafts := []\<rparr>],
        srg_inboxes := (srg_inboxes (ss_registry s))(sid := None)\<rparr>" and dr: "ibx_drafts (inbox_at s a) = []" by auto
    show ?thesis
    proof (rule steering_inv_shut [OF inv a refl])
      show "\<forall>x b. srg_inboxes (ss_registry t) x = Some b \<longleftrightarrow> srg_inboxes (ss_registry s) x = Some b \<and> b \<noteq> a"
        unfolding t(1) r using unregistered_iff [OF inv sid] by simp
      show "\<forall>b rid. (b, rid) \<in> set (ss_closing t) \<longleftrightarrow> (b, rid) \<in> set (ss_closing s) \<and> b \<noteq> a"
        using steering_invD(8) [OF inv sid] by (auto simp: t(2))
    qed (use t r dr True in auto)
  next
    case False
    then have r: "r = (if drain then (ss_registry s)\<lparr>srg_heap := (srg_heap (ss_registry s))[a := (inbox_at s a)\<lparr>ibx_drafts := []\<rparr>]\<rparr>
        else ss_registry s)" and dr: "ds = ibx_drafts (inbox_at s a)" and op: "\<not> ibx_closed (inbox_at s a)" using D by auto
    show ?thesis
    proof (rule steering_inv_put [OF inv a])
      show "ss_registry t = ss_registry (put_inbox s a (if drain then (inbox_at s a)\<lparr>ibx_drafts := []\<rparr> else inbox_at s a))"
        by (simp add: t(1) r put_inbox_def)
      show "inbox_ok t a" using ok a by (auto simp: inbox_ok_def t r dr)
    qed (use t in auto)
  qed
qed

lemma steering_inv_detach:
  assumes inv: "steering_inv s" and d: "registry_detach (ss_registry s) sid rid = Inr (a, r)"
  shows "steering_inv (s\<lparr>ss_registry := r, ss_closing := (a, rid) # ss_closing s\<rparr>)" (is "steering_inv ?t")
proof -
  from d have sid: "srg_inboxes (ss_registry s) sid = Some a" and rid: "rid = ibx_run_id (inbox_at s a)"
    and r: "r = (ss_registry s)\<lparr>srg_inboxes := (srg_inboxes (ss_registry s))(sid := None)\<rparr>"
    by (auto simp: registry_detach_def split: option.splits if_splits)
  have a: "allocated s a" using steering_invD(6) [OF inv sid] .
  have reg: "srg_inboxes r x = Some b \<longleftrightarrow> srg_inboxes (ss_registry s) x = Some b \<and> b \<noteq> a" for x b
    unfolding r using unregistered_iff [OF inv sid] by simp
  have heap: "srg_heap r = srg_heap (ss_registry s)" "srg_capacity r = srg_capacity (ss_registry s)" by (simp_all add: r)
  have tr: "open_tracked ?t b" if "allocated s b" for b
    using steering_invD(3) [OF inv that] sid by (auto simp: open_tracked_def reg heap)
  have ok: "inbox_ok ?t b" if "allocated s b" for b
    using steering_invD(2) [OF inv that] by (simp add: inbox_ok_def heap)
  show ?thesis
  proof (rule steering_invI)
    show "(b, rid') \<notin> set (ss_closing ?t)" if "srg_inboxes (ss_registry ?t) x = Some b" for x b rid'
      using that reg steering_invD(8) [OF inv] by simp blast
    show "allocated ?t b \<and> rid' = ibx_run_id (inbox_at ?t b)" if "(b, rid') \<in> set (ss_closing ?t)" for b rid'
      using that a rid heap steering_invD(9) [OF inv] by auto
    show "allocated ?t b" if "srg_inboxes (ss_registry ?t) x = Some b" for x b
      using that reg heap steering_invD(6) [OF inv, of x b] by simp
    show "x' = x" if "srg_inboxes (ss_registry ?t) x = Some b" "srg_inboxes (ss_registry ?t) x' = Some b" for x x' b
      using that reg steering_invD(7) [OF inv] by simp
  qed (use ok tr heap steering_invD(1,4,5) [OF inv] in simp_all)
qed

lemma steering_inv_close:
  assumes inv: "steering_inv s" and c: "(a, rid) \<in> set (ss_closing s)" "inbox_close (inbox_at s a) rid = Inr (ds, ib)"
  shows "steering_inv ((put_inbox s a ib)\<lparr>ss_closing := filter (\<lambda>c. fst c \<noteq> a) (ss_closing s),
      ss_returned := (ss_returned s)(a := ss_returned s a @ ds)\<rparr>)" (is "steering_inv ?t")
proof (rule steering_inv_shut [OF inv _ refl])
  note D = inbox_close_InrD [OF c(2)]
  show "allocated s a" using steering_invD(9) [OF inv c(1)] by simp
  show "\<forall>sid b. srg_inboxes (ss_registry ?t) sid = Some b \<longleftrightarrow> srg_inboxes (ss_registry s) sid = Some b \<and> b \<noteq> a"
    using steering_invD(8) [OF inv] c(1) by auto
qed (use inbox_close_InrD [OF c(2)] in auto)

lemma steering_inv_step: "steering_inv s \<Longrightarrow> steering_step s t \<Longrightarrow> steering_inv t"
proof (erule steering_stepE, goal_cases)
  case (5 sid a rid b r)
  then obtain ds where "registry_settle False (ss_registry s) sid rid = Inr (ds, r)"
    by (auto simp: registry_settle_if_empty_def split: sum.splits prod.splits)
  from steering_inv_settle [OF 5(1) 5(3) this, of t] 5(2) show ?case by simp
next
  case (6 sid a rid ds r)
  from steering_inv_settle [OF 6(1) 6(3) 6(4) [unfolded registry_drain_final_def], of t] 6(2) show ?case by simp
qed (simp_all add: steering_inv_register steering_inv_accept steering_inv_drain steering_inv_restore
    steering_inv_detach steering_inv_close)

interpretation steering: invariant_machine steering_init steering_step steering_inv
  by unfold_locales (fact steering_inv_init, fact steering_inv_step)

lemma steering_reachable_inv: "reachable_from steering_init steering_step s \<Longrightarrow> steering_inv s"
  by (rule steering.reachable_inv)

section \<open>What the registry promises\<close>

lemma steering_start: "reachable_from steering_init steering_step
    \<lparr>ss_registry = new_steering_registry c, ss_closing = [], ss_accepted = (\<lambda>_. []), ss_restored = (\<lambda>_. []),
     ss_returned = (\<lambda>_. [])\<rparr>"
  by (rule reachable_from.start) (auto simp: steering_init_def)

text \<open>A run in which one inbox is registered, accepts a draft and leaves the registry to be closed.\<close>

definition sample_draft :: steering_draft where
  "sample_draft = \<lparr>dr_text = ''go on'', dr_images = [], dr_hide_user_prompt = False\<rparr>"

definition sample_sys :: "bool \<Rightarrow> steering_sys" where
  "sample_sys registered =
     \<lparr>ss_registry = \<lparr>srg_inboxes = (if registered then [''s'' \<mapsto> 0] else (\<lambda>_. None)), srg_capacity = 2,
        srg_heap = [\<lparr>ibx_run_id = ''r'', ibx_drafts = [sample_draft], ibx_capacity = 2, ibx_closed = False\<rparr>]\<rparr>,
      ss_closing = (if registered then [] else [(0, ''r'')]), ss_accepted = (\<lambda>_. [])(0 := [sample_draft]),
      ss_restored = (\<lambda>_. []), ss_returned = (\<lambda>_. [])\<rparr>"

lemma sample_sys_reachable: "reachable_from steering_init steering_step (sample_sys b)"
proof -
  let ?r = "\<lparr>srg_inboxes = [''s'' \<mapsto> 0], srg_capacity = 2,
        srg_heap = [\<lparr>ibx_run_id = ''r'', ibx_drafts = [], ibx_capacity = 2, ibx_closed = False\<rparr>]\<rparr>"
  let ?s0 = "\<lparr>ss_registry = new_steering_registry 2, ss_closing = [], ss_accepted = (\<lambda>_. []), ss_restored = (\<lambda>_. []),
     ss_returned = (\<lambda>_. [])\<rparr>"
  have "steering_step ?s0 (?s0\<lparr>ss_registry := ?r\<rparr>)"
    by (rule steering_step.register [where sid = "''s''" and rid = "''r''"])
      (simp add: registry_register_def new_steering_registry_def)
  with steering_start [of 2] have 1: "reachable_from steering_init steering_step (?s0\<lparr>ss_registry := ?r\<rparr>)"
    by (rule reachable_from.step)
  have "steering_step (?s0\<lparr>ss_registry := ?r\<rparr>) (sample_sys True)"
    using steering_step.accept [where s = "?s0\<lparr>ss_registry := ?r\<rparr>" and a = 0 and rid = "''r''" and d = sample_draft]
    by (simp add: inbox_accept_def sample_sys_def put_inbox_def)
  with 1 have 2: "reachable_from steering_init steering_step (sample_sys True)" by (rule reachable_from.step)
  have "steering_step (sample_sys True) (sample_sys False)"
    using steering_step.detach [where s = "sample_sys True" and sid = "''s''" and rid = "''r''" and a = 0]
    by (simp add: registry_detach_def sample_sys_def fun_upd_idem)
  with 2 have 3: "reachable_from steering_init steering_step (sample_sys False)" by (rule reachable_from.step)
  show ?thesis by (cases b) (simp_all only: 2 3)
qed

text \<open>
  C22. In every state that concurrent callers can reach: an inbox never holds more drafts than its
  capacity; a closed inbox is empty; nothing accepted or restored is lost or returned twice (the
  drafts put in are, as multisets, those handed out and those still pending); without a restore
  the drafts leave in the order they were accepted; and an inbox is open exactly as long as a
  session still reaches it or a close that removed it is still to finish.
\<close>

theorem steering_inbox_invariant:
  assumes "reachable_from steering_init steering_step s" and "allocated s a"
  shows "int (length (ibx_drafts (inbox_at s a))) \<le> ibx_capacity (inbox_at s a) \<and>
     (ibx_closed (inbox_at s a) \<longrightarrow> ibx_drafts (inbox_at s a) = []) \<and>
     mset (ss_accepted s a @ ss_restored s a) = mset (ss_returned s a @ ibx_drafts (inbox_at s a)) \<and>
     (ss_restored s a = [] \<longrightarrow> ss_accepted s a = ss_returned s a @ ibx_drafts (inbox_at s a)) \<and>
     (\<not> ibx_closed (inbox_at s a) \<longleftrightarrow> (\<exists>sid. srg_inboxes (ss_registry s) sid = Some a) \<or>
        (\<exists>rid. (a, rid) \<in> set (ss_closing s)))"
  using steering_invD(2,3) [OF steering_reachable_inv [OF assms(1)] assms(2)]
  by (simp add: inbox_ok_def open_tracked_def)

lemma steering_inbox_invariant_witness:
  "allocated (sample_sys True) 0 \<and> int (length (ibx_drafts (inbox_at (sample_sys True) 0))) \<le> 2"
proof -
  have a: "allocated (sample_sys True) 0" by (simp add: sample_sys_def)
  from steering_inbox_invariant [OF sample_sys_reachable a] a show ?thesis by (simp add: sample_sys_def)
qed

text \<open>
  A close that has taken its inbox out of the registry always finishes: whatever ran in
  between, the inbox still belongs to the run and is still open, so the close returns the drafts
  that were not drained, and no later accept, drain or restore of it can succeed.
\<close>

theorem detached_inbox_closes:
  assumes "reachable_from steering_init steering_step s" and "(a, rid) \<in> set (ss_closing s)"
  shows "inbox_close (inbox_at s a) rid =
      Inr (ibx_drafts (inbox_at s a), (inbox_at s a)\<lparr>ibx_closed := True, ibx_drafts := []\<rparr>) \<and>
    inbox_accept ((inbox_at s a)\<lparr>ibx_closed := True, ibx_drafts := []\<rparr>) rid d = Inl SteeringClosed \<and>
    inbox_drain ((inbox_at s a)\<lparr>ibx_closed := True, ibx_drafts := []\<rparr>) rid = Inl SteeringClosed \<and>
    inbox_restore ((inbox_at s a)\<lparr>ibx_closed := True, ibx_drafts := []\<rparr>) rid (d # ds) = Inl SteeringClosed"
proof -
  note inv = steering_reachable_inv [OF assms(1)]
  from steering_invD(9) [OF inv assms(2)] have a: "allocated s a" and "rid = ibx_run_id (inbox_at s a)" by auto
  moreover have "\<not> ibx_closed (inbox_at s a)"
    using steering_invD(3) [OF inv a] assms(2) by (auto simp: open_tracked_def)
  ultimately show ?thesis by (simp add: inbox_close_def inbox_accept_def inbox_drain_def inbox_restore_def)
qed

lemma detached_inbox_closes_witness:
  "(0, ''r'') \<in> set (ss_closing (sample_sys False)) \<and>
   is_ok (inbox_close (inbox_at (sample_sys False) 0) ''r'')"
proof -
  have m: "(0, ''r'') \<in> set (ss_closing (sample_sys False))" by (simp add: sample_sys_def)
  from detached_inbox_closes [OF sample_sys_reachable m] m show ?thesis by simp
qed

end
