(* ===== verification/Mutation_Queue.thy ===== *)
theory Mutation_Queue
  imports Go_Strings "HOL-Library.Sublist"
begin

text \<open>
  The queue that orders file mutations (\<^verbatim>\<open>internal/tool/mutation_queue.go\<close>): reservations on
  canonical paths in arrival order, each ready once no earlier reservation conflicts with its
  path. Paths are absolute with \<open>/\<close> as separator. \<^verbatim>\<open>filepath.EvalSymlinks\<close> depends on the file
  system and is a parameter; \<^verbatim>\<open>Clean\<close>, \<^verbatim>\<open>Join\<close> and \<^verbatim>\<open>Rel\<close> are modelled for absolute paths.
\<close>

section \<open>Absolute paths\<close>

fun clean_names :: "string list \<Rightarrow> string list \<Rightarrow> string list" where
  "clean_names acc [] = rev acc"
| "clean_names acc (n # ns) =
     clean_names (if n = [] \<or> n = ''.'' then acc else if n = ''..'' then tl acc else n # acc) ns"

definition path_names :: "string \<Rightarrow> string list" where
  "path_names p = clean_names [] (split_byte (CHR ''/'') p)"

definition rooted :: "string list \<Rightarrow> string" where
  "rooted ns = ''/'' @ join_with ''/'' ns"

definition filepath_clean :: "string \<Rightarrow> string" where
  "filepath_clean p = rooted (path_names p)"

definition filepath_join :: "string \<Rightarrow> string \<Rightarrow> string" where
  "filepath_join p n = filepath_clean (p @ ''/'' @ n)"

definition filepath_rel :: "string \<Rightarrow> string \<Rightarrow> string option" where
  "filepath_rel base targ =
     (if starts_with ''/'' base \<noteq> starts_with ''/'' targ then None
      else let b = path_names base; t = path_names targ; k = length (longest_common_prefix b t) in
        Some (if b = t then ''.'' else join_with ''/'' (replicate (length b - k) ''..'' @ drop k t)))"

definition path_contains :: "string \<Rightarrow> string \<Rightarrow> bool" where
  "path_contains parent child =
     (case filepath_rel parent child of
        None \<Rightarrow> parent = child
      | Some relative \<Rightarrow> relative = ''.'' \<or> (relative \<noteq> ''..'' \<and> \<not> starts_with ''../'' relative))"

definition mutation_paths_conflict :: "string \<Rightarrow> string \<Rightarrow> bool" where
  "mutation_paths_conflict left right \<longleftrightarrow> path_contains left right \<or> path_contains right left"

text \<open>
  \<open>canonicalMutationPath\<close>: the deepest existing ancestor is resolved and the missing names are
  joined to it. The names of \<open>current\<close> are kept deepest first.
\<close>

datatype fs_error = FsNotExist | FsOther

primrec canonical_loop ::
  "(string \<Rightarrow> fs_error + string) \<Rightarrow> string \<Rightarrow> string list \<Rightarrow> string list \<Rightarrow> string" where
  "canonical_loop eval_symlinks original missing [] =
     (case eval_symlinks (rooted []) of
        Inr canonical \<Rightarrow> foldl filepath_join canonical (rev missing)
      | Inl e \<Rightarrow> original)"
| "canonical_loop eval_symlinks original missing (base # dir) =
     (case eval_symlinks (rooted (rev (base # dir))) of
        Inr canonical \<Rightarrow> foldl filepath_join canonical (rev missing)
      | Inl e \<Rightarrow> if e \<noteq> FsNotExist then original
                 else canonical_loop eval_symlinks original (missing @ [base]) dir)"

definition canonical_mutation_path :: "(string \<Rightarrow> fs_error + string) \<Rightarrow> string \<Rightarrow> string" where
  "canonical_mutation_path eval_symlinks absolute_path =
     canonical_loop eval_symlinks (filepath_clean absolute_path) [] (rev (path_names absolute_path))"

subsection \<open>Names of cleaned paths\<close>

definition plain_name :: "string \<Rightarrow> bool" where
  "plain_name n \<longleftrightarrow> n \<noteq> [] \<and> n \<noteq> ''.'' \<and> n \<noteq> ''..'' \<and> CHR ''/'' \<notin> set n"

lemma clean_names_plain:
  "\<forall>n\<in>set acc. plain_name n \<Longrightarrow> \<forall>n\<in>set ns. CHR ''/'' \<notin> set n \<Longrightarrow> \<forall>n\<in>set (clean_names acc ns). plain_name n"
proof (induction acc ns rule: clean_names.induct)
  case (2 acc n ns)
  have "\<forall>m\<in>set (if n = [] \<or> n = ''.'' then acc else if n = ''..'' then tl acc else n # acc). plain_name m"
    using 2(2,3) by (cases acc) (simp_all add: plain_name_def)
  with 2(1,3) show ?case by simp
qed simp

lemma path_names_plain: "n \<in> set (path_names p) \<Longrightarrow> plain_name n"
  unfolding path_names_def using clean_names_plain [of "[]"] split_byte_no_sep by auto

lemma clean_names_id: "\<forall>n\<in>set ns. plain_name n \<Longrightarrow> clean_names acc ns = rev acc @ ns"
  by (induction ns arbitrary: acc) (auto simp: plain_name_def)

lemma clean_names_append: "clean_names acc (ms @ ns) = clean_names (rev (clean_names acc ms)) ns"
  by (induction ms arbitrary: acc) simp_all

lemma split_byte_append_sep: "split_byte c (s @ c # t) = split_byte c s @ split_byte c t"
proof (induction s)
  case (Cons x xs)
  then show ?case by (auto split: list.splits)
qed simp

lemma split_byte_absent: "c \<notin> set s \<Longrightarrow> split_byte c s = [s]"
  by (induction s) auto

lemma split_byte_join:
  "ns \<noteq> [] \<Longrightarrow> \<forall>n\<in>set ns. c \<notin> set n \<Longrightarrow> split_byte c (join_with [c] ns) = ns"
proof (induction ns)
  case (Cons n ns)
  show ?case
  proof (cases "ns = []")
    case False
    with Cons show ?thesis by (simp add: join_with_Cons split_byte_append_sep split_byte_absent)
  qed (use Cons in \<open>simp add: split_byte_absent\<close>)
qed simp

lemma path_names_rooted [simp]:
  assumes "\<forall>n\<in>set ns. plain_name n"
  shows "path_names (rooted ns) = ns"
proof (cases "ns = []")
  case True
  then show ?thesis by (simp add: path_names_def rooted_def)
next
  case False
  from assms have "\<forall>n\<in>set ns. CHR ''/'' \<notin> set n" by (simp add: plain_name_def)
  with False have "split_byte (CHR ''/'') (rooted ns) = [] # ns"
    by (simp add: rooted_def split_byte_join)
  with clean_names_id [OF assms, of "[]"] show ?thesis by (simp add: path_names_def)
qed

lemma path_names_clean [simp]: "path_names (filepath_clean p) = path_names p"
  by (simp add: filepath_clean_def path_names_plain)

lemma path_names_join:
  assumes "plain_name n"
  shows "path_names (filepath_join p n) = path_names p @ [n]"
proof -
  have "CHR ''/'' \<notin> set n" using assms by (simp add: plain_name_def)
  then have "split_byte (CHR ''/'') (p @ ''/'' @ n) = split_byte (CHR ''/'') p @ [n]"
    by (simp add: split_byte_append_sep split_byte_absent)
  then have "path_names (p @ ''/'' @ n) = path_names p @ [n]"
    using clean_names_id [of "[n]"] assms by (simp add: path_names_def clean_names_append del: clean_names.simps(2))
  then show ?thesis by (simp add: filepath_join_def)
qed

lemma filepath_join_rooted: "plain_name n \<Longrightarrow> filepath_join p n = rooted (path_names p @ [n])"
  using path_names_join [of n p] by (metis filepath_clean_def filepath_join_def path_names_clean)

lemma foldl_join:
  "ns \<noteq> [] \<Longrightarrow> \<forall>n\<in>set ns. plain_name n \<Longrightarrow> foldl filepath_join p ns = rooted (path_names p @ ns)"
proof (induction ns rule: rev_induct)
  case (snoc n ns)
  have "path_names (rooted (path_names p @ ns)) = path_names p @ ns"
    using snoc.prems path_names_plain by (intro path_names_rooted) auto
  with snoc show ?case by (cases "ns = []") (auto simp: filepath_join_rooted)
qed simp

subsection \<open>Containment is the prefix order on names\<close>

lemma path_contains_iff_prefix:
  assumes "starts_with ''/'' p" and "starts_with ''/'' q"
  shows "path_contains p q \<longleftrightarrow> prefix (path_names p) (path_names q)"
proof -
  let ?b = "path_names p" and ?t = "path_names q"
  let ?l = "longest_common_prefix ?b ?t"
  obtain b' t' where b: "?b = ?l @ b'" and t: "?t = ?l @ t'"
    by (metis longest_common_prefix_prefix1 longest_common_prefix_prefix2 prefix_def)
  have rel: "filepath_rel p q = Some (if ?b = ?t then ''.'' else
      join_with ''/'' (replicate (length b') ''..'' @ t'))"
  proof -
    have "length ?b - length ?l = length b'" "drop (length ?l) ?t = t'"
      using arg_cong [OF b, of length] arg_cong [OF t, of "drop (length ?l)"] by simp_all
    then show ?thesis using assms by (simp add: filepath_rel_def Let_def)
  qed
  show ?thesis
  proof (cases b')
    case Nil
    then have pre: "prefix ?b ?t" using b t by (metis append_Nil2 prefixI)
    show ?thesis
    proof (cases "?b = ?t")
      case False
      with Nil b t have "t' \<noteq> []" by auto
      then obtain n ns where t': "t' = n # ns" by (cases t') auto
      have "plain_name n" using t t' path_names_plain [of n q] by (metis in_set_conv_decomp)
      then have n: "n \<noteq> ''..''" "CHR ''/'' \<notin> set n" by (simp_all add: plain_name_def)
      have "\<not> starts_with ''../'' (join_with ''/'' (n # ns)) \<and> join_with ''/'' (n # ns) \<noteq> ''..''"
      proof (cases ns)
        case Nil
        with n show ?thesis by (auto simp: starts_with_iff)
      next
        case (Cons m ms)
        have "n = ''..''" if "n @ CHR ''/'' # z = CHR ''.'' # CHR ''.'' # CHR ''/'' # x" for x z
          using that n(2) by (auto simp: Cons_eq_append_conv append_eq_Cons_conv)
        moreover have "n @ CHR ''/'' # z \<noteq> ''..''" for z
          using n(2) by (auto simp: append_eq_Cons_conv)
        ultimately show ?thesis using n(1) Cons by (auto simp: starts_with_iff)
      qed
      with False Nil t' rel pre show ?thesis by (simp add: path_contains_def)
    qed (use rel in \<open>simp add: path_contains_def\<close>)
  next
    case (Cons m ms)
    have np: "\<not> prefix ?b ?t"
    proof
      assume "prefix ?b ?t"
      then have "prefix ?b ?l" by (simp add: longest_common_prefix_max_prefix)
      then have "length ?b \<le> length ?l" by (rule prefix_length_le)
      with arg_cong [OF b, of length] Cons show False by simp
    qed
    then have ne: "?b \<noteq> ?t" by auto
    have "join_with ''/'' (replicate (length b') ''..'' @ t') = ''..'' \<or>
      starts_with ''../'' (join_with ''/'' (replicate (length b') ''..'' @ t'))"
      using Cons by (cases "replicate (length ms) ''..'' @ t' = []") (auto simp: join_with_Cons starts_with_iff)
    moreover have "join_with ''/'' (replicate (length b') ''..'' @ t') \<noteq> ''.''"
      using Cons by (cases "replicate (length ms) ''..'' @ t' = []") (auto simp: join_with_Cons)
    ultimately show ?thesis using rel ne np by (auto simp: path_contains_def)
  qed
qed

lemma mutation_paths_conflict_sym: "mutation_paths_conflict p q = mutation_paths_conflict q p"
  by (auto simp: mutation_paths_conflict_def)

subsection \<open>Canonical paths\<close>

lemma canonical_loop_resolves:
  assumes names: "\<forall>n\<in>set (rev deep @ missing). plain_name n"
    and ok: "eval_symlinks (rooted (take k (rev deep))) = Inr c" "k \<le> length deep"
    and miss: "\<forall>j. k < j \<and> j \<le> length deep \<longrightarrow> eval_symlinks (rooted (take j (rev deep))) = Inl FsNotExist"
  shows "canonical_loop eval_symlinks original missing deep =
    foldl filepath_join c (drop k (rev deep) @ rev missing)"
  using names ok miss
proof (induction deep arbitrary: missing)
  case (Cons base dir)
  show ?case
  proof (cases "k = length (base # dir)")
    case False
    with Cons.prems(3) have k: "k \<le> length dir" by simp
    have "eval_symlinks (rooted (rev (base # dir))) = Inl FsNotExist"
      using Cons.prems(4) k by (auto dest!: spec [of _ "length (base # dir)"])
    moreover have "canonical_loop eval_symlinks original (missing @ [base]) dir =
        foldl filepath_join c (drop k (rev dir) @ rev (missing @ [base]))"
    proof (rule Cons.IH)
      show "\<forall>j. k < j \<and> j \<le> length dir \<longrightarrow> eval_symlinks (rooted (take j (rev dir))) = Inl FsNotExist"
        using Cons.prems(4) by auto
    qed (use Cons.prems k in auto)
    ultimately show ?thesis using k by simp
  qed (use Cons.prems in simp)
qed simp

text \<open>
  The canonical path of an absolute path whose longest existing prefix has \<open>k\<close> names is the
  resolution of that prefix followed by the names that do not exist yet, so two spellings of a
  file that is still to be created agree as soon as their directories resolve alike.
\<close>

theorem canonical_mutation_path_resolves:
  assumes "k < length (path_names p)"
    and "eval_symlinks (rooted (take k (path_names p))) = Inr c"
    and "\<forall>j. k < j \<and> j \<le> length (path_names p) \<longrightarrow> eval_symlinks (rooted (take j (path_names p))) = Inl FsNotExist"
  shows "canonical_mutation_path eval_symlinks p = rooted (path_names c @ drop k (path_names p))"
proof -
  have "canonical_mutation_path eval_symlinks p = foldl filepath_join c (drop k (path_names p))"
    using canonical_loop_resolves [of "rev (path_names p)" "[]" eval_symlinks k c] assms path_names_plain
    by (simp add: canonical_mutation_path_def)
  also have "\<dots> = rooted (path_names c @ drop k (path_names p))"
    using assms(1) path_names_plain by (intro foldl_join) (auto dest: in_set_dropD)
  finally show ?thesis .
qed

lemma canonical_mutation_path_resolves_witness:
  "canonical_mutation_path (\<lambda>p. if p = ''/a'' then Inr ''/b'' else Inl FsNotExist) ''/a/./x/../new'' = ''/b/new''"
proof -
  have n: "path_names ''/a/./x/../new'' = [''a'', ''new'']" by (simp add: path_names_def)
  have "\<forall>j. 1 < j \<and> j \<le> (2::nat) \<longrightarrow> j = 2" by auto
  with canonical_mutation_path_resolves [of 1 "''/a/./x/../new''" "\<lambda>p. if p = ''/a'' then Inr ''/b'' else Inl FsNotExist" "''/b''"]
  show ?thesis by (auto simp: n rooted_def path_names_def numeral_2_eq_2 less_Suc_eq_le le_Suc_eq)
qed

section \<open>Reservations\<close>

text \<open>A reservation is a pointer in the code; \<open>rv_id\<close> is its identity, \<open>rv_ready\<close> its closed channel.\<close>

record mutation_reservation =
  rv_id :: nat
  rv_path :: string
  rv_ready :: bool

record mutation_locks =
  ml_reservations :: "mutation_reservation list"
  ml_next :: nat

definition new_file_mutation_locks :: mutation_locks where
  "new_file_mutation_locks = \<lparr>ml_reservations = [], ml_next = 0\<rparr>"

definition blocked_by :: "mutation_reservation list \<Rightarrow> string \<Rightarrow> bool" where
  "blocked_by pending path \<longleftrightarrow> (\<exists>p\<in>set pending. mutation_paths_conflict (rv_path p) path)"

definition reserve_mode :: "mutation_locks \<Rightarrow> string \<Rightarrow> bool \<Rightarrow> nat option \<times> mutation_locks" where
  "reserve_mode locks path nonblocking =
     (let blocked = blocked_by (ml_reservations locks) path in
      if blocked \<and> nonblocking then (None, locks)
      else (Some (ml_next locks),
        locks\<lparr>ml_reservations := ml_reservations locks @ [\<lparr>rv_id = ml_next locks, rv_path = path, rv_ready = \<not> blocked\<rparr>],
              ml_next := ml_next locks + 1\<rparr>))"

fun wake_reservations :: "mutation_reservation list \<Rightarrow> mutation_reservation list \<Rightarrow> mutation_reservation list" where
  "wake_reservations prior [] = prior"
| "wake_reservations prior (c # cs) =
     wake_reservations (prior @ [if rv_ready c then c
        else if blocked_by prior (rv_path c) then c else c\<lparr>rv_ready := True\<rparr>]) cs"

fun delete_reservation :: "nat \<Rightarrow> mutation_reservation list \<Rightarrow> mutation_reservation list" where
  "delete_reservation i [] = []"
| "delete_reservation i (r # rs) = (if rv_id r = i then rs else r # delete_reservation i rs)"

definition remove_reservation :: "mutation_locks \<Rightarrow> nat \<Rightarrow> mutation_locks" where
  "remove_reservation locks i =
     (if \<exists>r\<in>set (ml_reservations locks). rv_id r = i
      then locks\<lparr>ml_reservations := wake_reservations [] (delete_reservation i (ml_reservations locks))\<rparr>
      else locks)"

text \<open>
  Concurrent use. A holder of a reservation starts its mutation once the reservation is ready and
  removes it when the mutation returns; a canceled context makes it give up at any point before.
\<close>

record mutation_sys =
  ms_locks :: mutation_locks
  ms_running :: "nat set"

definition mutation_init :: "mutation_sys \<Rightarrow> bool" where
  "mutation_init s \<longleftrightarrow> ms_locks s = new_file_mutation_locks \<and> ms_running s = {}"

inductive mutation_step :: "mutation_sys \<Rightarrow> mutation_sys \<Rightarrow> bool" where
  reserve: "reserve_mode (ms_locks s) path nonblocking = (Some i, l) \<Longrightarrow> mutation_step s (s\<lparr>ms_locks := l\<rparr>)"
| start_mutation: "r \<in> set (ml_reservations (ms_locks s)) \<Longrightarrow> rv_ready r \<Longrightarrow> rv_id r \<notin> ms_running s \<Longrightarrow>
    mutation_step s (s\<lparr>ms_running := insert (rv_id r) (ms_running s)\<rparr>)"
| finish_mutation: "i \<in> ms_running s \<Longrightarrow>
    mutation_step s (s\<lparr>ms_locks := remove_reservation (ms_locks s) i, ms_running := ms_running s - {i}\<rparr>)"
| give_up: "i \<notin> ms_running s \<Longrightarrow> mutation_step s (s\<lparr>ms_locks := remove_reservation (ms_locks s) i\<rparr>)"

inductive_cases mutation_stepE: "mutation_step s t"

subsection \<open>Which reservations are ready\<close>

fun marked :: "(bool \<Rightarrow> bool \<Rightarrow> bool) \<Rightarrow> mutation_reservation list \<Rightarrow> mutation_reservation list \<Rightarrow> bool" where
  "marked R prior [] = True"
| "marked R prior (c # cs) \<longleftrightarrow> R (rv_ready c) (\<not> blocked_by prior (rv_path c)) \<and> marked R (prior @ [c]) cs"

abbreviation exactly_marked :: "mutation_reservation list \<Rightarrow> bool" where
  "exactly_marked \<equiv> marked (=) []"

lemma blocked_by_simps [simp]:
  "blocked_by [] p = False" "blocked_by (r # rs) p \<longleftrightarrow> mutation_paths_conflict (rv_path r) p \<or> blocked_by rs p"
  "blocked_by (xs @ ys) p \<longleftrightarrow> blocked_by xs p \<or> blocked_by ys p"
  by (auto simp: blocked_by_def)

lemma marked_append: "marked R prior (xs @ ys) \<longleftrightarrow> marked R prior xs \<and> marked R (prior @ xs) ys"
  by (induction xs arbitrary: prior) simp_all

lemma marked_exact_weak: "marked (=) prior rs \<Longrightarrow> marked (\<longrightarrow>) prior rs"
  by (induction rs arbitrary: prior) simp_all

lemma marked_fewer_prior:
  "marked (\<longrightarrow>) prior rs \<Longrightarrow> set prior' \<subseteq> set prior \<Longrightarrow> marked (\<longrightarrow>) prior' rs"
proof (induction rs arbitrary: prior prior')
  case (Cons r rs)
  have m: "marked (\<longrightarrow>) (prior @ [r]) rs" and r: "rv_ready r \<longrightarrow> \<not> blocked_by prior (rv_path r)"
    using Cons.prems(1) by simp_all
  have "set (prior' @ [r]) \<subseteq> set (prior @ [r])" using Cons.prems(2) by auto
  from Cons.IH [OF m this] have "marked (\<longrightarrow>) (prior' @ [r]) rs" .
  moreover have "blocked_by prior' (rv_path r) \<Longrightarrow> blocked_by prior (rv_path r)"
    using Cons.prems(2) by (auto simp only: blocked_by_def)
  ultimately show ?case using r by simp blast
qed simp

lemma marked_delete: "marked (\<longrightarrow>) prior rs \<Longrightarrow> marked (\<longrightarrow>) prior (delete_reservation i rs)"
  by (induction rs arbitrary: prior) (auto intro: marked_fewer_prior)

lemma blocked_by_paths: "blocked_by rs p \<longleftrightarrow> (\<exists>q\<in>set (map rv_path rs). mutation_paths_conflict q p)"
  by (simp add: blocked_by_def)

lemma marked_cong_paths: "map rv_path prior = map rv_path prior' \<Longrightarrow> marked R prior rs = marked R prior' rs"
proof (induction rs arbitrary: prior prior')
  case (Cons r rs)
  then have "marked R (prior @ [r]) rs = marked R (prior' @ [r]) rs" by (intro Cons.IH) simp
  with Cons.prems show ?case by (simp add: blocked_by_paths del: set_map)
qed simp

lemma wake_marked:
  "marked (=) [] prior \<Longrightarrow> marked (\<longrightarrow>) prior rs \<Longrightarrow> exactly_marked (wake_reservations prior rs)"
proof (induction prior rs rule: wake_reservations.induct)
  case (2 prior c cs)
  let ?c = "if rv_ready c then c else if blocked_by prior (rv_path c) then c else c\<lparr>rv_ready := True\<rparr>"
  have same: "rv_path ?c = rv_path c" by simp
  have "marked (\<longrightarrow>) (prior @ [?c]) cs \<longleftrightarrow> marked (\<longrightarrow>) (prior @ [c]) cs"
    by (rule marked_cong_paths) simp
  with 2 show ?case by (auto simp: marked_append)
qed simp

lemma wake_ids [simp]: "map rv_id (wake_reservations prior rs) = map rv_id prior @ map rv_id rs"
  and wake_paths: "map rv_path (wake_reservations prior rs) = map rv_path prior @ map rv_path rs"
  by (induction prior rs rule: wake_reservations.induct) simp_all

lemma delete_ids: "map rv_id (delete_reservation i rs) = remove1 i (map rv_id rs)"
  by (induction rs) auto

lemma exactly_marked_at:
  "exactly_marked (xs @ r # ys) \<Longrightarrow> rv_ready r \<longleftrightarrow> \<not> blocked_by xs (rv_path r)"
  by (simp add: marked_append)

subsection \<open>The invariant of the queue\<close>

definition mutation_inv :: "mutation_sys \<Rightarrow> bool" where
  "mutation_inv s \<longleftrightarrow>
     exactly_marked (ml_reservations (ms_locks s)) \<and>
     distinct (map rv_id (ml_reservations (ms_locks s))) \<and>
     (\<forall>r\<in>set (ml_reservations (ms_locks s)). rv_id r < ml_next (ms_locks s)) \<and>
     ms_running s \<subseteq> rv_id ` {r \<in> set (ml_reservations (ms_locks s)). rv_ready r}"

lemma wake_keeps:
  "r \<in> set rs \<Longrightarrow> \<exists>r'\<in>set (wake_reservations prior rs). rv_id r' = rv_id r \<and> rv_path r' = rv_path r \<and>
     (rv_ready r \<longrightarrow> rv_ready r')"
proof -
  have prior: "r \<in> set prior \<Longrightarrow> r \<in> set (wake_reservations prior rs)" for r prior rs
    by (induction prior rs rule: wake_reservations.induct) auto
  show "r \<in> set rs \<Longrightarrow> ?thesis"
  proof (induction prior rs rule: wake_reservations.induct)
    case (2 prior c cs)
    let ?c = "if rv_ready c then c else if blocked_by prior (rv_path c) then c else c\<lparr>rv_ready := True\<rparr>"
    have "?c \<in> set (wake_reservations prior (c # cs))" using prior [of ?c "prior @ [?c]" cs] by simp
    moreover have "rv_id ?c = rv_id c \<and> rv_path ?c = rv_path c \<and> (rv_ready c \<longrightarrow> rv_ready ?c)" by simp
    ultimately show ?case using 2 by (cases "r = c") (blast, auto)
  qed simp
qed

lemma delete_keeps: "r \<in> set rs \<Longrightarrow> rv_id r \<noteq> i \<Longrightarrow> r \<in> set (delete_reservation i rs)"
  by (induction rs) auto

lemma delete_absent: "i \<notin> rv_id ` set rs \<Longrightarrow> delete_reservation i rs = rs"
  by (induction rs) auto

lemma remove_ids:
  "map rv_id (ml_reservations (remove_reservation l i)) = remove1 i (map rv_id (ml_reservations l))"
  by (auto simp: remove_reservation_def delete_ids intro!: remove1_idem [symmetric])

lemma remove_next [simp]: "ml_next (remove_reservation l i) = ml_next l"
  by (simp add: remove_reservation_def)

lemma mutation_inv_remove:
  assumes inv: "mutation_inv s"
  shows "mutation_inv (s\<lparr>ms_locks := remove_reservation (ms_locks s) i, ms_running := ms_running s - {i}\<rparr>)"
proof -
  let ?l = "ml_reservations (ms_locks s)" and ?l' = "ml_reservations (remove_reservation (ms_locks s) i)"
  have "exactly_marked ?l'"
    using inv wake_marked [of "[]", OF _ marked_delete [OF marked_exact_weak]]
    by (simp add: mutation_inv_def remove_reservation_def)
  moreover have "distinct (map rv_id ?l')" using inv by (simp add: mutation_inv_def remove_ids)
  moreover have "rv_id r < ml_next (ms_locks s)" if "r \<in> set ?l'" for r
  proof -
    have "rv_id r \<in> set (map rv_id ?l')" using that by simp
    then have "rv_id r \<in> set (map rv_id ?l)" unfolding remove_ids by (rule subsetD [OF set_remove1_subset])
    with inv show ?thesis by (auto simp: mutation_inv_def)
  qed
  moreover have "\<exists>r'\<in>set ?l'. rv_id r' = j \<and> rv_ready r'" if "j \<in> ms_running s" "j \<noteq> i" for j
  proof -
    have "j \<in> rv_id ` {r \<in> set ?l. rv_ready r}" using inv that(1) by (auto simp only: mutation_inv_def)
    then obtain r where r: "r \<in> set ?l" "rv_id r = j" "rv_ready r" by auto
    show ?thesis
    proof (cases "\<exists>q\<in>set ?l. rv_id q = i")
      case True
      then have l': "?l' = wake_reservations [] (delete_reservation i ?l)" by (simp add: remove_reservation_def)
      have "r \<in> set (delete_reservation i ?l)" using r that by (intro delete_keeps) auto
      from wake_keeps [OF this, of "[]"] r show ?thesis unfolding l' by auto
    qed (use r in \<open>auto simp: remove_reservation_def\<close>)
  qed
  ultimately show ?thesis unfolding mutation_inv_def by (auto simp: image_iff)
qed

lemma mutation_inv_step: "mutation_inv s \<Longrightarrow> mutation_step s t \<Longrightarrow> mutation_inv t"
proof (erule mutation_stepE, goal_cases)
  case (1 path nonblocking i l)
  let ?l = "ml_reservations (ms_locks s)" and ?n = "ml_next (ms_locks s)"
  from 1(3) have l: "l = (ms_locks s)\<lparr>ml_reservations := ?l @ [\<lparr>rv_id = ?n, rv_path = path, rv_ready = \<not> blocked_by ?l path\<rparr>],
      ml_next := ?n + 1\<rparr>"
    by (auto simp: reserve_mode_def Let_def split: if_splits)
  have "?n \<notin> rv_id ` set ?l" using 1(1) by (auto simp: mutation_inv_def)
  with 1(1) show ?case unfolding 1(2) l by (auto simp: mutation_inv_def marked_append less_Suc_eq)
next
  case (2 r)
  then show ?case by (auto simp: mutation_inv_def)
next
  case (3 i)
  with mutation_inv_remove [of s i] show ?case by simp
next
  case (4 i)
  then have "ms_running s - {i} = ms_running s" by auto
  with 4 mutation_inv_remove [of s i] show ?case by simp
qed

interpretation mutation: invariant_machine mutation_init mutation_step mutation_inv
  by unfold_locales (simp add: mutation_init_def new_file_mutation_locks_def mutation_inv_def, rule mutation_inv_step)

lemma mutation_reachable_inv: "reachable_from mutation_init mutation_step s \<Longrightarrow> mutation_inv s"
  by (rule mutation.reachable_inv)

lemma two_positions:
  "a \<in> set xs \<Longrightarrow> b \<in> set xs \<Longrightarrow> a \<noteq> b \<Longrightarrow> (\<exists>us vs ws. xs = us @ a # vs @ b # ws) \<or> (\<exists>us vs ws. xs = us @ b # vs @ a # ws)"
proof -
  assume ab: "a \<in> set xs" "b \<in> set xs" "a \<noteq> b"
  then obtain us rest where xs: "xs = us @ a # rest" by (meson split_list)
  show ?thesis
  proof (cases "b \<in> set rest")
    case True
    then obtain vs ws where "rest = vs @ b # ws" by (meson split_list)
    with xs show ?thesis by blast
  next
    case False
    with ab xs have "b \<in> set us" by auto
    then obtain ps qs where "us = ps @ b # qs" by (meson split_list)
    with xs have "xs = ps @ b # qs @ a # rest" by simp
    then show ?thesis by blast
  qed
qed

text \<open>A run in which two reservations on unrelated files are made and both mutations start.\<close>

definition sample_mutations :: "nat set \<Rightarrow> mutation_sys" where
  "sample_mutations running =
     \<lparr>ms_locks = \<lparr>ml_reservations = [\<lparr>rv_id = 0, rv_path = ''/a'', rv_ready = True\<rparr>,
        \<lparr>rv_id = 1, rv_path = ''/b'', rv_ready = True\<rparr>], ml_next = 2\<rparr>, ms_running = running\<rparr>"

lemma sample_paths: "\<not> mutation_paths_conflict ''/a'' ''/b''"
  by code_simp

lemma sample_mutations_reachable: "reachable_from mutation_init mutation_step (sample_mutations {0, 1})"
proof -
  let ?s0 = "\<lparr>ms_locks = new_file_mutation_locks, ms_running = {}\<rparr>"
  let ?s1 = "\<lparr>ms_locks = \<lparr>ml_reservations = [\<lparr>rv_id = 0, rv_path = ''/a'', rv_ready = True\<rparr>], ml_next = 1\<rparr>, ms_running = {}\<rparr>"
  have 0: "reachable_from mutation_init mutation_step ?s0" by (rule reachable_from.start) (simp add: mutation_init_def)
  have "mutation_step ?s0 ?s1"
    using mutation_step.reserve [where s = ?s0 and path = "''/a''" and nonblocking = False]
    by (simp add: reserve_mode_def new_file_mutation_locks_def)
  with 0 have 1: "reachable_from mutation_init mutation_step ?s1" by (rule reachable_from.step)
  have "mutation_step ?s1 (sample_mutations {})"
    using mutation_step.reserve [where s = ?s1 and path = "''/b''" and nonblocking = True] sample_paths
    by (simp add: reserve_mode_def sample_mutations_def numeral_2_eq_2)
  with 1 have 2: "reachable_from mutation_init mutation_step (sample_mutations {})" by (rule reachable_from.step)
  have "mutation_step (sample_mutations {}) (sample_mutations {1})"
    using mutation_step.start_mutation [where s = "sample_mutations {}" and r = "\<lparr>rv_id = 1, rv_path = ''/b'', rv_ready = True\<rparr>"]
    by (simp add: sample_mutations_def)
  with 2 have 3: "reachable_from mutation_init mutation_step (sample_mutations {1})" by (rule reachable_from.step)
  have "mutation_step (sample_mutations {1}) (sample_mutations {0, 1})"
    using mutation_step.start_mutation [where s = "sample_mutations {1}" and r = "\<lparr>rv_id = 0, rv_path = ''/a'', rv_ready = True\<rparr>"]
    by (simp add: sample_mutations_def)
  with 3 show ?thesis by (rule reachable_from.step)
qed

text \<open>
  C23. No two mutations that run at the same time conflict: for two distinct reservations whose
  mutations are running, neither path contains the other.
\<close>

theorem running_mutations_exclusive:
  assumes "reachable_from mutation_init mutation_step s"
    and "a \<in> set (ml_reservations (ms_locks s))" "b \<in> set (ml_reservations (ms_locks s))"
    and "rv_id a \<in> ms_running s" "rv_id b \<in> ms_running s" "a \<noteq> b"
  shows "\<not> mutation_paths_conflict (rv_path a) (rv_path b)"
proof -
  have inv: "mutation_inv s" by (rule mutation_reachable_inv [OF assms(1)])
  have ready: "rv_ready r" if "r \<in> set (ml_reservations (ms_locks s))" "rv_id r \<in> ms_running s" for r
  proof -
    have "rv_id r \<in> rv_id ` {r \<in> set (ml_reservations (ms_locks s)). rv_ready r}"
      using inv that(2) by (auto simp only: mutation_inv_def)
    then obtain r' where "r' \<in> set (ml_reservations (ms_locks s))" "rv_id r' = rv_id r" "rv_ready r'"
      by auto
    moreover have "inj_on rv_id (set (ml_reservations (ms_locks s)))"
      using inv by (simp add: mutation_inv_def distinct_map)
    ultimately show ?thesis using that by (auto dest: inj_onD)
  qed
  have ex: "exactly_marked (ml_reservations (ms_locks s))" using inv by (simp add: mutation_inv_def)
  from two_positions [OF assms(2,3,6)] show ?thesis
  proof (elim disjE exE)
    fix us vs ws
    assume l: "ml_reservations (ms_locks s) = us @ a # vs @ b # ws"
    with ex exactly_marked_at [of "us @ a # vs" b ws] ready [OF assms(3,5)] show ?thesis by simp
  next
    fix us vs ws
    assume l: "ml_reservations (ms_locks s) = us @ b # vs @ a # ws"
    with ex exactly_marked_at [of "us @ b # vs" a ws] ready [OF assms(2,4)]
    show ?thesis by (simp add: mutation_paths_conflict_sym)
  qed
qed

lemma running_mutations_exclusive_witness: "\<not> mutation_paths_conflict ''/a'' ''/b''"
  using running_mutations_exclusive [OF sample_mutations_reachable,
    of "\<lparr>rv_id = 0, rv_path = ''/a'', rv_ready = True\<rparr>" "\<lparr>rv_id = 1, rv_path = ''/b'', rv_ready = True\<rparr>"]
  by (simp add: sample_mutations_def)

text \<open>The number of reservations that a reservation still has ahead of it.\<close>

fun ahead_of :: "nat \<Rightarrow> mutation_reservation list \<Rightarrow> nat" where
  "ahead_of i [] = 0"
| "ahead_of i (r # rs) = (if rv_id r = i then 0 else 1 + ahead_of i rs)"

lemma ahead_of_ids: "ahead_of i rs = length (takeWhile (\<lambda>j. j \<noteq> i) (map rv_id rs))"
  by (induction rs) auto

lemma takeWhile_remove1_le:
  "j \<noteq> i \<Longrightarrow> length (takeWhile (\<lambda>x. x \<noteq> i) (remove1 j xs)) \<le> length (takeWhile (\<lambda>x. x \<noteq> i) xs)"
  by (induction xs) auto

text \<open>
  C24. Progress: in every reachable state the oldest reservation is ready, and more generally a
  reservation is ready exactly when no older one conflicts with it; so while any reservation
  exists, some mutation is running or can start.
\<close>

theorem mutation_queue_progress:
  assumes "reachable_from mutation_init mutation_step s"
    and "ml_reservations (ms_locks s) = older @ r # newer"
  shows "(rv_ready r \<longleftrightarrow> (\<forall>o'\<in>set older. \<not> mutation_paths_conflict (rv_path o') (rv_path r))) \<and>
    rv_ready (hd (ml_reservations (ms_locks s))) \<and>
    (ms_running s \<noteq> {} \<or> mutation_step s (s\<lparr>ms_running := {rv_id (hd (ml_reservations (ms_locks s)))}\<rparr>))"
proof -
  have inv: "mutation_inv s" by (rule mutation_reachable_inv [OF assms(1)])
  then have ex: "exactly_marked (ml_reservations (ms_locks s))" by (simp add: mutation_inv_def)
  have "rv_ready r \<longleftrightarrow> \<not> blocked_by older (rv_path r)"
    using ex assms(2) exactly_marked_at [of older r newer] by simp
  moreover obtain h rest where l: "ml_reservations (ms_locks s) = h # rest" using assms(2) by (cases older) auto
  moreover have h: "rv_ready h" using ex l by simp
  moreover have "mutation_step s (s\<lparr>ms_running := insert (rv_id h) (ms_running s)\<rparr>)" if "ms_running s = {}"
    using l h that by (intro mutation_step.start_mutation) auto
  ultimately show ?thesis by (auto simp: blocked_by_def)
qed

lemma mutation_queue_progress_witness:
  "rv_ready (hd (ml_reservations (ms_locks (sample_mutations {0, 1})))) \<and> \<not> mutation_paths_conflict ''/a'' ''/b''"
  using mutation_queue_progress [OF sample_mutations_reachable,
    of "[\<lparr>rv_id = 0, rv_path = ''/a'', rv_ready = True\<rparr>]" "\<lparr>rv_id = 1, rv_path = ''/b'', rv_ready = True\<rparr>" "[]"]
  by (simp add: sample_mutations_def)

text \<open>
  No overtaking: along every step of a reachable state, a reservation that stays in the queue
  never has more reservations ahead of it than before, and strictly fewer when the oldest one
  leaves; with no one ahead it is ready. A wait is therefore over after at most as many removals
  as there were reservations ahead.
\<close>

theorem mutation_queue_no_overtaking:
  assumes "reachable_from mutation_init mutation_step s" and "mutation_step s t"
    and "i \<in> rv_id ` set (ml_reservations (ms_locks s))" "i \<in> rv_id ` set (ml_reservations (ms_locks t))"
  shows "ahead_of i (ml_reservations (ms_locks t)) \<le> ahead_of i (ml_reservations (ms_locks s)) \<and>
    (rv_id (hd (ml_reservations (ms_locks s))) \<notin> rv_id ` set (ml_reservations (ms_locks t)) \<longrightarrow>
       ahead_of i (ml_reservations (ms_locks t)) < ahead_of i (ml_reservations (ms_locks s)))"
proof -
  let ?l = "ml_reservations (ms_locks s)"
  have inv: "mutation_inv s" by (rule mutation_reachable_inv [OF assms(1)])
  then have d: "distinct (map rv_id ?l)" by (simp add: mutation_inv_def)
  have removal: "?thesis" if t: "ms_locks t = remove_reservation (ms_locks s) j" for j
  proof (cases "j \<in> rv_id ` set ?l")
    case False
    then have "remove_reservation (ms_locks s) j = ms_locks s" by (auto simp: remove_reservation_def)
    with t show ?thesis using assms(3) by (cases ?l) auto
  next
    case True
    then have t': "ml_reservations (ms_locks t) = wake_reservations [] (delete_reservation j ?l)"
      by (auto simp: t remove_reservation_def)
    have ids: "map rv_id (ml_reservations (ms_locks t)) = remove1 j (map rv_id ?l)"
      by (simp add: t remove_ids)
    have "i \<in> set (remove1 j (map rv_id ?l))" using assms(4) unfolding ids [symmetric] by simp
    with d have ji: "j \<noteq> i" by auto
    have len: "ahead_of i (ml_reservations (ms_locks t)) = length (takeWhile (\<lambda>x. x \<noteq> i) (remove1 j (map rv_id ?l)))"
      unfolding ahead_of_ids ids ..
    obtain h rest where l: "?l = h # rest" using True by (cases ?l) auto
    have less: "ahead_of i (ml_reservations (ms_locks t)) < ahead_of i ?l" if "rv_id h \<notin> set (remove1 j (map rv_id ?l))"
    proof -
      have "j = rv_id h" using that l by (auto split: if_splits)
      then show ?thesis using ji unfolding len by (simp add: l ahead_of_ids)
    qed
    have hd: "rv_id (hd ?l) \<notin> rv_id ` set (ml_reservations (ms_locks t)) \<longleftrightarrow> rv_id h \<notin> set (remove1 j (map rv_id ?l))"
      unfolding ids [symmetric] by (simp add: l)
    have "ahead_of i (ml_reservations (ms_locks t)) \<le> ahead_of i ?l"
      unfolding len ahead_of_ids [of i ?l] by (rule takeWhile_remove1_le [OF ji])
    with less show ?thesis unfolding hd by blast
  qed
  from assms(2) show ?thesis
  proof cases
    case (reserve path nonblocking k l)
    then obtain r where l: "l = (ms_locks s)\<lparr>ml_reservations := ?l @ [r], ml_next := ml_next (ms_locks s) + 1\<rparr>"
      by (auto simp: reserve_mode_def Let_def split: if_splits)
    have "i \<in> set (map rv_id ?l)" using assms(3) by simp
    then have "ahead_of i (?l @ [r]) = ahead_of i ?l" unfolding ahead_of_ids map_append by (subst takeWhile_append1) auto
    with reserve l assms(3) show ?thesis by (cases ?l) auto
  next
    case (start_mutation r)
    with assms(3) show ?thesis by (cases ?l) auto
  qed (use removal in simp_all)
qed

lemma mutation_queue_no_overtaking_witness:
  "ahead_of 1 [\<lparr>rv_id = 1, rv_path = ''/b'', rv_ready = True\<rparr>]
   < ahead_of 1 (ml_reservations (ms_locks (sample_mutations {0, 1})))"
  using mutation_queue_no_overtaking [OF sample_mutations_reachable
    mutation_step.finish_mutation [where i = 0 and s = "sample_mutations {0, 1}"], of 1]
  by (simp add: sample_mutations_def remove_reservation_def)

text \<open>
  A nonblocking reservation fails exactly when some reservation in the queue conflicts with
  the path, and then leaves the queue as it was; when it succeeds it is ready at once. A blocking
  reservation always succeeds and is ready exactly when nothing conflicts.
\<close>

theorem reserve_mode_outcome:
  "reserve_mode l path True = (if \<exists>r\<in>set (ml_reservations l). mutation_paths_conflict (rv_path r) path then (None, l)
     else (Some (ml_next l), l\<lparr>ml_reservations := ml_reservations l @ [\<lparr>rv_id = ml_next l, rv_path = path, rv_ready = True\<rparr>],
       ml_next := ml_next l + 1\<rparr>)) \<and>
   reserve_mode l path False = (Some (ml_next l), l\<lparr>ml_reservations := ml_reservations l @
     [\<lparr>rv_id = ml_next l, rv_path = path,
       rv_ready = (\<not> (\<exists>r\<in>set (ml_reservations l). mutation_paths_conflict (rv_path r) path))\<rparr>], ml_next := ml_next l + 1\<rparr>)"
  by (simp add: reserve_mode_def Let_def blocked_by_def)

end
