(* ===== verification/Combinator.thy ===== *)
theory Combinator
  imports Go_Strings
begin

text \<open>
  The bounded combinators of workflow programs (\<^verbatim>\<open>internal/workflowkernel/combinator.go\<close>):
  the execution of one item through its stages, the admission of items by a pool of workers
  under one lock, and the structured outcome. Values have an arbitrary type with \<open>None\<close> for nil;
  a callback returns, fails or panics.
\<close>

section \<open>States and outcomes\<close>

datatype item_state = StateNotStarted | StateQueued | StateRunning | StateCompleted | StateFailed
  | StateCanceled | StateSkipped

definition item_state_string :: "item_state \<Rightarrow> string" where
  "item_state_string st = (case st of StateNotStarted \<Rightarrow> ''not_started'' | StateQueued \<Rightarrow> ''queued''
     | StateRunning \<Rightarrow> ''running'' | StateCompleted \<Rightarrow> ''completed'' | StateFailed \<Rightarrow> ''failed''
     | StateCanceled \<Rightarrow> ''canceled'' | StateSkipped \<Rightarrow> ''skipped'')"

datatype aggregate_state = AggregateSuccess | AggregatePartial | AggregateFailed

definition aggregate_state_string :: "aggregate_state \<Rightarrow> string" where
  "aggregate_state_string st = (case st of AggregateSuccess \<Rightarrow> ''success'' | AggregatePartial \<Rightarrow> ''partial''
     | AggregateFailed \<Rightarrow> ''failed'')"

record 'v item_outcome =
  io_value :: "'v option"
  io_error :: string
  io_index :: nat
  io_stage :: int
  io_state :: item_state

record 'v kernel_outcome =
  ko_counts :: "(item_state \<Rightarrow> int) option"
  ko_items :: "'v item_outcome list"
  ko_total :: int
  ko_state :: aggregate_state

text \<open>An error keeps its message and whether it reports cancellation (\<^verbatim>\<open>errors.Is\<close>).\<close>

record callback_error =
  ce_message :: string
  ce_canceled :: bool

datatype 'v callback_result =
    Returns "'v option"
  | Errs "'v option" callback_error
  | Panics string

type_synonym 'v callback = "'v option \<Rightarrow> 'v callback_result"

section \<open>One item\<close>

definition call_callback :: "'v callback \<Rightarrow> 'v option \<Rightarrow> 'v option \<times> callback_error option" where
  "call_callback cb v = (case cb v of
       Returns w \<Rightarrow> (w, None)
     | Errs w e \<Rightarrow> (w, Some e)
     | Panics m \<Rightarrow> (None, Some \<lparr>ce_message = ''callback panic: '' @ m, ce_canceled = False\<rparr>))"

text \<open>\<open>ctx_err k\<close> is what the context reports when it is read before stage \<open>k\<close>, or after the last one.\<close>

fun execute_stages ::
  "(nat \<Rightarrow> string option) \<Rightarrow> nat \<Rightarrow> nat \<Rightarrow> 'v option \<Rightarrow> 'v callback list \<Rightarrow> 'v item_outcome" where
  "execute_stages ctx_err index stage_index v [] =
     (case ctx_err stage_index of
        Some e \<Rightarrow> \<lparr>io_value = None, io_error = e, io_index = index, io_stage = int stage_index - 1, io_state = StateCanceled\<rparr>
      | None \<Rightarrow> \<lparr>io_value = v, io_error = [], io_index = index, io_stage = -1, io_state = StateCompleted\<rparr>)"
| "execute_stages ctx_err index stage_index v (stage # stages) =
     (case ctx_err stage_index of
        Some e \<Rightarrow> \<lparr>io_value = None, io_error = e, io_index = index, io_stage = int stage_index, io_state = StateCanceled\<rparr>
      | None \<Rightarrow> (case call_callback stage v of
          (w, Some e) \<Rightarrow> \<lparr>io_value = w, io_error = ce_message e, io_index = index, io_stage = int stage_index,
             io_state = (if ce_canceled e then StateCanceled else StateFailed)\<rparr>
        | (w, None) \<Rightarrow> execute_stages ctx_err index (stage_index + 1) w stages))"

definition execute_item ::
  "(nat \<Rightarrow> string option) \<Rightarrow> nat \<Rightarrow> 'v option \<Rightarrow> 'v callback list \<Rightarrow> 'v item_outcome" where
  "execute_item ctx_err index v stages = execute_stages ctx_err index 0 v stages"

section \<open>Outcomes\<close>

definition new_outcome :: "nat \<Rightarrow> 'v kernel_outcome" where
  "new_outcome total_items =
     \<lparr>ko_counts = None,
      ko_items = map (\<lambda>i. \<lparr>io_value = None, io_error = [], io_index = i, io_stage = -1, io_state = StateNotStarted\<rparr>)
        [0..<total_items],
      ko_total = int total_items, ko_state = AggregateFailed\<rparr>"

definition finish_outcome :: "'v kernel_outcome \<Rightarrow> 'v kernel_outcome" where
  "finish_outcome oc =
     (let counts = foldl (\<lambda>c item. c(io_state item := c (io_state item) + 1)) (\<lambda>_. 0) (ko_items oc);
          completed = counts StateCompleted in
      oc\<lparr>ko_counts := Some counts,
         ko_state := (if completed = ko_total oc then AggregateSuccess
                      else if completed > 0 then AggregatePartial else AggregateFailed)\<rparr>)"

section \<open>Admission\<close>

record admission_state =
  ad_next :: nat
  ad_stopped :: bool

definition admit :: "bool \<Rightarrow> nat \<Rightarrow> admission_state \<Rightarrow> nat option \<times> admission_state" where
  "admit ctx_done total_items st =
     (if ad_stopped st \<or> ctx_done \<or> ad_next st \<ge> total_items then (None, st)
      else (Some (ad_next st), st\<lparr>ad_next := ad_next st + 1\<rparr>))"

definition publish ::
  "'v kernel_outcome \<Rightarrow> nat \<Rightarrow> 'v item_outcome \<Rightarrow> admission_state \<Rightarrow> 'v kernel_outcome \<times> admission_state" where
  "publish oc index r st =
     (oc\<lparr>ko_items := (ko_items oc)[index := r]\<rparr>,
      if io_state r = StateFailed \<or> io_state r = StateCanceled then st\<lparr>ad_stopped := True\<rparr> else st)"

section \<open>The worker pool\<close>

datatype worker = WorkerIdle | WorkerBusy nat | WorkerDone

record 'v kernel =
  kn_admission :: admission_state
  kn_ctx_done :: bool
  kn_workers :: "worker list"
  kn_outcome :: "'v kernel_outcome"

definition kernel_start :: "'v option list \<Rightarrow> int \<Rightarrow> bool \<Rightarrow> 'v kernel" where
  "kernel_start items concurrency ctx_done =
     \<lparr>kn_admission = \<lparr>ad_next = 0, ad_stopped = False\<rparr>, kn_ctx_done = ctx_done,
      kn_workers = replicate (nat (min concurrency (int (length items)))) WorkerIdle,
      kn_outcome = new_outcome (length items)\<rparr>"

text \<open>
  \<open>run\<close> either rejects its arguments, returns at once for no items, or starts the workers;
  \<open>Parallel\<close> and \<open>Pipeline\<close> first reject missing callbacks.
\<close>

datatype 'v run_start = RunError string | RunOutcome "'v kernel_outcome" | RunWorkers "'v kernel"

definition run_combinator :: "bool \<Rightarrow> 'v option list \<Rightarrow> int \<Rightarrow> bool \<Rightarrow> 'v run_start" where
  "run_combinator ctx_nil items concurrency ctx_done =
     (if ctx_nil then RunError ''workflow combinator context is required''
      else if concurrency \<le> 0 then RunError ''workflow concurrency must be positive''
      else if length items = 0 then RunOutcome (finish_outcome (new_outcome (length items)))
      else RunWorkers (kernel_start items concurrency ctx_done))"

definition parallel_combinator ::
  "bool \<Rightarrow> 'v option list \<Rightarrow> 'v callback option \<Rightarrow> int \<Rightarrow> bool \<Rightarrow> 'v run_start" where
  "parallel_combinator ctx_nil items cb concurrency ctx_done =
     (case cb of None \<Rightarrow> RunError ''parallel callback is required''
      | Some _ \<Rightarrow> run_combinator ctx_nil items concurrency ctx_done)"

definition pipeline_combinator ::
  "bool \<Rightarrow> 'v option list \<Rightarrow> 'v callback option list \<Rightarrow> int \<Rightarrow> bool \<Rightarrow> 'v run_start" where
  "pipeline_combinator ctx_nil items stages concurrency ctx_done =
     (case find (\<lambda>i. stages ! i = None) [0..<length stages] of
        Some i \<Rightarrow> RunError (''pipeline stage '' @ itoa (int i) @ '' is required'')
      | None \<Rightarrow> run_combinator ctx_nil items concurrency ctx_done)"

text \<open>
  The steps of the workers and of the context. \<open>behaviours\<close> holds the ways the stages may behave
  while one item runs through them, since callbacks may have effects; a worker can only have seen
  a canceled context once it is canceled.
\<close>

inductive kernel_step :: "'v option list \<Rightarrow> 'v callback list set \<Rightarrow> 'v kernel \<Rightarrow> 'v kernel \<Rightarrow> bool"
  for items :: "'v option list" and behaviours :: "'v callback list set" where
  cancel_ctx: "\<not> kn_ctx_done s \<Longrightarrow> kernel_step items behaviours s (s\<lparr>kn_ctx_done := True\<rparr>)"
| take_item: "w < length (kn_workers s) \<Longrightarrow> kn_workers s ! w = WorkerIdle \<Longrightarrow>
    admit (kn_ctx_done s) (length items) (kn_admission s) = (Some i, st) \<Longrightarrow>
    kernel_step items behaviours s (s\<lparr>kn_admission := st, kn_workers := (kn_workers s)[w := WorkerBusy i]\<rparr>)"
| leave_pool: "w < length (kn_workers s) \<Longrightarrow> kn_workers s ! w = WorkerIdle \<Longrightarrow>
    admit (kn_ctx_done s) (length items) (kn_admission s) = (None, st) \<Longrightarrow>
    kernel_step items behaviours s (s\<lparr>kn_workers := (kn_workers s)[w := WorkerDone]\<rparr>)"
| publish_item: "w < length (kn_workers s) \<Longrightarrow> kn_workers s ! w = WorkerBusy i \<Longrightarrow> fs \<in> behaviours \<Longrightarrow>
    (\<And>k. ctx_err k \<noteq> None \<Longrightarrow> kn_ctx_done s) \<Longrightarrow>
    publish (kn_outcome s) i (execute_item ctx_err i (items ! i) fs) (kn_admission s) = (oc, st) \<Longrightarrow>
    kernel_step items behaviours s
      (s\<lparr>kn_admission := st, kn_outcome := oc, kn_workers := (kn_workers s)[w := WorkerIdle]\<rparr>)"

inductive_cases kernel_stepE: "kernel_step items behaviours s t"

definition kernel_init :: "'v option list \<Rightarrow> int \<Rightarrow> 'v kernel \<Rightarrow> bool" where
  "kernel_init items concurrency s \<longleftrightarrow> (\<exists>ctx_done. run_combinator False items concurrency ctx_done = RunWorkers s)"

section \<open>Executing one item\<close>

primrec run_all :: "'v callback list \<Rightarrow> 'v option \<Rightarrow> 'v option option" where
  "run_all [] v = Some v"
| "run_all (f # fs) v = (case call_callback f v of (w, None) \<Rightarrow> run_all fs w | (w, Some _) \<Rightarrow> None)"

lemma execute_stages_state:
  "io_state (execute_stages ctx_err i k v fs) \<in> {StateCompleted, StateFailed, StateCanceled}"
  by (induction fs arbitrary: k v) (auto split: option.splits prod.splits)

lemma execute_stages_index [simp]: "io_index (execute_stages ctx_err i k v fs) = i"
  by (induction fs arbitrary: k v) (auto split: option.splits prod.splits)

lemma execute_stages_completed:
  "io_state (execute_stages ctx_err i k v fs) = StateCompleted \<longleftrightarrow>
     (\<forall>j. k \<le> j \<and> j \<le> k + length fs \<longrightarrow> ctx_err j = None) \<and> run_all fs v \<noteq> None"
proof (induction fs arbitrary: k v)
  case Nil
  show ?case by (auto split: option.splits dest: le_antisym)
next
  case (Cons f fs)
  have range: "(\<forall>j. k \<le> j \<and> j \<le> k + length (f # fs) \<longrightarrow> ctx_err j = None) \<longleftrightarrow>
      ctx_err k = None \<and> (\<forall>j. Suc k \<le> j \<and> j \<le> Suc k + length fs \<longrightarrow> ctx_err j = None)"
    by (metis Suc_le_eq add_Suc add_Suc_right le_add1 le_neq_implies_less length_Cons order.strict_implies_order
        less_or_eq_imp_le)
  obtain w e where c: "call_callback f v = (w, e)" by fastforce
  show ?case unfolding range using c Cons.IH [of "Suc k" w] by (cases "ctx_err k"; cases e) simp_all
qed

lemma execute_stages_value:
  "io_state (execute_stages ctx_err i k v fs) = StateCompleted \<Longrightarrow>
     run_all fs v = Some (io_value (execute_stages ctx_err i k v fs)) \<and> io_error (execute_stages ctx_err i k v fs) = []"
  by (induction fs arbitrary: k v) (auto split: option.splits prod.splits if_splits)

text \<open>
  An item completes exactly when the context was never found canceled and every stage
  returned without error or panic; its value is then the stages applied in order. Otherwise it
  is failed or canceled; there is no other terminal state, and the index is always the item's.
\<close>

theorem execute_item_completed_iff:
  "(io_state (execute_item ctx_err i v fs) = StateCompleted \<longleftrightarrow>
     (\<forall>k. k \<le> length fs \<longrightarrow> ctx_err k = None) \<and> run_all fs v \<noteq> None) \<and>
   io_state (execute_item ctx_err i v fs) \<in> {StateCompleted, StateFailed, StateCanceled} \<and>
   io_index (execute_item ctx_err i v fs) = i \<and>
   (io_state (execute_item ctx_err i v fs) = StateCompleted \<longrightarrow>
     run_all fs v = Some (io_value (execute_item ctx_err i v fs)) \<and> io_error (execute_item ctx_err i v fs) = [])"
proof -
  have "io_state (execute_stages ctx_err i 0 v fs) = StateCompleted \<longleftrightarrow>
      (\<forall>k. k \<le> length fs \<longrightarrow> ctx_err k = None) \<and> run_all fs v \<noteq> None"
    using execute_stages_completed [of ctx_err i 0 v fs] by simp
  then show ?thesis
    unfolding execute_item_def using execute_stages_state execute_stages_value [of ctx_err i 0 v fs] by fastforce
qed

lemma execute_item_completed_iff_witness:
  "io_value (execute_item (\<lambda>_. None) 3 (Some (1::int)) [\<lambda>v. Returns (map_option ((+) 1) v), \<lambda>v. Returns (map_option ((*) 5) v)])
   = Some 10"
  using execute_item_completed_iff [of "\<lambda>_. None" 3 "Some (1::int)"
    "[\<lambda>v. Returns (map_option ((+) 1) v), \<lambda>v. Returns (map_option ((*) 5) v)]"]
  by (simp add: call_callback_def)

section \<open>The pool\<close>

abbreviation item_at :: "'v kernel \<Rightarrow> nat \<Rightarrow> item_state" where
  "item_at s i \<equiv> io_state (ko_items (kn_outcome s) ! i)"

text \<open>The claim of one worker, and the state of one item, as the admission state determines them.\<close>

definition claim_ok :: "'v kernel \<Rightarrow> nat \<Rightarrow> nat \<Rightarrow> bool" where
  "claim_ok s w i \<longleftrightarrow> i < ad_next (kn_admission s) \<and> item_at s i = StateNotStarted \<and>
     (\<forall>w'. w' < length (kn_workers s) \<and> kn_workers s ! w' = WorkerBusy i \<longrightarrow> w' = w)"

definition item_ok :: "'v kernel \<Rightarrow> nat \<Rightarrow> bool" where
  "item_ok s i \<longleftrightarrow> io_index (ko_items (kn_outcome s) ! i) = i \<and>
     item_at s i \<in> {StateNotStarted, StateCompleted, StateFailed, StateCanceled} \<and>
     (item_at s i = StateNotStarted \<longleftrightarrow> ad_next (kn_admission s) \<le> i \<or> WorkerBusy i \<in> set (kn_workers s))"

definition kernel_inv :: "'v option list \<Rightarrow> int \<Rightarrow> 'v kernel \<Rightarrow> bool" where
  "kernel_inv items concurrency s \<longleftrightarrow>
     length (kn_workers s) = nat (min concurrency (int (length items))) \<and> 0 < length (kn_workers s) \<and>
     ad_next (kn_admission s) \<le> length items \<and>
     length (ko_items (kn_outcome s)) = length items \<and> ko_total (kn_outcome s) = int (length items) \<and>
     (\<forall>w i. w < length (kn_workers s) \<longrightarrow> kn_workers s ! w = WorkerBusy i \<longrightarrow> claim_ok s w i) \<and>
     (\<forall>i<length items. item_ok s i) \<and>
     (ad_stopped (kn_admission s) \<longleftrightarrow> (\<exists>i<length items. item_at s i \<in> {StateFailed, StateCanceled})) \<and>
     (WorkerDone \<in> set (kn_workers s) \<longrightarrow>
        ad_stopped (kn_admission s) \<or> kn_ctx_done s \<or> ad_next (kn_admission s) = length items)"

lemma kernel_invD:
  assumes "kernel_inv items c s"
  shows "length (kn_workers s) = nat (min c (int (length items)))" "0 < length (kn_workers s)"
    "ad_next (kn_admission s) \<le> length items"
    "length (ko_items (kn_outcome s)) = length items" "ko_total (kn_outcome s) = int (length items)"
    "w < length (kn_workers s) \<Longrightarrow> kn_workers s ! w = WorkerBusy i \<Longrightarrow> claim_ok s w i"
    "i < length items \<Longrightarrow> item_ok s i"
    "ad_stopped (kn_admission s) \<longleftrightarrow> (\<exists>i<length items. item_at s i \<in> {StateFailed, StateCanceled})"
    "WorkerDone \<in> set (kn_workers s) \<Longrightarrow>
       ad_stopped (kn_admission s) \<or> kn_ctx_done s \<or> ad_next (kn_admission s) = length items"
  using assms unfolding kernel_inv_def by blast+

lemma kernel_inv_init:
  assumes "kernel_init items concurrency s"
  shows "kernel_inv items concurrency s"
proof -
  from assms obtain d where s: "s = kernel_start items concurrency d" and c: "0 < concurrency" "items \<noteq> []"
    by (auto simp: kernel_init_def run_combinator_def split: if_splits)
  from c have "0 < min concurrency (int (length items))" by simp
  then have "0 < nat (min concurrency (int (length items)))" by (simp only: zero_less_nat_eq)
  then show ?thesis
    by (auto simp: s kernel_start_def kernel_inv_def new_outcome_def item_ok_def claim_ok_def)
qed

lemma busy_set: "WorkerBusy i \<in> set ws \<longleftrightarrow> (\<exists>w<length ws. ws ! w = WorkerBusy i)"
  by (auto simp: in_set_conv_nth)

lemma busy_update:
  assumes "w < length ws" and "ws ! w = v" and "v \<noteq> WorkerBusy j"
  shows "WorkerBusy j \<in> set (ws[w := u]) \<longleftrightarrow> u = WorkerBusy j \<or> WorkerBusy j \<in> set ws"
  using assms unfolding busy_set by (auto simp: nth_list_update)

lemma kernel_inv_take:
  assumes inv: "kernel_inv items c s" and w: "w < length (kn_workers s)" "kn_workers s ! w = WorkerIdle"
    and adm: "admit (kn_ctx_done s) (length items) (kn_admission s) = (Some i, st)"
  shows "kernel_inv items c (s\<lparr>kn_admission := st, kn_workers := (kn_workers s)[w := WorkerBusy i]\<rparr>)"
    (is "kernel_inv items c ?t")
proof -
  let ?n = "ad_next (kn_admission s)" and ?ws = "kn_workers s"
  from adm have i: "i = ?n" "?n < length items" and st: "st = (kn_admission s)\<lparr>ad_next := ?n + 1\<rparr>"
    and live: "\<not> ad_stopped (kn_admission s)" "\<not> kn_ctx_done s"
    by (auto simp: admit_def split: if_splits)
  have busy: "WorkerBusy j \<in> set (?ws[w := WorkerBusy ?n]) \<longleftrightarrow> j = ?n \<or> WorkerBusy j \<in> set ?ws" for j
    using w by (subst busy_update) auto
  have fresh: "WorkerBusy ?n \<notin> set ?ws"
    using kernel_invD(6) [OF inv] unfolding busy_set claim_ok_def by blast
  have ns: "item_at s ?n = StateNotStarted" using kernel_invD(7) [OF inv i(2)] by (simp add: item_ok_def)
  have B: "claim_ok ?t w' j" if "w' < length ?ws" "?ws[w := WorkerBusy ?n] ! w' = WorkerBusy j" for w' j
  proof (cases "w' = w")
    case True
    with that w have j: "j = ?n" by simp
    have "w'' = w" if "w'' < length ?ws" "?ws[w := WorkerBusy ?n] ! w'' = WorkerBusy ?n" for w''
      using that fresh unfolding busy_set by (cases "w'' = w") auto
    with ns True j i show ?thesis by (auto simp: claim_ok_def st)
  next
    case False
    with that have v: "?ws ! w' = WorkerBusy j" by simp
    from kernel_invD(6) [OF inv that(1) v] have "claim_ok s w' j" .
    moreover have "w'' \<noteq> w" if "w'' < length ?ws" "?ws[w := WorkerBusy ?n] ! w'' = WorkerBusy j" for w''
      using that w fresh v \<open>w' < length ?ws\<close> unfolding busy_set by auto
    ultimately have "w'' = w'" if "w'' < length ?ws" "?ws[w := WorkerBusy ?n] ! w'' = WorkerBusy j" for w''
      using that by (metis claim_ok_def nth_list_update_neq)
    with \<open>claim_ok s w' j\<close> i show ?thesis by (auto simp: claim_ok_def st)
  qed
  have D: "WorkerDone \<notin> set (?ws[w := WorkerBusy ?n])"
  proof -
    have "WorkerDone \<notin> set ?ws" using kernel_invD(9) [OF inv] i(2) live by auto
    then show ?thesis using set_update_subset_insert [of ?ws w "WorkerBusy ?n"] by auto
  qed
  have I: "item_ok ?t j" if "j < length items" for j
    using kernel_invD(7) [OF inv that] i ns by (auto simp: item_ok_def st busy)
  show ?thesis
    using kernel_invD(1-5,8) [OF inv] i B D I unfolding kernel_inv_def by (simp add: st)
qed

lemma kernel_inv_leave:
  assumes inv: "kernel_inv items c s" and w: "w < length (kn_workers s)" "kn_workers s ! w = WorkerIdle"
    and adm: "admit (kn_ctx_done s) (length items) (kn_admission s) = (None, st)"
  shows "kernel_inv items c (s\<lparr>kn_workers := (kn_workers s)[w := WorkerDone]\<rparr>)" (is "kernel_inv items c ?t")
proof -
  have busy: "WorkerBusy j \<in> set ((kn_workers s)[w := WorkerDone]) \<longleftrightarrow> WorkerBusy j \<in> set (kn_workers s)" for j
    using w by (subst busy_update) auto
  have at: "(kn_workers s)[w := WorkerDone] ! w' = WorkerBusy j \<longleftrightarrow> kn_workers s ! w' = WorkerBusy j"
    if "w' < length (kn_workers s)" for w' j
    using that w by (cases "w' = w") simp_all
  have B: "claim_ok ?t w' j" if "w' < length (kn_workers s)" "(kn_workers s)[w := WorkerDone] ! w' = WorkerBusy j" for w' j
  proof -
    from kernel_invD(6) [OF inv that(1)] that at have "claim_ok s w' j" by simp
    then show ?thesis using at by (auto simp: claim_ok_def)
  qed
  have I: "item_ok ?t j" if "j < length items" for j
  proof -
    have t: "kn_outcome ?t = kn_outcome s" "kn_admission ?t = kn_admission s"
      "kn_workers ?t = (kn_workers s)[w := WorkerDone]" by simp_all
    show ?thesis using kernel_invD(7) [OF inv that] unfolding item_ok_def t busy .
  qed
  have "ad_stopped (kn_admission s) \<or> kn_ctx_done s \<or> ad_next (kn_admission s) = length items"
    using adm kernel_invD(3) [OF inv] by (auto simp: admit_def split: if_splits)
  with kernel_invD(1-5,8) [OF inv] B I show ?thesis unfolding kernel_inv_def by simp
qed

lemma kernel_inv_publish:
  assumes inv: "kernel_inv items c s" and w: "w < length (kn_workers s)" "kn_workers s ! w = WorkerBusy i"
    and r: "io_state r \<in> {StateCompleted, StateFailed, StateCanceled}" "io_index r = i"
    and pub: "publish (kn_outcome s) i r (kn_admission s) = (oc, st)"
  shows "kernel_inv items c (s\<lparr>kn_admission := st, kn_outcome := oc, kn_workers := (kn_workers s)[w := WorkerIdle]\<rparr>)"
    (is "kernel_inv items c ?t")
proof -
  let ?ws = "kn_workers s" and ?is = "ko_items (kn_outcome s)"
  from pub have oc: "ko_items oc = ?is[i := r]" "ko_total oc = ko_total (kn_outcome s)"
    and st: "ad_next st = ad_next (kn_admission s)"
      "ad_stopped st \<longleftrightarrow> ad_stopped (kn_admission s) \<or> io_state r \<in> {StateFailed, StateCanceled}"
    by (auto simp: publish_def split: if_splits)
  have ci: "claim_ok s w i" by (rule kernel_invD(6) [OF inv w])
  then have i: "i < ad_next (kn_admission s)" "item_at s i = StateNotStarted"
    and only: "w' < length ?ws \<Longrightarrow> ?ws ! w' = WorkerBusy i \<Longrightarrow> w' = w" for w'
    by (simp_all add: claim_ok_def)
  have il: "i < length items" and len: "length ?is = length items"
    using i(1) kernel_invD(3,4) [OF inv] by simp_all
  have at: "?is[i := r] ! j = (if j = i then r else ?is ! j)" if "j < length items" for j
    using that len by simp
  have wat: "?ws[w := WorkerIdle] ! w' = WorkerBusy j \<longleftrightarrow> j \<noteq> i \<and> ?ws ! w' = WorkerBusy j" if "w' < length ?ws" for w' j
  proof (cases "w' = w")
    case False
    with only [OF that] show ?thesis by auto
  qed (use w in auto)
  have busy: "WorkerBusy j \<in> set (?ws[w := WorkerIdle]) \<longleftrightarrow> j \<noteq> i \<and> WorkerBusy j \<in> set ?ws" for j
    using wat unfolding busy_set by auto
  have B: "claim_ok ?t w' j" if "w' < length ?ws" "?ws[w := WorkerIdle] ! w' = WorkerBusy j" for w' j
  proof -
    from that wat have j: "j \<noteq> i" "?ws ! w' = WorkerBusy j" by auto
    from kernel_invD(6) [OF inv that(1) j(2)] have "claim_ok s w' j" .
    then have "j < ad_next (kn_admission s)" "item_at s j = StateNotStarted"
      "w'' < length ?ws \<Longrightarrow> ?ws ! w'' = WorkerBusy j \<Longrightarrow> w'' = w'" for w''
      by (simp_all add: claim_ok_def)
    moreover have "w'' = w'" if "w'' < length ?ws" "?ws[w := WorkerIdle] ! w'' = WorkerBusy j" for w''
      using calculation(3) that wat by blast
    ultimately show ?thesis using at j(1) kernel_invD(3) [OF inv] by (auto simp: claim_ok_def oc st(1))
  qed
  have I: "item_ok ?t j" if "j < length items" for j
    using kernel_invD(7) [OF inv that] r i(1) by (auto simp: item_ok_def oc st(1) busy at [OF that])
  have S: "ad_stopped st \<longleftrightarrow> (\<exists>j<length items. io_state (?is[i := r] ! j) \<in> {StateFailed, StateCanceled})"
  proof
    assume "ad_stopped st"
    then consider "io_state r \<in> {StateFailed, StateCanceled}"
      | j where "j < length items" "item_at s j \<in> {StateFailed, StateCanceled}"
      using kernel_invD(8) [OF inv] st(2) by blast
    then show "\<exists>j<length items. io_state (?is[i := r] ! j) \<in> {StateFailed, StateCanceled}"
    proof cases
      case 1
      with il at show ?thesis by (intro exI [of _ i]) simp
    next
      case (2 j)
      with i(2) at show ?thesis by (intro exI [of _ j]) auto
    qed
  next
    assume "\<exists>j<length items. io_state (?is[i := r] ! j) \<in> {StateFailed, StateCanceled}"
    then obtain j where j: "j < length items" "io_state (?is[i := r] ! j) \<in> {StateFailed, StateCanceled}" by blast
    with at [OF j(1)] kernel_invD(8) [OF inv] st(2) show "ad_stopped st" by (cases "j = i") auto
  qed
  have D: "WorkerDone \<in> set (?ws[w := WorkerIdle]) \<Longrightarrow> WorkerDone \<in> set ?ws"
    using set_update_subset_insert [of ?ws w WorkerIdle] by auto
  have E: "ad_stopped st \<or> kn_ctx_done s \<or> ad_next (kn_admission s) = length items" if "WorkerDone \<in> set (?ws[w := WorkerIdle])"
    using kernel_invD(9) [OF inv D [OF that]] st(2) by auto
  show ?thesis
    unfolding kernel_inv_def using kernel_invD(1-5) [OF inv] B I S E len by (simp add: oc st(1))
qed

lemma kernel_inv_step: "kernel_inv items c s \<Longrightarrow> kernel_step items behaviours s t \<Longrightarrow> kernel_inv items c t"
proof (erule kernel_stepE, goal_cases)
  case 1
  have same: "kn_workers t = kn_workers s" "kn_admission t = kn_admission s" "kn_outcome t = kn_outcome s"
    unfolding 1(2) by simp_all
  note D = kernel_invD [OF 1(1), folded same]
  have "claim_ok t w i" if "w < length (kn_workers t)" "kn_workers t ! w = WorkerBusy i" for w i
    using D(6) [OF that] by (simp add: claim_ok_def same)
  moreover have "item_ok t i" if "i < length items" for i
    using D(7) [OF that] unfolding item_ok_def same .
  moreover have "kn_ctx_done t" unfolding 1(2) by simp
  ultimately show ?case unfolding kernel_inv_def using D(1-5,8) by simp
next
  case (4 w i fs ctx_err oc st)
  from kernel_inv_publish [OF 4(1,3,4) _ _ 4(7)] execute_stages_state [of ctx_err i 0 "items ! i" fs] 4(2)
  show ?case by (simp add: execute_item_def)
qed (simp_all add: kernel_inv_take kernel_inv_leave)

interpretation kernel: invariant_machine "kernel_init items c" "kernel_step items behaviours" "kernel_inv items c"
  for items :: "'v option list" and c :: int and behaviours :: "'v callback list set"
  by unfold_locales (fact kernel_inv_init, fact kernel_inv_step)

abbreviation kernel_reachable :: "'v option list \<Rightarrow> int \<Rightarrow> 'v callback list set \<Rightarrow> 'v kernel \<Rightarrow> bool" where
  "kernel_reachable items c behaviours \<equiv> reachable_from (kernel_init items c) (kernel_step items behaviours)"

lemma kernel_reachable_inv: "kernel_reachable items c behaviours s \<Longrightarrow> kernel_inv items c s"
  by (rule kernel.reachable_inv)

text \<open>A run over one item that completes, up to the state in which every worker has left.\<close>

definition sample_kernel :: "worker \<Rightarrow> int kernel" where
  "sample_kernel w = \<lparr>kn_admission = \<lparr>ad_next = 1, ad_stopped = False\<rparr>, kn_ctx_done = False, kn_workers = [w],
     kn_outcome = \<lparr>ko_counts = None, ko_items = [\<lparr>io_value = Some 7, io_error = [], io_index = 0, io_stage = -1,
        io_state = StateCompleted\<rparr>], ko_total = 1, ko_state = AggregateFailed\<rparr>\<rparr>"

lemma sample_kernel_reachable: "kernel_reachable [Some 7] 4 {[\<lambda>v. Returns v]} (sample_kernel WorkerDone)"
proof -
  let ?R = "kernel_reachable [Some (7::int)] 4 {[\<lambda>v. Returns v]}"
  let ?S = "kernel_step [Some (7::int)] {[\<lambda>v. Returns v]}"
  let ?s0 = "kernel_start [Some (7::int)] 4 False"
  let ?s1 = "?s0\<lparr>kn_admission := \<lparr>ad_next = 1, ad_stopped = False\<rparr>, kn_workers := [WorkerBusy 0]\<rparr>"
  have 0: "?R ?s0" by (rule reachable_from.start) (auto simp: kernel_init_def run_combinator_def)
  have "?S ?s0 ?s1"
    using kernel_step.take_item [where s = ?s0 and w = 0 and i = 0 and items = "[Some (7::int)]"]
    by (simp add: kernel_start_def admit_def)
  with 0 have 1: "?R ?s1" by (rule reachable_from.step)
  have "?S ?s1 (sample_kernel WorkerIdle)"
    using kernel_step.publish_item [where s = ?s1 and w = 0 and i = 0 and items = "[Some (7::int)]" and ctx_err = "\<lambda>_. None"
      and fs = "[\<lambda>v. Returns v]" and behaviours = "{[\<lambda>v. Returns v]}"]
    by (simp add: kernel_start_def publish_def execute_item_def call_callback_def new_outcome_def sample_kernel_def)
  with 1 have 2: "?R (sample_kernel WorkerIdle)" by (rule reachable_from.step)
  have "?S (sample_kernel WorkerIdle) (sample_kernel WorkerDone)"
    using kernel_step.leave_pool [where s = "sample_kernel WorkerIdle" and w = 0 and items = "[Some (7::int)]"]
    by (simp add: sample_kernel_def admit_def)
  with 2 show ?thesis by (rule reachable_from.step)
qed

text \<open>
  C25. At every moment of a run: at most \<open>concurrency\<close> items are in progress and no two workers
  hold the same one; exactly the admitted items that no worker holds have a published terminal
  state, each at its own index; and admission is stopped exactly when some item has failed or was
  canceled, after which no step admits another.
\<close>

theorem kernel_pool_invariant:
  assumes "kernel_reachable items c behaviours s"
  shows "int (card {i. WorkerBusy i \<in> set (kn_workers s)}) \<le> min c (int (length items)) \<and>
    (\<forall>i<length items. io_index (ko_items (kn_outcome s) ! i) = i \<and>
       (item_at s i \<in> {StateCompleted, StateFailed, StateCanceled} \<longleftrightarrow>
          i < ad_next (kn_admission s) \<and> WorkerBusy i \<notin> set (kn_workers s)) \<and>
       length (filter (\<lambda>w. w = WorkerBusy i) (kn_workers s)) \<le> 1) \<and>
    (ad_stopped (kn_admission s) \<longleftrightarrow> (\<exists>i<length items. item_at s i \<in> {StateFailed, StateCanceled})) \<and>
    (\<forall>t. ad_stopped (kn_admission s) \<longrightarrow> kernel_step items behaviours s t \<longrightarrow>
       ad_next (kn_admission t) = ad_next (kn_admission s))"
proof (intro conjI allI impI)
  have inv: "kernel_inv items c s" by (rule kernel_reachable_inv [OF assms])
  note D = kernel_invD [OF inv]
  have "{i. WorkerBusy i \<in> set (kn_workers s)} \<subseteq> (\<lambda>w. case w of WorkerBusy i \<Rightarrow> i | _ \<Rightarrow> 0) ` set (kn_workers s)"
    by (force simp: image_iff)
  then have "card {i. WorkerBusy i \<in> set (kn_workers s)} \<le> card (set (kn_workers s))"
    by (meson List.finite_set card_image_le card_mono finite_imageI le_trans)
  also have "\<dots> \<le> nat (min c (int (length items)))" using card_length D(1) by metis
  finally show "int (card {i. WorkerBusy i \<in> set (kn_workers s)}) \<le> min c (int (length items))"
    using D(1,2) by (cases "0 \<le> min c (int (length items))") (simp_all only: le_nat_iff nat_le_0 nat_0_le)
  fix i
  assume i: "i < length items"
  show "io_index (ko_items (kn_outcome s) ! i) = i" using D(7) [OF i] by (simp add: item_ok_def)
  have "item_at s i = StateNotStarted \<longleftrightarrow> ad_next (kn_admission s) \<le> i \<or> WorkerBusy i \<in> set (kn_workers s)"
    and "item_at s i \<in> {StateNotStarted, StateCompleted, StateFailed, StateCanceled}"
    using D(7) [OF i] unfolding item_ok_def by blast+
  then show "item_at s i \<in> {StateCompleted, StateFailed, StateCanceled} \<longleftrightarrow>
      i < ad_next (kn_admission s) \<and> WorkerBusy i \<notin> set (kn_workers s)" by (auto simp: not_less)
  have "w = w'" if "w < length (kn_workers s)" "kn_workers s ! w = WorkerBusy i" "w' < length (kn_workers s)"
    "kn_workers s ! w' = WorkerBusy i" for w w'
    using D(6) [OF that(1,2)] that by (auto simp: claim_ok_def)
  then have "card {w. w < length (kn_workers s) \<and> kn_workers s ! w = WorkerBusy i} \<le> 1"
    by (auto simp: card_le_Suc0_iff_eq)
  then show "length (filter (\<lambda>w. w = WorkerBusy i) (kn_workers s)) \<le> 1"
    by (simp add: length_filter_conv_card)
next
  show "ad_stopped (kn_admission s) \<longleftrightarrow> (\<exists>i<length items. item_at s i \<in> {StateFailed, StateCanceled})"
    using kernel_invD(8) [OF kernel_reachable_inv [OF assms]] .
next
  fix t
  assume "ad_stopped (kn_admission s)" "kernel_step items behaviours s t"
  then show "ad_next (kn_admission t) = ad_next (kn_admission s)"
    by (auto elim!: kernel_stepE simp: admit_def publish_def split: if_splits)
qed

lemma kernel_pool_invariant_witness:
  "int (card {i. WorkerBusy i \<in> set (kn_workers (sample_kernel WorkerDone))}) \<le> 1"
  using kernel_pool_invariant [OF sample_kernel_reachable] by simp

section \<open>The final outcome\<close>

definition state_count :: "item_state \<Rightarrow> 'v item_outcome list \<Rightarrow> int" where
  "state_count st os = int (length (filter (\<lambda>r. io_state r = st) os))"

lemma foldl_counts:
  "foldl (\<lambda>c item. c(io_state item := c (io_state item) + (1::int))) c0 os st = c0 st + state_count st os"
  by (induction os arbitrary: c0) (auto simp: state_count_def)

lemma state_count_total:
  "state_count StateNotStarted os + state_count StateQueued os + state_count StateRunning os
   + state_count StateCompleted os + state_count StateFailed os + state_count StateCanceled os
   + state_count StateSkipped os = int (length os)"
proof (induction os)
  case (Cons r os)
  then show ?case by (cases "io_state r") (simp_all add: state_count_def)
qed (simp add: state_count_def)

lemma state_count_full: "state_count st os = int (length os) \<longleftrightarrow> (\<forall>r\<in>set os. io_state r = st)"
  unfolding state_count_def by (metis (mono_tags) filter_True filter_id_conv length_filter_less linorder_neq_iff nat_int of_nat_eq_iff)

lemma state_count_zero: "(\<And>i. i < length os \<Longrightarrow> io_state (os ! i) \<noteq> st) \<Longrightarrow> state_count st os = 0"
proof -
  assume a: "\<And>i. i < length os \<Longrightarrow> io_state (os ! i) \<noteq> st"
  have "io_state r \<noteq> st" if "r \<in> set os" for r
    using that a unfolding in_set_conv_nth by blast
  then have "filter (\<lambda>r. io_state r = st) os = []" by (simp add: filter_empty_conv)
  then show ?thesis by (simp add: state_count_def)
qed

lemma finish_outcome_counts:
  "finish_outcome oc = oc\<lparr>ko_counts := Some (\<lambda>st. state_count st (ko_items oc)),
     ko_state := (if state_count StateCompleted (ko_items oc) = ko_total oc then AggregateSuccess
       else if state_count StateCompleted (ko_items oc) > 0 then AggregatePartial else AggregateFailed)\<rparr>"
proof -
  have "foldl (\<lambda>c item. c(io_state item := c (io_state item) + (1::int))) (\<lambda>_. 0) os = (\<lambda>st. state_count st os)"
    for os :: "'a item_outcome list" by (rule ext) (simp add: foldl_counts)
  then show ?thesis by (simp add: finish_outcome_def Let_def)
qed

text \<open>
  The outcome reported when every worker has left: the published counts add up to the number
  of items, with nothing queued, running or skipped; the items not started are exactly those
  after the admission boundary; the outcome is a success exactly when every item completed; and
  every item does complete unless the context was canceled or some item failed or was canceled.
\<close>

theorem kernel_final_outcome:
  assumes "kernel_reachable items c behaviours s" and "set (kn_workers s) \<subseteq> {WorkerDone}"
  shows "ko_counts (finish_outcome (kn_outcome s)) = Some (\<lambda>st. state_count st (ko_items (kn_outcome s))) \<and>
    state_count StateNotStarted (ko_items (kn_outcome s)) + state_count StateCompleted (ko_items (kn_outcome s))
      + state_count StateFailed (ko_items (kn_outcome s)) + state_count StateCanceled (ko_items (kn_outcome s))
      = int (length items) \<and>
    (\<forall>i<length items. item_at s i = StateNotStarted \<longleftrightarrow> ad_next (kn_admission s) \<le> i) \<and>
    (ko_state (finish_outcome (kn_outcome s)) = AggregateSuccess \<longleftrightarrow> (\<forall>i<length items. item_at s i = StateCompleted)) \<and>
    (kn_ctx_done s \<or> (\<exists>i<length items. item_at s i \<in> {StateFailed, StateCanceled}) \<or>
       ko_state (finish_outcome (kn_outcome s)) = AggregateSuccess)"
proof -
  let ?is = "ko_items (kn_outcome s)"
  note D = kernel_invD [OF kernel_reachable_inv [OF assms(1)]]
  have ok: "item_at s i \<in> {StateNotStarted, StateCompleted, StateFailed, StateCanceled}"
    "item_at s i = StateNotStarted \<longleftrightarrow> ad_next (kn_admission s) \<le> i" if "i < length items" for i
    using D(7) [OF that] assms(2) unfolding item_ok_def by blast+
  have "state_count StateQueued ?is = 0" "state_count StateRunning ?is = 0" "state_count StateSkipped ?is = 0"
    using ok(1) D(4) by (force intro!: state_count_zero)+
  with state_count_total [of ?is] D(4)
  have total: "state_count StateNotStarted ?is + state_count StateCompleted ?is + state_count StateFailed ?is
    + state_count StateCanceled ?is = int (length items)" by simp
  have succ: "ko_state (finish_outcome (kn_outcome s)) = AggregateSuccess \<longleftrightarrow> (\<forall>i<length items. item_at s i = StateCompleted)"
    using state_count_full [of StateCompleted ?is] D(4,5) by (simp add: finish_outcome_counts all_set_conv_all_nth)
  have "item_at s i = StateCompleted" if "\<not> kn_ctx_done s" "\<not> (\<exists>i<length items. item_at s i \<in> {StateFailed, StateCanceled})"
    "i < length items" for i
  proof -
    have "WorkerDone \<in> set (kn_workers s)" using assms(2) D(2) by (cases "kn_workers s") auto
    with D(8,9) that have "ad_next (kn_admission s) = length items" by blast
    with ok [OF that(3)] that show ?thesis by auto
  qed
  with succ have "kn_ctx_done s \<or> (\<exists>i<length items. item_at s i \<in> {StateFailed, StateCanceled}) \<or>
       ko_state (finish_outcome (kn_outcome s)) = AggregateSuccess" by blast
  with total ok(2) succ show ?thesis by (simp add: finish_outcome_counts)
qed

lemma kernel_final_outcome_witness:
  "ko_state (finish_outcome (kn_outcome (sample_kernel WorkerDone))) = AggregateSuccess"
  using kernel_final_outcome [OF sample_kernel_reachable] by (simp add: sample_kernel_def)

section \<open>Termination\<close>

definition worker_weight :: "worker \<Rightarrow> nat" where
  "worker_weight w = (case w of WorkerIdle \<Rightarrow> 1 | WorkerBusy _ \<Rightarrow> 2 | WorkerDone \<Rightarrow> 0)"

definition kernel_measure :: "nat \<Rightarrow> 'v kernel \<Rightarrow> nat" where
  "kernel_measure n s = 2 * (n - ad_next (kn_admission s)) + (\<Sum>w\<leftarrow>kn_workers s. worker_weight w)
     + (if kn_ctx_done s then 0 else 1)"

lemma sum_list_update_weight:
  "w < length ws \<Longrightarrow> (\<Sum>x\<leftarrow>ws[w := u]. worker_weight x) + worker_weight (ws ! w) = (\<Sum>x\<leftarrow>ws. worker_weight x) + worker_weight u"
  by (induction ws arbitrary: w) (auto split: nat.splits)

lemma kernel_step_decreases:
  "kernel_step items behaviours s t \<Longrightarrow> kernel_measure (length items) t < kernel_measure (length items) s"
proof (erule kernel_stepE, goal_cases)
  case 1
  then show ?case by (simp add: kernel_measure_def)
next
  case (2 w i st)
  with sum_list_update_weight [OF 2(2), of "WorkerBusy i"] show ?case
    by (auto simp: kernel_measure_def admit_def worker_weight_def split: if_splits)
next
  case (3 w st)
  with sum_list_update_weight [OF 3(2), of WorkerDone] show ?case
    by (auto simp: kernel_measure_def admit_def worker_weight_def split: if_splits)
next
  case (4 w i fs ctx_err oc st)
  with sum_list_update_weight [OF 4(2), of WorkerIdle] show ?case
    by (auto simp: kernel_measure_def publish_def worker_weight_def split: if_splits)
qed

text \<open>
  C26. Every run ends: no infinite sequence of steps exists, from any state, and as long as some
  worker has not left, some worker can take a step, whatever the callbacks do.
\<close>

theorem kernel_terminates:
  assumes "behaviours \<noteq> {}"
  shows "wf {(t, s). kernel_step items behaviours s t} \<and>
    (set (kn_workers s) \<subseteq> {WorkerDone} \<or>
     (\<exists>t. kernel_step items behaviours s t \<and> kn_ctx_done t = kn_ctx_done s))"
proof
  have "{(t, s). kernel_step items behaviours s t} \<subseteq> measure (kernel_measure (length items))"
    using kernel_step_decreases by auto
  then show "wf {(t, s). kernel_step items behaviours s t}" by (rule wf_subset [OF wf_measure])
  show "set (kn_workers s) \<subseteq> {WorkerDone} \<or> (\<exists>t. kernel_step items behaviours s t \<and> kn_ctx_done t = kn_ctx_done s)"
  proof (cases "set (kn_workers s) \<subseteq> {WorkerDone}")
    case False
    then obtain v where "v \<in> set (kn_workers s)" "v \<noteq> WorkerDone" by blast
    then obtain w where w: "w < length (kn_workers s)" "kn_workers s ! w \<noteq> WorkerDone"
      by (metis in_set_conv_nth)
    show ?thesis
    proof (cases "kn_workers s ! w")
      case WorkerIdle
      obtain i st where "admit (kn_ctx_done s) (length items) (kn_admission s) = (i, st)" by fastforce
      with kernel_step.take_item [OF w(1) WorkerIdle] kernel_step.leave_pool [OF w(1) WorkerIdle]
      show ?thesis by (cases i) fastforce+
    next
      case (WorkerBusy i)
      obtain fs where fs: "fs \<in> behaviours" using assms by blast
      obtain oc st where p: "publish (kn_outcome s) i (execute_item (\<lambda>_. None) i (items ! i) fs) (kn_admission s) = (oc, st)"
        by fastforce
      from kernel_step.publish_item [OF w(1) WorkerBusy fs _ p] show ?thesis by fastforce
    qed (use w in simp)
  qed simp
qed

lemma kernel_terminates_witness:
  "wf {(t, s). kernel_step [Some (7::int)] {[\<lambda>v. Returns v]} s t}"
  using kernel_terminates [of "{[\<lambda>v. Returns v]}" "[Some (7::int)]"] by simp

end
