(* ===== verification/Db_Time.thy ===== *)
theory Db_Time
  imports Go_Strings
begin

text \<open>
  Instants in the database (\<^verbatim>\<open>formatTime\<close> in \<^verbatim>\<open>internal/database/repository_helpers.go\<close>): the
  text of \<^verbatim>\<open>time.RFC3339Nano\<close> in UTC, which SQL compares byte by byte. Date and time of day have
  a fixed width and, for the years 0 to 9999, sort like the number of seconds, so that part is kept
  as the number; the fraction is kept as text, because \<^verbatim>\<open>RFC3339Nano\<close> drops its trailing zeros
  and the order of these texts is not the order of the fractions.
\<close>

section \<open>Formatting\<close>

text \<open>An instant is a number of nanoseconds since 1970; the zero \<^verbatim>\<open>time.Time\<close> is the year 1.\<close>

definition zero_instant :: int where "zero_instant = - 62135596800 * 1000000000"

record stamp =
  st_second :: int
  st_fraction :: string

definition nine_digits :: "nat \<Rightarrow> string" where
  "nine_digits n = (let d = digits_of n in replicate (9 - length d) (CHR ''0'') @ d)"

definition drop_trailing_zeros :: "string \<Rightarrow> string" where
  "drop_trailing_zeros s = rev (dropWhile (\<lambda>c. c = CHR ''0'') (rev s))"

definition fraction_text :: "nat \<Rightarrow> string" where
  "fraction_text ns = (if ns = 0 then ''Z'' else ''.'' @ drop_trailing_zeros (nine_digits ns) @ ''Z'')"

definition format_time :: "int \<Rightarrow> stamp" where
  "format_time t = \<lparr>st_second = t div 1000000000, st_fraction = fraction_text (nat (t mod 1000000000))\<rparr>"

section \<open>The order of the texts\<close>

fun text_less :: "string \<Rightarrow> string \<Rightarrow> bool" where
  "text_less _ [] = False"
| "text_less [] (_ # _) = True"
| "text_less (a # as) (b # bs) \<longleftrightarrow> byte a < byte b \<or> byte a = byte b \<and> text_less as bs"

definition stamp_less :: "stamp \<Rightarrow> stamp \<Rightarrow> bool" where
  "stamp_less a b \<longleftrightarrow> st_second a < st_second b \<or> st_second a = st_second b \<and> text_less (st_fraction a) (st_fraction b)"

lemma byte_inj: "byte a = byte b \<longleftrightarrow> a = b"
  by (simp add: byte_def)

lemma text_less_irrefl [simp]: "\<not> text_less a a"
  by (induction a) simp_all

lemma text_less_trans: "text_less a b \<Longrightarrow> text_less b c \<Longrightarrow> text_less a c"
proof (induction a b arbitrary: c rule: text_less.induct)
  case (3 a as b bs)
  then show ?case by (cases c) auto
next
  case (2 b bs)
  then show ?case by (cases c) auto
qed simp

lemma text_less_total: "a \<noteq> b \<Longrightarrow> text_less a b \<or> text_less b a"
proof (induction a b rule: text_less.induct)
  case (1 a)
  then show ?case by (cases a) auto
next
  case (3 a as b bs)
  then show ?case by (auto simp: byte_inj)
qed simp

lemma stamp_less_irrefl [simp]: "\<not> stamp_less a a"
  by (simp add: stamp_less_def)

lemma stamp_less_trans: "stamp_less a b \<Longrightarrow> stamp_less b c \<Longrightarrow> stamp_less a c"
  by (auto simp: stamp_less_def intro: text_less_trans)

lemma stamp_less_total: "a \<noteq> b \<Longrightarrow> stamp_less a b \<or> stamp_less b a"
proof -
  assume "a \<noteq> b"
  then have "st_second a \<noteq> st_second b \<or> st_fraction a \<noteq> st_fraction b" by (cases a; cases b) auto
  then show ?thesis using text_less_total by (auto simp: stamp_less_def)
qed

lemma stamp_less_asym: "stamp_less a b \<Longrightarrow> \<not> stamp_less b a"
  using stamp_less_trans stamp_less_irrefl by blast

text \<open>The stored order agrees with time as soon as the instants are in different seconds.\<close>

lemma stamp_less_second: "t div 1000000000 < u div 1000000000 \<Longrightarrow> stamp_less (format_time t) (format_time u)"
  by (simp add: stamp_less_def format_time_def)

lemma stamp_less_far:
  assumes "t + 1000000000 \<le> u"
  shows "stamp_less (format_time t) (format_time u)"
proof -
  have "(t + 1 * 1000000000) div 1000000000 \<le> u div 1000000000"
    using assms by (intro zdiv_mono1) simp_all
  then show ?thesis by (intro stamp_less_second) (simp add: div_add1_eq)
qed

lemma stamp_less_near:
  assumes "stamp_less (format_time t) (format_time u)"
  shows "t < u + 1000000000"
  using assms stamp_less_asym [OF assms] stamp_less_far [of u t] by (cases "u + 1000000000 \<le> t") auto

text \<open>An instant half a second later than a full second is stored as a smaller text.\<close>

lemma stamp_order_reversed: "stamp_less (format_time 500000000) (format_time 0)"
  by (simp add: stamp_less_def format_time_def fraction_text_def nine_digits_def drop_trailing_zeros_def byte_def)

end
