(* ===== verification/Completion_Store.thy ===== *)
theory Completion_Store
  imports Db_Time
begin

text \<open>
  Completion deliveries (\<^verbatim>\<open>internal/database/completion_repository.go\<close>): the projection of terminal
  task events to their owner session, under row and byte quotas, and the consumption of a prefix
  of the pending deliveries. The redactor, the JSON encoder and decoder of envelopes, the child
  table of workflows and the appending of the session entry are parameters.
\<close>

section \<open>Task states\<close>

datatype task_state = TaskQueued | TaskRunning | TaskCanceling | TaskSucceeded | TaskFailed
  | TaskCanceled | TaskInterrupted

definition is_terminal_task_state :: "task_state \<Rightarrow> bool" where
  "is_terminal_task_state st \<longleftrightarrow> st = TaskSucceeded \<or> st = TaskFailed \<or> st = TaskCanceled \<or> st = TaskInterrupted"

definition task_kind_agent :: string where "task_kind_agent = ''agent''"
definition task_kind_workflow :: string where "task_kind_workflow = ''workflow''"

section \<open>Records\<close>

definition completion_mapping_v1 :: string where "completion_mapping_v1 = ''completion/v1''"
definition completion_schema :: string where "completion_schema = ''completion_delivery/v1''"
definition completion_drain_default :: nat where "completion_drain_default = 16"
definition completion_string_limit :: nat where "completion_string_limit = 8 * 1024"
definition completion_envelope_limit :: nat where "completion_envelope_limit = 64 * 1024"
definition completion_session_rows :: int where "completion_session_rows = 1024"
definition completion_session_bytes :: int where "completion_session_bytes = 8 * 1048576"
definition completion_global_rows :: int where "completion_global_rows = 16384"
definition completion_global_bytes :: int where "completion_global_bytes = 128 * 1048576"

datatype delivery_state = DeliveryPending | DeliveryConsumed

record completion_delivery =
  cd_id :: string
  cd_event_id :: string
  cd_task_id :: string
  cd_mapping_version :: string
  cd_owner :: string
  cd_sequence :: int
  cd_source_kind :: string
  cd_terminal_state :: task_state
  cd_outcome_ref :: string
  cd_envelope :: string
  cd_state :: delivery_state
  cd_created :: stamp
  cd_consumed :: "stamp option"

record completion_text =
  cx_text :: string
  cx_truncated :: bool
  cx_original_bytes :: int

record completion_error =
  cx_code :: string
  cx_message :: string
  cx_err_truncated :: bool
  cx_err_original_bytes :: int

record completion_record =
  cr_summary :: "completion_text option"
  cr_error :: "completion_error option"
  cr_delivery_id :: string
  cr_source_kind :: string
  cr_source_id :: string
  cr_terminal_state :: task_state
  cr_outcome_ref :: string

record completion_source =
  cs_event_id :: string
  cs_task_id :: string
  cs_event_kind :: string
  cs_task_kind :: string
  cs_owner :: string
  cs_state :: task_state
  cs_result :: string
  cs_error_code :: string
  cs_error_message :: string
  cs_created :: stamp

record completion_tables =
  cp_deliveries :: "completion_delivery list"
  cp_next :: "string \<Rightarrow> int option"
  cp_diagnostics :: "string \<Rightarrow> string \<Rightarrow> int"

datatype completion_failure = CompletionEncode | CompletionInsert | CompletionDrainSize | CompletionOwnerOrState
  | CompletionUnstablePrefix | CompletionAlreadyConsumed | CompletionEnvelopeCorrupt | CompletionEnvelopeLimit
  | CompletionAppend | CompletionConsumeRace

section \<open>Text\<close>

definition utf8_replacement :: string where "utf8_replacement = encode_rune rune_error"

function to_valid_utf8 :: "bool \<Rightarrow> string \<Rightarrow> string" where
  "to_valid_utf8 prev_invalid s =
     (if s = [] then []
      else if decode_rune s = (rune_error, 1)
      then (if prev_invalid then [] else utf8_replacement) @ to_valid_utf8 True (drop 1 s)
      else take (snd (decode_rune s)) s @ to_valid_utf8 False (drop (snd (decode_rune s)) s))"
  by pat_completeness auto

termination
proof (relation "measure (length \<circ> snd)", simp, simp)
  fix b :: bool and s :: string
  assume "s \<noteq> []"
  then show "((False, drop (snd (decode_rune s)) s), (b, s)) \<in> measure (length \<circ> snd)"
    using decode_rune_width(1) [of s] by simp
qed

declare to_valid_utf8.simps [simp del]

text \<open>\<open>safeCompletionText\<close>: the text is valid after the first step, so its last check never fails.\<close>

definition safe_completion_text :: "string \<Rightarrow> string" where
  "safe_completion_text v =
     string_of_runes (map (\<lambda>r. if r = 10 \<or> r = 9 \<or> 32 \<le> r then r else rune_error) (go_runes (to_valid_utf8 False v)))"

fun rune_boundary :: "string \<Rightarrow> nat \<Rightarrow> nat" where
  "rune_boundary s 0 = 0"
| "rune_boundary s (Suc n) = (if rune_start (byte (s ! Suc n)) then Suc n else rune_boundary s n)"

definition delivery_text :: "(string \<Rightarrow> string option) \<Rightarrow> completion_source \<Rightarrow> completion_text option" where
  "delivery_text redact src =
     (case redact (if cs_state src \<noteq> TaskSucceeded then cs_error_message src else cs_result src) of
        None \<Rightarrow> None
      | Some redacted \<Rightarrow>
          let safe = safe_completion_text redacted; original = length safe in
          if original > completion_string_limit
          then Some \<lparr>cx_text = take (rune_boundary safe completion_string_limit) safe, cx_truncated = True,
            cx_original_bytes = int original\<rparr>
          else Some \<lparr>cx_text = safe, cx_truncated = False, cx_original_bytes = int original\<rparr>)"

section \<open>Projection\<close>

definition completion_event_state :: "string \<Rightarrow> string \<Rightarrow> task_state option" where
  "completion_event_state task_kind event_kind =
     (let key = task_kind @ ''/'' @ event_kind in
      if key = task_kind_agent @ ''/task_succeeded'' \<or> key = task_kind_workflow @ ''/workflow_succeeded'' then Some TaskSucceeded
      else if key = task_kind_agent @ ''/task_failed'' \<or> key = task_kind_workflow @ ''/workflow_failed'' then Some TaskFailed
      else if key = task_kind_agent @ ''/task_canceled'' \<or> key = task_kind_workflow @ ''/workflow_canceled'' then Some TaskCanceled
      else if key = task_kind_agent @ ''/task_interrupted'' \<or> key = task_kind_workflow @ ''/workflow_interrupted'' then Some TaskInterrupted
      else None)"

definition completion_source_kind :: "string \<Rightarrow> string" where
  "completion_source_kind kind = (if kind = task_kind_agent then ''agent_task'' else ''workflow'')"

definition completion_eligible :: "(string \<Rightarrow> bool) \<Rightarrow> completion_tables \<Rightarrow> completion_source \<Rightarrow> bool" where
  "completion_eligible is_child cp src =
     (case completion_event_state (cs_task_kind src) (cs_event_kind src) of
        None \<Rightarrow> False
      | Some mapped \<Rightarrow>
          if mapped \<noteq> cs_state src then False
          else if cs_task_kind src = task_kind_agent \<and> is_child (cs_task_id src) then False
          else filter (\<lambda>d. cd_owner d = cs_owner src \<and> cd_event_id d = cs_event_id src) (cp_deliveries cp) = [])"

definition set_completion_outcome ::
  "completion_record \<Rightarrow> completion_source \<Rightarrow> completion_text option \<Rightarrow> completion_record" where
  "set_completion_outcome rec src body =
     (if cs_state src = TaskSucceeded
      then (case body of Some b \<Rightarrow> if cx_text b \<noteq> [] then rec\<lparr>cr_summary := body\<rparr> else rec | None \<Rightarrow> rec)
      else if cs_error_code src = [] \<and> (case body of None \<Rightarrow> True | Some b \<Rightarrow> cx_text b = []) then rec
      else rec\<lparr>cr_error := Some (case body of
          None \<Rightarrow> \<lparr>cx_code = cs_error_code src, cx_message = [], cx_err_truncated = False, cx_err_original_bytes = 0\<rparr>
        | Some b \<Rightarrow> \<lparr>cx_code = cs_error_code src, cx_message = cx_text b, cx_err_truncated = cx_truncated b,
            cx_err_original_bytes = cx_original_bytes b\<rparr>)\<rparr>)"

definition completion_envelope ::
  "(string \<Rightarrow> string option) \<Rightarrow> (completion_record list \<Rightarrow> string option) \<Rightarrow> string \<Rightarrow> completion_source \<Rightarrow>
   completion_failure + (completion_record \<times> string)" where
  "completion_envelope redact encode delivery_id src =
     (let rec = set_completion_outcome
            \<lparr>cr_summary = None, cr_error = None, cr_delivery_id = delivery_id,
             cr_source_kind = completion_source_kind (cs_task_kind src), cr_source_id = cs_task_id src,
             cr_terminal_state = cs_state src, cr_outcome_ref = ''task/'' @ cs_task_id src\<rparr>
            src (delivery_text redact src) in
      case encode [rec] of
        None \<Rightarrow> Inl CompletionEncode
      | Some envelope \<Rightarrow>
          if length envelope \<le> completion_envelope_limit then Inr (rec, envelope)
          else let bare = rec\<lparr>cr_summary := None, cr_error := None\<rparr> in
            (case encode [bare] of None \<Rightarrow> Inl CompletionEncode | Some envelope \<Rightarrow> Inr (bare, envelope)))"

definition pending_of :: "completion_tables \<Rightarrow> string \<Rightarrow> completion_delivery list" where
  "pending_of cp owner = filter (\<lambda>d. cd_owner d = owner \<and> cd_state d = DeliveryPending) (cp_deliveries cp)"

definition pending_all :: "completion_tables \<Rightarrow> completion_delivery list" where
  "pending_all cp = filter (\<lambda>d. cd_state d = DeliveryPending) (cp_deliveries cp)"

definition envelope_bytes :: "completion_delivery list \<Rightarrow> int" where
  "envelope_bytes ds = (\<Sum>d\<leftarrow>ds. int (length (cd_envelope d)))"

definition completion_within_quota :: "completion_tables \<Rightarrow> string \<Rightarrow> int \<Rightarrow> bool" where
  "completion_within_quota cp owner candidate_bytes \<longleftrightarrow>
     int (length (pending_of cp owner)) + 1 \<le> completion_session_rows \<and>
     int (length (pending_all cp)) + 1 \<le> completion_global_rows \<and>
     envelope_bytes (pending_of cp owner) + candidate_bytes \<le> completion_session_bytes \<and>
     envelope_bytes (pending_all cp) + candidate_bytes \<le> completion_global_bytes"

definition completion_diagnostic :: "completion_tables \<Rightarrow> string \<Rightarrow> string \<Rightarrow> completion_tables" where
  "completion_diagnostic cp owner code =
     cp\<lparr>cp_diagnostics := (cp_diagnostics cp)(owner := (cp_diagnostics cp owner)(code := cp_diagnostics cp owner code + 1))\<rparr>"

definition insert_completion ::
  "completion_tables \<Rightarrow> completion_source \<Rightarrow> completion_record \<Rightarrow> string \<Rightarrow> completion_failure + completion_tables" where
  "insert_completion cp src rec envelope =
     (let next = (case cp_next cp (cs_owner src) of None \<Rightarrow> 2 | Some n \<Rightarrow> n + 1);
          d = \<lparr>cd_id = cr_delivery_id rec, cd_event_id = cs_event_id src, cd_task_id = cs_task_id src,
               cd_mapping_version = completion_mapping_v1, cd_owner = cs_owner src, cd_sequence = next - 1,
               cd_source_kind = cr_source_kind rec, cd_terminal_state = cs_state src,
               cd_outcome_ref = cr_outcome_ref rec, cd_envelope = envelope, cd_state = DeliveryPending,
               cd_created = cs_created src, cd_consumed = None\<rparr> in
      if (\<exists>e\<in>set (cp_deliveries cp). cd_id e = cd_id d \<or>
            cd_owner e = cd_owner d \<and> (cd_event_id e = cd_event_id d \<or> cd_sequence e = cd_sequence d))
      then Inl CompletionInsert
      else Inr (cp\<lparr>cp_deliveries := cp_deliveries cp @ [d], cp_next := (cp_next cp)(cs_owner src := Some next)\<rparr>))"

definition project_terminal ::
  "(string \<Rightarrow> bool) \<Rightarrow> (string \<Rightarrow> string option) \<Rightarrow> (completion_record list \<Rightarrow> string option) \<Rightarrow> string \<Rightarrow>
   completion_tables \<Rightarrow> completion_source \<Rightarrow> completion_failure + (bool \<times> completion_tables)" where
  "project_terminal is_child redact encode delivery_id cp src =
     (if \<not> completion_eligible is_child cp src then Inr (False, cp)
      else case completion_envelope redact encode delivery_id src of
        Inl e \<Rightarrow> Inl e
      | Inr (rec, envelope) \<Rightarrow>
          if \<not> completion_within_quota cp (cs_owner src) (int (length envelope))
          then Inr (False, completion_diagnostic cp (cs_owner src) ''completion_projection_quota'')
          else (case insert_completion cp src rec envelope of
              Inl e \<Rightarrow> Inl e
            | Inr cp' \<Rightarrow> Inr (True, cp')))"

section \<open>Reading an envelope back\<close>

definition validate_completion_text :: "completion_text option \<Rightarrow> bool" where
  "validate_completion_text t = (case t of None \<Rightarrow> True
     | Some x \<Rightarrow> valid_utf8 (cx_text x) \<and> length (cx_text x) \<le> completion_string_limit \<and>
         cx_original_bytes x \<ge> int (length (cx_text x)) \<and>
         cx_truncated x = (cx_original_bytes x > int (length (cx_text x))) \<and>
         list_all (\<lambda>r. r = 10 \<or> r = 9 \<or> 32 \<le> r) (go_runes (cx_text x)))"

definition validate_completion_outcome :: "completion_record \<Rightarrow> bool" where
  "validate_completion_outcome r \<longleftrightarrow>
     is_terminal_task_state (cr_terminal_state r) \<and> \<not> (cr_summary r \<noteq> None \<and> cr_error r \<noteq> None) \<and>
     \<not> (cr_terminal_state r = TaskSucceeded \<and> cr_error r \<noteq> None) \<and>
     \<not> (cr_terminal_state r \<noteq> TaskSucceeded \<and> cr_summary r \<noteq> None)"

definition completion_record_matches_row :: "completion_record \<Rightarrow> completion_delivery \<Rightarrow> bool" where
  "completion_record_matches_row r row \<longleftrightarrow>
     cr_delivery_id r = cd_id row \<and> cr_source_id r = cd_task_id row \<and> cr_source_kind r = cd_source_kind row \<and>
     cr_terminal_state r = cd_terminal_state row \<and> cr_outcome_ref r = cd_outcome_ref row \<and>
     cd_mapping_version row = completion_mapping_v1 \<and> cd_owner row \<noteq> [] \<and> cd_event_id row \<noteq> [] \<and>
     cd_sequence row > 0 \<and> cr_outcome_ref r = ''task/'' @ cr_source_id r"

definition validate_completion_record :: "completion_record \<Rightarrow> completion_delivery \<Rightarrow> bool" where
  "validate_completion_record r row \<longleftrightarrow>
     completion_record_matches_row r row \<and> (cr_source_kind r = ''agent_task'' \<or> cr_source_kind r = ''workflow'') \<and>
     validate_completion_outcome r \<and> validate_completion_text (cr_summary r) \<and>
     (case cr_error r of None \<Rightarrow> True
      | Some e \<Rightarrow> validate_completion_text (Some \<lparr>cx_text = cx_message e, cx_truncated = cx_err_truncated e,
          cx_original_bytes = cx_err_original_bytes e\<rparr>))"

text \<open>\<open>decode\<close> is the strict decoder: \<open>None\<close> for unknown fields, malformed or trailing data.\<close>

definition completion_record_from_row ::
  "(string \<Rightarrow> (string \<times> completion_record list) option) \<Rightarrow> completion_delivery \<Rightarrow> completion_record option" where
  "completion_record_from_row decode row =
     (if length (cd_envelope row) > completion_envelope_limit \<or> \<not> valid_utf8 (cd_envelope row) then None
      else case decode (cd_envelope row) of
        Some (schema, [r]) \<Rightarrow> if schema = completion_schema \<and> validate_completion_record r row then Some r else None
      | _ \<Rightarrow> None)"

section \<open>Consuming a prefix\<close>

definition completion_pending :: "completion_tables \<Rightarrow> string \<Rightarrow> int \<Rightarrow> completion_delivery list" where
  "completion_pending cp owner limit =
     take (if limit \<le> 0 \<or> limit > int completion_drain_default then completion_drain_default else nat limit)
       (sort_key cd_sequence (pending_of cp owner))"

fun completion_drain_records ::
  "(string \<Rightarrow> (string \<times> completion_record list) option) \<Rightarrow> completion_delivery list \<Rightarrow>
   completion_failure + completion_record list" where
  "completion_drain_records decode [] = Inr []"
| "completion_drain_records decode (row # rows) =
     (if cd_state row \<noteq> DeliveryPending then Inl CompletionAlreadyConsumed
      else case completion_record_from_row decode row of
        None \<Rightarrow> Inl CompletionEnvelopeCorrupt
      | Some r \<Rightarrow> (case completion_drain_records decode rows of Inl e \<Rightarrow> Inl e | Inr rs \<Rightarrow> Inr (r # rs)))"

definition completion_drain_envelope ::
  "(string \<Rightarrow> (string \<times> completion_record list) option) \<Rightarrow> (completion_record list \<Rightarrow> string option) \<Rightarrow>
   completion_delivery list \<Rightarrow> completion_failure + string" where
  "completion_drain_envelope decode encode rows =
     (case completion_drain_records decode rows of
        Inl e \<Rightarrow> Inl e
      | Inr rs \<Rightarrow> (case encode rs of
          None \<Rightarrow> Inl CompletionEncode
        | Some envelope \<Rightarrow> if length envelope > completion_envelope_limit then Inl CompletionEnvelopeLimit else Inr envelope))"

definition settle_completion_rows ::
  "completion_tables \<Rightarrow> string \<Rightarrow> completion_delivery list \<Rightarrow> stamp \<Rightarrow> completion_failure + completion_tables" where
  "settle_completion_rows cp owner rows consumed_at =
     (let hit = (\<lambda>d. cd_owner d = owner \<and> cd_state d = DeliveryPending \<and> cd_id d \<in> cd_id ` set rows) in
      if length (filter hit (cp_deliveries cp)) \<noteq> length rows then Inl CompletionConsumeRace
      else Inr (cp\<lparr>cp_deliveries := map (\<lambda>d. if hit d then d\<lparr>cd_state := DeliveryConsumed, cd_consumed := Some consumed_at\<rparr>
                                              else d) (cp_deliveries cp)\<rparr>))"

text \<open>
  \<open>append_entry\<close> appends the session message with the combined envelope inside the transaction and
  gives the entry's id; the result pairs it with the new tables.
\<close>

definition consume_completions ::
  "(string \<Rightarrow> (string \<times> completion_record list) option) \<Rightarrow> (completion_record list \<Rightarrow> string option) \<Rightarrow>
   (string \<Rightarrow> string option) \<Rightarrow> completion_tables \<Rightarrow> string \<Rightarrow> string list \<Rightarrow> stamp \<Rightarrow>
   completion_failure + (string \<times> completion_tables)" where
  "consume_completions decode encode append_entry cp owner ids consumed_at =
     (if length ids = 0 \<or> length ids > completion_drain_default then Inl CompletionDrainSize
      else let rows = take (length ids) (sort_key cd_sequence (pending_of cp owner)) in
        if length rows \<noteq> length ids then Inl CompletionOwnerOrState
        else if map cd_id rows \<noteq> ids then Inl CompletionUnstablePrefix
        else (case completion_drain_envelope decode encode rows of
            Inl e \<Rightarrow> Inl e
          | Inr envelope \<Rightarrow> (case append_entry envelope of
              None \<Rightarrow> Inl CompletionAppend
            | Some entry_id \<Rightarrow> (case settle_completion_rows cp owner rows consumed_at of
                Inl e \<Rightarrow> Inl e
              | Inr cp' \<Rightarrow> Inr (entry_id, cp')))))"

section \<open>The invariant of the tables\<close>

definition within_quotas :: "completion_tables \<Rightarrow> string \<Rightarrow> bool" where
  "within_quotas cp owner \<longleftrightarrow>
     int (length (pending_of cp owner)) \<le> completion_session_rows \<and>
     envelope_bytes (pending_of cp owner) \<le> completion_session_bytes"

definition completion_inv :: "completion_tables \<Rightarrow> bool" where
  "completion_inv cp \<longleftrightarrow>
     distinct (map cd_id (cp_deliveries cp)) \<and>
     distinct (map (\<lambda>d. (cd_owner d, cd_event_id d)) (cp_deliveries cp)) \<and>
     distinct (map (\<lambda>d. (cd_owner d, cd_sequence d)) (cp_deliveries cp)) \<and>
     (\<forall>d\<in>set (cp_deliveries cp). 0 < cd_sequence d \<and> (\<exists>n. cp_next cp (cd_owner d) = Some n \<and> cd_sequence d < n)) \<and>
     (\<forall>owner n. cp_next cp owner = Some n \<longrightarrow> 1 < n) \<and>
     (\<forall>owner. within_quotas cp owner) \<and>
     int (length (pending_all cp)) \<le> completion_global_rows \<and>
     envelope_bytes (pending_all cp) \<le> completion_global_bytes"

definition completion_init :: "completion_tables \<Rightarrow> bool" where
  "completion_init cp \<longleftrightarrow> cp = \<lparr>cp_deliveries = [], cp_next = (\<lambda>_. None), cp_diagnostics = (\<lambda>_ _. 0)\<rparr>"

inductive completion_step :: "completion_tables \<Rightarrow> completion_tables \<Rightarrow> bool" where
  project: "project_terminal is_child redact encode delivery_id cp src = Inr (b, cp') \<Longrightarrow> completion_step cp cp'"
| consume: "consume_completions decode encode append_entry cp owner ids consumed_at = Inr (entry_id, cp') \<Longrightarrow>
    completion_step cp cp'"

inductive_cases completion_stepE: "completion_step cp cp'"

lemma envelope_bytes_append [simp]: "envelope_bytes (xs @ ys) = envelope_bytes xs + envelope_bytes ys"
  by (simp add: envelope_bytes_def)

lemma envelope_bytes_filter_le: "envelope_bytes (filter P xs) \<le> envelope_bytes xs"
  by (induction xs) (auto simp: envelope_bytes_def)

lemma insert_completion_InrD:
  assumes "insert_completion cp src rec envelope = Inr cp'"
  obtains nx d where "nx = (case cp_next cp (cs_owner src) of None \<Rightarrow> 2 | Some n \<Rightarrow> n + 1)"
    "cp' = cp\<lparr>cp_deliveries := cp_deliveries cp @ [d], cp_next := (cp_next cp)(cs_owner src := Some nx)\<rparr>"
    "cd_owner d = cs_owner src" "cd_sequence d = nx - 1" "cd_state d = DeliveryPending" "cd_envelope d = envelope"
    "cd_event_id d = cs_event_id src"
    "\<forall>e\<in>set (cp_deliveries cp). cd_id e \<noteq> cd_id d \<and>
       (cd_owner e = cd_owner d \<longrightarrow> cd_event_id e \<noteq> cd_event_id d \<and> cd_sequence e \<noteq> cd_sequence d)"
  using assms unfolding insert_completion_def Let_def by (fastforce split: if_splits)

lemma completion_inv_insert:
  assumes inv: "completion_inv cp" and q: "completion_within_quota cp (cs_owner src) (int (length envelope))"
    and ins: "insert_completion cp src rec envelope = Inr cp'"
  shows "completion_inv cp'"
proof -
  obtain nx d where n: "nx = (case cp_next cp (cs_owner src) of None \<Rightarrow> 2 | Some n \<Rightarrow> n + 1)"
    and cp': "cp' = cp\<lparr>cp_deliveries := cp_deliveries cp @ [d], cp_next := (cp_next cp)(cs_owner src := Some nx)\<rparr>"
    and d: "cd_owner d = cs_owner src" "cd_sequence d = nx - 1" "cd_state d = DeliveryPending" "cd_envelope d = envelope"
      "cd_event_id d = cs_event_id src"
    and fresh: "\<forall>e\<in>set (cp_deliveries cp). cd_id e \<noteq> cd_id d \<and>
       (cd_owner e = cd_owner d \<longrightarrow> cd_event_id e \<noteq> cd_event_id d \<and> cd_sequence e \<noteq> cd_sequence d)"
    using insert_completion_InrD [OF ins] by metis
  have n1: "1 < nx"
  proof (cases "cp_next cp (cs_owner src)")
    case (Some m)
    with inv have "1 < m" unfolding completion_inv_def by blast
    with n Some show ?thesis by simp
  qed (use n in simp)
  have seq: "0 < cd_sequence e \<and> (\<exists>m. ((cp_next cp)(cs_owner src \<mapsto> nx)) (cd_owner e) = Some m \<and> cd_sequence e < m)"
    if e: "e \<in> set (cp_deliveries cp)" for e
  proof -
    obtain m where "0 < cd_sequence e" "cp_next cp (cd_owner e) = Some m" "cd_sequence e < m"
      using inv e unfolding completion_inv_def by blast
    then show ?thesis using n by auto
  qed
  have dis: "distinct (map cd_id (cp_deliveries cp @ [d]))"
    "distinct (map (\<lambda>d. (cd_owner d, cd_event_id d)) (cp_deliveries cp @ [d]))"
    "distinct (map (\<lambda>d. (cd_owner d, cd_sequence d)) (cp_deliveries cp @ [d]))"
    using inv fresh by (auto simp: completion_inv_def)
  have quota: "within_quotas cp' owner" for owner
    using inv q d by (auto simp: completion_inv_def within_quotas_def completion_within_quota_def cp' pending_of_def
        envelope_bytes_def)
  have all: "int (length (pending_all cp')) \<le> completion_global_rows" "envelope_bytes (pending_all cp') \<le> completion_global_bytes"
    using q d by (simp_all add: completion_within_quota_def cp' pending_all_def envelope_bytes_def)
  show ?thesis
    unfolding completion_inv_def using dis seq n1 d(1,2) quota all inv
    by (auto simp: cp' completion_inv_def)
qed

lemma project_terminal_cases:
  assumes "project_terminal is_child redact encode delivery_id cp src = Inr (b, cp')"
  obtains (skipped) "\<not> b" "cp' = cp"
    | (over_quota) "\<not> b" "cp' = completion_diagnostic cp (cs_owner src) ''completion_projection_quota''"
    | (inserted) rec envelope where "b" "completion_eligible is_child cp src"
        "completion_within_quota cp (cs_owner src) (int (length envelope))" "insert_completion cp src rec envelope = Inr cp'"
  using assms by (auto simp: project_terminal_def split: if_splits sum.splits prod.splits)

lemma completion_inv_diagnostic: "completion_inv cp \<Longrightarrow> completion_inv (completion_diagnostic cp owner code)"
  by (simp add: completion_diagnostic_def completion_inv_def within_quotas_def pending_of_def pending_all_def)

abbreviation mark_consumed :: "stamp \<Rightarrow> completion_delivery \<Rightarrow> completion_delivery" where
  "mark_consumed now d \<equiv> d\<lparr>cd_state := DeliveryConsumed, cd_consumed := Some now\<rparr>"

lemma consume_InrD:
  assumes "consume_completions decode encode append_entry cp owner ids now = Inr (entry_id, cp')"
  shows "ids = map cd_id (take (length ids) (sort_key cd_sequence (pending_of cp owner)))"
    and "ids \<noteq> []"
    and "cp' = cp\<lparr>cp_deliveries := map (\<lambda>d. if cd_owner d = owner \<and> cd_state d = DeliveryPending \<and> cd_id d \<in> set ids
           then mark_consumed now d else d) (cp_deliveries cp)\<rparr>"
proof -
  let ?rows = "take (length ids) (sort_key cd_sequence (pending_of cp owner))"
  from assms obtain e where 1: "map cd_id ?rows = ids" "ids \<noteq> []"
    and s: "settle_completion_rows cp owner ?rows now = Inr cp'"
    by (auto simp: consume_completions_def Let_def split: if_splits sum.splits option.splits)
  show "ids = map cd_id ?rows" "ids \<noteq> []" using 1 by simp_all
  have "cd_id ` set ?rows = set ids" using arg_cong [OF 1(1), of set] by simp
  then show "cp' = cp\<lparr>cp_deliveries := map (\<lambda>d. if cd_owner d = owner \<and> cd_state d = DeliveryPending \<and> cd_id d \<in> set ids
           then mark_consumed now d else d) (cp_deliveries cp)\<rparr>"
    using s unfolding settle_completion_rows_def Let_def by (auto split: if_splits)
qed

lemma filter_consumed:
  assumes "\<And>d. P d \<Longrightarrow> \<not> Q (mark_consumed now d)"
  shows "filter Q (map (\<lambda>d. if P d then mark_consumed now d else d) ds) = filter (\<lambda>d. \<not> P d) (filter Q ds)"
proof (induction ds)
  case (Cons d ds)
  then show ?case using assms [of d] by (cases "P d") simp_all
qed simp

lemma completion_inv_consume:
  assumes inv: "completion_inv cp"
    and c: "consume_completions decode encode append_entry cp owner ids now = Inr (entry_id, cp')"
  shows "completion_inv cp'"
proof -
  let ?P = "\<lambda>d. cd_owner d = owner \<and> cd_state d = DeliveryPending \<and> cd_id d \<in> set ids"
  have cp': "cp' = cp\<lparr>cp_deliveries := map (\<lambda>d. if ?P d then mark_consumed now d else d) (cp_deliveries cp)\<rparr>"
    by (rule consume_InrD(3) [OF c])
  have dl: "cp_deliveries cp' = map (\<lambda>d. if ?P d then mark_consumed now d else d) (cp_deliveries cp)" by (simp add: cp')
  have po: "pending_of cp' o' = filter (\<lambda>d. \<not> ?P d) (pending_of cp o')" for o'
    unfolding pending_of_def dl by (rule filter_consumed) simp
  have pa: "pending_all cp' = filter (\<lambda>d. \<not> ?P d) (pending_all cp)"
    unfolding pending_all_def dl by (rule filter_consumed) simp
  have len: "int (length (filter P xs)) \<le> b" if "int (length xs) \<le> b" for P and xs :: "completion_delivery list" and b
    using that length_filter_le [of P xs] by linarith
  have bytes: "envelope_bytes (filter P xs) \<le> b" if "envelope_bytes xs \<le> b" for P xs b
    using that envelope_bytes_filter_le [of P xs] by linarith
  have "\<forall>o'. within_quotas cp' o'"
  proof
    fix o'
    have "within_quotas cp o'" using inv by (simp add: completion_inv_def)
    then show "within_quotas cp' o'" unfolding within_quotas_def po by (blast intro: len bytes)
  qed
  moreover have "int (length (pending_all cp')) \<le> completion_global_rows" "envelope_bytes (pending_all cp') \<le> completion_global_bytes"
    using inv unfolding pa completion_inv_def by (blast intro: len bytes)+
  moreover have maps: "map g (cp_deliveries cp') = map g (cp_deliveries cp)"
    if "\<And>d. g (mark_consumed now d) = g d" for g :: "completion_delivery \<Rightarrow> 'x"
    using that by (simp add: cp')
  moreover have "map cd_id (cp_deliveries cp') = map cd_id (cp_deliveries cp)"
    "map (\<lambda>d. (cd_owner d, cd_event_id d)) (cp_deliveries cp') = map (\<lambda>d. (cd_owner d, cd_event_id d)) (cp_deliveries cp)"
    "map (\<lambda>d. (cd_owner d, cd_sequence d)) (cp_deliveries cp') = map (\<lambda>d. (cd_owner d, cd_sequence d)) (cp_deliveries cp)"
    by (simp_all add: maps)
  moreover have "\<forall>d\<in>set (cp_deliveries cp'). 0 < cd_sequence d \<and> (\<exists>n. cp_next cp' (cd_owner d) = Some n \<and> cd_sequence d < n)"
    using inv by (auto simp: cp' completion_inv_def)
  moreover have "cp_next cp' = cp_next cp" by (simp add: cp')
  ultimately show ?thesis using inv unfolding completion_inv_def by simp
qed

lemma completion_inv_step: "completion_inv cp \<Longrightarrow> completion_step cp cp' \<Longrightarrow> completion_inv cp'"
proof (erule completion_stepE, goal_cases)
  case (1 is_child redact encode delivery_id src b)
  from 1(2) show ?case
    by (cases rule: project_terminal_cases) (use 1 in \<open>auto intro: completion_inv_diagnostic completion_inv_insert\<close>)
qed (rule completion_inv_consume)

interpretation completion: invariant_machine completion_init completion_step completion_inv
  by unfold_locales (simp add: completion_init_def completion_inv_def within_quotas_def pending_of_def pending_all_def
    envelope_bytes_def completion_session_rows_def completion_session_bytes_def completion_global_rows_def
    completion_global_bytes_def, rule completion_inv_step)

lemma completion_reachable_inv: "reachable_from completion_init completion_step cp \<Longrightarrow> completion_inv cp"
  by (rule completion.reachable_inv)

section \<open>What the repository promises\<close>

text \<open>A projection on empty tables, with an encoder and a decoder that know one record.\<close>

definition sample_source :: completion_source where
  "sample_source = \<lparr>cs_event_id = ''e'', cs_task_id = ''t'', cs_event_kind = ''task_succeeded'', cs_task_kind = ''agent'',
     cs_owner = ''s'', cs_state = TaskSucceeded, cs_result = [], cs_error_code = [], cs_error_message = [],
     cs_created = format_time 0\<rparr>"

definition sample_record :: completion_record where
  "sample_record = \<lparr>cr_summary = None, cr_error = None, cr_delivery_id = ''d'', cr_source_kind = ''agent_task'',
     cr_source_id = ''t'', cr_terminal_state = TaskSucceeded, cr_outcome_ref = ''task/t''\<rparr>"

definition sample_tables :: completion_tables where
  "sample_tables = \<lparr>cp_deliveries = [\<lparr>cd_id = ''d'', cd_event_id = ''e'', cd_task_id = ''t'',
       cd_mapping_version = completion_mapping_v1, cd_owner = ''s'', cd_sequence = 1, cd_source_kind = ''agent_task'',
       cd_terminal_state = TaskSucceeded, cd_outcome_ref = ''task/t'', cd_envelope = ''{}'', cd_state = DeliveryPending,
       cd_created = format_time 0, cd_consumed = None\<rparr>],
     cp_next = [''s'' \<mapsto> 2], cp_diagnostics = (\<lambda>_ _. 0)\<rparr>"

lemma to_valid_utf8_Nil [simp]: "to_valid_utf8 b [] = []"
  by (subst to_valid_utf8.simps) simp

lemma safe_completion_text_Nil [simp]: "safe_completion_text [] = []"
  by (simp add: safe_completion_text_def string_of_runes_def)

lemma sample_projection:
  "project_terminal (\<lambda>_. False) Some (\<lambda>_. Some ''{}'') ''d''
     \<lparr>cp_deliveries = [], cp_next = (\<lambda>_. None), cp_diagnostics = (\<lambda>_ _. 0)\<rparr> sample_source = Inr (True, sample_tables)"
proof -
  have "delivery_text Some sample_source = Some \<lparr>cx_text = [], cx_truncated = False, cx_original_bytes = 0\<rparr>"
    by (simp add: delivery_text_def sample_source_def completion_string_limit_def Let_def)
  then have "completion_envelope Some (\<lambda>_. Some ''{}'') ''d'' sample_source = Inr (sample_record, ''{}'')"
    by (simp add: completion_envelope_def set_completion_outcome_def sample_source_def sample_record_def
        completion_source_kind_def task_kind_agent_def completion_envelope_limit_def)
  then show ?thesis
    by (simp add: project_terminal_def completion_eligible_def completion_event_state_def sample_source_def task_kind_agent_def
        completion_within_quota_def pending_of_def pending_all_def envelope_bytes_def completion_session_rows_def
        completion_session_bytes_def completion_global_rows_def completion_global_bytes_def insert_completion_def
        sample_record_def sample_tables_def)
qed

lemma sample_tables_reachable: "reachable_from completion_init completion_step sample_tables"
  by (rule reachable_from.step, rule reachable_from.start, simp add: completion_init_def)
    (rule completion_step.project [OF sample_projection])

text \<open>
  In every reachable state of the completion tables: a session has at most 1,024 pending
  deliveries with at most 8 MiB of envelopes and all sessions together at most 16,384 with 128
  MiB; a terminal event is delivered to a session at most once; and the delivery sequences of a
  session are distinct, positive and below the next one to be given.
\<close>

theorem completion_tables_bounded:
  assumes "reachable_from completion_init completion_step cp"
  shows "(\<forall>owner. int (length (pending_of cp owner)) \<le> 1024 \<and> envelope_bytes (pending_of cp owner) \<le> 8388608) \<and>
    int (length (pending_all cp)) \<le> 16384 \<and> envelope_bytes (pending_all cp) \<le> 134217728 \<and>
    distinct (map (\<lambda>d. (cd_owner d, cd_event_id d)) (cp_deliveries cp)) \<and>
    distinct (map (\<lambda>d. (cd_owner d, cd_sequence d)) (cp_deliveries cp)) \<and>
    (\<forall>d\<in>set (cp_deliveries cp). 0 < cd_sequence d \<and> (\<exists>n. cp_next cp (cd_owner d) = Some n \<and> cd_sequence d < n))"
  using completion_reachable_inv [OF assms]
  by (simp add: completion_inv_def within_quotas_def completion_session_rows_def completion_session_bytes_def
      completion_global_rows_def completion_global_bytes_def)

lemma completion_tables_bounded_witness:
  "int (length (pending_all sample_tables)) \<le> 16384 \<and> distinct (map (\<lambda>d. (cd_owner d, cd_event_id d)) (cp_deliveries sample_tables))"
  using completion_tables_bounded [OF sample_tables_reachable] by simp

text \<open>
  C27. A successful consumption takes exactly the oldest pending deliveries of the session, in
  sequence order: the ids asked for are that prefix, exactly these deliveries are marked
  consumed, what stays pending is the rest in the same order, and no later consumption that
  names one of them again can succeed.
\<close>

theorem consume_takes_pending_prefix_once:
  assumes "reachable_from completion_init completion_step cp"
    and "consume_completions decode encode append_entry cp owner ids now = Inr (entry_id, cp')"
  shows "ids = map cd_id (take (length ids) (sort_key cd_sequence (pending_of cp owner))) \<and>
    cp_deliveries cp' = map (\<lambda>d. if cd_id d \<in> set ids then mark_consumed now d else d) (cp_deliveries cp) \<and>
    sort_key cd_sequence (pending_of cp' owner) = drop (length ids) (sort_key cd_sequence (pending_of cp owner)) \<and>
    (\<forall>ids' decode' encode' append' now'. set ids \<inter> set ids' \<noteq> {} \<longrightarrow>
       (\<exists>e. consume_completions decode' encode' append' cp' owner ids' now' = Inl e))"
proof -
  let ?p = "sort_key cd_sequence (pending_of cp owner)" and ?n = "length ids"
  have inv: "completion_inv cp" by (rule completion_reachable_inv [OF assms(1)])
  note C = consume_InrD [OF assms(2)]
  have ids: "set ids = cd_id ` set (take ?n ?p)" using arg_cong [OF C(1), of set] by simp
  have sub: "set ?p \<subseteq> set (cp_deliveries cp)" by (auto simp: pending_of_def)
  have inj: "inj_on cd_id (set (cp_deliveries cp))" using inv by (simp add: completion_inv_def distinct_map)
  have hit: "cd_owner d = owner \<and> cd_state d = DeliveryPending \<and> cd_id d \<in> set ids \<longleftrightarrow> cd_id d \<in> set ids"
    if d: "d \<in> set (cp_deliveries cp)" for d
  proof -
    have "cd_owner d = owner \<and> cd_state d = DeliveryPending" if m: "cd_id d \<in> set ids"
    proof -
      obtain r where r: "r \<in> set (take ?n ?p)" "cd_id d = cd_id r" using m ids by auto
      then have "r \<in> set ?p" by (rule_tac in_set_takeD)
      with r d sub inj have "d = r" by (auto dest: inj_onD)
      with \<open>r \<in> set ?p\<close> show ?thesis by (simp add: pending_of_def)
    qed
    then show ?thesis by blast
  qed
  have dl: "cp_deliveries cp' = map (\<lambda>d. if cd_id d \<in> set ids then mark_consumed now d else d) (cp_deliveries cp)"
    using hit by (simp add: C(3) cong: map_cong)
  have po: "pending_of cp' owner = filter (\<lambda>d. cd_id d \<notin> set ids) (pending_of cp owner)"
    unfolding pending_of_def dl by (rule filter_consumed) simp
  have dp: "distinct (map cd_id ?p)"
  proof -
    have "distinct (map cd_id (pending_of cp owner))"
      using inv by (simp add: completion_inv_def pending_of_def distinct_map_filter)
    then show ?thesis by (simp add: distinct_map)
  qed
  have rest: "sort_key cd_sequence (pending_of cp' owner) = drop ?n ?p"
  proof -
    have "sort_key cd_sequence (pending_of cp' owner) = filter (\<lambda>d. cd_id d \<notin> set ids) (take ?n ?p @ drop ?n ?p)"
      unfolding po by (simp add: filter_sort)
    also have "\<dots> = filter (\<lambda>d. cd_id d \<notin> set ids) (drop ?n ?p)"
      unfolding filter_append by (simp add: ids filter_empty_conv)
    also have "\<dots> = drop ?n ?p"
    proof (rule filter_True)
      have "distinct (map cd_id (take ?n ?p) @ map cd_id (drop ?n ?p))"
        using dp unfolding map_append [symmetric] append_take_drop_id .
      then show "\<forall>d\<in>set (drop ?n ?p). cd_id d \<notin> set ids" unfolding ids by (auto simp: distinct_append)
    qed
    finally show ?thesis .
  qed
  have again: "\<exists>e. consume_completions decode' encode' append' cp' owner ids' now' = Inl e"
    if "set ids \<inter> set ids' \<noteq> {}" for ids' decode' encode' append' now'
  proof (cases "consume_completions decode' encode' append' cp' owner ids' now'")
    case (Inr r)
    then obtain entry2 cp2 where "consume_completions decode' encode' append' cp' owner ids' now' = Inr (entry2, cp2)"
      by (cases r) auto
    then have i': "ids' = map cd_id (take (length ids') (sort_key cd_sequence (pending_of cp' owner)))"
      by (rule consume_InrD(1))
    have "set ids' \<subseteq> cd_id ` set (pending_of cp' owner)"
      by (subst i') (auto dest: in_set_takeD)
    then have "set ids' \<inter> set ids = {}" unfolding po by auto
    with that show ?thesis by auto
  qed blast
  show ?thesis using C(1) dl rest again by blast
qed

lemma sample_consumption:
  "\<exists>cp'. consume_completions (\<lambda>_. Some (completion_schema, [sample_record])) (\<lambda>_. Some ''{}'') (\<lambda>_. Some ''entry'')
     sample_tables ''s'' [''d''] (format_time 1) = Inr (''entry'', cp')"
proof -
  have "valid_utf8 ''{}''" by (simp add: valid_utf8_ascii byte_def)
  then have r: "completion_record_from_row (\<lambda>_. Some (completion_schema, [sample_record])) (hd (cp_deliveries sample_tables)) = Some sample_record"
    by (simp add: completion_record_from_row_def sample_tables_def completion_envelope_limit_def validate_completion_record_def
        completion_record_matches_row_def sample_record_def validate_completion_outcome_def is_terminal_task_state_def
        validate_completion_text_def)
  moreover have s: "take 1 (sort_key cd_sequence (pending_of sample_tables ''s'')) = cp_deliveries sample_tables"
    by (simp add: pending_of_def sample_tables_def)
  ultimately have "completion_drain_envelope (\<lambda>_. Some (completion_schema, [sample_record])) (\<lambda>_. Some ''{}'')
      (cp_deliveries sample_tables) = Inr ''{}''"
    by (simp add: completion_drain_envelope_def sample_tables_def completion_envelope_limit_def)
  moreover have "map cd_id (cp_deliveries sample_tables) = [''d'']" "length (cp_deliveries sample_tables) = 1"
    by (simp_all add: sample_tables_def)
  moreover have "\<exists>cp'. settle_completion_rows sample_tables ''s'' (cp_deliveries sample_tables) (format_time 1) = Inr cp'"
    by (simp add: settle_completion_rows_def sample_tables_def)
  ultimately show ?thesis
    using s unfolding consume_completions_def Let_def by (auto simp: completion_drain_default_def)
qed

lemma consume_takes_pending_prefix_once_witness:
  "\<exists>cp'. sort_key cd_sequence (pending_of cp' ''s'') = drop 1 (sort_key cd_sequence (pending_of sample_tables ''s''))"
proof -
  obtain cp' where "consume_completions (\<lambda>_. Some (completion_schema, [sample_record])) (\<lambda>_. Some ''{}'') (\<lambda>_. Some ''entry'')
     sample_tables ''s'' [''d''] (format_time 1) = Inr (''entry'', cp')" using sample_consumption by blast
  from consume_takes_pending_prefix_once [OF sample_tables_reachable this] show ?thesis by auto
qed

end
