(* ===== verification/Go_Json.thy ===== *)
theory Go_Json
  imports Go_Strings
begin

text \<open>
  \<^verbatim>\<open>json.Valid\<close> of Go's standard library: the byte-driven scanner with its explicit stack of
  open arrays and objects.
\<close>

datatype json_parse = ParseObjectKey | ParseObjectValue | ParseArrayValue

datatype json_state =
    JBeginValueOrEmpty | JBeginValue | JBeginStringOrEmpty | JBeginString | JEndValue | JEndTop
  | JInString | JInStringEsc | JInStringHex nat
  | JNeg | J1 | J0 | JDot | JDot0 | JE | JESign | JE0 | JLiteral string

type_synonym json_scanner = "json_state \<times> json_parse list"

definition max_nesting_depth :: nat where "max_nesting_depth = 10000"

definition json_space :: "char \<Rightarrow> bool" where
  "json_space c \<longleftrightarrow> byte c \<in> {32, 9, 10, 13}"

definition json_digit :: "char \<Rightarrow> bool" where
  "json_digit c \<longleftrightarrow> 48 \<le> byte c \<and> byte c \<le> 57"

definition json_hex :: "char \<Rightarrow> bool" where
  "json_hex c \<longleftrightarrow> json_digit c \<or> (97 \<le> byte c \<and> byte c \<le> 102) \<or> (65 \<le> byte c \<and> byte c \<le> 70)"

definition json_push :: "json_state \<Rightarrow> json_parse \<Rightarrow> json_parse list \<Rightarrow> json_scanner option" where
  "json_push st p stack = (if length (p # stack) \<le> max_nesting_depth then Some (st, p # stack) else None)"

definition json_pop :: "json_parse list \<Rightarrow> json_scanner" where
  "json_pop stack = (if tl stack = [] then (JEndTop, []) else (JEndValue, tl stack))"

definition json_end_value :: "json_parse list \<Rightarrow> char \<Rightarrow> json_scanner option" where
  "json_end_value stack c = (case stack of
       [] \<Rightarrow> if json_space c then Some (JEndTop, []) else None
     | p # rest \<Rightarrow>
         if json_space c then Some (JEndValue, stack)
         else (case p of
             ParseObjectKey \<Rightarrow> if c = CHR '':'' then Some (JBeginValue, ParseObjectValue # rest) else None
           | ParseObjectValue \<Rightarrow> if c = CHR '','' then Some (JBeginString, ParseObjectKey # rest)
               else if c = CHR ''}'' then Some (json_pop stack) else None
           | ParseArrayValue \<Rightarrow> if c = CHR '','' then Some (JBeginValue, stack)
               else if c = CHR '']'' then Some (json_pop stack) else None))"

definition json_begin_value :: "json_parse list \<Rightarrow> char \<Rightarrow> json_scanner option" where
  "json_begin_value stack c =
     (if json_space c then Some (JBeginValue, stack)
      else if c = CHR ''{'' then json_push JBeginStringOrEmpty ParseObjectKey stack
      else if c = CHR ''['' then json_push JBeginValueOrEmpty ParseArrayValue stack
      else if c = CHR 0x22 then Some (JInString, stack)
      else if c = CHR ''-'' then Some (JNeg, stack)
      else if c = CHR ''0'' then Some (J0, stack)
      else if c = CHR ''t'' then Some (JLiteral ''rue'', stack)
      else if c = CHR ''f'' then Some (JLiteral ''alse'', stack)
      else if c = CHR ''n'' then Some (JLiteral ''ull'', stack)
      else if json_digit c then Some (J1, stack)
      else None)"

definition json_begin_string :: "json_parse list \<Rightarrow> char \<Rightarrow> json_scanner option" where
  "json_begin_string stack c =
     (if json_space c then Some (JBeginString, stack)
      else if c = CHR 0x22 then Some (JInString, stack) else None)"

definition json_after_integer :: "json_parse list \<Rightarrow> char \<Rightarrow> json_scanner option" where
  "json_after_integer stack c =
     (if c = CHR ''.'' then Some (JDot, stack)
      else if c = CHR ''e'' \<or> c = CHR ''E'' then Some (JE, stack)
      else json_end_value stack c)"

definition json_step :: "json_scanner \<Rightarrow> char \<Rightarrow> json_scanner option" where
  "json_step s c = (case s of (st, stack) \<Rightarrow> (case st of
       JBeginValueOrEmpty \<Rightarrow> if json_space c then Some s
         else if c = CHR '']'' then json_end_value stack c else json_begin_value stack c
     | JBeginValue \<Rightarrow> json_begin_value stack c
     | JBeginStringOrEmpty \<Rightarrow> if json_space c then Some s
         else if c = CHR ''}'' then json_end_value (ParseObjectValue # tl stack) c else json_begin_string stack c
     | JBeginString \<Rightarrow> json_begin_string stack c
     | JEndValue \<Rightarrow> json_end_value stack c
     | JEndTop \<Rightarrow> if json_space c then Some s else None
     | JInString \<Rightarrow> if c = CHR 0x22 then Some (JEndValue, stack)
         else if c = CHR 0x5C then Some (JInStringEsc, stack)
         else if byte c < 32 then None else Some s
     | JInStringEsc \<Rightarrow>
         if c \<in> {CHR ''b'', CHR ''f'', CHR ''n'', CHR ''r'', CHR ''t'', CHR 0x5C, CHR ''/'', CHR 0x22} then Some (JInString, stack)
         else if c = CHR ''u'' then Some (JInStringHex 3, stack) else None
     | JInStringHex k \<Rightarrow> if json_hex c then Some (if k = 0 then JInString else JInStringHex (k - 1), stack) else None
     | JNeg \<Rightarrow> if c = CHR ''0'' then Some (J0, stack) else if json_digit c then Some (J1, stack) else None
     | J1 \<Rightarrow> if json_digit c then Some s else json_after_integer stack c
     | J0 \<Rightarrow> json_after_integer stack c
     | JDot \<Rightarrow> if json_digit c then Some (JDot0, stack) else None
     | JDot0 \<Rightarrow> if json_digit c then Some s
         else if c = CHR ''e'' \<or> c = CHR ''E'' then Some (JE, stack) else json_end_value stack c
     | JE \<Rightarrow> if c = CHR ''+'' \<or> c = CHR ''-'' then Some (JESign, stack)
         else if json_digit c then Some (JE0, stack) else None
     | JESign \<Rightarrow> if json_digit c then Some (JE0, stack) else None
     | JE0 \<Rightarrow> if json_digit c then Some s else json_end_value stack c
     | JLiteral w \<Rightarrow> (case w of [] \<Rightarrow> None
         | x # xs \<Rightarrow> if c = x then Some (if xs = [] then JEndValue else JLiteral xs, stack) else None)))"

fun json_scan :: "json_scanner \<Rightarrow> string \<Rightarrow> json_scanner option" where
  "json_scan s [] = Some s"
| "json_scan s (c # cs) = (case json_step s c of None \<Rightarrow> None | Some s' \<Rightarrow> json_scan s' cs)"

text \<open>At the end of the input the scanner is fed one space, which completes a top-level number.\<close>

definition json_valid :: "string \<Rightarrow> bool" where
  "json_valid data = (case json_scan (JBeginValue, []) data of
       None \<Rightarrow> False
     | Some s \<Rightarrow> (case json_step s (CHR '' '') of Some (JEndTop, _) \<Rightarrow> True | _ \<Rightarrow> False))"

lemma json_valid_empty_object: "json_valid ''{}''"
  by code_simp

lemma json_valid_not_empty: "\<not> json_valid []"
  by code_simp

lemma json_scan_append: "json_scan s (xs @ ys) = (case json_scan s xs of None \<Rightarrow> None | Some s' \<Rightarrow> json_scan s' ys)"
  by (induction xs arbitrary: s) (auto split: option.splits)

end
