(* ===== verification/Task_Store.thy ===== *)
theory Task_Store
  imports Completion_Store Go_Json
begin

text \<open>
  The task repository (\<^verbatim>\<open>internal/database/task_repository.go\<close>) over explicit tables. A
  transaction is a function on the tables that either commits its result or fails and leaves them
  as they were; an \<open>UPDATE ... WHERE\<close> is the update of the rows that match, with their number.
  \<open>NULL\<close> is \<open>None\<close>, and the empty string of an entity's nullable text is stored as \<open>NULL\<close>.
  The clock, the fresh identifiers, the UUID parser and the completion environment are arguments.
\<close>

section \<open>Tables\<close>

record task =
  tk_id :: string
  tk_kind :: string
  tk_parent :: "string option"
  tk_owner_session :: string
  tk_concurrency_key :: string
  tk_state :: task_state
  tk_result :: string
  tk_error_code :: string
  tk_error_message :: string
  tk_created :: stamp
  tk_started :: "stamp option"
  tk_finished :: "stamp option"
  tk_updated :: stamp
  tk_lease_owner :: "string option"
  tk_lease_expires :: "stamp option"

record task_event =
  te_task_id :: string
  te_sequence :: int
  te_event_id :: string
  te_kind :: string
  te_payload :: string
  te_created :: stamp

record task_store =
  ts_sessions :: "string list"
  ts_tasks :: "task list"
  ts_events :: "task_event list"
  ts_workflow_children :: "string list"
  ts_completions :: completion_tables

datatype task_error = NilInput | InvalidTask | LeaseRequired | EventKindRequired | PayloadInvalid
  | SourceStateRequired | TerminalTargetRequired | ConstraintFailed | ProjectionFailed completion_failure

record task_claim =
  cl_task_id :: string
  cl_lease_owner :: string
  cl_lease_expires :: int
  cl_event_kind :: string

record task_finish =
  fi_task_id :: string
  fi_event_kind :: string
  fi_result :: string
  fi_error_code :: string
  fi_error_message :: string
  fi_payload :: string
  fi_lease_owner :: string
  fi_target :: task_state
  fi_from :: "task_state list"

record task_recovery =
  rv_expires_before :: int
  rv_kind :: string
  rv_event_kind :: string
  rv_error_code :: string
  rv_error_message :: string
  rv_payload :: string
  rv_target :: task_state

record task_event_draft =
  ed_kind :: string
  ed_payload :: string

record completion_env =
  ce_redact :: "string \<Rightarrow> string option"
  ce_encode :: "completion_record list \<Rightarrow> string option"

definition cancel_source_parent :: string where "cancel_source_parent = ''parent''"
definition cancel_source_workflow :: string where "cancel_source_workflow = ''workflow''"

section \<open>Validation\<close>

definition validate_event :: "string \<Rightarrow> string \<Rightarrow> task_error option" where
  "validate_event kind payload =
     (if trim_space kind = [] then Some EventKindRequired
      else if \<not> json_valid payload then Some PayloadInvalid else None)"

definition valid_uuid_v7 :: "(string \<Rightarrow> nat option) \<Rightarrow> string \<Rightarrow> bool" where
  "valid_uuid_v7 uuid_version v \<longleftrightarrow> trim_space v \<noteq> [] \<and> uuid_version (trim_space v) = Some 7"

definition valid_task_entity :: "(string \<Rightarrow> nat option) \<Rightarrow> int \<Rightarrow> task \<Rightarrow> bool" where
  "valid_task_entity uuid_version now t \<longleftrightarrow>
     valid_uuid_v7 uuid_version (tk_id t) \<and>
     (case tk_parent t of None \<Rightarrow> True | Some p \<Rightarrow> valid_uuid_v7 uuid_version p) \<and>
     valid_uuid_v7 uuid_version (tk_owner_session t) \<and> trim_space (tk_kind t) \<noteq> [] \<and> now \<noteq> zero_instant"

section \<open>SQL\<close>

definition update_tasks :: "(task \<Rightarrow> bool) \<Rightarrow> (task \<Rightarrow> task) \<Rightarrow> task_store \<Rightarrow> nat \<times> task_store" where
  "update_tasks hit f s =
     (length (filter hit (ts_tasks s)), s\<lparr>ts_tasks := map (\<lambda>t. if hit t then f t else t) (ts_tasks s)\<rparr>)"

definition load_task :: "task_store \<Rightarrow> string \<Rightarrow> task option" where
  "load_task s i = find (\<lambda>t. tk_id t = i) (ts_tasks s)"

definition events_of :: "task_store \<Rightarrow> string \<Rightarrow> task_event list" where
  "events_of s i = filter (\<lambda>e. te_task_id e = i) (ts_events s)"

definition next_task_event_sequence :: "task_store \<Rightarrow> string \<Rightarrow> int" where
  "next_task_event_sequence s i =
     (case map te_sequence (events_of s i) of [] \<Rightarrow> 0 | n # ns \<Rightarrow> fold max ns n) + 1"

definition insert_task_event :: "task_event \<Rightarrow> task_store \<Rightarrow> task_error + task_store" where
  "insert_task_event e s =
     (case validate_event (te_kind e) (te_payload e) of
        Some err \<Rightarrow> Inl err
      | None \<Rightarrow>
          if te_event_id e \<in> te_event_id ` set (ts_events s) \<or> te_task_id e \<notin> tk_id ` set (ts_tasks s) \<or>
             te_sequence e \<in> te_sequence ` set (events_of s (te_task_id e)) \<or> te_sequence e \<le> 0
          then Inl ConstraintFailed
          else Inr (s\<lparr>ts_events := ts_events s @ [e]\<rparr>))"

text \<open>The event of a transition: the next sequence of the task, then the insertion.\<close>

definition append_task_event :: "string \<Rightarrow> string \<Rightarrow> string \<Rightarrow> string \<Rightarrow> int \<Rightarrow> task_store \<Rightarrow> task_error + task_store" where
  "append_task_event task_id event_id kind payload now s =
     insert_task_event \<lparr>te_task_id = task_id, te_sequence = next_task_event_sequence s task_id, te_event_id = event_id,
       te_kind = kind, te_payload = payload, te_created = format_time now\<rparr> s"

text \<open>
  The shape shared by claiming, transitions, finishing and recovery: a conditional update that must
  hit exactly one row, then the event.
\<close>

definition update_with_event ::
  "(task \<Rightarrow> bool) \<Rightarrow> (task \<Rightarrow> task) \<Rightarrow> string \<Rightarrow> string \<Rightarrow> string \<Rightarrow> string \<Rightarrow> int \<Rightarrow> task_store \<Rightarrow>
   task_error + (bool \<times> task_store)" where
  "update_with_event hit f task_id event_id kind payload now s =
     (case update_tasks hit f s of
        (rows, s1) \<Rightarrow>
          if rows \<noteq> 1 then Inr (False, s1)
          else (case append_task_event task_id event_id kind payload now s1 of
              Inl e \<Rightarrow> Inl e
            | Inr s2 \<Rightarrow> Inr (True, s2)))"

definition insert_task :: "task \<Rightarrow> task_store \<Rightarrow> task_error + task_store" where
  "insert_task t s =
     (if tk_id t \<in> tk_id ` set (ts_tasks s) \<or> tk_owner_session t \<notin> set (ts_sessions s) \<or>
         (case tk_parent t of None \<Rightarrow> False | Some p \<Rightarrow> p \<notin> tk_id ` set (ts_tasks s) \<and> p \<noteq> tk_id t) \<or> tk_kind t = []
      then Inl ConstraintFailed
      else Inr (s\<lparr>ts_tasks := ts_tasks s @ [t]\<rparr>))"

section \<open>Creating and claiming\<close>

definition create_task ::
  "(string \<Rightarrow> nat option) \<Rightarrow> task option \<Rightarrow> string \<Rightarrow> string \<Rightarrow> int \<Rightarrow> task_store \<Rightarrow> task_error + (task \<times> task_store)" where
  "create_task uuid_version draft task_id event_id now s =
     (case draft of None \<Rightarrow> Inl NilInput
      | Some d \<Rightarrow>
          let created = d\<lparr>tk_id := task_id, tk_state := TaskQueued, tk_created := format_time now, tk_updated := format_time now\<rparr> in
          if \<not> valid_task_entity uuid_version now created then Inl InvalidTask
          else (case insert_task created s of Inl e \<Rightarrow> Inl e
            | Inr s1 \<Rightarrow> (case insert_task_event \<lparr>te_task_id = task_id, te_sequence = 1, te_event_id = event_id,
                  te_kind = ''task_queued'', te_payload = ''{}'', te_created = format_time now\<rparr> s1 of
                Inl e \<Rightarrow> Inl e
              | Inr s2 \<Rightarrow> Inr (created, s2))))"

definition claim_row :: "task_claim \<Rightarrow> int \<Rightarrow> task \<Rightarrow> task" where
  "claim_row c now t =
     t\<lparr>tk_state := TaskRunning,
       tk_started := (case tk_started t of None \<Rightarrow> Some (format_time now) | Some x \<Rightarrow> Some x),
       tk_finished := None, tk_updated := format_time now, tk_lease_owner := Some (cl_lease_owner c),
       tk_lease_expires := Some (format_time (cl_lease_expires c)),
       tk_result := [], tk_error_code := [], tk_error_message := []\<rparr>"

definition claim_task ::
  "task_state \<Rightarrow> task_claim option \<Rightarrow> string \<Rightarrow> int \<Rightarrow> task_store \<Rightarrow> task_error + (bool \<times> task_store)" where
  "claim_task from claim event_id now s =
     (case claim of None \<Rightarrow> Inl NilInput
      | Some c \<Rightarrow>
          if trim_space (cl_lease_owner c) = [] \<or> cl_lease_expires c = zero_instant then Inl LeaseRequired
          else if trim_space (cl_event_kind c) = [] then Inl EventKindRequired
          else update_with_event (\<lambda>t. tk_id t = cl_task_id c \<and> tk_state t = from)
            (claim_row c now) (cl_task_id c) event_id (cl_event_kind c) ''{}'' now s)"

definition claim_queued ::
  "task_claim option \<Rightarrow> string \<Rightarrow> int \<Rightarrow> task_store \<Rightarrow> task_error + (bool \<times> task_store)" where
  "claim_queued = claim_task TaskQueued"

definition claim_interrupted ::
  "task_claim option \<Rightarrow> string \<Rightarrow> int \<Rightarrow> task_store \<Rightarrow> task_error + (bool \<times> task_store)" where
  "claim_interrupted = claim_task TaskInterrupted"

text \<open>SQL comparisons with \<open>NULL\<close> are not true.\<close>

definition expires_after :: "task \<Rightarrow> int \<Rightarrow> bool" where
  "expires_after t now = (case tk_lease_expires t of None \<Rightarrow> False | Some e \<Rightarrow> stamp_less (format_time now) e)"

definition absent_or_expired :: "task \<Rightarrow> int \<Rightarrow> bool" where
  "absent_or_expired t fence = (case tk_lease_expires t of None \<Rightarrow> True | Some e \<Rightarrow> \<not> stamp_less (format_time fence) e)"

definition active_task_state :: "task_state \<Rightarrow> bool" where
  "active_task_state st \<longleftrightarrow> st = TaskRunning \<or> st = TaskCanceling"

definition renew_lease ::
  "string \<Rightarrow> string \<Rightarrow> int \<Rightarrow> int \<Rightarrow> task_store \<Rightarrow> task_error + (bool \<times> task_store)" where
  "renew_lease task_id owner expires now s =
     (if trim_space owner = [] \<or> expires = zero_instant then Inl LeaseRequired
      else case update_tasks (\<lambda>t. tk_id t = task_id \<and> tk_lease_owner t = Some owner \<and> active_task_state (tk_state t) \<and>
              expires_after t now)
            (\<lambda>t. t\<lparr>tk_lease_expires := Some (format_time expires), tk_updated := format_time now\<rparr>) s of
          (rows, s1) \<Rightarrow> Inr (rows = 1, s1))"

section \<open>Transitions\<close>

definition transition_times :: "task \<Rightarrow> task_state \<Rightarrow> int \<Rightarrow> stamp option \<times> stamp option" where
  "transition_times t target now =
     (if target = TaskRunning \<and> tk_started t = None then Some (format_time now) else tk_started t,
      if is_terminal_task_state target then Some (format_time now) else tk_finished t)"

definition transition_tx ::
  "string \<Rightarrow> task_state list \<Rightarrow> task_state \<Rightarrow> task_event_draft \<Rightarrow> string \<Rightarrow> int \<Rightarrow> task_store \<Rightarrow>
   task_error + (bool \<times> task_store)" where
  "transition_tx task_id from target event event_id now s =
     (case load_task s task_id of None \<Rightarrow> Inr (False, s)
      | Some current \<Rightarrow>
          if tk_state current \<notin> set from then Inr (False, s)
          else let (started, finished) = transition_times current target now; terminal = is_terminal_task_state target in
            update_with_event
              (\<lambda>t. tk_id t = task_id \<and> tk_state t = tk_state current \<and> (\<not> terminal \<or> tk_lease_owner t = None))
              (\<lambda>t. t\<lparr>tk_state := target, tk_started := started, tk_finished := finished, tk_updated := format_time now,
                tk_lease_owner := (if terminal then None else tk_lease_owner t),
                tk_lease_expires := (if terminal then None else tk_lease_expires t)\<rparr>)
              task_id event_id (ed_kind event) (ed_payload event) now s)"

definition transition_task ::
  "string \<Rightarrow> task_state list \<Rightarrow> task_state \<Rightarrow> string \<Rightarrow> string \<Rightarrow> string \<Rightarrow> int \<Rightarrow> task_store \<Rightarrow>
   task_error + (bool \<times> task_store)" where
  "transition_task task_id from target kind payload event_id now s =
     (if length from = 0 then Inl SourceStateRequired
      else if trim_space kind = [] then Inl EventKindRequired
      else let payload = (if payload = [] then ''{}'' else payload) in
        case validate_event kind payload of
          Some e \<Rightarrow> Inl e
        | None \<Rightarrow> transition_tx task_id from target \<lparr>ed_kind = kind, ed_payload = payload\<rparr> event_id now s)"

section \<open>Finishing\<close>

definition validate_task_finish :: "task_finish option \<Rightarrow> task_error option" where
  "validate_task_finish finish = (case finish of None \<Rightarrow> Some NilInput
     | Some f \<Rightarrow> if length (fi_from f) = 0 \<or> \<not> is_terminal_task_state (fi_target f) then Some TerminalTargetRequired
         else validate_event (fi_event_kind f) (fi_payload f))"

definition load_finish_source :: "task_finish \<Rightarrow> task_store \<Rightarrow> task option" where
  "load_finish_source f s = (case load_task s (fi_task_id f) of None \<Rightarrow> None
     | Some current \<Rightarrow> if tk_state current \<notin> set (fi_from f) then None else Some current)"

definition completion_source_of :: "task_finish \<Rightarrow> task \<Rightarrow> string \<Rightarrow> int \<Rightarrow> completion_source" where
  "completion_source_of f current event_id now =
     \<lparr>cs_event_id = event_id, cs_task_id = tk_id current, cs_event_kind = fi_event_kind f, cs_task_kind = tk_kind current,
      cs_owner = tk_owner_session current, cs_state = fi_target f, cs_result = fi_result f,
      cs_error_code = fi_error_code f, cs_error_message = fi_error_message f, cs_created = format_time now\<rparr>"

definition project_completion ::
  "completion_env \<Rightarrow> string \<Rightarrow> task_finish \<Rightarrow> task \<Rightarrow> string \<Rightarrow> int \<Rightarrow> task_store \<Rightarrow> task_error + task_store" where
  "project_completion env delivery_id f current event_id now s =
     (case project_terminal (\<lambda>i. i \<in> set (ts_workflow_children s)) (ce_redact env) (ce_encode env) delivery_id
            (ts_completions s) (completion_source_of f current event_id now) of
        Inl e \<Rightarrow> Inl (ProjectionFailed e)
      | Inr (_, cp) \<Rightarrow> Inr (s\<lparr>ts_completions := cp\<rparr>))"

text \<open>\<open>fence\<close> is the zero instant for a finish by the owner, and the expiry bound for a recovery.\<close>

definition finish_hit :: "task_finish \<Rightarrow> task \<Rightarrow> int \<Rightarrow> int \<Rightarrow> task \<Rightarrow> bool" where
  "finish_hit f current fence now t \<longleftrightarrow>
     tk_id t = fi_task_id f \<and> tk_state t = tk_state current \<and>
     (fi_lease_owner f = [] \<and> tk_lease_owner t = None \<or> tk_lease_owner t = Some (fi_lease_owner f)) \<and>
     (\<not> (fi_lease_owner f \<noteq> [] \<and> fence = zero_instant) \<or> expires_after t now) \<and>
     (fence = zero_instant \<or> absent_or_expired t fence)"

definition finish_row :: "task_finish \<Rightarrow> task \<Rightarrow> int \<Rightarrow> task \<Rightarrow> task" where
  "finish_row f current now t =
     (let (started, finished) = transition_times current (fi_target f) now in
      t\<lparr>tk_state := fi_target f, tk_result := fi_result f, tk_error_code := fi_error_code f,
        tk_error_message := fi_error_message f, tk_started := started, tk_finished := finished,
        tk_updated := format_time now, tk_lease_owner := None, tk_lease_expires := None\<rparr>)"

definition finish_transaction_with_expiry ::
  "completion_env \<Rightarrow> string \<Rightarrow> task_finish \<Rightarrow> int \<Rightarrow> int \<Rightarrow> string \<Rightarrow> task_store \<Rightarrow> task_error + (bool \<times> task_store)" where
  "finish_transaction_with_expiry env delivery_id f fence now event_id s =
     (case load_finish_source f s of None \<Rightarrow> Inr (False, s)
      | Some current \<Rightarrow>
          (case update_with_event (finish_hit f current fence now) (finish_row f current now)
              (fi_task_id f) event_id (fi_event_kind f) (fi_payload f) now s of
            Inl e \<Rightarrow> Inl e
          | Inr (changed, s2) \<Rightarrow>
              if \<not> changed then Inr (False, s2)
              else (case project_completion env delivery_id f current event_id now s2 of
                  Inl e \<Rightarrow> Inl e
                | Inr s3 \<Rightarrow> Inr (True, s3))))"

definition finish_task ::
  "completion_env \<Rightarrow> string \<Rightarrow> task_finish option \<Rightarrow> int \<Rightarrow> string \<Rightarrow> task_store \<Rightarrow> task_error + (bool \<times> task_store)" where
  "finish_task env delivery_id finish now event_id s =
     (case validate_task_finish finish of Some e \<Rightarrow> Inl e
      | None \<Rightarrow> (case finish of None \<Rightarrow> Inl NilInput
          | Some f \<Rightarrow> finish_transaction_with_expiry env delivery_id f zero_instant now event_id s))"

section \<open>Recovery\<close>

text \<open>\<open>ORDER BY created_at, id\<close>: insertion by the order of the stored texts.\<close>

definition created_before :: "task \<Rightarrow> task \<Rightarrow> bool" where
  "created_before a b \<longleftrightarrow> stamp_less (tk_created a) (tk_created b) \<or>
     tk_created a = tk_created b \<and> text_less (tk_id a) (tk_id b)"

definition updated_after :: "task \<Rightarrow> task \<Rightarrow> bool" where
  "updated_after a b \<longleftrightarrow> stamp_less (tk_updated b) (tk_updated a) \<or>
     tk_updated a = tk_updated b \<and> text_less (tk_id b) (tk_id a)"

definition recovery_batch_size :: nat where "recovery_batch_size = 100"

definition recoverable :: "task_recovery \<Rightarrow> task \<Rightarrow> bool" where
  "recoverable r t \<longleftrightarrow> tk_kind t = rv_kind r \<and> active_task_state (tk_state t) \<and> absent_or_expired t (rv_expires_before r)"

definition recover_expired_task ::
  "task_recovery \<Rightarrow> string \<Rightarrow> int \<Rightarrow> string \<Rightarrow> task_store \<Rightarrow> task_error + (bool \<times> task_store)" where
  "recover_expired_task r task_id now event_id s =
     update_with_event
       (\<lambda>t. tk_id t = task_id \<and> active_task_state (tk_state t) \<and> absent_or_expired t (rv_expires_before r))
       (\<lambda>t. t\<lparr>tk_state := rv_target r, tk_error_code := rv_error_code r, tk_error_message := rv_error_message r,
         tk_finished := Some (format_time now), tk_updated := format_time now, tk_lease_owner := None,
         tk_lease_expires := None\<rparr>)
       task_id event_id (rv_event_kind r) (rv_payload r) now s"

text \<open>\<open>event_ids\<close> gives the fresh identifier of each row of the batch.\<close>

fun recover_rows ::
  "task_recovery \<Rightarrow> int \<Rightarrow> (nat \<Rightarrow> string) \<Rightarrow> nat \<Rightarrow> task list \<Rightarrow> task_store \<Rightarrow> task_error + (string list \<times> task_store)" where
  "recover_rows r now event_ids k [] s = Inr ([], s)"
| "recover_rows r now event_ids k (t # ts) s =
     (case recover_expired_task r (tk_id t) now (event_ids k) s of
        Inl e \<Rightarrow> Inl e
      | Inr (was_recovered, s1) \<Rightarrow> (case recover_rows r now event_ids (k + 1) ts s1 of
          Inl e \<Rightarrow> Inl e
        | Inr (batch, s2) \<Rightarrow> Inr (if was_recovered then tk_id t # batch else batch, s2)))"

definition recover_expired_batch ::
  "task_recovery \<Rightarrow> int \<Rightarrow> (nat \<Rightarrow> string) \<Rightarrow> task_store \<Rightarrow> task_error + (string list \<times> nat \<times> task_store)" where
  "recover_expired_batch r now event_ids s =
     (let rows = take recovery_batch_size (order_by created_before (filter (recoverable r) (ts_tasks s))) in
      case recover_rows r now event_ids 0 rows s of
        Inl e \<Rightarrow> Inl e
      | Inr (batch, s1) \<Rightarrow> Inr (batch, length rows, s1))"

text \<open>
  The batch loop may in principle run for ever, so it is a partial function. A failed batch is
  rolled back while the batches before it stay committed, so an error comes with the tables.
\<close>

partial_function (option) recover_loop ::
  "task_recovery \<Rightarrow> (nat \<Rightarrow> int) \<Rightarrow> (nat \<Rightarrow> nat \<Rightarrow> string) \<Rightarrow> nat \<Rightarrow> string list \<Rightarrow> task_store \<Rightarrow>
   ((task_error + string list) \<times> task_store) option" where
  "recover_loop r clock event_ids n recovered s =
     (case recover_expired_batch r (clock n) (event_ids n) s of
        Inl e \<Rightarrow> Some (Inl e, s)
      | Inr (batch, selected, s1) \<Rightarrow>
          if selected < recovery_batch_size \<or> batch = [] then Some (Inr (recovered @ batch), s1)
          else recover_loop r clock event_ids (n + 1) (recovered @ batch) s1)"

definition recover_expired ::
  "task_recovery option \<Rightarrow> (nat \<Rightarrow> int) \<Rightarrow> (nat \<Rightarrow> nat \<Rightarrow> string) \<Rightarrow> task_store \<Rightarrow>
   ((task_error + string list) \<times> task_store) option" where
  "recover_expired recovery clock event_ids s =
     (case recovery of None \<Rightarrow> Some (Inl NilInput, s)
      | Some r \<Rightarrow>
          if \<not> is_terminal_task_state (rv_target r) then Some (Inl TerminalTargetRequired, s)
          else (case validate_event (rv_event_kind r) (rv_payload r) of
              Some e \<Rightarrow> Some (Inl e, s)
            | None \<Rightarrow> recover_loop r clock event_ids 0 [] s))"

section \<open>Queries\<close>

definition list_limit :: "int \<Rightarrow> nat" where
  "list_limit limit = (if limit \<le> 0 \<or> limit > 100 then 100 else nat limit)"

definition list_owned :: "task_store \<Rightarrow> string \<Rightarrow> string list \<Rightarrow> task_state list \<Rightarrow> int \<Rightarrow> task list" where
  "list_owned s owner_session kinds states limit =
     take (list_limit limit) (order_by updated_after (filter (\<lambda>t. tk_owner_session t = owner_session \<and>
       (kinds = [] \<or> tk_kind t \<in> set kinds) \<and> (states = [] \<or> tk_state t \<in> set states)) (ts_tasks s)))"

definition list_by_owner :: "task_store \<Rightarrow> string \<Rightarrow> string \<Rightarrow> int \<Rightarrow> task list" where
  "list_by_owner s kind owner_session limit = list_owned s owner_session [kind] [] limit"

definition list_by_states :: "task_store \<Rightarrow> string \<Rightarrow> task_state list \<Rightarrow> int \<Rightarrow> task list" where
  "list_by_states s kind states limit =
     (if length states = 0 then []
      else let rows = order_by created_before (filter (\<lambda>t. tk_kind t = kind \<and> tk_state t \<in> set states) (ts_tasks s)) in
        if limit > 0 then take (nat limit) rows else rows)"

definition list_queued_excluding :: "task_store \<Rightarrow> string list \<Rightarrow> int \<Rightarrow> task list" where
  "list_queued_excluding s kinds limit =
     take (list_limit limit) (order_by created_before
       (filter (\<lambda>t. tk_state t = TaskQueued \<and> (kinds = [] \<or> tk_kind t \<notin> set kinds)) (ts_tasks s)))"

definition latest_event :: "task_store \<Rightarrow> string \<Rightarrow> task_event option" where
  "latest_event s task_id = (case rev (sort_key te_sequence (events_of s task_id)) of [] \<Rightarrow> None | e # _ \<Rightarrow> Some e)"

definition list_events :: "task_store \<Rightarrow> string \<Rightarrow> int \<Rightarrow> int \<Rightarrow> task_event list" where
  "list_events s task_id after limit =
     take (if limit \<le> 0 then 100 else nat limit)
       (sort_key te_sequence (filter (\<lambda>e. te_sequence e > after) (events_of s task_id)))"

section \<open>Appending events\<close>

definition append_event :: "string \<Rightarrow> string \<Rightarrow> string \<Rightarrow> string \<Rightarrow> int \<Rightarrow> task_store \<Rightarrow> task_error + (task_event \<times> task_store)" where
  "append_event task_id kind payload event_id now s =
     (case validate_event kind payload of Some e \<Rightarrow> Inl e
      | None \<Rightarrow> (case append_task_event task_id event_id kind payload now s of
          Inl e \<Rightarrow> Inl e
        | Inr s1 \<Rightarrow> Inr (\<lparr>te_task_id = task_id, te_sequence = next_task_event_sequence s task_id, te_event_id = event_id,
            te_kind = kind, te_payload = payload, te_created = format_time now\<rparr>, s1)))"

definition owns_running_task :: "task_store \<Rightarrow> string \<Rightarrow> string \<Rightarrow> int \<Rightarrow> bool" where
  "owns_running_task s task_id owner now \<longleftrightarrow>
     length (filter (\<lambda>t. tk_id t = task_id \<and> active_task_state (tk_state t) \<and> tk_lease_owner t = Some owner \<and>
       expires_after t now) (ts_tasks s)) > 0"

fun append_drafts ::
  "string \<Rightarrow> int \<Rightarrow> (nat \<Rightarrow> string) \<Rightarrow> nat \<Rightarrow> task_event_draft list \<Rightarrow> task_store \<Rightarrow>
   task_error + (task_event list \<times> task_store)" where
  "append_drafts task_id now event_ids k [] s = Inr ([], s)"
| "append_drafts task_id now event_ids k (d # ds) s =
     (case append_task_event task_id (event_ids k) (ed_kind d) (ed_payload d) now s of
        Inl e \<Rightarrow> Inl e
      | Inr s1 \<Rightarrow> (case append_drafts task_id now event_ids (k + 1) ds s1 of
          Inl e \<Rightarrow> Inl e
        | Inr (es, s2) \<Rightarrow> Inr (\<lparr>te_task_id = task_id, te_sequence = next_task_event_sequence s task_id,
            te_event_id = event_ids k, te_kind = ed_kind d, te_payload = ed_payload d, te_created = format_time now\<rparr> # es, s2)))"

definition append_running_events ::
  "string \<Rightarrow> string \<Rightarrow> task_event_draft list \<Rightarrow> (nat \<Rightarrow> string) \<Rightarrow> int \<Rightarrow> task_store \<Rightarrow>
   task_error + (task_event list \<times> bool \<times> task_store)" where
  "append_running_events task_id owner drafts event_ids now s =
     (if length drafts = 0 then Inr ([], True, s)
      else case find (\<lambda>d. validate_event (ed_kind d) (ed_payload d) \<noteq> None) drafts of
        Some d \<Rightarrow> Inl (the (validate_event (ed_kind d) (ed_payload d)))
      | None \<Rightarrow>
          if \<not> owns_running_task s task_id owner now then Inr ([], False, s)
          else (case append_drafts task_id now event_ids 0 drafts s of
              Inl e \<Rightarrow> Inl e
            | Inr (es, s1) \<Rightarrow> Inr (es, True, s1)))"

definition append_running_event ::
  "string \<Rightarrow> string \<Rightarrow> string \<Rightarrow> string \<Rightarrow> string \<Rightarrow> int \<Rightarrow> task_store \<Rightarrow> task_error + (task_event option \<times> task_store)" where
  "append_running_event task_id owner kind payload event_id now s =
     (case append_running_events task_id owner [\<lparr>ed_kind = kind, ed_payload = payload\<rparr>] (\<lambda>_. event_id) now s of
        Inl e \<Rightarrow> Inl e
      | Inr (es, appended, s1) \<Rightarrow> Inr (if \<not> appended then None else Some (es ! 0), s1))"

section \<open>Lemmas on the tables\<close>

lemma update_tasks_simps:
  "fst (update_tasks hit f s) = length (filter hit (ts_tasks s))"
  "snd (update_tasks hit f s) = s\<lparr>ts_tasks := map (\<lambda>t. if hit t then f t else t) (ts_tasks s)\<rparr>"
  by (simp_all add: update_tasks_def)

lemma update_tasks_none: "filter hit (ts_tasks s) = [] \<Longrightarrow> update_tasks hit f s = (0, s)"
proof -
  assume a: "filter hit (ts_tasks s) = []"
  then have "map (\<lambda>t. if hit t then f t else t) (ts_tasks s) = ts_tasks s"
    by (intro map_idI) (auto simp: filter_empty_conv)
  with a show ?thesis by (simp add: update_tasks_def)
qed

lemma filter_id_single:
  "distinct (map tk_id ts) \<Longrightarrow> t \<in> set ts \<Longrightarrow> hit t \<Longrightarrow> (\<And>u. hit u \<Longrightarrow> tk_id u = tk_id t) \<Longrightarrow> filter hit ts = [t]"
proof (induction ts)
  case (Cons u us)
  show ?case
  proof (cases "u = t")
    case True
    have "\<not> hit x" if "x \<in> set us" for x
    proof
      assume "hit x"
      then have "tk_id x = tk_id t" by (rule Cons.prems(4))
      then have "tk_id u \<in> tk_id ` set us" using that True by (metis imageI)
      with Cons.prems(1) show False by simp
    qed
    then have "filter hit us = []" by (intro filter_False) blast
    with True Cons.prems(3) show ?thesis by simp
  next
    case False
    with Cons.prems(2) have "t \<in> set us" by simp
    moreover have "\<not> hit u"
    proof
      assume "hit u"
      then have "tk_id u = tk_id t" by (rule Cons.prems(4))
      with Cons.prems(1) \<open>t \<in> set us\<close> show False by (auto simp: image_iff)
    qed
    moreover have "filter hit us = [t]"
      using Cons.prems(1) \<open>t \<in> set us\<close> by (intro Cons.IH Cons.prems(3,4)) auto
    ultimately show ?thesis by simp
  qed
qed simp

lemma load_task_SomeD: "load_task s i = Some t \<Longrightarrow> t \<in> set (ts_tasks s) \<and> tk_id t = i"
  by (auto simp: load_task_def find_Some_iff)

lemma load_task_Some_iff:
  "distinct (map tk_id (ts_tasks s)) \<Longrightarrow> load_task s i = Some t \<longleftrightarrow> t \<in> set (ts_tasks s) \<and> tk_id t = i"
proof
  assume d: "distinct (map tk_id (ts_tasks s))" and t: "t \<in> set (ts_tasks s) \<and> tk_id t = i"
  then obtain u where u: "load_task s i = Some u"
    by (cases "load_task s i") (auto simp: load_task_def find_None_iff)
  with load_task_SomeD [OF u] d t show "load_task s i = Some t" by (auto simp: distinct_map dest: inj_onD)
qed (rule load_task_SomeD)

lemma load_task_None_iff: "load_task s i = None \<longleftrightarrow> i \<notin> tk_id ` set (ts_tasks s)"
  by (auto simp: load_task_def find_None_iff)

section \<open>The invariant\<close>

definition row_ok :: "task \<Rightarrow> bool" where
  "row_ok t \<longleftrightarrow> (is_terminal_task_state (tk_state t) \<longrightarrow>
     tk_lease_owner t = None \<and> tk_lease_expires t = None \<and> tk_finished t \<noteq> None)"

definition store_inv :: "task_store \<Rightarrow> bool" where
  "store_inv s \<longleftrightarrow>
     distinct (map tk_id (ts_tasks s)) \<and> (\<forall>t\<in>set (ts_tasks s). row_ok t) \<and>
     distinct (map te_event_id (ts_events s)) \<and> (\<forall>e\<in>set (ts_events s). te_task_id e \<in> tk_id ` set (ts_tasks s)) \<and>
     (\<forall>i. map te_sequence (events_of s i) = map int [1..<length (events_of s i) + 1]) \<and>
     completion_inv (ts_completions s)"

definition store_init :: "task_store \<Rightarrow> bool" where
  "store_init s \<longleftrightarrow> ts_tasks s = [] \<and> ts_events s = [] \<and> completion_init (ts_completions s)"

inductive store_step :: "task_store \<Rightarrow> task_store \<Rightarrow> bool" where
  create: "create_task uuid_version draft task_id event_id now s = Inr (t, s') \<Longrightarrow> store_step s s'"
| claim: "claim_task from claim event_id now s = Inr (b, s') \<Longrightarrow> store_step s s'"
| renew: "renew_lease task_id owner expires now s = Inr (b, s') \<Longrightarrow> store_step s s'"
| transition: "transition_task task_id from target kind payload event_id now s = Inr (b, s') \<Longrightarrow> store_step s s'"
| finish: "finish_task env delivery_id finish event_now event_id s = Inr (b, s') \<Longrightarrow> store_step s s'"
| recover: "is_terminal_task_state (rv_target r) \<Longrightarrow> recover_expired_batch r now event_ids s = Inr (batch, selected, s') \<Longrightarrow>
    store_step s s'"
| append: "append_event task_id kind payload event_id now s = Inr (e, s') \<Longrightarrow> store_step s s'"
| append_running: "append_running_events task_id owner drafts event_ids now s = Inr (es, b, s') \<Longrightarrow> store_step s s'"

inductive_cases store_stepE: "store_step s s'"

lemma next_sequence_length:
  assumes "store_inv s"
  shows "next_task_event_sequence s i = int (length (events_of s i)) + 1"
proof -
  let ?n = "length (events_of s i)"
  have m: "map te_sequence (events_of s i) = map int [1..<?n + 1]" using assms by (simp add: store_inv_def)
  have fm: "fold max (map int [a..<b]) (int k) = max (int k) (int (b - 1))" if "a < b" for a b k :: nat
    using that
  proof (induction "b - a" arbitrary: a k)
    case (Suc d)
    show ?case
    proof (cases "Suc a < b")
      case True
      have "fold max (map int [Suc a..<b]) (int (max k a)) = max (int (max k a)) (int (b - 1))"
        using Suc(2) True by (intro Suc(1)) simp_all
      moreover have "fold max (map int [a..<b]) (int k) = fold max (map int [Suc a..<b]) (int (max k a))"
        using Suc(3) by (simp add: upt_conv_Cons of_nat_max max.commute)
      moreover have "max (int (max k a)) (int (b - 1)) = max (int k) (int (b - 1))" using True by simp
      ultimately show ?thesis by simp
    next
      case False
      with Suc(3) have "b = Suc a" by simp
      then show ?thesis by (simp add: max.commute)
    qed
  qed simp
  show ?thesis
  proof (cases "?n = 0")
    case False
    show ?thesis
    proof (cases "1 < ?n")
      case True
      then have "1 < ?n + 1" by linarith
      from upt_conv_Cons [OF this] have u: "[1..<?n + 1] = 1 # [2..<?n + 1]" by (simp only: numeral_2_eq_2 One_nat_def)
      have "fold max (map int [2..<?n + 1]) (int 1) = max (int 1) (int (?n + 1 - 1))" by (rule fm) (use True in linarith)
      then have "fold max (map int [2..<?n + 1]) 1 = int ?n" using True by (simp only: of_nat_1 add_diff_cancel_right')
      moreover have "map te_sequence (events_of s i) = 1 # map int [2..<?n + 1]" unfolding m u by simp
      ultimately show ?thesis by (simp add: next_task_event_sequence_def)
    next
      case False
      with \<open>?n \<noteq> 0\<close> have "?n = 1" by linarith
      then show ?thesis by (simp add: next_task_event_sequence_def m)
    qed
  qed (simp add: next_task_event_sequence_def)
qed

lemma update_inv:
  assumes inv: "store_inv s" and f: "\<And>t. t \<in> set (ts_tasks s) \<Longrightarrow> hit t \<Longrightarrow> tk_id (f t) = tk_id t \<and> row_ok (f t)"
    and u: "update_tasks hit f s = (rows, s')"
  shows "store_inv s'"
proof -
  let ?g = "\<lambda>t. if hit t then f t else t"
  have s': "s' = s\<lparr>ts_tasks := map ?g (ts_tasks s)\<rparr>" using u by (simp add: update_tasks_def)
  have ids: "map tk_id (map ?g (ts_tasks s)) = map tk_id (ts_tasks s)" using f by simp
  have "set (map tk_id (map ?g (ts_tasks s))) = set (map tk_id (ts_tasks s))" unfolding ids ..
  then have "tk_id ` set (map ?g (ts_tasks s)) = tk_id ` set (ts_tasks s)" unfolding set_map .
  moreover have "\<forall>t\<in>set (map ?g (ts_tasks s)). row_ok t" using inv f by (auto simp: store_inv_def)
  moreover have "distinct (map tk_id (map ?g (ts_tasks s)))" unfolding ids using inv by (simp add: store_inv_def)
  moreover have "events_of s' i = events_of s i" for i by (simp add: events_of_def s')
  ultimately show ?thesis using inv unfolding store_inv_def by (simp add: s' del: map_map set_map)
qed

lemma append_task_event_InrD:
  assumes "append_task_event i event_id kind payload now s = Inr s'"
  shows "s' = s\<lparr>ts_events := ts_events s @ [\<lparr>te_task_id = i, te_sequence = next_task_event_sequence s i, te_event_id = event_id,
      te_kind = kind, te_payload = payload, te_created = format_time now\<rparr>]\<rparr>"
    and "event_id \<notin> te_event_id ` set (ts_events s)" and "i \<in> tk_id ` set (ts_tasks s)"
  using assms by (auto simp: append_task_event_def insert_task_event_def split: option.splits if_splits)

lemma append_task_event_inv:
  assumes inv: "store_inv s" and a: "append_task_event i event_id kind payload now s = Inr s'"
  shows "store_inv s'"
proof -
  note D = append_task_event_InrD [OF a]
  let ?e = "\<lparr>te_task_id = i, te_sequence = next_task_event_sequence s i, te_event_id = event_id,
      te_kind = kind, te_payload = payload, te_created = format_time now\<rparr>"
  have ev: "events_of s' j = events_of s j @ (if j = i then [?e] else [])" for j
    by (simp add: D(1) events_of_def)
  have "map te_sequence (events_of s' j) = map int [1..<length (events_of s' j) + 1]" for j
  proof -
    have "map te_sequence (events_of s j) = map int [1..<length (events_of s j) + 1]" using inv by (simp add: store_inv_def)
    then show ?thesis unfolding ev by (simp add: next_sequence_length [OF inv])
  qed
  with inv D(2,3) show ?thesis unfolding store_inv_def by (simp add: D(1))
qed

lemma update_with_event_inv:
  assumes inv: "store_inv s" and f: "\<And>t. t \<in> set (ts_tasks s) \<Longrightarrow> hit t \<Longrightarrow> tk_id (f t) = tk_id t \<and> row_ok (f t)"
    and u: "update_with_event hit f i event_id kind payload now s = Inr (b, s')"
  shows "store_inv s'"
proof -
  obtain rows s1 where s1: "update_tasks hit f s = (rows, s1)" by fastforce
  have i1: "store_inv s1" by (rule update_inv [OF inv f s1])
  with u show ?thesis
    by (auto simp: update_with_event_def s1 split: if_splits sum.splits intro: append_task_event_inv)
qed

lemma claim_inv:
  assumes inv: "store_inv s" and c: "claim_task from claim event_id now s = Inr (b, s')"
  shows "store_inv s'"
  using c unfolding claim_task_def
  by (auto split: option.splits if_splits elim!: update_with_event_inv [OF inv, rotated]
      simp: claim_row_def row_ok_def is_terminal_task_state_def)

lemma renew_inv:
  assumes inv: "store_inv s" and c: "renew_lease i owner expires now s = Inr (b, s')"
  shows "store_inv s'"
  using c unfolding renew_lease_def
  by (auto split: if_splits prod.splits elim!: update_inv [OF inv, rotated]
      simp: row_ok_def active_task_state_def is_terminal_task_state_def)

lemma transition_tx_inv:
  assumes inv: "store_inv s" and c: "transition_tx i from target event event_id now s = Inr (b, s')"
  shows "store_inv s'"
  using c inv unfolding transition_tx_def Let_def transition_times_def
  by (auto split: option.splits if_splits elim!: update_with_event_inv [OF inv, rotated] simp: row_ok_def)

lemma transition_inv:
  "store_inv s \<Longrightarrow> transition_task i from target kind payload event_id now s = Inr (b, s') \<Longrightarrow> store_inv s'"
  unfolding transition_task_def Let_def by (auto split: option.splits if_splits intro: transition_tx_inv)

lemma project_completion_inv:
  assumes inv: "store_inv s" and c: "project_completion env delivery_id f current event_id now s = Inr s'"
  shows "store_inv s'"
proof -
  from c obtain b cp where cp: "project_terminal (\<lambda>i. i \<in> set (ts_workflow_children s)) (ce_redact env) (ce_encode env) delivery_id
      (ts_completions s) (completion_source_of f current event_id now) = Inr (b, cp)" and s': "s' = s\<lparr>ts_completions := cp\<rparr>"
    by (auto simp: project_completion_def split: sum.splits)
  have "completion_inv cp"
    using inv completion_inv_step [OF _ completion_step.project [OF cp]] by (simp add: store_inv_def)
  with inv show ?thesis by (simp add: store_inv_def s' events_of_def)
qed

lemma finish_tx_inv:
  assumes inv: "store_inv s" and term_target: "is_terminal_task_state (fi_target f)"
    and c: "finish_transaction_with_expiry env delivery_id f fence now event_id s = Inr (b, s')"
  shows "store_inv s'"
proof (cases "load_finish_source f s")
  case None
  with inv c show ?thesis by (simp add: finish_transaction_with_expiry_def)
next
  case (Some current)
  obtain ch s2 where u: "update_with_event (finish_hit f current fence now) (finish_row f current now)
      (fi_task_id f) event_id (fi_event_kind f) (fi_payload f) now s = Inr (ch, s2)"
    and s': "\<not> ch \<and> s' = s2 \<or> project_completion env delivery_id f current event_id now s2 = Inr s'"
    using c Some by (auto simp: finish_transaction_with_expiry_def split: sum.splits if_splits)
  have "store_inv s2"
    by (rule update_with_event_inv [OF inv _ u])
      (use term_target in \<open>simp add: finish_row_def transition_times_def Let_def row_ok_def\<close>)
  with s' show ?thesis by (auto intro: project_completion_inv)
qed

lemma finish_inv:
  "store_inv s \<Longrightarrow> finish_task env delivery_id finish now event_id s = Inr (b, s') \<Longrightarrow> store_inv s'"
  unfolding finish_task_def validate_task_finish_def
  by (auto split: option.splits if_splits intro: finish_tx_inv)

lemma recover_task_inv:
  assumes inv: "store_inv s" and c: "recover_expired_task r i now event_id s = Inr (b, s')"
  shows "store_inv s'"
  using c unfolding recover_expired_task_def
  by (rule update_with_event_inv [OF inv, rotated]) (simp add: row_ok_def)

lemma recover_rows_inv:
  "store_inv s \<Longrightarrow> recover_rows r now event_ids k ts s = Inr (batch, s') \<Longrightarrow> store_inv s'"
proof (induction ts arbitrary: k s batch)
  case (Cons t ts)
  from Cons.prems(2) obtain b s1 b' where "recover_expired_task r (tk_id t) now (event_ids k) s = Inr (b, s1)"
    "recover_rows r now event_ids (k + 1) ts s1 = Inr (b', s')"
    by (auto split: sum.splits)
  with Cons recover_task_inv show ?case by blast
qed simp

lemma recover_batch_inv:
  "store_inv s \<Longrightarrow> recover_expired_batch r now event_ids s = Inr (batch, selected, s') \<Longrightarrow> store_inv s'"
  unfolding recover_expired_batch_def Let_def by (auto split: sum.splits intro: recover_rows_inv)

lemma create_inv:
  assumes inv: "store_inv s" and c: "create_task uuid_version draft task_id event_id now s = Inr (t, s')"
  shows "store_inv s'"
proof -
  from c obtain d s1 where t: "t = d\<lparr>tk_id := task_id, tk_state := TaskQueued, tk_created := format_time now, tk_updated := format_time now\<rparr>"
    and s1: "insert_task t s = Inr s1"
    and e: "insert_task_event \<lparr>te_task_id = task_id, te_sequence = 1, te_event_id = event_id,
                  te_kind = ''task_queued'', te_payload = ''{}'', te_created = format_time now\<rparr> s1 = Inr s'"
    by (auto simp: create_task_def Let_def split: option.splits if_splits sum.splits)
  from s1 have fresh: "task_id \<notin> tk_id ` set (ts_tasks s)" and s1': "s1 = s\<lparr>ts_tasks := ts_tasks s @ [t]\<rparr>"
    by (auto simp: insert_task_def t split: if_splits)
  from e have s': "s' = s1\<lparr>ts_events := ts_events s @ [\<lparr>te_task_id = task_id, te_sequence = 1, te_event_id = event_id,
                  te_kind = ''task_queued'', te_payload = ''{}'', te_created = format_time now\<rparr>]\<rparr>"
    and ev: "event_id \<notin> te_event_id ` set (ts_events s)"
    by (auto simp: insert_task_event_def s1' split: option.splits if_splits)
  have none: "events_of s task_id = []" using inv fresh by (auto simp: store_inv_def events_of_def filter_empty_conv)
  have evs: "events_of s' j = (if j = task_id then [\<lparr>te_task_id = task_id, te_sequence = 1, te_event_id = event_id,
                  te_kind = ''task_queued'', te_payload = ''{}'', te_created = format_time now\<rparr>] else events_of s j)" for j
    using none by (auto simp: events_of_def s' s1')
  have seq: "map te_sequence (events_of s' j) = map int [1..<length (events_of s' j) + 1]" for j
  proof (cases "j = task_id")
    case False
    with inv show ?thesis unfolding evs store_inv_def by simp
  qed (simp add: evs)
  have "row_ok t" by (simp add: t row_ok_def is_terminal_task_state_def)
  moreover have "tk_id t = task_id" by (simp add: t)
  ultimately show ?thesis
    using inv fresh ev seq unfolding store_inv_def by (simp add: s' s1')
qed

lemma append_event_inv:
  "store_inv s \<Longrightarrow> append_event i kind payload event_id now s = Inr (e, s') \<Longrightarrow> store_inv s'"
  unfolding append_event_def by (auto split: option.splits sum.splits intro: append_task_event_inv)

lemma append_drafts_inv:
  "store_inv s \<Longrightarrow> append_drafts i now event_ids k ds s = Inr (es, s') \<Longrightarrow> store_inv s'"
proof (induction ds arbitrary: k s es)
  case (Cons d ds)
  from Cons.prems(2) obtain s1 es' where "append_task_event i (event_ids k) (ed_kind d) (ed_payload d) now s = Inr s1"
    "append_drafts i now event_ids (k + 1) ds s1 = Inr (es', s')"
    by (auto split: sum.splits)
  with Cons append_task_event_inv show ?case by blast
qed simp

lemma append_running_inv:
  "store_inv s \<Longrightarrow> append_running_events i owner ds event_ids now s = Inr (es, b, s') \<Longrightarrow> store_inv s'"
  unfolding append_running_events_def by (auto split: option.splits if_splits sum.splits intro: append_drafts_inv)

lemma store_inv_step: "store_inv s \<Longrightarrow> store_step s s' \<Longrightarrow> store_inv s'"
  by (erule store_stepE)
    (blast intro: create_inv claim_inv renew_inv transition_inv finish_inv recover_batch_inv append_event_inv append_running_inv)+

lemma store_inv_init: "store_init s \<Longrightarrow> store_inv s"
  by (simp add: store_init_def store_inv_def events_of_def completion.init_inv)

interpretation task_store: invariant_machine store_init store_step store_inv
  by unfold_locales (fact store_inv_init, fact store_inv_step)

lemma store_reachable_inv: "reachable_from store_init store_step s \<Longrightarrow> store_inv s"
  by (rule task_store.reachable_inv)

section \<open>What the repository promises\<close>

text \<open>
  C7. In every reachable state of the tables: task ids and event ids are unique; a task in a
  terminal state has no lease and has its finishing time; every event belongs to a task, and the
  events of a task are numbered 1, 2, 3, ... without a gap in the order they were appended; and the
  completion tables keep their own invariant.
\<close>

theorem task_store_invariant:
  assumes "reachable_from store_init store_step s"
  shows "distinct (map tk_id (ts_tasks s)) \<and> distinct (map te_event_id (ts_events s)) \<and>
    (\<forall>t\<in>set (ts_tasks s). is_terminal_task_state (tk_state t) \<longrightarrow>
       tk_lease_owner t = None \<and> tk_lease_expires t = None \<and> tk_finished t \<noteq> None) \<and>
    (\<forall>e\<in>set (ts_events s). te_task_id e \<in> tk_id ` set (ts_tasks s)) \<and>
    (\<forall>i. map te_sequence (events_of s i) = map int [1..<length (events_of s i) + 1]) \<and>
    completion_inv (ts_completions s)"
  using store_reachable_inv [OF assms] by (simp add: store_inv_def row_ok_def)

text \<open>A session with one task, created, then claimed by worker \<open>w\<close> with a lease of ten seconds.\<close>

definition sample_task :: "task_state \<Rightarrow> string option \<Rightarrow> task" where
  "sample_task st owner = \<lparr>tk_id = ''t'', tk_kind = ''tool'', tk_parent = None, tk_owner_session = ''s'',
     tk_concurrency_key = [], tk_state = st, tk_result = [], tk_error_code = [], tk_error_message = [],
     tk_created = format_time 0, tk_started = (if st = TaskQueued then None else Some (format_time 0)), tk_finished = None,
     tk_updated = format_time 0, tk_lease_owner = owner,
     tk_lease_expires = (case owner of None \<Rightarrow> None | Some _ \<Rightarrow> Some (format_time 10000000000))\<rparr>"

definition sample_event :: "int \<Rightarrow> string \<Rightarrow> string \<Rightarrow> task_event" where
  "sample_event n i kind = \<lparr>te_task_id = ''t'', te_sequence = n, te_event_id = i, te_kind = kind, te_payload = ''{}'',
     te_created = format_time 0\<rparr>"

definition empty_store :: task_store where
  "empty_store = \<lparr>ts_sessions = [''s''], ts_tasks = [], ts_events = [], ts_workflow_children = [],
     ts_completions = \<lparr>cp_deliveries = [], cp_next = (\<lambda>_. None), cp_diagnostics = (\<lambda>_ _. 0)\<rparr>\<rparr>"

definition claimed_store :: task_store where
  "claimed_store = empty_store\<lparr>ts_tasks := [sample_task TaskRunning (Some ''w'')],
     ts_events := [sample_event 1 ''e1'' ''task_queued'', sample_event 2 ''e2'' ''task_started'']\<rparr>"

lemmas sample_texts = trim_space_ascii_head is_space_def byte_def

definition queued_store :: task_store where
  "queued_store = empty_store\<lparr>ts_tasks := [sample_task TaskQueued None], ts_events := [sample_event 1 ''e1'' ''task_queued'']\<rparr>"

lemma queued_store_reachable: "reachable_from store_init store_step queued_store"
proof -
  let ?R = "reachable_from store_init store_step"
  have 0: "?R empty_store" by (rule reachable_from.start) (simp add: store_init_def completion_init_def empty_store_def)
  have "create_task (\<lambda>_. Some 7) (Some (sample_task TaskQueued None)) ''t'' ''e1'' 0 empty_store
      = Inr (sample_task TaskQueued None, queued_store)"
    by (simp add: create_task_def sample_task_def empty_store_def queued_store_def valid_task_entity_def valid_uuid_v7_def
        sample_texts zero_instant_def insert_task_def insert_task_event_def validate_event_def json_valid_empty_object
        events_of_def sample_event_def Let_def)
  from reachable_from.step [OF 0, OF store_step.create [OF this]] show ?thesis .
qed

lemma queued_store_claim:
  "claim_task TaskQueued (Some \<lparr>cl_task_id = ''t'', cl_lease_owner = ''w'', cl_lease_expires = 10000000000,
      cl_event_kind = ''task_started''\<rparr>) ''e2'' 0 queued_store = Inr (True, claimed_store)"
  by (simp add: claim_task_def claim_row_def sample_task_def empty_store_def claimed_store_def queued_store_def sample_texts
      zero_instant_def update_with_event_def update_tasks_def append_task_event_def insert_task_event_def validate_event_def
      json_valid_empty_object events_of_def sample_event_def next_task_event_sequence_def image_def)

lemma claimed_store_reachable: "reachable_from store_init store_step claimed_store"
  using reachable_from.step [OF queued_store_reachable, OF store_step.claim [OF queued_store_claim]] .

lemma task_store_invariant_witness:
  "map te_sequence (events_of claimed_store ''t'') = map int [1..<length (events_of claimed_store ''t'') + 1] \<and>
   length (events_of claimed_store ''t'') = 2"
  using task_store_invariant [OF claimed_store_reachable]
  by (simp add: events_of_def claimed_store_def sample_event_def)

end
