(* ===== verification/Task_Leases.thy ===== *)
theory Task_Leases
  imports Task_Store
begin

text \<open>
  Leases of the task repository: what a worker that holds one can rely on while others use the
  tables, when a finish takes effect, and how exactly the stored instants decide about expiry.
\<close>

section \<open>Leases\<close>

definition holds_lease :: "task_store \<Rightarrow> string \<Rightarrow> string \<Rightarrow> stamp \<Rightarrow> bool" where
  "holds_lease s i owner expiry \<longleftrightarrow> (\<exists>t. load_task s i = Some t \<and> active_task_state (tk_state t) \<and>
     tk_lease_owner t = Some owner \<and> tk_lease_expires t = Some expiry)"

lemma load_task_update:
  assumes "\<And>t. hit t \<Longrightarrow> tk_id (f t) = tk_id t"
  shows "load_task (s\<lparr>ts_tasks := map (\<lambda>t. if hit t then f t else t) (ts_tasks s)\<rparr>) i =
    map_option (\<lambda>t. if hit t then f t else t) (load_task s i)"
proof -
  have "find (\<lambda>t. tk_id t = i) (map (\<lambda>t. if hit t then f t else t) ts)
      = map_option (\<lambda>t. if hit t then f t else t) (find (\<lambda>t. tk_id t = i) ts)" for ts
    using assms by (induction ts) auto
  then show ?thesis by (simp add: load_task_def)
qed

lemma load_task_append_event: "append_task_event j event_id kind payload now s = Inr s' \<Longrightarrow> load_task s' i = load_task s i"
  using append_task_event_InrD(1) by (fastforce simp: load_task_def)

lemma load_task_update_with_event:
  assumes "update_with_event hit f j event_id kind payload now s = Inr (b, s')" and "\<And>t. hit t \<Longrightarrow> tk_id (f t) = tk_id t"
  shows "load_task s' i = map_option (\<lambda>t. if hit t then f t else t) (load_task s i)"
  using assms(1) load_task_update [OF assms(2)]
  by (auto simp: update_with_event_def update_tasks_def load_task_append_event split: if_splits sum.splits)

lemma holds_lease_update:
  assumes h: "holds_lease s i owner expiry"
    and u: "\<And>t. load_task s i = Some t \<Longrightarrow> load_task s' i = Some (if hit t then f t else t)"
    and keep: "\<And>t. load_task s i = Some t \<Longrightarrow> hit t \<Longrightarrow> active_task_state (tk_state t) \<Longrightarrow> tk_lease_owner t = Some owner \<Longrightarrow>
      tk_lease_expires t = Some expiry \<Longrightarrow> active_task_state (tk_state (f t)) \<and> tk_lease_owner (f t) = Some owner \<and>
      tk_lease_expires (f t) = Some expiry"
  shows "holds_lease s' i owner expiry"
proof -
  obtain t where t: "load_task s i = Some t" "active_task_state (tk_state t)" "tk_lease_owner t = Some owner"
    "tk_lease_expires t = Some expiry" using h by (auto simp: holds_lease_def)
  show ?thesis unfolding holds_lease_def using u [OF t(1)] keep [OF t(1) _ t(2-4)] t(2-4) by auto
qed

text \<open>
  The transactions that anyone but the holder of a lease may run, with recoveries whose bound is
  before the expiry.
\<close>

inductive foreign_step :: "string \<Rightarrow> stamp \<Rightarrow> task_store \<Rightarrow> task_store \<Rightarrow> bool" for owner :: string and expiry :: stamp where
  create: "create_task uuid_version draft task_id event_id now s = Inr (t, s') \<Longrightarrow> foreign_step owner expiry s s'"
| claim_queued: "claim_queued claim event_id now s = Inr (b, s') \<Longrightarrow> foreign_step owner expiry s s'"
| claim_interrupted: "claim_interrupted claim event_id now s = Inr (b, s') \<Longrightarrow> foreign_step owner expiry s s'"
| renew: "renew_lease task_id other expires now s = Inr (b, s') \<Longrightarrow> other \<noteq> owner \<Longrightarrow> foreign_step owner expiry s s'"
| transition: "transition_task task_id from target kind payload event_id now s = Inr (b, s') \<Longrightarrow> target \<noteq> TaskQueued \<Longrightarrow>
    foreign_step owner expiry s s'"
| finish: "finish_task env delivery_id (Some f) event_now event_id s = Inr (b, s') \<Longrightarrow> fi_lease_owner f \<noteq> owner \<Longrightarrow>
    foreign_step owner expiry s s'"
| recover: "recover_expired_batch r now event_ids s = Inr (batch, selected, s') \<Longrightarrow>
    stamp_less (format_time (rv_expires_before r)) expiry \<Longrightarrow> foreign_step owner expiry s s'"
| append: "append_event task_id kind payload event_id now s = Inr (e, s') \<Longrightarrow> foreign_step owner expiry s s'"
| append_running: "append_running_events task_id worker drafts event_ids now s = Inr (es, b, s') \<Longrightarrow> foreign_step owner expiry s s'"

inductive_cases foreign_stepE: "foreign_step owner expiry s s'"

lemma holds_lease_tasks: "ts_tasks s' = ts_tasks s \<Longrightarrow> holds_lease s' i owner expiry = holds_lease s i owner expiry"
  by (simp add: holds_lease_def load_task_def)

lemma holds_lease_claim:
  assumes h: "holds_lease s i owner expiry" and c: "claim_task from claim event_id now s = Inr (b, s')"
    and from_state: "\<not> active_task_state from"
  shows "holds_lease s' i owner expiry"
proof -
  from c obtain c' where u: "update_with_event (\<lambda>t. tk_id t = cl_task_id c' \<and> tk_state t = from) (claim_row c' now)
            (cl_task_id c') event_id (cl_event_kind c') ''{}'' now s = Inr (b, s')"
    by (auto simp: claim_task_def split: option.splits if_splits)
  show ?thesis
  proof (rule holds_lease_update [OF h])
    fix t
    assume "load_task s i = Some t"
    then show "load_task s' i = Some (if tk_id t = cl_task_id c' \<and> tk_state t = from then claim_row c' now t else t)"
      using load_task_update_with_event [OF u, of i] by (simp add: claim_row_def)
  qed (use from_state in simp)
qed

lemma holds_lease_finish:
  assumes h: "holds_lease s i owner expiry" and c: "finish_task env delivery_id (Some f) now event_id s = Inr (b, s')"
    and other: "fi_lease_owner f \<noteq> owner"
  shows "holds_lease s' i owner expiry"
proof (cases "load_finish_source f s")
  case None
  with c h show ?thesis by (auto simp: finish_task_def finish_transaction_with_expiry_def split: option.splits)
next
  case (Some current)
  with c obtain ch s2 where u: "update_with_event (finish_hit f current zero_instant now) (finish_row f current now)
      (fi_task_id f) event_id (fi_event_kind f) (fi_payload f) now s = Inr (ch, s2)"
    and s': "ts_tasks s' = ts_tasks s2"
    by (auto simp: finish_task_def finish_transaction_with_expiry_def project_completion_def
        split: option.splits sum.splits if_splits)
  have "holds_lease s2 i owner expiry"
  proof (rule holds_lease_update [OF h])
    fix t
    assume t: "load_task s i = Some t"
    show "load_task s2 i = Some (if finish_hit f current zero_instant now t then finish_row f current now t else t)"
      using load_task_update_with_event [OF u, of i] t by (simp add: finish_row_def Let_def split: prod.splits)
    assume "finish_hit f current zero_instant now t" "tk_lease_owner t = Some owner"
    with other show "active_task_state (tk_state (finish_row f current now t)) \<and>
      tk_lease_owner (finish_row f current now t) = Some owner \<and> tk_lease_expires (finish_row f current now t) = Some expiry"
      by (auto simp: finish_hit_def)
  qed
  with holds_lease_tasks [OF s'] show ?thesis by simp
qed

lemma holds_lease_append: "append_task_event j event_id kind payload now s = Inr s' \<Longrightarrow>
    holds_lease s' i owner expiry = holds_lease s i owner expiry"
  by (simp add: holds_lease_def load_task_append_event)

lemma holds_lease_create:
  assumes h: "holds_lease s i owner expiry" and c: "create_task uuid_version draft task_id event_id now s = Inr (t, s')"
  shows "holds_lease s' i owner expiry"
proof -
  from c have "ts_tasks s' = ts_tasks s @ [t]"
    by (auto simp: create_task_def Let_def insert_task_def insert_task_event_def split: option.splits if_splits sum.splits)
  moreover obtain u where "load_task s i = Some u" using h by (auto simp: holds_lease_def)
  ultimately have "load_task s' i = load_task s i" by (simp add: load_task_def find_append)
  with h show ?thesis by (simp add: holds_lease_def)
qed

lemma holds_lease_renew:
  assumes h: "holds_lease s i owner expiry" and c: "renew_lease j other expires now s = Inr (b, s')" and o: "other \<noteq> owner"
  shows "holds_lease s' i owner expiry"
proof -
  let ?hit = "\<lambda>t. tk_id t = j \<and> tk_lease_owner t = Some other \<and> active_task_state (tk_state t) \<and> expires_after t now"
  let ?f = "\<lambda>t. t\<lparr>tk_lease_expires := Some (format_time expires), tk_updated := format_time now\<rparr>"
  from c have s': "s' = s\<lparr>ts_tasks := map (\<lambda>t. if ?hit t then ?f t else t) (ts_tasks s)\<rparr>"
    by (auto simp: renew_lease_def update_tasks_def split: if_splits)
  show ?thesis
  proof (rule holds_lease_update [OF h])
    fix t
    assume "load_task s i = Some t"
    then show "load_task s' i = Some (if ?hit t then ?f t else t)"
      unfolding s' using load_task_update [where hit = ?hit and f = ?f and s = s and i = i] by simp
  qed (use o in simp)
qed

lemma holds_lease_transition:
  assumes h: "holds_lease s i owner expiry" and c: "transition_task j from target kind payload event_id now s = Inr (b, s')"
    and tq: "target \<noteq> TaskQueued"
  shows "holds_lease s' i owner expiry"
proof -
  from c obtain p where tx: "transition_tx j from target \<lparr>ed_kind = kind, ed_payload = p\<rparr> event_id now s = Inr (b, s')"
    by (auto simp: transition_task_def Let_def split: option.splits if_splits)
  show ?thesis
  proof (cases "load_task s j")
    case None
    with tx h show ?thesis by (simp add: transition_tx_def)
  next
    case (Some current)
    let ?final = "is_terminal_task_state target"
    let ?hit = "\<lambda>t. tk_id t = j \<and> tk_state t = tk_state current \<and> (\<not> ?final \<or> tk_lease_owner t = None)"
    let ?f = "\<lambda>st fi t. t\<lparr>tk_state := target, tk_started := st, tk_finished := fi, tk_updated := format_time now,
       tk_lease_owner := (if ?final then None else tk_lease_owner t), tk_lease_expires := (if ?final then None else tk_lease_expires t)\<rparr>"
    obtain st fi where tt: "transition_times current target now = (st, fi)" by fastforce
    from tx Some tt consider "s' = s" | "update_with_event ?hit (?f st fi) j event_id kind p now s = Inr (b, s')"
      by (auto simp: transition_tx_def Let_def split: if_splits)
    then show ?thesis
    proof cases
      case 2
      show ?thesis
      proof (rule holds_lease_update [OF h])
        fix t
        assume "load_task s i = Some t"
        then show "load_task s' i = Some (if ?hit t then ?f st fi t else t)"
          using load_task_update_with_event [OF 2, of i] by simp
        assume "?hit t" "active_task_state (tk_state t)" "tk_lease_owner t = Some owner" "tk_lease_expires t = Some expiry"
        then show "active_task_state (tk_state (?f st fi t)) \<and> tk_lease_owner (?f st fi t) = Some owner \<and>
            tk_lease_expires (?f st fi t) = Some expiry"
          using tq by (cases target) (auto simp: is_terminal_task_state_def active_task_state_def)
      qed
    qed (use h in simp)
  qed
qed

lemma holds_lease_recover_rows:
  assumes before: "stamp_less (format_time (rv_expires_before r)) expiry"
  shows "holds_lease s i owner expiry \<Longrightarrow> recover_rows r now event_ids k ts s = Inr (batch, s') \<Longrightarrow> holds_lease s' i owner expiry"
proof (induction ts arbitrary: k s batch)
  case (Cons t ts)
  from Cons.prems(2) obtain b s1 b' where u: "recover_expired_task r (tk_id t) now (event_ids k) s = Inr (b, s1)"
    and rest: "recover_rows r now event_ids (k + 1) ts s1 = Inr (b', s')"
    by (auto split: sum.splits)
  have "holds_lease s1 i owner expiry"
  proof (rule holds_lease_update [OF Cons.prems(1)])
    fix t'
    assume "load_task s i = Some t'"
    then show "load_task s1 i = Some (if tk_id t' = tk_id t \<and> active_task_state (tk_state t') \<and> absent_or_expired t' (rv_expires_before r)
        then t'\<lparr>tk_state := rv_target r, tk_error_code := rv_error_code r, tk_error_message := rv_error_message r,
         tk_finished := Some (format_time now), tk_updated := format_time now, tk_lease_owner := None,
         tk_lease_expires := None\<rparr> else t')"
      using load_task_update_with_event [OF u [unfolded recover_expired_task_def], of i] by simp
  qed (use before in \<open>simp add: absent_or_expired_def\<close>)
  then show ?case using rest by (rule Cons.IH)
qed simp

lemma holds_lease_append_drafts:
  "append_drafts j now event_ids k ds s = Inr (es, s') \<Longrightarrow> holds_lease s' i owner expiry = holds_lease s i owner expiry"
proof (induction ds arbitrary: k s es)
  case (Cons d ds)
  from Cons.prems obtain s1 es' where "append_task_event j (event_ids k) (ed_kind d) (ed_payload d) now s = Inr s1"
    "append_drafts j now event_ids (k + 1) ds s1 = Inr (es', s')"
    by (auto split: sum.splits)
  with Cons.IH holds_lease_append show ?case by blast
qed simp

lemma holds_lease_foreign_step:
  "foreign_step owner expiry s s' \<Longrightarrow> holds_lease s i owner expiry \<Longrightarrow> holds_lease s' i owner expiry"
proof (induction rule: foreign_step.induct)
  case (claim_queued claim event_id now s b s')
  then show ?case unfolding claim_queued_def by (auto intro: holds_lease_claim simp: active_task_state_def)
next
  case (claim_interrupted claim event_id now s b s')
  then show ?case unfolding claim_interrupted_def by (auto intro: holds_lease_claim simp: active_task_state_def)
next
  case (recover r now event_ids s batch selected s')
  then show ?case
    by (auto simp: recover_expired_batch_def Let_def split: sum.splits intro: holds_lease_recover_rows)
next
  case (append task_id kind payload event_id now s e s')
  then show ?case by (auto simp: append_event_def holds_lease_append split: option.splits sum.splits)
next
  case (append_running task_id worker drafts event_ids now s es b s')
  then show ?case
    by (auto simp: append_running_events_def holds_lease_append_drafts split: option.splits sum.splits if_splits)
qed (auto intro: holds_lease_create holds_lease_renew holds_lease_transition holds_lease_finish)

lemma holds_lease_foreign_steps:
  "(foreign_step owner expiry)\<^sup>*\<^sup>* s s' \<Longrightarrow> holds_lease s i owner expiry \<Longrightarrow> holds_lease s' i owner expiry"
  by (induction rule: rtranclp_induct) (auto intro: holds_lease_foreign_step)

text \<open>
  C4. A lease excludes everyone else: as long as its holder does nothing and no recovery runs with
  a bound at or after the expiry, no sequence of creations, claims, renewals and finishes by other
  owners, cancellations, recoveries or appended events takes the task away. The holder can then
  still renew the lease and append events at any time that is stored before the expiry, while a
  finish by anyone else changes nothing.
\<close>

theorem lease_excludes_others:
  assumes "(foreign_step owner expiry)\<^sup>*\<^sup>* s s'" and "holds_lease s i owner expiry"
    and "distinct (map tk_id (ts_tasks s'))" and "stamp_less (format_time now) expiry"
    and "trim_space owner \<noteq> []" "expires \<noteq> zero_instant"
  shows "holds_lease s' i owner expiry \<and> owns_running_task s' i owner now \<and>
    (\<exists>s''. renew_lease i owner expires now s' = Inr (True, s'')) \<and>
    (fi_task_id f = i \<longrightarrow> fi_lease_owner f \<noteq> owner \<longrightarrow>
       finish_transaction_with_expiry env delivery_id f zero_instant now event_id s' = Inr (False, s'))"
proof -
  have h: "holds_lease s' i owner expiry" by (rule holds_lease_foreign_steps [OF assms(1,2)])
  then obtain t where t: "t \<in> set (ts_tasks s')" "tk_id t = i" "active_task_state (tk_state t)" "tk_lease_owner t = Some owner"
    "tk_lease_expires t = Some expiry"
    unfolding holds_lease_def using load_task_SomeD by blast
  have live: "expires_after t now" using t(5) assms(4) by (simp add: expires_after_def)
  have owns: "owns_running_task s' i owner now"
    unfolding owns_running_task_def using t live by (auto simp: filter_empty_conv)
  have "length (filter (\<lambda>t. tk_id t = i \<and> tk_lease_owner t = Some owner \<and> active_task_state (tk_state t) \<and>
      expires_after t now) (ts_tasks s')) = 1"
    using t live by (subst filter_id_single [OF assms(3) t(1)]) auto
  then have renew: "\<exists>s''. renew_lease i owner expires now s' = Inr (True, s'')"
    using assms(5,6) by (simp add: renew_lease_def update_tasks_def)
  have "finish_transaction_with_expiry env delivery_id f zero_instant now event_id s' = Inr (False, s')"
    if f: "fi_task_id f = i" "fi_lease_owner f \<noteq> owner"
  proof (cases "load_finish_source f s'")
    case (Some current)
    have "\<not> finish_hit f current zero_instant now u" if "u \<in> set (ts_tasks s')" for u
    proof
      assume u: "finish_hit f current zero_instant now u"
      then have "tk_id u = tk_id t" using f t(2) by (simp add: finish_hit_def)
      with that t(1) assms(3) have "u = t" by (auto simp: distinct_map dest: inj_onD)
      with u f t(4) show False by (auto simp: finish_hit_def)
    qed
    then have "filter (finish_hit f current zero_instant now) (ts_tasks s') = []" by (simp add: filter_empty_conv)
    with Some show ?thesis
      by (simp add: finish_transaction_with_expiry_def update_with_event_def update_tasks_none)
  qed (simp add: finish_transaction_with_expiry_def)
  with h owns renew show ?thesis by blast
qed

lemma lease_excludes_others_witness: "owns_running_task claimed_store ''t'' ''w'' 0"
proof -
  have "holds_lease claimed_store ''t'' ''w'' (format_time 10000000000)"
    by (simp add: holds_lease_def load_task_def claimed_store_def sample_task_def active_task_state_def)
  moreover have "distinct (map tk_id (ts_tasks claimed_store))" by (simp add: claimed_store_def)
  moreover have "stamp_less (format_time 0) (format_time 10000000000)" by (rule stamp_less_second) simp
  moreover have "trim_space ''w'' \<noteq> []" "(0 :: int) \<noteq> zero_instant" by (simp_all add: sample_texts zero_instant_def)
  ultimately show ?thesis
    using lease_excludes_others [OF rtranclp.rtrancl_refl, of claimed_store "''t''" "''w''" "format_time 10000000000" 0 0] by blast
qed

text \<open>
  What the stored texts decide about a lease: an instant at least a second before the expiry
  always finds the lease live, and an instant that finds it live is less than a second after the
  expiry. Within that second the texts can be wrong: a lease that expired half a second ago may
  still be renewed, because the dropped zeros of the fraction change the order.
\<close>

theorem lease_expiry_within_a_second:
  assumes "tk_lease_expires t = Some (format_time e)"
  shows "(now + 1000000000 \<le> e \<longrightarrow> expires_after t now) \<and> (expires_after t now \<longrightarrow> now < e + 1000000000) \<and>
    expires_after (t\<lparr>tk_lease_expires := Some (format_time 0)\<rparr>) 500000000"
  using assms stamp_less_far [of now e] stamp_less_near [of now e] stamp_order_reversed
  by (simp add: expires_after_def)

lemma lease_expiry_within_a_second_witness: "expires_after (sample_task TaskRunning (Some ''w'')) 9000000000"
  using lease_expiry_within_a_second [of "sample_task TaskRunning (Some ''w'')" 10000000000 9000000000]
  by (simp add: sample_task_def)

lemma finish_outcome_iff:
  assumes inv: "store_inv s"
    and fin_task: "finish_task env delivery_id (Some f) now event_id s = Inr (b, s')"
  shows "(b \<longleftrightarrow> (\<exists>t. load_task s (fi_task_id f) = Some t \<and> tk_state t \<in> set (fi_from f) \<and>
       (if fi_lease_owner f = [] then tk_lease_owner t = None \<or> tk_lease_owner t = Some []
        else tk_lease_owner t = Some (fi_lease_owner f) \<and> expires_after t now))) \<and>
    (\<not> b \<longrightarrow> s' = s) \<and>
    (b \<longrightarrow> (\<exists>t. load_task s' (fi_task_id f) = Some t \<and> tk_state t = fi_target f \<and> tk_lease_owner t = None \<and>
       tk_lease_expires t = None \<and> tk_finished t = Some (format_time now) \<and> tk_result t = fi_result f))"
proof -
  have d: "distinct (map tk_id (ts_tasks s))" using inv by (simp add: store_inv_def)
  from fin_task have fin: "finish_transaction_with_expiry env delivery_id f zero_instant now event_id s = Inr (b, s')"
    and target: "is_terminal_task_state (fi_target f)"
    by (auto simp: finish_task_def validate_task_finish_def split: option.splits if_splits)
  show ?thesis
  proof (cases "load_finish_source f s")
    case None
    with fin have b: "\<not> b" "s' = s" by (simp_all add: finish_transaction_with_expiry_def)
    from None have "\<not> (\<exists>t. load_task s (fi_task_id f) = Some t \<and> tk_state t \<in> set (fi_from f))"
      by (auto simp: load_finish_source_def split: option.splits if_splits)
    with b show ?thesis by blast
  next
    case (Some cur)
    then have cur: "load_task s (fi_task_id f) = Some cur" "tk_state cur \<in> set (fi_from f)"
      by (auto simp: load_finish_source_def split: option.splits if_splits)
    have mem: "cur \<in> set (ts_tasks s)" "tk_id cur = fi_task_id f" using load_task_SomeD [OF cur(1)] by simp_all
    let ?hit = "finish_hit f cur zero_instant now"
    have ok: "?hit cur \<longleftrightarrow> (if fi_lease_owner f = [] then tk_lease_owner cur = None \<or> tk_lease_owner cur = Some []
        else tk_lease_owner cur = Some (fi_lease_owner f) \<and> expires_after cur now)"
      using mem(2) by (auto simp: finish_hit_def)
    show ?thesis
    proof (cases "?hit cur")
      case False
      have "\<not> ?hit u" if "u \<in> set (ts_tasks s)" for u
      proof
        assume u: "?hit u"
        then have "tk_id u = tk_id cur" using mem(2) by (simp add: finish_hit_def)
        with that mem(1) d have "u = cur" by (auto simp: distinct_map dest: inj_onD)
        with u False show False by simp
      qed
      then have "filter ?hit (ts_tasks s) = []" by (simp add: filter_empty_conv)
      with fin Some have "\<not> b" "s' = s"
        by (simp_all add: finish_transaction_with_expiry_def update_with_event_def update_tasks_none)
      with False ok cur show ?thesis by auto
    next
      case True
      have one: "length (filter ?hit (ts_tasks s)) = 1"
        using True mem by (subst filter_id_single [OF d mem(1)]) (auto simp: finish_hit_def)
      from fin Some obtain ch s2 where u: "update_with_event ?hit (finish_row f cur now) (fi_task_id f) event_id
          (fi_event_kind f) (fi_payload f) now s = Inr (ch, s2)"
        and rest: "\<not> ch \<and> \<not> b \<or> ch \<and> b \<and> load_task s' (fi_task_id f) = load_task s2 (fi_task_id f)"
        by (auto simp: finish_transaction_with_expiry_def project_completion_def load_task_def
            split: sum.splits if_splits)
      from u one have "ch" by (auto simp: update_with_event_def update_tasks_def split: sum.splits)
      with rest have b: "b" "load_task s' (fi_task_id f) = load_task s2 (fi_task_id f)" by simp_all
      have "load_task s2 (fi_task_id f) = Some (finish_row f cur now cur)"
        using load_task_update_with_event [OF u, of "fi_task_id f"] cur(1) True
        by (simp add: finish_row_def Let_def split: prod.splits)
      with b True ok cur target show ?thesis by (auto simp: finish_row_def transition_times_def Let_def)
    qed
  qed
qed

text \<open>
  C5. A finish takes effect exactly when the task is in one of the expected states and the caller
  is its owner: the lease must be its own and still live, or the task must have no owner when the
  caller names none. Otherwise it reports \<open>False\<close> and the tables do not change; when it takes
  effect the task has the requested terminal state, no lease and its finishing time.
\<close>

theorem finish_requires_live_lease:
  assumes "reachable_from store_init store_step s"
    and "finish_task env delivery_id (Some f) now event_id s = Inr (b, s')"
  shows "(b \<longleftrightarrow> (\<exists>t. load_task s (fi_task_id f) = Some t \<and> tk_state t \<in> set (fi_from f) \<and>
       (if fi_lease_owner f = [] then tk_lease_owner t = None \<or> tk_lease_owner t = Some []
        else tk_lease_owner t = Some (fi_lease_owner f) \<and> expires_after t now))) \<and>
    (\<not> b \<longrightarrow> s' = s) \<and>
    (b \<longrightarrow> (\<exists>t. load_task s' (fi_task_id f) = Some t \<and> tk_state t = fi_target f \<and> tk_lease_owner t = None \<and>
       tk_lease_expires t = None \<and> tk_finished t = Some (format_time now) \<and> tk_result t = fi_result f))"
  by (rule finish_outcome_iff [OF store_reachable_inv [OF assms(1)] assms(2)])

definition sample_env :: completion_env where
  "sample_env = \<lparr>ce_redact = Some, ce_encode = (\<lambda>_. Some ''{}'')\<rparr>"

lemma finish_requires_live_lease_witness:
  "\<exists>s'. finish_task sample_env [] (Some \<lparr>fi_task_id = ''t'', fi_event_kind = ''task_failed'', fi_result = [], fi_error_code = [],
      fi_error_message = [], fi_payload = ''{}'', fi_lease_owner = ''other'', fi_target = TaskFailed, fi_from = [TaskRunning]\<rparr>)
      0 ''e3'' claimed_store = Inr (False, s') \<and> s' = claimed_store"
proof -
  have "is_ok (finish_task sample_env [] (Some \<lparr>fi_task_id = ''t'', fi_event_kind = ''task_failed'', fi_result = [],
      fi_error_code = [], fi_error_message = [], fi_payload = ''{}'', fi_lease_owner = ''other'', fi_target = TaskFailed,
      fi_from = [TaskRunning]\<rparr>) 0 ''e3'' claimed_store)"
    by (simp add: finish_task_def validate_task_finish_def validate_event_def is_terminal_task_state_def sample_texts
        json_valid_empty_object finish_transaction_with_expiry_def load_finish_source_def load_task_def claimed_store_def
        sample_task_def update_with_event_def update_tasks_def finish_hit_def)
  then obtain b s' where r: "finish_task sample_env [] (Some \<lparr>fi_task_id = ''t'', fi_event_kind = ''task_failed'', fi_result = [],
      fi_error_code = [], fi_error_message = [], fi_payload = ''{}'', fi_lease_owner = ''other'', fi_target = TaskFailed,
      fi_from = [TaskRunning]\<rparr>) 0 ''e3'' claimed_store = Inr (b, s')"
    by (auto simp: is_ok_iff)
  from finish_requires_live_lease [OF claimed_store_reachable r] r show ?thesis
    by (auto simp: load_task_def claimed_store_def sample_task_def)
qed

end
