(* ===== verification/Task_Recovery.thy ===== *)
theory Task_Recovery
  imports Task_Leases
begin

text \<open>
  The recovery of abandoned tasks in batches of a hundred: it terminates and is complete.
\<close>

section \<open>Recovery\<close>

definition abandoned :: "task_recovery \<Rightarrow> task \<Rightarrow> bool" where
  "abandoned r t \<longleftrightarrow> active_task_state (tk_state t) \<and> absent_or_expired t (rv_expires_before r)"

definition recovered_row :: "task_recovery \<Rightarrow> int \<Rightarrow> task \<Rightarrow> task" where
  "recovered_row r now t = t\<lparr>tk_state := rv_target r, tk_error_code := rv_error_code r, tk_error_message := rv_error_message r,
         tk_finished := Some (format_time now), tk_updated := format_time now, tk_lease_owner := None,
         tk_lease_expires := None\<rparr>"

lemma recover_expired_task_eq:
  "recover_expired_task r i now event_id s = update_with_event (\<lambda>t. tk_id t = i \<and> abandoned r t) (recovered_row r now)
     i event_id (rv_event_kind r) (rv_payload r) now s"
proof -
  have "recovered_row r now = (\<lambda>t. t\<lparr>tk_state := rv_target r, tk_error_code := rv_error_code r,
         tk_error_message := rv_error_message r, tk_finished := Some (format_time now), tk_updated := format_time now,
         tk_lease_owner := None, tk_lease_expires := None\<rparr>)" by (rule ext) (simp add: recovered_row_def)
  then show ?thesis by (simp add: recover_expired_task_def abandoned_def)
qed

lemma recovered_not_abandoned: "is_terminal_task_state (rv_target r) \<Longrightarrow> \<not> abandoned r (recovered_row r now t)"
  by (auto simp: abandoned_def recovered_row_def active_task_state_def is_terminal_task_state_def)

abbreviation abandoned_count :: "task_recovery \<Rightarrow> task_store \<Rightarrow> nat" where
  "abandoned_count r s \<equiv> length (filter (abandoned r) (ts_tasks s))"

lemma filter_update_less:
  assumes "\<And>t. \<not> P (f t)"
  shows "length (filter P (map (\<lambda>t. if h t \<and> P t then f t else t) ts)) + length (filter (\<lambda>t. h t \<and> P t) ts) = length (filter P ts)"
  using assms by (induction ts) auto

lemma update_with_event_tasks:
  assumes "update_with_event hit f i event_id kind payload now s = Inr (b, s')"
  shows "ts_tasks s' = map (\<lambda>t. if hit t then f t else t) (ts_tasks s)" and "b \<longleftrightarrow> length (filter hit (ts_tasks s)) = 1"
  using assms append_task_event_InrD(1)
  by (fastforce simp: update_with_event_def update_tasks_def split: if_splits sum.splits)+

lemma recover_task_count:
  assumes "is_terminal_task_state (rv_target r)" and u: "recover_expired_task r i now event_id s = Inr (b, s')"
  shows "abandoned_count r s' + (if b then 1 else 0) \<le> abandoned_count r s"
  using update_with_event_tasks [OF u [unfolded recover_expired_task_eq]]
    filter_update_less [where P = "abandoned r" and f = "recovered_row r now" and h = "\<lambda>t. tk_id t = i" and ts = "ts_tasks s"]
    recovered_not_abandoned [OF assms(1)] by auto

lemma recover_rows_count:
  assumes "is_terminal_task_state (rv_target r)"
  shows "recover_rows r now event_ids k ts s = Inr (batch, s') \<Longrightarrow> abandoned_count r s' + length batch \<le> abandoned_count r s"
proof (induction ts arbitrary: k s batch)
  case (Cons t ts)
  from Cons.prems obtain b s1 b' where u: "recover_expired_task r (tk_id t) now (event_ids k) s = Inr (b, s1)"
    and rest: "recover_rows r now event_ids (k + 1) ts s1 = Inr (b', s')" and batch: "batch = (if b then tk_id t # b' else b')"
    by (auto split: sum.splits)
  from recover_task_count [OF assms u] Cons.IH [OF rest] batch show ?case by (auto split: if_splits)
qed simp

lemma recover_batch_count:
  assumes "is_terminal_task_state (rv_target r)" and "recover_expired_batch r now event_ids s = Inr (batch, selected, s')"
  shows "abandoned_count r s' + length batch \<le> abandoned_count r s"
  using assms(2) recover_rows_count [OF assms(1)]
  by (auto simp: recover_expired_batch_def Let_def split: sum.splits)

text \<open>Over distinct rows that are all recoverable, a batch recovers every one of them.\<close>

lemma recover_rows_all:
  "store_inv s \<Longrightarrow> distinct (map tk_id ts) \<Longrightarrow> \<forall>t\<in>set ts. t \<in> set (ts_tasks s) \<and> abandoned r t \<Longrightarrow>
   recover_rows r now event_ids k ts s = Inr (batch, s') \<Longrightarrow>
   batch = map tk_id ts \<and> ts_tasks s' = map (\<lambda>t. if tk_id t \<in> set batch then recovered_row r now t else t) (ts_tasks s)"
proof (induction ts arbitrary: k s batch)
  case Nil
  then show ?case by simp
next
  case (Cons t ts)
  from Cons.prems(4) obtain b s1 b' where u: "recover_expired_task r (tk_id t) now (event_ids k) s = Inr (b, s1)"
    and rest: "recover_rows r now event_ids (k + 1) ts s1 = Inr (b', s')" and batch: "batch = (if b then tk_id t # b' else b')"
    by (auto split: sum.splits)
  have d: "distinct (map tk_id (ts_tasks s))" using Cons.prems(1) by (simp add: store_inv_def)
  have t: "t \<in> set (ts_tasks s)" "abandoned r t" using Cons.prems(3) by simp_all
  have hit: "u \<in> set (ts_tasks s) \<Longrightarrow> tk_id u = tk_id t \<and> abandoned r u \<longleftrightarrow> tk_id u = tk_id t" for u
    using d t by (auto simp: distinct_map dest: inj_onD)
  note T = update_with_event_tasks [OF u [unfolded recover_expired_task_eq]]
  have b: b using T(2) t by (subst (asm) filter_id_single [OF d t(1)]) auto
  have s1: "ts_tasks s1 = map (\<lambda>u. if tk_id u = tk_id t then recovered_row r now u else u) (ts_tasks s)"
    unfolding T(1) using hit by (intro map_cong) auto
  have "\<forall>u\<in>set ts. u \<in> set (ts_tasks s1) \<and> abandoned r u"
  proof
    fix u
    assume u: "u \<in> set ts"
    with Cons.prems(2) have "tk_id u \<noteq> tk_id t" by (auto simp: image_iff)
    with u Cons.prems(3) show "u \<in> set (ts_tasks s1) \<and> abandoned r u" unfolding s1 by force
  qed
  with Cons.IH [OF recover_task_inv [OF Cons.prems(1) u] _ _ rest] Cons.prems(2)
  have IH: "b' = map tk_id ts" "ts_tasks s' = map (\<lambda>u. if tk_id u \<in> set b' then recovered_row r now u else u) (ts_tasks s1)"
    by auto
  have id: "tk_id (recovered_row r now u) = tk_id u" for u by (simp add: recovered_row_def)
  have "tk_id t \<notin> set b'" using Cons.prems(2) IH(1) by simp
  then have "ts_tasks s' = map (\<lambda>u. if tk_id u \<in> set (tk_id t # b') then recovered_row r now u else u) (ts_tasks s)"
    unfolding IH(2) s1 map_map by (intro map_cong) (auto simp: id)
  with b batch IH(1) show ?case by simp
qed

lemma recover_batch_complete:
  assumes inv: "store_inv s" and c: "recover_expired_batch r now event_ids s = Inr (batch, selected, s')"
  defines "rows \<equiv> take recovery_batch_size (order_by created_before (filter (recoverable r) (ts_tasks s)))"
  shows "batch = map tk_id rows \<and> selected = length rows \<and> distinct batch \<and>
    ts_tasks s' = map (\<lambda>t. if tk_id t \<in> set batch then recovered_row r now t else t) (ts_tasks s)"
proof -
  have d: "distinct (map tk_id (ts_tasks s))" using inv by (simp add: store_inv_def)
  have "mset (map tk_id (order_by created_before (filter (recoverable r) (ts_tasks s))))
      = mset (map tk_id (filter (recoverable r) (ts_tasks s)))" by simp
  moreover have "distinct (map tk_id (filter (recoverable r) (ts_tasks s)))" using d by (rule distinct_map_filter)
  ultimately have "distinct (map tk_id (order_by created_before (filter (recoverable r) (ts_tasks s))))"
    by (metis mset_eq_imp_distinct_iff)
  then have dr: "distinct (map tk_id rows)" unfolding rows_def take_map [symmetric] by (rule distinct_take)
  have "\<forall>t\<in>set rows. t \<in> set (ts_tasks s) \<and> abandoned r t"
    by (auto simp: rows_def recoverable_def abandoned_def dest!: in_set_takeD)
  moreover from c have "recover_rows r now event_ids 0 rows s = Inr (batch, s')" and "selected = length rows"
    by (auto simp: recover_expired_batch_def rows_def Let_def split: sum.splits)
  ultimately show ?thesis using recover_rows_all [OF inv dr] dr by blast
qed

lemma recover_loop_complete:
  assumes target: "is_terminal_task_state (rv_target r)"
  shows "store_inv s \<Longrightarrow> \<exists>res s'. recover_loop r clock event_ids n acc s = Some (res, s') \<and>
    (\<forall>ids. res = Inr ids \<longrightarrow> (\<exists>new. ids = acc @ new \<and> distinct new \<and>
       set new = tk_id ` {t \<in> set (ts_tasks s). recoverable r t} \<and> filter (recoverable r) (ts_tasks s') = []))"
proof (induction "abandoned_count r s" arbitrary: s n acc rule: less_induct)
  case less
  note inv = less.prems
  have inj: "inj_on tk_id (set (ts_tasks s))" using inv by (simp add: store_inv_def distinct_map)
  show ?case
  proof (cases "recover_expired_batch r (clock n) (event_ids n) s")
    case (Inl e)
    then show ?thesis by (subst recover_loop.simps) simp
  next
    case (Inr x)
    then obtain batch selected s1 where c: "recover_expired_batch r (clock n) (event_ids n) s = Inr (batch, selected, s1)"
      by (cases x) auto
    let ?all = "order_by created_before (filter (recoverable r) (ts_tasks s))"
    have B: "batch = map tk_id (take recovery_batch_size ?all)" "selected = length batch" "distinct batch"
      "ts_tasks s1 = map (\<lambda>t. if tk_id t \<in> set batch then recovered_row r (clock n) t else t) (ts_tasks s)"
      using recover_batch_complete [OF inv c] by auto
    have dead: "\<not> recoverable r (recovered_row r (clock n) t)" for t
      using recovered_not_abandoned [OF target] by (simp add: recoverable_def abandoned_def)
    have left: "{t \<in> set (ts_tasks s1). recoverable r t} = {t \<in> set (ts_tasks s). recoverable r t \<and> tk_id t \<notin> set batch}"
      unfolding B(4) using dead by (auto split: if_splits)
    have sub: "set batch \<subseteq> tk_id ` {t \<in> set (ts_tasks s). recoverable r t}"
      unfolding B(1) by (auto dest!: in_set_takeD)
    show ?thesis
    proof (cases "selected < recovery_batch_size \<or> batch = []")
      case True
      have all: "take recovery_batch_size ?all = ?all"
      proof (rule ccontr)
        assume "\<not> ?thesis"
        then have "length (take recovery_batch_size ?all) = recovery_batch_size" by (simp add: min_def)
        then have "length batch = recovery_batch_size" unfolding B(1) length_map .
        with True B(2) show False by (simp add: recovery_batch_size_def)
      qed
      have new: "set batch = tk_id ` {t \<in> set (ts_tasks s). recoverable r t}" unfolding B(1) all by simp
      have "filter (recoverable r) (ts_tasks s1) = []"
        using left new by (auto simp: filter_empty_conv)
      with True c new B(3) show ?thesis by (subst recover_loop.simps) simp
    next
      case False
      have "abandoned_count r s1 < abandoned_count r s"
        using recover_batch_count [OF target c] False by (cases batch) auto
      from less.hyps [OF this recover_batch_inv [OF inv c], of "n + 1" "acc @ batch"]
      obtain res s' where L: "recover_loop r clock event_ids (n + 1) (acc @ batch) s1 = Some (res, s')"
        and I: "\<And>ids. res = Inr ids \<Longrightarrow> \<exists>new. ids = (acc @ batch) @ new \<and> distinct new \<and>
           set new = tk_id ` {t \<in> set (ts_tasks s1). recoverable r t} \<and> filter (recoverable r) (ts_tasks s') = []"
        by blast
      have "\<exists>new. ids = acc @ new \<and> distinct new \<and> set new = tk_id ` {t \<in> set (ts_tasks s). recoverable r t} \<and>
          filter (recoverable r) (ts_tasks s') = []" if res: "res = Inr ids" for ids
      proof -
        obtain new where new: "ids = (acc @ batch) @ new" "distinct new"
          "set new = tk_id ` {t \<in> set (ts_tasks s1). recoverable r t}" "filter (recoverable r) (ts_tasks s') = []"
          using I [OF res] by blast
        have "set new = tk_id ` {t \<in> set (ts_tasks s). recoverable r t} - set batch"
          unfolding new(3) left by auto
        with sub B(3) new show ?thesis by (intro exI [of _ "batch @ new"]) auto
      qed
      with False c L show ?thesis by (subst recover_loop.simps) auto
    qed
  qed
qed

text \<open>
  C6. Recovery always returns, however many abandoned tasks there are and whatever the clock does;
  and when it succeeds it has recovered exactly the running or canceling tasks of the kind whose
  lease was absent or expired, each once, and none of them is left.
\<close>

theorem recover_expired_total_and_complete:
  assumes "reachable_from store_init store_step s"
  shows "\<exists>res s'. recover_expired (Some r) clock event_ids s = Some (res, s') \<and>
    (\<forall>ids. res = Inr ids \<longrightarrow> distinct ids \<and> set ids = tk_id ` {t \<in> set (ts_tasks s). recoverable r t} \<and>
       filter (recoverable r) (ts_tasks s') = [])"
proof -
  note inv = store_reachable_inv [OF assms]
  show ?thesis
  proof (cases "is_terminal_task_state (rv_target r)")
    case True
    show ?thesis
    proof (cases "validate_event (rv_event_kind r) (rv_payload r)")
      case None
      from recover_loop_complete [OF True inv, of clock event_ids 0 "[]"]
      obtain res s' where "recover_loop r clock event_ids 0 [] s = Some (res, s')"
        "\<forall>ids. res = Inr ids \<longrightarrow> distinct ids \<and> set ids = tk_id ` {t \<in> set (ts_tasks s). recoverable r t} \<and>
           filter (recoverable r) (ts_tasks s') = []" by auto
      with True None show ?thesis by (simp add: recover_expired_def)
    qed (use True in \<open>simp add: recover_expired_def\<close>)
  qed (simp add: recover_expired_def)
qed

lemma recover_expired_total_and_complete_witness:
  "\<exists>res s'. recover_expired (Some \<lparr>rv_expires_before = 20000000000, rv_kind = ''tool'', rv_event_kind = ''task_interrupted'',
     rv_error_code = [], rv_error_message = [], rv_payload = ''{}'', rv_target = TaskInterrupted\<rparr>) (\<lambda>_. 20000000000)
     (\<lambda>_ _. ''e3'') claimed_store = Some (res, s')"
  using recover_expired_total_and_complete [OF claimed_store_reachable] by blast

end
