(* ===== verification/Task_Runtime.thy ===== *)
theory Task_Runtime
  imports Task_Recovery
begin

text \<open>
  The scheduler of background tasks (\<^verbatim>\<open>internal/taskruntime/service.go\<close>): its options and handlers,
  the dispatch of queued tasks to a bounded number of workers, the rejection of unknown kinds, the
  recovery pass, and the settlement of a run through the task repository. What a handler does is a
  parameter; the goroutines of different tasks meet only in the tables.
\<close>

section \<open>Options and handlers\<close>

text \<open>Durations are nanoseconds.\<close>

record runtime_options =
  ro_has_tasks :: bool
  ro_workers :: int
  ro_poll_interval :: int
  ro_lease_duration :: int
  ro_heartbeat_interval :: int
  ro_recovery_interval :: int
  ro_default_timeout :: int
  ro_max_payload_bytes :: int

datatype runtime_error = NilTasks | InvalidHeartbeat | InvalidHandler | DuplicateHandler string

definition default_workers :: int where "default_workers = 4"
definition default_poll_interval :: int where "default_poll_interval = 250 * 1000000"
definition default_lease_duration :: int where "default_lease_duration = 30 * 1000000000"
definition default_timeout :: int where "default_timeout = 30 * 60 * 1000000000"
definition default_max_payload_bytes :: int where "default_max_payload_bytes = 256 * 1024"
definition heartbeat_lease_fraction :: int where "heartbeat_lease_fraction = 3"
definition error_code_payload_ratio :: int where "error_code_payload_ratio = 8"
definition message_payload_ratio :: int where "message_payload_ratio = 2"
definition unknown_kind_code :: string where "unknown_kind_code = ''unknown_kind''"

definition normalize_options :: "runtime_options \<Rightarrow> runtime_error + runtime_options" where
  "normalize_options opts =
     (if \<not> ro_has_tasks opts then Inl NilTasks
      else
        let opts = (if ro_workers opts \<le> 0 then opts\<lparr>ro_workers := default_workers\<rparr> else opts);
            opts = (if ro_poll_interval opts \<le> 0 then opts\<lparr>ro_poll_interval := default_poll_interval\<rparr> else opts);
            opts = (if ro_lease_duration opts \<le> 0 then opts\<lparr>ro_lease_duration := default_lease_duration\<rparr> else opts);
            opts = (if ro_heartbeat_interval opts \<le> 0
              then opts\<lparr>ro_heartbeat_interval := ro_lease_duration opts sdiv heartbeat_lease_fraction\<rparr> else opts);
            opts = (if ro_recovery_interval opts \<le> 0 then opts\<lparr>ro_recovery_interval := ro_lease_duration opts\<rparr> else opts);
            opts = (if ro_default_timeout opts \<le> 0 then opts\<lparr>ro_default_timeout := default_timeout\<rparr> else opts);
            opts = (if ro_max_payload_bytes opts \<le> 0 then opts\<lparr>ro_max_payload_bytes := default_max_payload_bytes\<rparr> else opts)
        in if ro_heartbeat_interval opts \<ge> ro_lease_duration opts then Inl InvalidHeartbeat else Inr opts)"

text \<open>A handler is known by its kind; a missing one is \<open>None\<close>. The order of registration is kept.\<close>

fun register_handlers :: "string list \<Rightarrow> string option list \<Rightarrow> runtime_error + string list" where
  "register_handlers order [] = Inr order"
| "register_handlers order (h # hs) = (case h of
       None \<Rightarrow> Inl InvalidHandler
     | Some kind \<Rightarrow>
         if kind = [] then Inl InvalidHandler
         else if kind \<in> set order then Inl (DuplicateHandler kind)
         else register_handlers (order @ [kind]) hs)"

section \<open>Dispatch\<close>









section \<open>Settlement\<close>

record 'v outcome =
  out_value :: "'v option"
  out_summary :: string
  out_error_code :: string
  out_error_message :: string

definition bound_text :: "string \<Rightarrow> int \<Rightarrow> string" where
  "bound_text v maximum =
     (if maximum \<le> 0 \<or> int (length v) \<le> maximum then v else take (rune_boundary v (nat maximum)) v)"

text \<open>
  \<open>confirmCanceling\<close> looks the task up again after the handler returned: \<open>None\<close> is a failed lookup.
\<close>

definition confirm_canceling :: "task option option \<Rightarrow> bool \<Rightarrow> bool" where
  "confirm_canceling lookup already =
     (if already then True
      else case lookup of None \<Rightarrow> False
        | Some found \<Rightarrow> (case found of None \<Rightarrow> False | Some t \<Rightarrow> tk_state t = TaskCanceling))"

definition settle_outcome ::
  "runtime_options \<Rightarrow> bool \<Rightarrow> string option \<Rightarrow> bool \<Rightarrow> 'v outcome \<Rightarrow> task_state \<times> 'v outcome" where
  "settle_outcome opts ctx_done run_err canceling oc =
     (let (state, oc) =
        (if canceling then (TaskCanceled, oc)
         else case run_err of
           None \<Rightarrow> (TaskSucceeded, oc)
         | Some err \<Rightarrow>
             let (state, oc) = (if ctx_done then (TaskInterrupted, oc\<lparr>out_error_code := ''service_stopped''\<rparr>) else (TaskFailed, oc));
                 oc = (if out_error_code oc = [] then oc\<lparr>out_error_code := ''run_failed''\<rparr> else oc);
                 oc = (if out_error_message oc = [] then oc\<lparr>out_error_message := err\<rparr> else oc)
             in (state, oc))
      in (state, oc\<lparr>out_error_code := bound_text (out_error_code oc) (ro_max_payload_bytes opts sdiv error_code_payload_ratio),
            out_error_message := bound_text (out_error_message oc) (ro_max_payload_bytes opts sdiv message_payload_ratio),
            out_summary := bound_text (out_summary oc) (ro_max_payload_bytes opts sdiv message_payload_ratio)\<rparr>))"




text \<open>
  What a claimed run settles with: the three lookups of the task (\<open>None\<close> is a failed query), the
  handler as a function of the task that returns its outcome and error, and whether the context of
  the service is done at the end. The first component tells whether the handler is asked to settle.
\<close>

definition failed_outcome :: "string \<Rightarrow> string \<Rightarrow> 'v outcome" where
  "failed_outcome code message = \<lparr>out_value = None, out_summary = [], out_error_code = code, out_error_message = message\<rparr>"

definition run_claimed ::
  "runtime_options \<Rightarrow> (task \<Rightarrow> 'v outcome \<times> string option) option \<Rightarrow> task option option \<Rightarrow> string + task option \<Rightarrow>
   task option option \<Rightarrow> bool \<Rightarrow> bool \<times> task_state \<times> 'v outcome" where
  "run_claimed opts handler loaded current confirmed ctx_done =
     (case loaded of
        None \<Rightarrow> (False, TaskFailed, failed_outcome ''load_task'' ''load claimed task'')
      | Some None \<Rightarrow> (False, TaskFailed, failed_outcome ''load_task'' ''load claimed task'')
      | Some (Some t) \<Rightarrow> (case handler of
          None \<Rightarrow> (False, TaskFailed, failed_outcome unknown_kind_code ''no task handler registered'')
        | Some run \<Rightarrow>
            let (oc, err, canceling) = (case current of
                Inl e \<Rightarrow> (failed_outcome [] [], Some e, False)
              | Inr None \<Rightarrow> (failed_outcome [] [], Some ''task disappeared'', False)
              | Inr (Some cur) \<Rightarrow>
                  if tk_state cur = TaskCanceling then (failed_outcome [] [], Some ''context canceled'', True)
                  else let (oc, err) = run t in (oc, err, False))
            in (True, settle_outcome opts ctx_done err (confirm_canceling confirmed canceling) oc)))"

datatype sink_error = SinkAbandoned | SinkEncode | SinkTooLarge | SinkAppend task_error | SinkLeaseLost

definition event_sink ::
  "runtime_options \<Rightarrow> ('v \<Rightarrow> string option) \<Rightarrow> bool \<Rightarrow> string \<Rightarrow> string \<Rightarrow> string \<Rightarrow> 'v \<Rightarrow> string \<Rightarrow> int \<Rightarrow> task_store \<Rightarrow>
   sink_error option \<times> task_store" where
  "event_sink opts encode fenced lease_owner task_id kind v event_id now s =
     (if fenced then (Some SinkAbandoned, s)
      else case encode v of
        None \<Rightarrow> (Some SinkEncode, s)
      | Some encoded \<Rightarrow>
          if int (length encoded) > ro_max_payload_bytes opts then (Some SinkTooLarge, s)
          else (case append_running_event task_id lease_owner kind encoded event_id now s of
              Inl e \<Rightarrow> (Some (SinkAppend e), s)
            | Inr (None, s') \<Rightarrow> (Some SinkLeaseLost, s')
            | Inr (Some _, s') \<Rightarrow> (None, s')))"

definition recovery_request :: "string \<Rightarrow> int \<Rightarrow> task_recovery" where
  "recovery_request kind expires_before =
     \<lparr>rv_expires_before = expires_before, rv_kind = kind, rv_event_kind = ''task_interrupted'', rv_error_code = ''lease_expired'',
      rv_error_message = ''task worker lease expired'', rv_payload = [CHR ''{'', CHR 0x22] @ ''error_code'' @ [CHR 0x22, CHR '':'', CHR 0x22] @ ''lease_expired'' @ [CHR 0x22, CHR ''}''],
      rv_target = TaskInterrupted\<rparr>"

text \<open>
  \<open>recoverer\<close> is the \<^verbatim>\<open>RecoverExpired\<close> of a handler that recovers its own tasks. The \<open>k\<close>-th kind reads
  the clock \<open>clock k\<close>: its first reading is the bound, the others belong to the batches.
\<close>

fun recover_kinds ::
  "(string \<Rightarrow> (int \<Rightarrow> task_store \<Rightarrow> task_store) option) \<Rightarrow> (nat \<Rightarrow> nat \<Rightarrow> int) \<Rightarrow> (nat \<Rightarrow> nat \<Rightarrow> nat \<Rightarrow> string) \<Rightarrow> nat \<Rightarrow>
   string list \<Rightarrow> task_store \<Rightarrow> task_store option" where
  "recover_kinds recoverer clock event_ids k [] s = Some s"
| "recover_kinds recoverer clock event_ids k (kind # kinds) s =
     (case recoverer kind of
        Some recover \<Rightarrow> recover_kinds recoverer clock event_ids (k + 1) kinds (recover (clock k 0) s)
      | None \<Rightarrow>
          (case recover_expired (Some (recovery_request kind (clock k 0))) (\<lambda>j. clock k (j + 1)) (event_ids k) s of
             None \<Rightarrow> None
           | Some (res, s') \<Rightarrow> recover_kinds recoverer clock event_ids (k + 1) kinds s'))"


section \<open>Dispatch stays within the workers and is fair\<close>









section \<open>A claimed run settles\<close>







end
