(* ===== verification/Edit_Diff.thy ===== *)
theory Edit_Diff
  imports Go_Strings "HOL-Library.Multiset"
begin

text \<open>
  The edit tool (\<^verbatim>\<open>internal/tool/edit_diff.go\<close> and the text transformation of \<^verbatim>\<open>edit.go\<close>): exact and
  fuzzy matching of the replacements, the checks on the matches, their application, and the treatment
  of the byte order mark and the line endings of the file. Unicode normalisation (\<^verbatim>\<open>norm.NFKC\<close>) is third-party
  code: the parameter \<open>nfkc\<close>.
\<close>

section \<open>Line endings and the byte order mark\<close>

definition lf :: char where "lf = CHR 0x0A"
definition cr :: char where "cr = CHR 0x0D"

definition detect_line_ending :: "string \<Rightarrow> string" where
  "detect_line_ending content =
     (case (str_index [lf] content, str_index [cr, lf] content) of
        (Some lf_index, Some crlf_index) \<Rightarrow> if crlf_index < lf_index then [cr, lf] else [lf]
      | _ \<Rightarrow> [lf])"

definition normalize_to_lf :: "string \<Rightarrow> string" where
  "normalize_to_lf s = replace_all [cr] [lf] (replace_all [cr, lf] [lf] s)"

definition restore_line_endings :: "string \<Rightarrow> string \<Rightarrow> string" where
  "restore_line_endings s ending = (if ending = [cr, lf] then replace_all [lf] [cr, lf] s else s)"

definition byte_order_mark :: string where
  "byte_order_mark = [CHR 0xEF, CHR 0xBB, CHR 0xBF]"

definition strip_bom :: "string \<Rightarrow> string \<times> string" where
  "strip_bom content =
     (if starts_with byte_order_mark content then (byte_order_mark, drop (length byte_order_mark) content) else ([], content))"

section \<open>Fuzzy normalisation\<close>

definition fuzzy_rune_pairs :: "(string \<times> string) list" where
  "fuzzy_rune_pairs =
     [(encode_rune 0x2018, [CHR 0x27]), (encode_rune 0x2019, [CHR 0x27]), (encode_rune 0x201A, [CHR 0x27]),
      (encode_rune 0x201B, [CHR 0x27]), (encode_rune 0x201C, [CHR 0x22]), (encode_rune 0x201D, [CHR 0x22]),
      (encode_rune 0x201E, [CHR 0x22]), (encode_rune 0x201F, [CHR 0x22]), (encode_rune 0x2010, ''-''),
      (encode_rune 0x2011, ''-''), (encode_rune 0x2012, ''-''), (encode_rune 0x2013, ''-''),
      (encode_rune 0x2014, ''-''), (encode_rune 0x2015, ''-''), (encode_rune 0x2212, ''-'')]"

definition unicode_space_pairs :: "(string \<times> string) list" where
  "unicode_space_pairs =
     map (\<lambda>r. (encode_rune r, '' ''))
       [0x00A0, 0x2000, 0x2001, 0x2002, 0x2003, 0x2004, 0x2005, 0x2006, 0x2007, 0x2008, 0x2009, 0x200A, 0x202F, 0x205F, 0x3000]"

definition replace_fuzzy_runes :: "string \<Rightarrow> string" where
  "replace_fuzzy_runes s = replacer unicode_space_pairs (replacer fuzzy_rune_pairs s)"

definition normalize_for_fuzzy_match :: "(string \<Rightarrow> string) \<Rightarrow> string \<Rightarrow> string" where
  "normalize_for_fuzzy_match nfkc s =
     replace_fuzzy_runes (join_with [lf] (map trim_right (split_byte lf (nfkc s))))"

section \<open>Matching\<close>

record replacement =
  rp_old :: string
  rp_new :: string

record fuzzy_match =
  fm_content :: string
  fm_index :: int
  fm_length :: nat
  fm_found :: bool
  fm_fuzzy :: bool

record matched_edit =
  me_new :: string
  me_edit :: nat
  me_index :: nat
  me_length :: nat

datatype edit_error =
  NoReplacement
| EmptyOldText string nat nat
| NotFound string nat nat
| NotUnique string nat nat nat
| Overlapping nat nat string
| NoChange string nat

definition fuzzy_find_text :: "(string \<Rightarrow> string) \<Rightarrow> string \<Rightarrow> string \<Rightarrow> fuzzy_match" where
  "fuzzy_find_text nfkc content old =
     (case str_index old content of
        Some i \<Rightarrow> \<lparr>fm_content = content, fm_index = int i, fm_length = length old, fm_found = True, fm_fuzzy = False\<rparr>
      | None \<Rightarrow>
          let fuzzy_content = normalize_for_fuzzy_match nfkc content; fuzzy_old = normalize_for_fuzzy_match nfkc old in
          (case str_index fuzzy_old fuzzy_content of
             None \<Rightarrow> \<lparr>fm_content = content, fm_index = -1, fm_length = 0, fm_found = False, fm_fuzzy = False\<rparr>
           | Some i \<Rightarrow> \<lparr>fm_content = fuzzy_content, fm_index = int i, fm_length = length fuzzy_old, fm_found = True,
               fm_fuzzy = True\<rparr>))"

definition count_occurrences :: "(string \<Rightarrow> string) \<Rightarrow> string \<Rightarrow> string \<Rightarrow> nat" where
  "count_occurrences nfkc content old =
     (let fuzzy_old = normalize_for_fuzzy_match nfkc old in
      if fuzzy_old = [] then 0 else str_count fuzzy_old (normalize_for_fuzzy_match nfkc content))"

fun normalize_edits_loop :: "string \<Rightarrow> nat \<Rightarrow> nat \<Rightarrow> replacement list \<Rightarrow> edit_error + replacement list" where
  "normalize_edits_loop path n k [] = Inr []"
| "normalize_edits_loop path n k (e # es) =
     (if rp_old e = [] then Inl (EmptyOldText path k n)
      else case normalize_edits_loop path n (k + 1) es of
        Inl err \<Rightarrow> Inl err
      | Inr es' \<Rightarrow> Inr (\<lparr>rp_old = normalize_to_lf (rp_old e), rp_new = normalize_to_lf (rp_new e)\<rparr> # es'))"

definition normalize_edits :: "replacement list \<Rightarrow> string \<Rightarrow> edit_error + replacement list" where
  "normalize_edits edits path =
     (if length edits = 0 then Inl NoReplacement else normalize_edits_loop path (length edits) 0 edits)"

fun collect_matched_edits ::
  "(string \<Rightarrow> string) \<Rightarrow> string \<Rightarrow> string \<Rightarrow> nat \<Rightarrow> nat \<Rightarrow> replacement list \<Rightarrow> edit_error + matched_edit list" where
  "collect_matched_edits nfkc base path n k [] = Inr []"
| "collect_matched_edits nfkc base path n k (e # es) =
     (let m = fuzzy_find_text nfkc base (rp_old e); occurrences = count_occurrences nfkc base (rp_old e) in
      if \<not> fm_found m then Inl (NotFound path k n)
      else if occurrences > 1 then Inl (NotUnique path k n occurrences)
      else case collect_matched_edits nfkc base path n (k + 1) es of
        Inl err \<Rightarrow> Inl err
      | Inr ms \<Rightarrow> Inr (\<lparr>me_new = rp_new e, me_edit = k, me_index = nat (fm_index m), me_length = fm_length m\<rparr> # ms))"

definition sort_matched_edits :: "matched_edit list \<Rightarrow> matched_edit list" where
  "sort_matched_edits ms = sort_key me_index ms"

definition reject_overlapping_edits :: "matched_edit list \<Rightarrow> string \<Rightarrow> edit_error option" where
  "reject_overlapping_edits ms path =
     (let ss = sort_matched_edits ms in
      map_option (\<lambda>k. Overlapping (me_edit (ss ! (k - 1))) (me_edit (ss ! k)) path)
        (find (\<lambda>k. me_index (ss ! (k - 1)) + me_length (ss ! (k - 1)) > me_index (ss ! k)) [1..<length ss]))"

definition replace_region :: "matched_edit \<Rightarrow> string \<Rightarrow> string" where
  "replace_region m content = take (me_index m) content @ me_new m @ drop (me_index m + me_length m) content"

definition apply_matched_edits :: "string \<Rightarrow> matched_edit list \<Rightarrow> string" where
  "apply_matched_edits base ms = fold replace_region (rev (sort_matched_edits ms)) base"

definition base_content :: "(string \<Rightarrow> string) \<Rightarrow> string \<Rightarrow> replacement list \<Rightarrow> string" where
  "base_content nfkc content edits =
     (if \<exists>e\<in>set edits. fm_fuzzy (fuzzy_find_text nfkc content (rp_old e))
      then normalize_for_fuzzy_match nfkc content else content)"

definition apply_edits_to_normalized_content ::
  "(string \<Rightarrow> string) \<Rightarrow> string \<Rightarrow> replacement list \<Rightarrow> string \<Rightarrow> edit_error + (string \<times> string)" where
  "apply_edits_to_normalized_content nfkc content edits path =
     (case normalize_edits edits path of Inl e \<Rightarrow> Inl e
      | Inr es \<Rightarrow>
          let base = base_content nfkc content es in
          (case collect_matched_edits nfkc base path (length es) 0 es of Inl e \<Rightarrow> Inl e
           | Inr ms \<Rightarrow>
               (case reject_overlapping_edits ms path of Some e \<Rightarrow> Inl e
                | None \<Rightarrow>
                    let new = apply_matched_edits base ms in
                    if base = new then Inl (NoChange path (length es)) else Inr (base, new))))"

text \<open>\<open>editLocked\<close> on the bytes read from the file; the result is what it writes.\<close>

definition edit_locked :: "(string \<Rightarrow> string) \<Rightarrow> string \<Rightarrow> replacement list \<Rightarrow> string \<Rightarrow> edit_error + string" where
  "edit_locked nfkc raw edits path =
     (let (bom, content) = strip_bom raw in
      case apply_edits_to_normalized_content nfkc (normalize_to_lf content) edits path of
        Inl e \<Rightarrow> Inl e
      | Inr (base, new) \<Rightarrow> Inr (bom @ restore_line_endings new (detect_line_ending content)))"

section \<open>Regions\<close>

text \<open>\<open>weave gaps parts\<close> puts the parts between the gaps.\<close>

fun weave :: "string list \<Rightarrow> string list \<Rightarrow> string" where
  "weave (g # gs) (p # ps) = g @ p @ weave gs ps"
| "weave gs [] = concat gs"
| "weave [] ps = concat ps"

fun gaps_from :: "nat \<Rightarrow> string \<Rightarrow> matched_edit list \<Rightarrow> string list" where
  "gaps_from k base [] = [drop k base]"
| "gaps_from k base (m # ms) = take (me_index m - k) (drop k base) # gaps_from (me_index m + me_length m) base ms"

fun well_placed :: "nat \<Rightarrow> string \<Rightarrow> matched_edit list \<Rightarrow> bool" where
  "well_placed k base [] \<longleftrightarrow> k \<le> length base"
| "well_placed k base (m # ms) \<longleftrightarrow> k \<le> me_index m \<and> well_placed (me_index m + me_length m) base ms"

definition region :: "string \<Rightarrow> matched_edit \<Rightarrow> string" where
  "region base m = take (me_length m) (drop (me_index m) base)"

lemma well_placed_bound: "well_placed k base ms \<Longrightarrow> k \<le> length base"
  by (induction ms arbitrary: k) (force dest: order_trans)+

lemma length_gaps_from [simp]: "length (gaps_from k base ms) = length ms + 1"
  by (induction ms arbitrary: k) auto

lemma gaps_from_neq_Nil [simp]: "gaps_from k base ms \<noteq> []"
  by (cases ms) auto

lemma weave_regions: "well_placed k base ms \<Longrightarrow> drop k base = weave (gaps_from k base ms) (map (region base) ms)"
proof (induction ms arbitrary: k)
  case (Cons m ms)
  let ?e = "me_index m + me_length m"
  have k: "k \<le> me_index m" and w: "well_placed ?e base ms" using Cons.prems by simp_all
  have "drop k base = take (me_index m - k) (drop k base) @ drop (me_index m) base"
    using k by (metis append_take_drop_id drop_drop le_add_diff_inverse2)
  also have "drop (me_index m) base = region base m @ drop ?e base"
    unfolding region_def by (metis add.commute append_take_drop_id drop_drop)
  finally show ?case using Cons.IH [OF w] by simp
qed simp

lemma weave_replaced:
  "well_placed k base ms \<Longrightarrow>
   foldr replace_region ms base = take k base @ weave (gaps_from k base ms) (map me_new ms)"
proof (induction ms arbitrary: k)
  case (Cons m ms)
  let ?e = "me_index m + me_length m"
  let ?w = "weave (gaps_from ?e base ms) (map me_new ms)"
  have k: "k \<le> me_index m" and w: "well_placed ?e base ms" using Cons.prems by simp_all
  have b: "?e \<le> length base" using well_placed_bound [OF w] .
  have "foldr replace_region (m # ms) base = take (me_index m) base @ me_new m @ ?w"
    using Cons.IH [OF w] b by (simp add: replace_region_def [of m])
  also have "take (me_index m) base = take k base @ take (me_index m - k) (drop k base)"
    using k by (metis le_add_diff_inverse take_add)
  finally show ?case by simp
qed simp

lemma well_placed_sorted:
  assumes "\<forall>i. 1 \<le> i \<and> i < length ms \<longrightarrow> me_index (ms ! (i - 1)) + me_length (ms ! (i - 1)) \<le> me_index (ms ! i)"
    and "\<forall>m\<in>set ms. me_index m + me_length m \<le> length base" and "k \<le> length base"
    and "ms \<noteq> [] \<Longrightarrow> k \<le> me_index (hd ms)"
  shows "well_placed k base ms"
  using assms
proof (induction ms arbitrary: k)
  case (Cons m ms)
  have "well_placed (me_index m + me_length m) base ms"
  proof (rule Cons.IH)
    show "\<forall>i. 1 \<le> i \<and> i < length ms \<longrightarrow> me_index (ms ! (i - 1)) + me_length (ms ! (i - 1)) \<le> me_index (ms ! i)"
    proof (intro allI impI)
      fix i
      assume "1 \<le> i \<and> i < length ms"
      then show "me_index (ms ! (i - 1)) + me_length (ms ! (i - 1)) \<le> me_index (ms ! i)"
        using Cons.prems(1) [rule_format, of "Suc i"] by (cases i) auto
    qed
    show "me_index m + me_length m \<le> me_index (hd ms)" if "ms \<noteq> []"
      using Cons.prems(1) [rule_format, of 1] that by (cases ms) auto
  qed (use Cons.prems(2) in auto)
  with Cons.prems(4) show ?case by simp
qed simp

section \<open>What a successful edit matched\<close>

text \<open>A replacement and its match, on a base where the fuzzy normalisation is settled.\<close>

definition matches_on :: "(string \<Rightarrow> string) \<Rightarrow> string \<Rightarrow> replacement \<Rightarrow> matched_edit \<Rightarrow> bool" where
  "matches_on nfkc base e m \<longleftrightarrow>
     me_new m = rp_new e \<and> me_index m + me_length m \<le> length base \<and> count_occurrences nfkc base (rp_old e) \<le> 1 \<and>
     region base m = (if str_contains (rp_old e) base then rp_old e else normalize_for_fuzzy_match nfkc (rp_old e))"

lemma fuzzy_find_text_found:
  assumes "fm_found (fuzzy_find_text nfkc base old)"
    and "str_contains old base \<or> normalize_for_fuzzy_match nfkc base = base"
  obtains i where "fm_index (fuzzy_find_text nfkc base old) = int i"
    "i + fm_length (fuzzy_find_text nfkc base old) \<le> length base"
    "take (fm_length (fuzzy_find_text nfkc base old)) (drop i base) =
      (if str_contains old base then old else normalize_for_fuzzy_match nfkc old)"
proof (cases "str_index old base")
  case (Some i)
  with str_index_Some [OF Some] show ?thesis
    by (intro that [of i]) (simp_all add: fuzzy_find_text_def str_contains_def)
next
  case None
  with assms obtain i where i: "str_index (normalize_for_fuzzy_match nfkc old) base = Some i"
    by (auto simp: fuzzy_find_text_def str_contains_def Let_def split: option.splits)
  with None assms str_index_Some [OF i] show ?thesis
    by (intro that [of i]) (simp_all add: fuzzy_find_text_def str_contains_def Let_def)
qed

lemma collect_matched:
  assumes "\<forall>e\<in>set es. str_contains (rp_old e) base \<or> normalize_for_fuzzy_match nfkc base = base"
    and "collect_matched_edits nfkc base path n k es = Inr ms"
  shows "map me_edit ms = [k..<k + length es] \<and> list_all2 (matches_on nfkc base) es ms"
  using assms
proof (induction es arbitrary: k ms)
  case (Cons e es)
  let ?m = "fuzzy_find_text nfkc base (rp_old e)"
  obtain ms' where r: "fm_found ?m" "count_occurrences nfkc base (rp_old e) \<le> 1"
    "collect_matched_edits nfkc base path n (k + 1) es = Inr ms'"
    "ms = \<lparr>me_new = rp_new e, me_edit = k, me_index = nat (fm_index ?m), me_length = fm_length ?m\<rparr> # ms'"
    using Cons.prems(2) by (auto simp: Let_def split: if_splits sum.splits)
  have "map me_edit ms' = [k + 1..<k + 1 + length es] \<and> list_all2 (matches_on nfkc base) es ms'"
    using Cons.prems(1) by (intro Cons.IH r) (simp, blast)
  moreover have "matches_on nfkc base e \<lparr>me_new = rp_new e, me_edit = k, me_index = nat (fm_index ?m), me_length = fm_length ?m\<rparr>"
    using Cons.prems(1) r(2) by (auto simp: matches_on_def region_def intro: fuzzy_find_text_found [OF r(1)])
  moreover have "[k..<k + length (e # es)] = k # [k + 1..<k + 1 + length es]" by (simp add: upt_rec)
  ultimately show ?case using r(4) by simp
qed simp

lemma collect_found: "collect_matched_edits nfkc base path n k es = Inr ms \<Longrightarrow> \<forall>e\<in>set es. fm_found (fuzzy_find_text nfkc base (rp_old e))"
  by (induction es arbitrary: k ms) (auto simp: Let_def split: if_splits sum.splits)

lemma exact_match_iff: "fm_found (fuzzy_find_text nfkc base old) \<Longrightarrow> \<not> fm_fuzzy (fuzzy_find_text nfkc base old) \<longleftrightarrow> str_contains old base"
  by (auto simp: fuzzy_find_text_def str_contains_def Let_def split: option.splits)

lemma contained_exact: "str_contains old base \<Longrightarrow> \<not> fm_fuzzy (fuzzy_find_text nfkc base old)"
  by (auto simp: fuzzy_find_text_def str_contains_def)

definition lf_edit :: "replacement \<Rightarrow> replacement" where
  "lf_edit e = \<lparr>rp_old = normalize_to_lf (rp_old e), rp_new = normalize_to_lf (rp_new e)\<rparr>"

lemma lf_edit_simps [simp]: "rp_old (lf_edit e) = normalize_to_lf (rp_old e)" "rp_new (lf_edit e) = normalize_to_lf (rp_new e)"
  by (simp_all add: lf_edit_def)

lemma normalize_edits_loop_Inr: "normalize_edits_loop path n k es = Inr es' \<Longrightarrow> es' = map lf_edit es"
  by (induction es arbitrary: k es') (auto simp: lf_edit_def split: if_splits sum.splits)

lemma normalize_edits_Inr: "normalize_edits edits path = Inr es \<Longrightarrow> es = map lf_edit edits"
  by (auto simp: normalize_edits_def dest: normalize_edits_loop_Inr split: if_splits)

lemma reject_overlapping_None:
  assumes "reject_overlapping_edits ms path = None"
    and "\<forall>m\<in>set ms. me_index m + me_length m \<le> length base"
  shows "well_placed 0 base (sort_matched_edits ms)"
proof (rule well_placed_sorted)
  from assms(1) show "\<forall>i. 1 \<le> i \<and> i < length (sort_matched_edits ms) \<longrightarrow>
      me_index (sort_matched_edits ms ! (i - 1)) + me_length (sort_matched_edits ms ! (i - 1)) \<le> me_index (sort_matched_edits ms ! i)"
    by (simp add: reject_overlapping_edits_def Let_def find_upt_None not_less)
  from assms(2) show "\<forall>m\<in>set (sort_matched_edits ms). me_index m + me_length m \<le> length base"
    by (simp add: sort_matched_edits_def)
qed simp_all

lemma apply_edits_InrD:
  assumes "apply_edits_to_normalized_content nfkc content edits path = Inr (base, new)"
    and "(\<forall>e\<in>set edits. \<not> fm_fuzzy (fuzzy_find_text nfkc base (rp_old (lf_edit e)))) \<or> normalize_for_fuzzy_match nfkc base = base"
  obtains ms where "list_all2 (matches_on nfkc base) (map lf_edit edits) ms" "map me_edit ms = [0..<length edits]"
    "well_placed 0 base (sort_matched_edits ms)" "new = foldr replace_region (sort_matched_edits ms) base"
    "base = base_content nfkc content (map lf_edit edits)" "base \<noteq> new"
proof -
  let ?es = "map lf_edit edits"
  from assms(1) obtain ms where ms: "base = base_content nfkc content ?es"
    "collect_matched_edits nfkc base path (length ?es) 0 ?es = Inr ms"
    "reject_overlapping_edits ms path = None" "new = apply_matched_edits base ms" "base \<noteq> new"
    by (auto simp: apply_edits_to_normalized_content_def Let_def dest!: normalize_edits_Inr
        split: sum.splits option.splits if_splits)
  have m: "map me_edit ms = [0..<length edits]" "list_all2 (matches_on nfkc base) ?es ms"
    using collect_matched [OF _ ms(2)] assms(2) collect_found [OF ms(2)] exact_match_iff [of nfkc base] by auto
  have "\<forall>m\<in>set ms. me_index m + me_length m \<le> length base"
    using m(2) by (auto simp: list_all2_conv_all_nth in_set_conv_nth matches_on_def)
  from reject_overlapping_None [OF ms(3) this] m ms show ?thesis
    by (intro that [of ms]) (simp_all add: apply_matched_edits_def foldr_conv_fold)
qed

lemma matched_pairs:
  assumes "list_all2 (matches_on nfkc base) es ms"
  shows "mset (zip (map (region base) (sort_matched_edits ms)) (map me_new (sort_matched_edits ms))) =
    image_mset (\<lambda>e. (if str_contains (rp_old e) base then rp_old e else normalize_for_fuzzy_match nfkc (rp_old e), rp_new e))
      (mset es)"
proof -
  have "zip (map (region base) (sort_matched_edits ms)) (map me_new (sort_matched_edits ms)) =
    map (\<lambda>m. (region base m, me_new m)) (sort_matched_edits ms)" by (simp add: zip_map_map zip_same_conv_map)
  then have "mset (zip (map (region base) (sort_matched_edits ms)) (map me_new (sort_matched_edits ms))) =
    mset (map (\<lambda>m. (region base m, me_new m)) ms)" by (simp add: sort_matched_edits_def)
  also have "map (\<lambda>m. (region base m, me_new m)) ms =
    map (\<lambda>e. (if str_contains (rp_old e) base then rp_old e else normalize_for_fuzzy_match nfkc (rp_old e), rp_new e)) es"
    using assms by (intro nth_equalityI) (auto simp: list_all2_conv_all_nth matches_on_def)
  finally show ?thesis by simp
qed

text \<open>
  C18. A successful edit replaces one region per requested replacement and nothing else: the base is
  cut into regions and the gaps between them, the regions are pairwise disjoint and each holds the old text of
  its replacement (or its fuzzy normalisation), and the result is the same gaps around the new
  texts, all with line feeds. The base is the content itself, or its fuzzy normalisation when some old
  text only matches fuzzily, in which case the gaps are normalised too.
\<close>

theorem edits_replace_disjoint_regions:
  assumes "apply_edits_to_normalized_content nfkc content edits path = Inr (base, new)"
    and "normalize_for_fuzzy_match nfkc (normalize_for_fuzzy_match nfkc content) = normalize_for_fuzzy_match nfkc content"
  shows "base = (if \<exists>e\<in>set edits. fm_fuzzy (fuzzy_find_text nfkc content (normalize_to_lf (rp_old e)))
      then normalize_for_fuzzy_match nfkc content else content) \<and> base \<noteq> new \<and>
    (\<exists>gaps olds news. base = weave gaps olds \<and> new = weave gaps news \<and>
      length gaps = length edits + 1 \<and> length olds = length edits \<and> length news = length edits \<and>
      mset (zip olds news) = image_mset (\<lambda>e.
        (if str_contains (normalize_to_lf (rp_old e)) base then normalize_to_lf (rp_old e)
         else normalize_for_fuzzy_match nfkc (normalize_to_lf (rp_old e)), normalize_to_lf (rp_new e))) (mset edits))"
proof -
  let ?fz = "\<exists>e\<in>set edits. fm_fuzzy (fuzzy_find_text nfkc content (normalize_to_lf (rp_old e)))"
  have "base = base_content nfkc content (map lf_edit edits)"
    using assms(1) by (auto simp: apply_edits_to_normalized_content_def Let_def
        dest!: normalize_edits_Inr split: sum.splits option.splits if_splits)
  then have base: "base = (if ?fz then normalize_for_fuzzy_match nfkc content else content)"
    by (simp add: base_content_def lf_edit_def)
  with assms(2) have "(\<forall>e\<in>set edits. \<not> fm_fuzzy (fuzzy_find_text nfkc base (rp_old (lf_edit e)))) \<or> normalize_for_fuzzy_match nfkc base = base"
    by (auto simp: lf_edit_def)
  from apply_edits_InrD [OF assms(1) this] obtain ms where
    ms: "list_all2 (matches_on nfkc base) (map lf_edit edits) ms" "well_placed 0 base (sort_matched_edits ms)"
      "new = foldr replace_region (sort_matched_edits ms) base" "base \<noteq> new" by metis
  have n: "length (sort_matched_edits ms) = length edits" using list_all2_lengthD [OF ms(1)] by (simp add: sort_matched_edits_def)
  let ?g = "gaps_from 0 base (sort_matched_edits ms)"
  let ?o = "map (region base) (sort_matched_edits ms)" and ?n = "map me_new (sort_matched_edits ms)"
  have "base = weave ?g ?o" "new = weave ?g ?n"
    using weave_regions [OF ms(2)] weave_replaced [OF ms(2)] ms(3) by simp_all
  moreover have "mset (zip ?o ?n) = image_mset (\<lambda>e.
        (if str_contains (normalize_to_lf (rp_old e)) base then normalize_to_lf (rp_old e)
         else normalize_for_fuzzy_match nfkc (normalize_to_lf (rp_old e)), normalize_to_lf (rp_new e))) (mset edits)"
    using matched_pairs [OF ms(1)] by (simp add: multiset.map_comp comp_def cong: if_cong)
  moreover have "length ?g = length edits + 1" "length ?o = length edits" "length ?n = length edits" using n by simp_all
  ultimately show ?thesis using base ms(4) by blast
qed

section \<open>Line endings\<close>

lemma replace_all_single: "replace_all [c] new s = concat (map (\<lambda>x. if x = c then new else [x]) s)"
  by (induction s) (simp_all add: replace_all.simps starts_with_def)

lemma restore_append: "restore_line_endings (s @ t) ending = restore_line_endings s ending @ restore_line_endings t ending"
  by (simp add: restore_line_endings_def replace_all_single)

lemma restore_concat: "restore_line_endings (concat gs) ending = concat (map (\<lambda>s. restore_line_endings s ending) gs)"
proof (induction gs)
  case Nil
  show ?case by (simp add: restore_line_endings_def replace_all_single)
qed (simp add: restore_append)

lemma restore_weave:
  "restore_line_endings (weave gs ps) ending =
   weave (map (\<lambda>s. restore_line_endings s ending) gs) (map (\<lambda>s. restore_line_endings s ending) ps)"
  by (induction gs ps rule: weave.induct) (simp_all add: restore_append restore_concat)

text \<open>Uniform line endings: no carriage return at all, or every line feed and no other byte after one.\<close>

fun crlf_only :: "string \<Rightarrow> bool" where
  "crlf_only [] = True"
| "crlf_only (c # cs) =
     (if c = cr then (case cs of [] \<Rightarrow> False | d # ds \<Rightarrow> d = lf \<and> crlf_only ds)
      else c \<noteq> lf \<and> crlf_only cs)"

definition uniform_endings :: "string \<Rightarrow> bool" where
  "uniform_endings s \<longleftrightarrow> cr \<notin> set s \<or> crlf_only s"

lemma cr_neq_lf [simp]: "cr \<noteq> lf" "lf \<noteq> cr"
  by (simp_all add: cr_def lf_def)

lemma crlf_only_detect:
  "crlf_only s \<Longrightarrow> cr \<in> set s \<Longrightarrow> \<exists>i. str_index [cr, lf] s = Some i \<and> str_index [lf] s = Some (Suc i)"
proof (induction s rule: crlf_only.induct)
  case (2 c cs)
  then show ?case by (cases "c = cr") (auto simp: starts_with_def split: list.splits)
qed simp

lemma replace_crlf_simps [simp]:
  "replace_all [cr, lf] [lf] [] = []"
  "replace_all [cr, lf] [lf] (cr # lf # s) = lf # replace_all [cr, lf] [lf] s"
  "c \<noteq> cr \<Longrightarrow> replace_all [cr, lf] [lf] (c # s) = c # replace_all [cr, lf] [lf] s"
  by (simp_all add: replace_all.simps [of "[cr, lf]"] starts_with_def)

lemma crlf_only_normalize:
  "crlf_only s \<Longrightarrow> cr \<notin> set (replace_all [cr, lf] [lf] s) \<and> replace_all [lf] [cr, lf] (replace_all [cr, lf] [lf] s) = s"
proof (induction s rule: crlf_only.induct)
  case (2 c cs)
  then show ?case
    by (cases "c = cr") (auto simp: replace_all_single split: list.splits)
qed (simp add: replace_all_single)

lemma restore_normalized:
  assumes "uniform_endings s"
  shows "restore_line_endings (normalize_to_lf s) (detect_line_ending s) = s"
proof (cases "cr \<in> set s")
  case True
  with assms have c: "crlf_only s" by (simp add: uniform_endings_def)
  have "detect_line_ending s = [cr, lf]"
    using crlf_only_detect [OF c True] by (auto simp: detect_line_ending_def)
  with crlf_only_normalize [OF c] show ?thesis
    by (simp add: normalize_to_lf_def restore_line_endings_def replace_all_absent)
next
  case False
  then have "str_index [cr, lf] s = None" by (auto simp: str_index_None_iff)
  then have "detect_line_ending s = [lf]" by (simp add: detect_line_ending_def split: option.split)
  with False show ?thesis by (simp add: normalize_to_lf_def restore_line_endings_def replace_all_absent)
qed

text \<open>
  When every old text occurs in the file as it is, and the file has uniform line endings, an edit
  changes exactly the matched regions: the file is a byte order mark and gaps around the old texts, and what is
  written is the same mark and the same gaps, byte for byte, around the new texts in the line
  endings of the file.
\<close>

theorem edit_keeps_everything_else:
  assumes "edit_locked nfkc raw edits path = Inr written"
    and "strip_bom raw = (bom, content)" and "uniform_endings content"
    and "\<forall>e\<in>set edits. str_contains (normalize_to_lf (rp_old e)) (normalize_to_lf content)"
  shows "\<exists>gaps olds news. raw = bom @ weave gaps olds \<and> written = bom @ weave gaps news \<and> length gaps = length edits + 1 \<and>
    mset (zip olds news) = image_mset (\<lambda>e.
      (restore_line_endings (normalize_to_lf (rp_old e)) (detect_line_ending content),
       restore_line_endings (normalize_to_lf (rp_new e)) (detect_line_ending content))) (mset edits)"
proof -
  let ?r = "\<lambda>s. restore_line_endings s (detect_line_ending content)"
  let ?base = "normalize_to_lf content"
  obtain base new where a: "apply_edits_to_normalized_content nfkc ?base edits path = Inr (base, new)"
    and written: "written = bom @ ?r new"
    using assms(1,2) by (auto simp: edit_locked_def split: sum.splits)
  have base: "base = ?base"
    using a assms(4) by (auto simp: apply_edits_to_normalized_content_def Let_def base_content_def lf_edit_def contained_exact
        dest!: normalize_edits_Inr split: sum.splits option.splits if_splits)
  have "\<forall>e\<in>set edits. \<not> fm_fuzzy (fuzzy_find_text nfkc base (rp_old (lf_edit e)))"
    using assms(4) base by (simp add: lf_edit_def contained_exact)
  from apply_edits_InrD [OF a disjI1 [OF this]] obtain ms where
    ms: "list_all2 (matches_on nfkc base) (map lf_edit edits) ms" "well_placed 0 base (sort_matched_edits ms)"
      "new = foldr replace_region (sort_matched_edits ms) base" by metis
  let ?s = "sort_matched_edits ms"
  let ?g = "map ?r (gaps_from 0 base ?s)" and ?o = "map ?r (map (region base) ?s)" and ?n = "map ?r (map me_new ?s)"
  have "?r base = weave ?g ?o"
    using arg_cong [OF weave_regions [OF ms(2)], of ?r] by (simp add: restore_weave)
  then have "content = weave ?g ?o" using restore_normalized [OF assms(3)] base by simp
  moreover have "?r new = weave ?g ?n" using weave_replaced [OF ms(2)] ms(3) by (simp add: restore_weave)
  moreover have "raw = bom @ content" using assms(2) by (auto simp: strip_bom_def dest: starts_with_drop split: if_splits)
  moreover have "mset (zip ?o ?n) = image_mset (\<lambda>e. (?r (normalize_to_lf (rp_old e)), ?r (normalize_to_lf (rp_new e)))) (mset edits)"
  proof -
    have "zip ?o ?n = map (\<lambda>(x, y). (?r x, ?r y)) (zip (map (region base) ?s) (map me_new ?s))" by (rule zip_map_map)
    then have "mset (zip ?o ?n) = image_mset (\<lambda>(x, y). (?r x, ?r y)) (mset (zip (map (region base) ?s) (map me_new ?s)))"
      by (metis mset_map)
    also have "mset (zip (map (region base) ?s) (map me_new ?s)) =
        image_mset (\<lambda>e. (normalize_to_lf (rp_old e), normalize_to_lf (rp_new e))) (mset edits)"
      using matched_pairs [OF ms(1)] assms(4) base
      by (auto simp: multiset.map_comp comp_def intro!: image_mset_cong)
    finally show ?thesis by (simp add: multiset.map_comp comp_def)
  qed
  moreover have "length ?g = length edits + 1"
    using list_all2_lengthD [OF ms(1)] by (simp add: sort_matched_edits_def)
  ultimately show ?thesis using written by blast
qed

section \<open>Blank old texts\<close>

text \<open>
  The uniqueness of the old text is not checked for text that the fuzzy normalisation removes:
  two spaces are replaced at their first occurrence, however many others there are.
\<close>

theorem blank_old_text_not_unique:
  assumes "nfkc ''  '' = ''  ''" and "str_index ''  '' content = Some i"
    and "cr \<notin> set new" and "new \<noteq> ''  ''"
  shows "apply_edits_to_normalized_content nfkc content [\<lparr>rp_old = ''  '', rp_new = new\<rparr>] path =
    Inr (content, take i content @ new @ drop (i + 2) content)"
proof -
  have lf: "normalize_to_lf ''  '' = ''  ''" "normalize_to_lf new = new"
    using assms(3) by (auto simp: normalize_to_lf_def replace_all_absent cr_def)
  have blank: "trim_right ''  '' = []"
    by (simp add: trim_right.simps [of "''  ''"] trim_right.simps [of "'' ''"] decode_last_rune_def byte_def is_space_def)
  have z: "normalize_for_fuzzy_match nfkc ''  '' = []"
    using assms(1) by (simp add: normalize_for_fuzzy_match_def blank lf_def replace_fuzzy_runes_def replacer.simps)
  have "take 2 (drop i content) = ''  ''" "i + 2 \<le> length content"
    using str_index_Some [OF assms(2)] by (simp_all add: numeral_2_eq_2)
  then have "content = take i content @ ''  '' @ drop (i + 2) content" by (metis append_take_drop_id drop_drop add.commute)
  then have "content \<noteq> take i content @ new @ drop (i + 2) content" using assms(4) by (metis append_same_eq same_append_eq)
  then show ?thesis
    using assms(2) lf z
    by (simp add: apply_edits_to_normalized_content_def normalize_edits_def base_content_def Let_def fuzzy_find_text_def
        count_occurrences_def reject_overlapping_edits_def sort_matched_edits_def apply_matched_edits_def replace_region_def)
qed

lemma replacer_ascii:
  assumes "\<forall>p\<in>set pairs. fst p \<noteq> [] \<and> 128 \<le> byte (hd (fst p))" and "\<forall>c\<in>set s. byte c < 128"
  shows "replacer pairs s = s"
  using assms(2)
proof (induction s)
  case (Cons c s)
  have "first_pair pairs (c # s) = None"
    unfolding first_pair_def find_None_iff
  proof
    assume "\<exists>x. x \<in> set pairs \<and> (case x of (old, new) \<Rightarrow> old \<noteq> [] \<and> starts_with old (c # s))"
    then obtain old new where p: "(old, new) \<in> set pairs" "old \<noteq> []" "starts_with old (c # s)" by auto
    then have "hd old = c" by (cases old) (auto simp: starts_with_def)
    with p(1) assms(1) Cons.prems show False by force
  qed
  with Cons show ?case by (simp add: replacer.simps [of _ "c # s"])
qed (simp add: replacer.simps)

lemma plain_text_normalized:
  assumes "\<forall>c\<in>set s. byte c < 128 \<and> \<not> is_space (byte c)"
  shows "normalize_for_fuzzy_match (\<lambda>s. s) s = s"
proof -
  have "lf \<notin> set s" using assms by (auto simp: lf_def byte_def is_space_def)
  then have l: "split_byte lf s = [s]" by (induction s) auto
  have t: "trim_right s = s" using assms by (subst trim_right.simps) (auto simp: decode_last_rune_def)
  have "\<forall>p\<in>set fuzzy_rune_pairs. fst p \<noteq> [] \<and> 128 \<le> byte (hd (fst p))"
    "\<forall>p\<in>set unicode_space_pairs. fst p \<noteq> [] \<and> 128 \<le> byte (hd (fst p))"
    by (simp_all add: fuzzy_rune_pairs_def unicode_space_pairs_def encode_rune_def byte_def)
  with assms have "replace_fuzzy_runes s = s" by (simp add: replace_fuzzy_runes_def replacer_ascii)
  with l t show ?thesis by (simp add: normalize_for_fuzzy_match_def)
qed

lemma sample_texts_lf:
  "normalize_to_lf ''bc'' = ''bc''" "normalize_to_lf ''x'' = ''x''" "normalize_to_lf ''abcd'' = ''abcd''"
  by (simp_all add: normalize_to_lf_def replace_all_absent cr_def)

lemma sample_edit_applied:
  "apply_edits_to_normalized_content (\<lambda>s. s) ''abcd'' [\<lparr>rp_old = ''bc'', rp_new = ''x''\<rparr>] ''f'' = Inr (''abcd'', ''axd'')"
proof -
  have "normalize_for_fuzzy_match (\<lambda>s. s) ''bc'' = ''bc''" "normalize_for_fuzzy_match (\<lambda>s. s) ''abcd'' = ''abcd''"
    by (simp_all add: plain_text_normalized byte_def is_space_def)
  then show ?thesis
    by (simp add: apply_edits_to_normalized_content_def normalize_edits_def base_content_def Let_def fuzzy_find_text_def
        count_occurrences_def reject_overlapping_edits_def sort_matched_edits_def apply_matched_edits_def replace_region_def
        sample_texts_lf starts_with_def str_count.simps)
qed

lemma edits_replace_disjoint_regions_witness:
  "\<exists>gaps olds news. ''abcd'' = weave gaps olds \<and> ''axd'' = weave gaps news \<and> length gaps = 2"
  using edits_replace_disjoint_regions [OF sample_edit_applied]
  by (auto simp: plain_text_normalized byte_def is_space_def)

lemma edit_keeps_everything_else_witness:
  "\<exists>gaps olds news. ''abcd'' = weave gaps olds \<and> ''axd'' = weave gaps news \<and> mset (zip olds news) = {#(''bc'', ''x'')#}"
proof -
  have d: "strip_bom ''abcd'' = ([], ''abcd'')" "detect_line_ending ''abcd'' = [lf]" "uniform_endings ''abcd''"
    by (simp_all add: strip_bom_def starts_with_def byte_order_mark_def detect_line_ending_def uniform_endings_def cr_def lf_def)
  then have "edit_locked (\<lambda>s. s) ''abcd'' [\<lparr>rp_old = ''bc'', rp_new = ''x''\<rparr>] ''f'' = Inr ''axd''"
    using sample_edit_applied by (simp add: edit_locked_def sample_texts_lf restore_line_endings_def)
  from edit_keeps_everything_else [OF this d(1,3)] show ?thesis
    by (simp add: d(2) sample_texts_lf restore_line_endings_def str_contains_def starts_with_def) blast
qed

lemma blank_old_text_not_unique_witness:
  "apply_edits_to_normalized_content (\<lambda>s. s) ''a  b  c'' [\<lparr>rp_old = ''  '', rp_new = ''-''\<rparr>] ''f'' = Inr (''a  b  c'', ''a-b  c'')"
  using blank_old_text_not_unique [of "\<lambda>s. s" "''a  b  c''" 1 "''-''" "''f''"]
  by (simp add: starts_with_def cr_def)

end
