(* ===== verification/Session_Store.thy ===== *)
theory Session_Store
  imports Context_Usage Task_Store
begin

text \<open>
  The session repository (\<^verbatim>\<open>internal/database\<close>: session_repository.go, session_entry_repository.go,
  session_message_repository.go, session_store.go, entry_metadata.go, message_projection.go) over
  explicit tables with the constraints of the schema (\<^verbatim>\<open>migrations/00023_normalize_session_persistence.sql\<close>).
  Conversations are trees of entries; an entry that carries a message has a row in the message table with
  its parts. Instants are stored as \<^verbatim>\<open>RFC3339Nano\<close> text, from which they are read back unchanged:
  the tables keep the instant, and the queries compare the texts. JSON encoding, the UUID parser and the
  image MIME grammar are arguments.
\<close>

section \<open>Data\<close>

record entry_data =
  dt_details :: "string option"
  dt_display :: "bool option"
  dt_label :: "string option"
  dt_model_facing :: "bool option"
  dt_usage :: "entry_usage option"
  dt_branch_from :: string
  dt_target_id :: string
  dt_thinking_level :: string
  dt_tool_name :: string
  dt_tool_status :: string
  dt_tool_args :: string
  dt_name :: string
  dt_first_kept :: string
  dt_token_estimate :: int
  dt_tokens_before :: int
  dt_from_hook :: bool

definition new_entry_data :: entry_data where
  "new_entry_data = \<lparr>dt_details = None, dt_display = None, dt_label = None, dt_model_facing = None, dt_usage = None,
     dt_branch_from = [], dt_target_id = [], dt_thinking_level = [], dt_tool_name = [], dt_tool_status = [], dt_tool_args = [],
     dt_name = [], dt_first_kept = [], dt_token_estimate = 0, dt_tokens_before = 0, dt_from_hook = False\<rparr>"

record session_env =
  sv_encode :: "entry_data \<Rightarrow> string option"
  sv_decode :: "string \<Rightarrow> entry_data option"
  sv_compact :: "string \<Rightarrow> string"
  sv_uuid_version :: "string \<Rightarrow> nat option"
  sv_valid_mime :: "string \<Rightarrow> bool"

record session =
  sn_id :: string
  sn_cwd :: string
  sn_name :: string
  sn_parent :: "string option"
  sn_created :: gotime
  sn_updated :: gotime

text \<open>A row of \<^verbatim>\<open>session_entries\<close>: the columns of the entry, its message left blank, and the operation.\<close>

record entry_row =
  er_entry :: entry
  er_operation :: string

text \<open>A row of \<^verbatim>\<open>session_messages\<close> with its rows of \<^verbatim>\<open>session_message_parts\<close> in order of their sequence.\<close>

record message_row =
  mw_entry_id :: string
  mw_role :: role
  mw_provider :: string
  mw_model :: string
  mw_parts :: "message_part list"

record session_db =
  sd_sessions :: "session list"
  sd_entries :: "entry_row list"
  sd_messages :: "message_row list"

datatype session_error =
  SessionInvalid | EntryInvalid | EntryMetadata | MessageInvalid | SessionConstraint | OperationRequired
| CompactionParentMissing | OperationMismatch | StaleCompactionParent string | CompactionInsertConflict
| BranchEntryMissing string | NilMessage | EntryDataDecode | EntryDataEncode | ContextEntryRequired | NilCompactionInput

record session_message =
  sm_created :: gotime
  sm_session_id :: string
  sm_entry_id :: string
  sm_sender :: string
  sm_role :: role
  sm_content :: string
  sm_provider :: string
  sm_model :: string
  sm_parts :: "message_part list"

text \<open>Go's zero time is the instant zero of \<open>gotime\<close>; \<open>Db_Time\<close> counts from 1970.\<close>

definition stamp_of :: "gotime \<Rightarrow> stamp" where
  "stamp_of t = format_time (t + zero_instant)"

section \<open>Entry metadata\<close>

definition normalize_data_json :: "string \<Rightarrow> string" where
  "normalize_data_json s = (if s = [] then ''{}'' else s)"

definition data_from_entry :: "session_env \<Rightarrow> entry \<Rightarrow> entry_data option" where
  "data_from_entry env e =
     (if normalize_data_json (ent_data_json e) = ''{}'' then Some new_entry_data else sv_decode env (ent_data_json e))"

definition entry_chars_per_token :: nat where "entry_chars_per_token = 4"

definition estimate_entry_tokens :: "entry \<Rightarrow> int" where
  "estimate_entry_tokens e =
     (let txt = (if trim_space (msg_content (ent_message e)) = [] then ent_summary e else msg_content (ent_message e));
          trimmed = trim_space txt in
      if trimmed = [] then 0
      else max 1 (int ((rune_count trimmed + entry_chars_per_token - 1) div entry_chars_per_token)))"

definition entry_participates :: "entry \<Rightarrow> bool" where
  "entry_participates e =
     (case ent_type e of
        EntryMessage \<Rightarrow> msg_role (ent_message e) = RoleUser \<or> msg_role (ent_message e) = RoleAssistant
      | EntryCustomMessage \<Rightarrow> True | EntryBranchSummary \<Rightarrow> True | EntryCompaction \<Rightarrow> True
      | _ \<Rightarrow> False)"

definition entry_displays :: "entry \<Rightarrow> entry_data \<Rightarrow> bool" where
  "entry_displays e d =
     (case dt_display d of Some b \<Rightarrow> b
      | None \<Rightarrow> (case ent_type e of
            EntryModelChange \<Rightarrow> False | EntryThinkingLevelChange \<Rightarrow> False | EntryLabel \<Rightarrow> False | EntrySessionInfo \<Rightarrow> False
          | _ \<Rightarrow> True))"

definition tool_section_names :: "string list" where
  "tool_section_names = [''tool'', ''arguments'', ''error'', ''details'', ''output'']"

definition split_tool_header :: "string \<Rightarrow> (string \<times> string) option" where
  "split_tool_header line =
     map_option (\<lambda>section. (section, trim_space (drop (length section + 1) line)))
       (find (\<lambda>section. starts_with (section @ '':'') line) tool_section_names)"

fun tool_sections_loop :: "string \<Rightarrow> (string \<Rightarrow> string) \<Rightarrow> string list \<Rightarrow> string \<Rightarrow> string" where
  "tool_sections_loop current sections [] = sections"
| "tool_sections_loop current sections (line # ls) =
     (case split_tool_header line of
        Some (name, v) \<Rightarrow> tool_sections_loop name (sections(name := v)) ls
      | None \<Rightarrow>
          if current = [] then tool_sections_loop current sections ls
          else tool_sections_loop current
            (sections(current := (if sections current = [] then line else sections current @ newline @ line))) ls)"

definition split_tool_sections :: "string \<Rightarrow> string \<Rightarrow> string" where
  "split_tool_sections content = tool_sections_loop [] (\<lambda>_. []) (split_byte (CHR 0x0A) content)"

definition first_non_empty :: "string list \<Rightarrow> string" where
  "first_non_empty vs = (case find (\<lambda>v. trim_space v \<noteq> []) vs of Some v \<Rightarrow> v | None \<Rightarrow> [])"

text \<open>\<open>sv_compact\<close> is the decoding and encoding again of a JSON text, the text itself when it does not decode.\<close>

definition compact_json :: "session_env \<Rightarrow> string \<Rightarrow> string" where
  "compact_json env v = (if trim_space v = [] then [] else sv_compact env v)"

record tool_metadata =
  tm_name :: string
  tm_status :: string
  tm_args :: string

definition parse_tool_metadata :: "session_env \<Rightarrow> string \<Rightarrow> tool_metadata" where
  "parse_tool_metadata env content =
     (let sections = split_tool_sections content;
          args = trim_space (sections ''arguments'') in
      \<lparr>tm_name = trim_space (sections ''tool''),
       tm_status = (if trim_space (sections ''error'') \<noteq> [] then ''error'' else ''success''),
       tm_args = (if args \<noteq> [] then first_non_empty [compact_json env args, args] else args)\<rparr>)"

definition apply_entry_metadata :: "session_env \<Rightarrow> entry \<Rightarrow> session_error + entry" where
  "apply_entry_metadata env e =
     (case data_from_entry env e of None \<Rightarrow> Inl EntryMetadata
      | Some d \<Rightarrow>
          let meta = parse_tool_metadata env (msg_content (ent_message e));
              result = (msg_role (ent_message e) = RoleToolResult);
              e1 = e\<lparr>ent_token_estimate := estimate_entry_tokens e,
                ent_model_facing := (case dt_model_facing d of Some b \<Rightarrow> b | None \<Rightarrow> entry_participates e),
                ent_display := entry_displays e d, ent_first_kept := dt_first_kept d, ent_tokens_before := dt_tokens_before d,
                ent_branch_from := dt_branch_from d,
                ent_tool_name := (if result then first_non_empty [dt_tool_name d, tm_name meta] else dt_tool_name d),
                ent_tool_status := (if result then first_non_empty [dt_tool_status d, tm_status meta] else dt_tool_status d),
                ent_tool_args_json := (if result then first_non_empty [dt_tool_args d, tm_args meta] else dt_tool_args d)\<rparr>;
              d1 = d\<lparr>dt_tool_name := [], dt_tool_status := [], dt_tool_args := [], dt_token_estimate := 0, dt_model_facing := None,
                dt_display := None, dt_first_kept := [], dt_tokens_before := 0, dt_branch_from := []\<rparr> in
          (case sv_encode env d1 of None \<Rightarrow> Inl EntryMetadata
           | Some json \<Rightarrow> Inr (e1\<lparr>ent_data_json := normalize_data_json json\<rparr>)))"

section \<open>Validation and preparation\<close>

definition no_role :: role where "no_role = RoleOther []"

definition entry_carries_message :: "entry \<Rightarrow> bool" where
  "entry_carries_message e \<longleftrightarrow> role_name (msg_role (ent_message e)) \<noteq> []"

fun entry_type_name :: "entry_type \<Rightarrow> string" where
  "entry_type_name EntryMessage = ''message''"
| "entry_type_name EntryCustom = ''custom''"
| "entry_type_name EntryCustomMessage = ''custom_message''"
| "entry_type_name EntryCompaction = ''compaction''"
| "entry_type_name EntryBranchSummary = ''branch_summary''"
| "entry_type_name EntryLabel = ''label''"
| "entry_type_name EntryModelChange = ''model_change''"
| "entry_type_name EntrySessionInfo = ''session_info''"
| "entry_type_name EntryThinkingLevelChange = ''thinking_level_change''"
| "entry_type_name (EntryOther s) = s"

definition valid_entry_entity :: "session_env \<Rightarrow> entry \<Rightarrow> bool" where
  "valid_entry_entity env e \<longleftrightarrow>
     valid_uuid_v7 (sv_uuid_version env) (ent_id e) \<and> valid_uuid_v7 (sv_uuid_version env) (ent_session_id e) \<and>
     (case ent_parent_id e of None \<Rightarrow> True | Some p \<Rightarrow> valid_uuid_v7 (sv_uuid_version env) p) \<and>
     trim_space (entry_type_name (ent_type e)) \<noteq> [] \<and> ent_created_at e \<noteq> 0 \<and>
     json_valid (normalize_data_json (ent_data_json e))"

definition canonicalize_entry_message_parts :: "entry \<Rightarrow> entry" where
  "canonicalize_entry_message_parts e =
     (if \<not> entry_carries_message e \<or> length (msg_parts (ent_message e)) \<noteq> 0 \<or> trim_space (msg_content (ent_message e)) = []
      then e
      else e\<lparr>ent_message := (ent_message e)\<lparr>msg_parts := [\<lparr>part_text = msg_content (ent_message e), part_mime = [], part_name = [],
        part_type = PartText, part_data = [], part_width = 0, part_height = 0\<rparr>]\<rparr>\<rparr>)"

definition prepare_append_entry :: "session_env \<Rightarrow> entry \<Rightarrow> session_error + entry" where
  "prepare_append_entry env e =
     (case apply_entry_metadata env (canonicalize_entry_message_parts e) of Inl err \<Rightarrow> Inl err
      | Inr e1 \<Rightarrow> if valid_entry_entity env e1 then Inr e1 else Inl EntryInvalid)"

definition project_session_message :: "entry \<Rightarrow> message_part list \<Rightarrow> session_message" where
  "project_session_message e parts =
     (let m = ent_message e in
      \<lparr>sm_created = (if msg_timestamp m = 0 then ent_created_at e else msg_timestamp m), sm_session_id = ent_session_id e,
       sm_entry_id = ent_id e,
       sm_sender = (if msg_role m = RoleCustom \<and> ent_custom_type e \<noteq> [] then ent_custom_type e else role_name (msg_role m)),
       sm_role = msg_role m, sm_content = message_parts_text parts, sm_provider = msg_provider m, sm_model = msg_model m,
       sm_parts = parts\<rparr>)"

definition valid_session_message :: "session_env \<Rightarrow> session_message \<Rightarrow> bool" where
  "valid_session_message env m \<longleftrightarrow>
     valid_uuid_v7 (sv_uuid_version env) (sm_entry_id m) \<and> valid_uuid_v7 (sv_uuid_version env) (sm_session_id m) \<and>
     trim_space (sm_sender m) \<noteq> [] \<and> trim_space (role_name (sm_role m)) \<noteq> [] \<and>
     validate_message_parts (sv_valid_mime env) (sm_parts m) = None \<and>
     (length (sm_parts m) > 0 \<longrightarrow> sm_content m = message_parts_text (sm_parts m)) \<and>
     (length (sm_parts m) = 0 \<longrightarrow> trim_space (sm_content m) = []) \<and> sm_created m \<noteq> 0"

section \<open>Inserting rows\<close>

text \<open>The pattern of the triggers: a UUID of version 7 in hexadecimal digits.\<close>

definition hex_digit :: "char \<Rightarrow> bool" where
  "hex_digit c \<longleftrightarrow> 48 \<le> byte c \<and> byte c \<le> 57 \<or> 65 \<le> byte c \<and> byte c \<le> 70 \<or> 97 \<le> byte c \<and> byte c \<le> 102"

definition uuid_v7_glob :: "string \<Rightarrow> bool" where
  "uuid_v7_glob s \<longleftrightarrow>
     (case split_byte (CHR ''-'') s of
        [a, b, c, d, e] \<Rightarrow>
          length a = 8 \<and> length b = 4 \<and> length c = 4 \<and> length d = 4 \<and> length e = 12 \<and>
          list_all hex_digit (a @ b @ c @ d @ e) \<and> hd c = CHR ''7'' \<and> hd d \<in> set ''89aAbB''
      | _ \<Rightarrow> False)"

definition entry_trigger_ok :: "entry \<Rightarrow> bool" where
  "entry_trigger_ok e \<longleftrightarrow>
     uuid_v7_glob (ent_session_id e) \<and> uuid_v7_glob (ent_id e) \<and>
     (case ent_parent_id e of None \<Rightarrow> True | Some p \<Rightarrow> uuid_v7_glob p) \<and>
     (ent_first_kept e = [] \<or> uuid_v7_glob (ent_first_kept e)) \<and> (ent_branch_from e = [] \<or> uuid_v7_glob (ent_branch_from e))"

definition parent_text :: "entry \<Rightarrow> string" where
  "parent_text e = (case ent_parent_id e of None \<Rightarrow> [] | Some p \<Rightarrow> p)"

text \<open>The unique keys: the id, the operation, and the parent of the compactions with an operation.\<close>

definition entry_conflict :: "session_db \<Rightarrow> entry \<Rightarrow> string \<Rightarrow> bool" where
  "entry_conflict db e op \<longleftrightarrow>
     (\<exists>r\<in>set (sd_entries db). ent_id (er_entry r) = ent_id e \<or> op \<noteq> [] \<and> er_operation r = op \<or>
        op \<noteq> [] \<and> ent_type e = EntryCompaction \<and> er_operation r \<noteq> [] \<and> ent_type (er_entry r) = EntryCompaction \<and>
        ent_session_id (er_entry r) = ent_session_id e \<and> parent_text (er_entry r) = parent_text e)"

text \<open>The foreign keys; a row may refer to itself, since they are checked after the insertion.\<close>

definition entry_references_ok :: "session_db \<Rightarrow> entry \<Rightarrow> bool" where
  "entry_references_ok db e \<longleftrightarrow>
     ent_session_id e \<in> sn_id ` set (sd_sessions db) \<and>
     (case ent_parent_id e of None \<Rightarrow> True
      | Some p \<Rightarrow> p = ent_id e \<or>
          (\<exists>r\<in>set (sd_entries db). ent_id (er_entry r) = p \<and> ent_session_id (er_entry r) = ent_session_id e))"

definition blank_message :: "gotime \<Rightarrow> message" where
  "blank_message created = \<lparr>msg_timestamp = created, msg_role = no_role, msg_content = [], msg_provider = [], msg_model = [],
     msg_parts = []\<rparr>"

definition entry_columns :: "entry \<Rightarrow> entry" where
  "entry_columns e = e\<lparr>ent_message := blank_message (ent_created_at e)\<rparr>"

definition insert_entry_ignoring_conflict :: "entry \<Rightarrow> string \<Rightarrow> bool \<Rightarrow> session_db \<Rightarrow> session_error + (bool \<times> session_db)" where
  "insert_entry_ignoring_conflict e op ignore_conflict db =
     (if \<not> entry_trigger_ok e then Inl SessionConstraint
      else if entry_conflict db e op then (if ignore_conflict then Inr (False, db) else Inl SessionConstraint)
      else if \<not> entry_references_ok db e then Inl SessionConstraint
      else Inr (True, db\<lparr>sd_entries := sd_entries db @ [\<lparr>er_entry = entry_columns e, er_operation = op\<rparr>]\<rparr>))"

definition append_entry_message :: "session_env \<Rightarrow> entry \<Rightarrow> session_db \<Rightarrow> session_error + session_db" where
  "append_entry_message env e db =
     (if \<not> entry_carries_message e then Inr db
      else let m = project_session_message e (msg_parts (ent_message e)) in
        if \<not> valid_session_message env m then Inl MessageInvalid
        else if sm_entry_id m \<in> mw_entry_id ` set (sd_messages db) then Inl SessionConstraint
        else Inr (db\<lparr>sd_messages := sd_messages db @ [\<lparr>mw_entry_id = sm_entry_id m, mw_role = sm_role m,
          mw_provider = sm_provider m, mw_model = sm_model m, mw_parts = sm_parts m\<rparr>]\<rparr>))"

definition touch_session :: "gotime \<Rightarrow> string \<Rightarrow> session_db \<Rightarrow> session_db" where
  "touch_session now i db =
     db\<lparr>sd_sessions := map (\<lambda>sn. if sn_id sn = i then sn\<lparr>sn_updated := now\<rparr> else sn) (sd_sessions db)\<rparr>"

definition append_entry_tx :: "session_env \<Rightarrow> entry \<Rightarrow> session_db \<Rightarrow> session_error + session_db" where
  "append_entry_tx env e db =
     (case insert_entry_ignoring_conflict e [] False db of Inl err \<Rightarrow> Inl err
      | Inr (inserted, db1) \<Rightarrow>
          if \<not> inserted then Inl SessionConstraint
          else (case append_entry_message env e db1 of Inl err \<Rightarrow> Inl err
            | Inr db2 \<Rightarrow> Inr (touch_session (ent_created_at e) (ent_session_id e) db2)))"

definition append_entry :: "session_env \<Rightarrow> entry \<Rightarrow> session_db \<Rightarrow> session_error + (entry \<times> session_db)" where
  "append_entry env e db =
     (case prepare_append_entry env e of Inl err \<Rightarrow> Inl err
      | Inr e1 \<Rightarrow> (case append_entry_tx env e1 db of Inl err \<Rightarrow> Inl err | Inr db1 \<Rightarrow> Inr (e1, db1)))"

section \<open>Reading entries\<close>

definition find_entry_row :: "session_db \<Rightarrow> (entry_row \<Rightarrow> bool) \<Rightarrow> entry_row option" where
  "find_entry_row db p = find p (sd_entries db)"

definition message_row_of :: "session_db \<Rightarrow> string \<Rightarrow> message_row option" where
  "message_row_of db i = find (\<lambda>m. mw_entry_id m = i) (sd_messages db)"

text \<open>\<open>hydrateEntryMessages\<close>: the message of an entry comes from its message row, if it has one.\<close>

definition hydrate_entry :: "session_db \<Rightarrow> entry \<Rightarrow> entry" where
  "hydrate_entry db e =
     (case message_row_of db (ent_id e) of
        None \<Rightarrow>
          if entry_carries_message e
          then e\<lparr>ent_message := (ent_message e)\<lparr>msg_parts := [], msg_content := message_parts_text []\<rparr>\<rparr> else e
      | Some m \<Rightarrow> e\<lparr>ent_message := \<lparr>msg_timestamp = ent_created_at e, msg_role = mw_role m,
          msg_content = message_parts_text (mw_parts m), msg_provider = mw_provider m, msg_model = mw_model m,
          msg_parts = mw_parts m\<rparr>\<rparr>)"

definition entry_before :: "entry \<Rightarrow> entry \<Rightarrow> bool" where
  "entry_before a b \<longleftrightarrow> stamp_less (stamp_of (ent_created_at a)) (stamp_of (ent_created_at b)) \<or>
     stamp_of (ent_created_at a) = stamp_of (ent_created_at b) \<and> text_less (ent_id a) (ent_id b)"

definition session_rows :: "session_db \<Rightarrow> string \<Rightarrow> entry list" where
  "session_rows db sid = filter (\<lambda>e. ent_session_id e = sid) (map er_entry (sd_entries db))"

definition session_entries :: "session_db \<Rightarrow> string \<Rightarrow> entry list" where
  "session_entries db sid = map (hydrate_entry db) (order_by entry_before (session_rows db sid))"

definition leaf_entry :: "session_db \<Rightarrow> string \<Rightarrow> entry option" where
  "leaf_entry db sid =
     (case order_by (\<lambda>a b. entry_before b a) (session_rows db sid) of [] \<Rightarrow> None | e # _ \<Rightarrow> Some (hydrate_entry db e))"

definition get_entry :: "session_db \<Rightarrow> string \<Rightarrow> string \<Rightarrow> entry option" where
  "get_entry db sid i = map_option (hydrate_entry db) (find (\<lambda>e. ent_id e = i) (session_rows db sid))"

definition children :: "session_db \<Rightarrow> string \<Rightarrow> string option \<Rightarrow> entry list" where
  "children db sid parent =
     map (hydrate_entry db) (order_by entry_before (filter (\<lambda>e. ent_parent_id e = parent) (session_rows db sid)))"

section \<open>Appending a compaction\<close>

definition same_compaction_target :: "entry \<Rightarrow> entry \<Rightarrow> bool" where
  "same_compaction_target left right \<longleftrightarrow>
     ent_session_id left = ent_session_id right \<and> ent_type left = EntryCompaction \<and> ent_type right = EntryCompaction \<and>
     ent_parent_id left = ent_parent_id right"

definition resolve_compaction_conflict :: "session_db \<Rightarrow> entry \<Rightarrow> string \<Rightarrow> session_error + entry" where
  "resolve_compaction_conflict db e op =
     (case find_entry_row db (\<lambda>r. er_operation r = op) of
        Some r \<Rightarrow> if \<not> same_compaction_target (er_entry r) e then Inl OperationMismatch else Inr (er_entry r)
      | None \<Rightarrow>
          (case find_entry_row db (\<lambda>r. ent_session_id (er_entry r) = ent_session_id e \<and> ent_type (er_entry r) = EntryCompaction \<and>
              ent_parent_id (er_entry r) = ent_parent_id e) of
             Some r \<Rightarrow> Inl (StaleCompactionParent (ent_id (er_entry r)))
           | None \<Rightarrow> Inl CompactionInsertConflict))"

definition append_compaction_tx :: "session_env \<Rightarrow> entry \<Rightarrow> string \<Rightarrow> session_db \<Rightarrow> session_error + (entry \<times> session_db)" where
  "append_compaction_tx env e op db =
     (case insert_entry_ignoring_conflict e op True db of Inl err \<Rightarrow> Inl err
      | Inr (inserted, db1) \<Rightarrow>
          if \<not> inserted then map_sum id (\<lambda>existing. (existing, db1)) (resolve_compaction_conflict db1 e op)
          else (case append_entry_message env e db1 of Inl err \<Rightarrow> Inl err
            | Inr db2 \<Rightarrow> Inr (e, touch_session (ent_created_at e) (ent_session_id e) db2)))"

definition append_compaction_conditional ::
  "session_env \<Rightarrow> entry \<Rightarrow> string \<Rightarrow> session_db \<Rightarrow> session_error + (entry \<times> session_db)" where
  "append_compaction_conditional env e op db =
     (if trim_space op = [] then Inl OperationRequired
      else case prepare_append_entry env e of Inl err \<Rightarrow> Inl err
        | Inr e1 \<Rightarrow>
            if (case ent_parent_id e1 of None \<Rightarrow> False
                | Some p \<Rightarrow> \<not> (\<exists>r\<in>set (sd_entries db). ent_session_id (er_entry r) = ent_session_id e1 \<and> ent_id (er_entry r) = p))
            then Inl CompactionParentMissing
            else (case append_compaction_tx env e1 op db of Inl err \<Rightarrow> Inl err
              | Inr (resolved, db1) \<Rightarrow> Inr (hydrate_entry db1 resolved, db1)))"

section \<open>Appending entries of each type\<close>

record append_options =
  ao_model_facing :: "bool option"
  ao_display :: "bool option"
  ao_timestamp :: gotime
  ao_usage :: "entry_usage option"
  ao_content :: string
  ao_custom_type :: string
  ao_data_json :: string
  ao_model :: string
  ao_provider :: string
  ao_summary :: string
  ao_role :: role
  ao_parts :: "message_part list"

definition new_append_options :: append_options where
  "new_append_options = \<lparr>ao_model_facing = None, ao_display = None, ao_timestamp = 0, ao_usage = None, ao_content = [],
     ao_custom_type = [], ao_data_json = [], ao_model = [], ao_provider = [], ao_summary = [], ao_role = no_role, ao_parts = []\<rparr>"

text \<open>\<open>new_id\<close> and \<open>now\<close> are the fresh identifier and the clock of one append.\<close>

definition entry_from_append_options ::
  "string \<Rightarrow> gotime \<Rightarrow> string \<Rightarrow> string option \<Rightarrow> entry_type \<Rightarrow> append_options \<Rightarrow> entry" where
  "entry_from_append_options new_id now sid parent ty opts =
     (let timestamp = (if ao_timestamp opts = 0 then now else ao_timestamp opts) in
      \<lparr>ent_created_at = timestamp, ent_parent_id = parent, ent_tool_status = [], ent_session_id = sid, ent_tool_args_json = [],
       ent_custom_type = ao_custom_type opts,
       ent_data_json = (if ao_data_json opts \<noteq> [] then normalize_data_json (ao_data_json opts) else ''{}''), ent_id = new_id,
       ent_summary = ao_summary opts, ent_tool_name = [], ent_type = ty, ent_branch_from = [], ent_first_kept = [],
       ent_message = \<lparr>msg_timestamp = timestamp, msg_role = ao_role opts, msg_content = ao_content opts,
         msg_provider = ao_provider opts, msg_model = ao_model opts, msg_parts = ao_parts opts\<rparr>,
       ent_tokens_before = 0, ent_token_estimate = 0, ent_display = True, ent_model_facing = False\<rparr>)"

definition apply_append_entry_metadata :: "session_env \<Rightarrow> entry \<Rightarrow> append_options \<Rightarrow> session_error + entry" where
  "apply_append_entry_metadata env e opts =
     (if ao_model_facing opts = None \<and> ao_display opts = None \<and> ao_usage opts = None then Inr e
      else case data_from_entry env e of None \<Rightarrow> Inl EntryDataDecode
        | Some d \<Rightarrow>
            let d1 = d\<lparr>dt_model_facing := (if ao_model_facing opts \<noteq> None then ao_model_facing opts else dt_model_facing d),
                  dt_display := (if ao_display opts \<noteq> None then ao_display opts else dt_display d),
                  dt_usage := (if ao_usage opts \<noteq> None then ao_usage opts else dt_usage d)\<rparr> in
            (case sv_encode env d1 of None \<Rightarrow> Inl EntryDataEncode
             | Some json \<Rightarrow> Inr (e\<lparr>ent_data_json := normalize_data_json json\<rparr>)))"

definition append_built_entry ::
  "session_env \<Rightarrow> string \<Rightarrow> gotime \<Rightarrow> string \<Rightarrow> string option \<Rightarrow> entry_type \<Rightarrow> append_options \<Rightarrow> session_db \<Rightarrow>
   session_error + (entry \<times> session_db)" where
  "append_built_entry env new_id now sid parent ty opts db =
     (case apply_append_entry_metadata env (entry_from_append_options new_id now sid parent ty opts) opts of
        Inl err \<Rightarrow> Inl err
      | Inr e \<Rightarrow> append_entry env e db)"

definition append_options_from_message :: "message option \<Rightarrow> session_error + append_options" where
  "append_options_from_message message =
     (case message of None \<Rightarrow> Inl NilMessage
      | Some m \<Rightarrow> Inr (new_append_options\<lparr>ao_content := msg_content m, ao_model := msg_model m, ao_provider := msg_provider m,
          ao_role := msg_role m, ao_timestamp := msg_timestamp m, ao_parts := msg_parts m\<rparr>))"

definition append_message_with_metadata ::
  "session_env \<Rightarrow> string \<Rightarrow> gotime \<Rightarrow> string \<Rightarrow> string option \<Rightarrow> message option \<Rightarrow> bool option \<Rightarrow> entry_usage option \<Rightarrow>
   session_db \<Rightarrow> session_error + (entry \<times> session_db)" where
  "append_message_with_metadata env new_id now sid parent message facing use db =
     (case append_options_from_message message of Inl err \<Rightarrow> Inl err
      | Inr opts \<Rightarrow> append_built_entry env new_id now sid parent EntryMessage
          (opts\<lparr>ao_model_facing := facing, ao_usage := use\<rparr>) db)"

definition append_message_with_display ::
  "session_env \<Rightarrow> string \<Rightarrow> gotime \<Rightarrow> string \<Rightarrow> string option \<Rightarrow> message option \<Rightarrow> bool option \<Rightarrow> bool option \<Rightarrow>
   session_db \<Rightarrow> session_error + (entry \<times> session_db)" where
  "append_message_with_display env new_id now sid parent message facing shown db =
     (case append_options_from_message message of Inl err \<Rightarrow> Inl err
      | Inr opts \<Rightarrow> append_built_entry env new_id now sid parent EntryMessage
          (opts\<lparr>ao_model_facing := facing, ao_display := shown\<rparr>) db)"

definition append_custom_entry ::
  "session_env \<Rightarrow> string \<Rightarrow> gotime \<Rightarrow> string \<Rightarrow> string option \<Rightarrow> string \<Rightarrow> string \<Rightarrow> session_db \<Rightarrow>
   session_error + (entry \<times> session_db)" where
  "append_custom_entry env new_id now sid parent custom_type json db =
     append_built_entry env new_id now sid parent EntryCustom
       (new_append_options\<lparr>ao_custom_type := custom_type, ao_data_json := json\<rparr>) db"

definition append_custom_message ::
  "session_env \<Rightarrow> string \<Rightarrow> gotime \<Rightarrow> string \<Rightarrow> string option \<Rightarrow> string \<Rightarrow> string \<Rightarrow> bool \<Rightarrow> string option \<Rightarrow> session_db \<Rightarrow>
   session_error + (entry \<times> session_db)" where
  "append_custom_message env new_id now sid parent custom_type content shown details db =
     (case sv_encode env (new_entry_data\<lparr>dt_details := details, dt_display := Some shown, dt_model_facing := Some shown\<rparr>) of
        None \<Rightarrow> Inl EntryDataEncode
      | Some json \<Rightarrow> append_built_entry env new_id now sid parent EntryCustomMessage
          (new_append_options\<lparr>ao_content := content, ao_custom_type := custom_type, ao_data_json := json, ao_role := RoleCustom,
             ao_model_facing := Some shown\<rparr>) db)"

definition append_model_change ::
  "session_env \<Rightarrow> string \<Rightarrow> gotime \<Rightarrow> string \<Rightarrow> string option \<Rightarrow> string \<Rightarrow> string \<Rightarrow> session_db \<Rightarrow>
   session_error + (entry \<times> session_db)" where
  "append_model_change env new_id now sid parent provider model db =
     append_built_entry env new_id now sid parent EntryModelChange
       (new_append_options\<lparr>ao_model := model, ao_provider := provider\<rparr>) db"

definition append_summary_entry ::
  "session_env \<Rightarrow> string \<Rightarrow> gotime \<Rightarrow> string \<Rightarrow> string option \<Rightarrow> entry_type \<Rightarrow> string \<Rightarrow> string \<Rightarrow> session_db \<Rightarrow>
   session_error + (entry \<times> session_db)" where
  "append_summary_entry env new_id now sid parent ty summary json db =
     append_built_entry env new_id now sid parent ty (new_append_options\<lparr>ao_data_json := json, ao_summary := summary\<rparr>) db"

definition append_thinking_level_change ::
  "session_env \<Rightarrow> string \<Rightarrow> gotime \<Rightarrow> string \<Rightarrow> string option \<Rightarrow> string \<Rightarrow> session_db \<Rightarrow> session_error + (entry \<times> session_db)" where
  "append_thinking_level_change env new_id now sid parent level db =
     (case sv_encode env (new_entry_data\<lparr>dt_thinking_level := level\<rparr>) of None \<Rightarrow> Inl EntryDataEncode
      | Some json \<Rightarrow> append_built_entry env new_id now sid parent EntryThinkingLevelChange
          (new_append_options\<lparr>ao_data_json := json\<rparr>) db)"

definition append_branch_summary ::
  "session_env \<Rightarrow> string \<Rightarrow> gotime \<Rightarrow> string \<Rightarrow> string option \<Rightarrow> string \<Rightarrow> string \<Rightarrow> string option \<Rightarrow> bool \<Rightarrow> session_db \<Rightarrow>
   session_error + (entry \<times> session_db)" where
  "append_branch_summary env new_id now sid parent from_id summary details from_hook db =
     (case sv_encode env (new_entry_data\<lparr>dt_details := details, dt_from_hook := from_hook, dt_branch_from := from_id\<rparr>) of
        None \<Rightarrow> Inl EntryDataEncode
      | Some json \<Rightarrow> append_summary_entry env new_id now sid parent EntryBranchSummary summary json db)"

definition append_label_change ::
  "session_env \<Rightarrow> string \<Rightarrow> gotime \<Rightarrow> string \<Rightarrow> string option \<Rightarrow> string \<Rightarrow> string option \<Rightarrow> session_db \<Rightarrow>
   session_error + (entry \<times> session_db)" where
  "append_label_change env new_id now sid parent target label db =
     (case sv_encode env (new_entry_data\<lparr>dt_label := label, dt_target_id := target\<rparr>) of None \<Rightarrow> Inl EntryDataEncode
      | Some json \<Rightarrow> append_summary_entry env new_id now sid parent EntryLabel [] json db)"

definition append_session_info ::
  "session_env \<Rightarrow> string \<Rightarrow> gotime \<Rightarrow> string \<Rightarrow> string option \<Rightarrow> string \<Rightarrow> session_db \<Rightarrow> session_error + (entry \<times> session_db)" where
  "append_session_info env new_id now sid parent name db =
     (case sv_encode env (new_entry_data\<lparr>dt_name := name\<rparr>) of None \<Rightarrow> Inl EntryDataEncode
      | Some json \<Rightarrow> (case append_summary_entry env new_id now sid parent EntrySessionInfo [] json db of Inl err \<Rightarrow> Inl err
          | Inr (e, db1) \<Rightarrow> Inr (e, db1\<lparr>sd_sessions :=
              map (\<lambda>sn. if sn_id sn = sid then sn\<lparr>sn_name := name\<rparr> else sn) (sd_sessions db1)\<rparr>)))"

record compaction_input =
  ci_parent :: "string option"
  ci_details :: "string option"
  ci_session_id :: string
  ci_summary :: string
  ci_first_kept :: string
  ci_operation_id :: string
  ci_tokens_before :: int
  ci_from_hook :: bool

definition append_compaction ::
  "session_env \<Rightarrow> string \<Rightarrow> gotime \<Rightarrow> compaction_input option \<Rightarrow> session_db \<Rightarrow> session_error + (entry \<times> session_db)" where
  "append_compaction env new_id now input db =
     (case input of None \<Rightarrow> Inl NilCompactionInput
      | Some ci \<Rightarrow>
          (case sv_encode env (new_entry_data\<lparr>dt_details := ci_details ci, dt_from_hook := ci_from_hook ci,
              dt_first_kept := ci_first_kept ci, dt_tokens_before := ci_tokens_before ci\<rparr>) of
             None \<Rightarrow> Inl EntryDataEncode
           | Some json \<Rightarrow> append_compaction_conditional env
               (entry_from_append_options new_id now (ci_session_id ci) (ci_parent ci) EntryCompaction
                  (new_append_options\<lparr>ao_summary := ci_summary ci, ao_data_json := json\<rparr>)) (ci_operation_id ci) db))"

section \<open>Sessions\<close>

definition valid_session_entity :: "session_env \<Rightarrow> session \<Rightarrow> bool" where
  "valid_session_entity env sn \<longleftrightarrow>
     valid_uuid_v7 (sv_uuid_version env) (sn_id sn) \<and> trim_space (sn_cwd sn) \<noteq> [] \<and> sn_created sn \<noteq> 0 \<and> sn_updated sn \<noteq> 0"

text \<open>\<open>create_session\<close>: an empty parent is stored as \<open>NULL\<close>.\<close>

definition create_session ::
  "session_env \<Rightarrow> string \<Rightarrow> gotime \<Rightarrow> string \<Rightarrow> string \<Rightarrow> string \<Rightarrow> session_db \<Rightarrow> session_error + (session \<times> session_db)" where
  "create_session env new_id now cwd name parent db =
     (let sn = \<lparr>sn_id = new_id, sn_cwd = cwd, sn_name = name, sn_parent = (if parent = [] then None else Some parent),
            sn_created = now, sn_updated = now\<rparr> in
      if \<not> valid_session_entity env sn then Inl SessionInvalid
      else if \<not> uuid_v7_glob new_id \<or> parent \<noteq> [] \<and> \<not> uuid_v7_glob parent \<or> new_id \<in> sn_id ` set (sd_sessions db) \<or>
          parent \<noteq> [] \<and> parent \<notin> sn_id ` set (sd_sessions db) then Inl SessionConstraint
      else Inr (sn, db\<lparr>sd_sessions := sd_sessions db @ [sn]\<rparr>))"

definition session_after :: "session \<Rightarrow> session \<Rightarrow> bool" where
  "session_after a b \<longleftrightarrow> stamp_less (stamp_of (sn_updated b)) (stamp_of (sn_updated a)) \<or>
     stamp_of (sn_updated a) = stamp_of (sn_updated b) \<and> text_less (sn_id b) (sn_id a)"

definition list_sessions :: "session_db \<Rightarrow> string \<Rightarrow> session list" where
  "list_sessions db cwd = order_by session_after (filter (\<lambda>sn. sn_cwd sn = cwd \<and> sn_parent sn = None) (sd_sessions db))"

definition latest_session :: "session_db \<Rightarrow> string \<Rightarrow> session option" where
  "latest_session db cwd = (case list_sessions db cwd of [] \<Rightarrow> None | sn # _ \<Rightarrow> Some sn)"

definition get_session :: "session_db \<Rightarrow> string \<Rightarrow> session option" where
  "get_session db i = find (\<lambda>sn. sn_id sn = i) (sd_sessions db)"

definition list_child_sessions :: "session_db \<Rightarrow> string \<Rightarrow> session list" where
  "list_child_sessions db parent = order_by session_after (filter (\<lambda>sn. sn_parent sn = Some parent) (sd_sessions db))"

end
