(* ===== verification/Session_Tree.thy ===== *)
theory Session_Tree
  imports Session_Store
begin

text \<open>
  The tree of a session (\<^verbatim>\<open>session_store.go\<close>, \<^verbatim>\<open>session_entry_repository.go\<close>): the walk from an entry to the
  root, the deletion of a subtree, and the invariant of the tables under every operation that
  appends or deletes entries. The recursive queries are partial functions: a table with a cycle of
  parents makes them run forever.
\<close>

section \<open>Recursive queries\<close>

text \<open>
  \<^verbatim>\<open>branchChainSQL\<close>: from the start to the root, joined with the entries and ordered from the root. A
  missing entry ends the walk.
\<close>

partial_function (option) branch_chain :: "session_db \<Rightarrow> string \<Rightarrow> string \<Rightarrow> entry list option" where
  "branch_chain db sid i =
     (case find (\<lambda>e. ent_id e = i) (session_rows db sid) of
        None \<Rightarrow> Some []
      | Some e \<Rightarrow>
          (case ent_parent_id e of
             None \<Rightarrow> Some [e]
           | Some p \<Rightarrow> Option.bind (branch_chain db sid p) (\<lambda>es. Some (es @ [e]))))"

text \<open>The newest entry without children, by the stored texts.\<close>

definition newest_leaf :: "session_db \<Rightarrow> string \<Rightarrow> string option" where
  "newest_leaf db sid =
     (case order_by (\<lambda>a b. entry_before b a)
        (filter (\<lambda>e. \<not> (\<exists>c\<in>set (session_rows db sid). ent_parent_id c = Some (ent_id e))) (session_rows db sid)) of
        [] \<Rightarrow> None | e # _ \<Rightarrow> Some (ent_id e))"

definition branch :: "session_db \<Rightarrow> string \<Rightarrow> string \<Rightarrow> (session_error + entry list) option" where
  "branch db sid entry_id =
     (case (if entry_id = [] then newest_leaf db sid else Some entry_id) of
        None \<Rightarrow> Some (Inr [])
      | Some start \<Rightarrow>
          (case branch_chain db sid start of
             None \<Rightarrow> None
           | Some es \<Rightarrow>
               if entry_id \<noteq> [] \<and> length es = 0 then Some (Inl (BranchEntryMissing entry_id))
               else Some (Inr (map (hydrate_entry db) es))))"

text \<open>The rows of the subtree query, level by level.\<close>

partial_function (option) subtree_levels :: "session_db \<Rightarrow> string \<Rightarrow> string list \<Rightarrow> string list option" where
  "subtree_levels db sid frontier =
     (if frontier = [] then Some []
      else Option.bind (subtree_levels db sid
             (concat (map (\<lambda>i. map ent_id (filter (\<lambda>c. ent_parent_id c = Some i) (session_rows db sid))) frontier)))
           (\<lambda>rest. Some (frontier @ rest)))"

text \<open>Deleting an entry deletes its message by the foreign key of the message table.\<close>

definition remove_entries :: "string \<Rightarrow> string list \<Rightarrow> session_db \<Rightarrow> session_db" where
  "remove_entries sid ids db =
     (let gone = (\<lambda>r. ent_session_id (er_entry r) = sid \<and> ent_id (er_entry r) \<in> set ids);
          dead = ent_id ` er_entry ` set (filter gone (sd_entries db)) in
      db\<lparr>sd_entries := filter (\<lambda>r. \<not> gone r) (sd_entries db), sd_messages := filter (\<lambda>m. mw_entry_id m \<notin> dead) (sd_messages db)\<rparr>)"

definition delete_entry_branch :: "gotime \<Rightarrow> string \<Rightarrow> string \<Rightarrow> session_db \<Rightarrow> session_db option" where
  "delete_entry_branch now sid entry_id db =
     map_option (\<lambda>ids. touch_session now sid (remove_entries sid ids db))
       (subtree_levels db sid (map ent_id (filter (\<lambda>e. ent_id e = entry_id) (session_rows db sid))))"

section \<open>The tree of nodes\<close>

datatype tree_node = TreeNode entry "tree_node list"

definition tree_before :: "entry \<Rightarrow> entry \<Rightarrow> bool" where
  "tree_before a b \<longleftrightarrow> ent_created_at a < ent_created_at b \<or> ent_created_at a = ent_created_at b \<and> text_less (ent_id a) (ent_id b)"

definition children_by_parent :: "entry list \<Rightarrow> string \<Rightarrow> entry list" where
  "children_by_parent es parent = order_by tree_before (filter (\<lambda>e. parent_text e = parent) es)"

text \<open>The recursion of \<open>build\<close> with the depth that is still allowed; \<open>None\<close> when it does not suffice.\<close>

fun build_tree :: "nat \<Rightarrow> entry list \<Rightarrow> string \<Rightarrow> tree_node list option" where
  "build_tree 0 es parent = None"
| "build_tree (Suc n) es parent =
     those (map (\<lambda>e. map_option (TreeNode e) (build_tree n es (ent_id e))) (children_by_parent es parent))"

definition session_tree :: "nat \<Rightarrow> session_db \<Rightarrow> string \<Rightarrow> tree_node list option" where
  "session_tree depth db sid = build_tree depth (session_entries db sid) []"

section \<open>Steps and invariant\<close>

definition rows_of :: "session_db \<Rightarrow> entry list" where
  "rows_of db = map er_entry (sd_entries db)"

text \<open>A rank that grows from every parent to its children: the parents form no cycle.\<close>

definition ranked :: "(string \<Rightarrow> nat) \<Rightarrow> entry list \<Rightarrow> bool" where
  "ranked rank es \<longleftrightarrow> (\<forall>e\<in>set es. \<forall>p. ent_parent_id e = Some p \<longrightarrow> rank p < rank (ent_id e))"

definition parents_present :: "entry list \<Rightarrow> bool" where
  "parents_present es \<longleftrightarrow>
     (\<forall>e\<in>set es. \<forall>p. ent_parent_id e = Some p \<longrightarrow> (\<exists>q\<in>set es. ent_id q = p \<and> ent_session_id q = ent_session_id e))"

definition is_claimed_compaction :: "entry_row \<Rightarrow> bool" where
  "is_claimed_compaction r \<longleftrightarrow> er_operation r \<noteq> [] \<and> ent_type (er_entry r) = EntryCompaction"

definition session_inv :: "session_db \<Rightarrow> bool" where
  "session_inv db \<longleftrightarrow>
     distinct (map sn_id (sd_sessions db)) \<and> distinct (map ent_id (rows_of db)) \<and>
     ent_session_id ` set (rows_of db) \<subseteq> sn_id ` set (sd_sessions db) \<and>
     parents_present (rows_of db) \<and> (\<exists>rank. ranked rank (rows_of db)) \<and>
     (\<forall>e\<in>set (rows_of db). ent_message e = blank_message (ent_created_at e) \<and> ent_id e \<noteq> []) \<and>
     distinct (filter (\<lambda>op. op \<noteq> []) (map er_operation (sd_entries db))) \<and>
     distinct (map (\<lambda>r. (ent_session_id (er_entry r), ent_parent_id (er_entry r))) (filter is_claimed_compaction (sd_entries db))) \<and>
     distinct (map mw_entry_id (sd_messages db)) \<and> mw_entry_id ` set (sd_messages db) \<subseteq> ent_id ` set (rows_of db)"

text \<open>The identifier of a new entry is fresh, so no caller can name it as its own parent.\<close>

inductive session_step :: "session_db \<Rightarrow> session_db \<Rightarrow> bool" where
  create: "create_session env new_id now cwd name parent db = Inr (sn, db') \<Longrightarrow> session_step db db'"
| append: "append_entry env e db = Inr (e', db') \<Longrightarrow> ent_parent_id e \<noteq> Some (ent_id e) \<Longrightarrow> session_step db db'"
| compaction: "append_compaction_conditional env e op db = Inr (e', db') \<Longrightarrow> ent_parent_id e \<noteq> Some (ent_id e) \<Longrightarrow>
    session_step db db'"
| info: "append_session_info env new_id now sid parent name db = Inr (e', db') \<Longrightarrow> parent \<noteq> Some new_id \<Longrightarrow>
    session_step db db'"
| delete: "delete_entry_branch now sid entry_id db = Some db' \<Longrightarrow> session_step db db'"

definition session_init :: "session_db \<Rightarrow> bool" where
  "session_init db \<longleftrightarrow> sd_sessions db = [] \<and> sd_entries db = [] \<and> sd_messages db = []"

inductive_cases session_stepE: "session_step db db'"

lemma rows_of_simps [simp]:
  "rows_of (db\<lparr>sd_sessions := x\<rparr>) = rows_of db" "rows_of (db\<lparr>sd_messages := y\<rparr>) = rows_of db"
  "rows_of (touch_session now i db) = rows_of db"
  "rows_of (db\<lparr>sd_entries := sd_entries db @ [r]\<rparr>) = rows_of db @ [er_entry r]"
  by (simp_all add: rows_of_def touch_session_def)

lemma session_rows_eq: "session_rows db sid = filter (\<lambda>e. ent_session_id e = sid) (rows_of db)"
  by (simp add: session_rows_def rows_of_def)

lemma entry_columns_simps [simp]:
  "ent_id (entry_columns e) = ent_id e" "ent_parent_id (entry_columns e) = ent_parent_id e"
  "ent_session_id (entry_columns e) = ent_session_id e" "ent_type (entry_columns e) = ent_type e"
  "ent_created_at (entry_columns e) = ent_created_at e" "ent_message (entry_columns e) = blank_message (ent_created_at e)"
  "ent_first_kept (entry_columns e) = ent_first_kept e" "ent_summary (entry_columns e) = ent_summary e"
  "ent_model_facing (entry_columns e) = ent_model_facing e" "ent_data_json (entry_columns e) = ent_data_json e"
  by (simp_all add: entry_columns_def)

lemma uuid_glob_not_empty: "uuid_v7_glob i \<Longrightarrow> i \<noteq> []"
  by (auto simp: uuid_v7_glob_def)

lemma ranked_append:
  assumes "ranked rank es" and "parents_present es" and "ent_id e \<notin> ent_id ` set es"
    and "ent_parent_id e \<noteq> Some (ent_id e)"
  shows "\<exists>rank. ranked rank (es @ [e])"
proof (cases "ent_parent_id e")
  case None
  with assms(1) have "ranked rank (es @ [e])" by (auto simp: ranked_def)
  then show ?thesis by blast
next
  case (Some p)
  let ?rank = "rank(ent_id e := Suc (rank p))"
  have "ranked ?rank (es @ [e])"
    unfolding ranked_def
  proof (intro ballI allI impI)
    fix x q
    assume x: "x \<in> set (es @ [e])" and q: "ent_parent_id x = Some q"
    show "?rank q < ?rank (ent_id x)"
    proof (cases "x \<in> set es")
      case True
      with assms(2) q have "q \<in> ent_id ` set es" by (force simp: parents_present_def)
      with assms(3) True have "q \<noteq> ent_id e" "ent_id x \<noteq> ent_id e" by (blast, metis imageI)
      with assms(1) True q show ?thesis by (simp add: ranked_def)
    next
      case False
      with x have "x = e" by simp
      with q Some assms(4) show ?thesis by auto
    qed
  qed
  then show ?thesis by blast
qed

lemma insert_entry_cases:
  assumes "insert_entry_ignoring_conflict e op ic db = Inr (b, db')"
  shows "\<not> b \<and> db' = db \<and> entry_conflict db e op \<or>
    b \<and> db' = db\<lparr>sd_entries := sd_entries db @ [\<lparr>er_entry = entry_columns e, er_operation = op\<rparr>]\<rparr> \<and>
      entry_trigger_ok e \<and> \<not> entry_conflict db e op \<and> entry_references_ok db e"
  using assms by (auto simp: insert_entry_ignoring_conflict_def split: if_splits)

lemma session_inv_insert:
  assumes "session_inv db" and "insert_entry_ignoring_conflict e op ic db = Inr (b, db')"
    and "ent_parent_id e \<noteq> Some (ent_id e)"
  shows "session_inv db'"
proof (cases b)
  case False
  with insert_entry_cases [OF assms(2)] assms(1) show ?thesis by auto
next
  case True
  let ?r = "\<lparr>er_entry = entry_columns e, er_operation = op\<rparr>"
  from insert_entry_cases [OF assms(2)] True have db': "db' = db\<lparr>sd_entries := sd_entries db @ [?r]\<rparr>"
    and trig: "entry_trigger_ok e" and noc: "\<not> entry_conflict db e op" and ref: "entry_references_ok db e" by auto
  have rows: "rows_of db' = rows_of db @ [entry_columns e]" by (simp add: db')
  have fresh: "ent_id e \<notin> ent_id ` set (rows_of db)"
    using noc by (auto simp: entry_conflict_def rows_of_def)
  note inv = assms(1) [unfolded session_inv_def]
  obtain rank where rank: "ranked rank (rows_of db)" using inv by blast
  have "parents_present (rows_of db')"
    using inv ref assms(3) unfolding rows parents_present_def entry_references_ok_def
    by (auto simp: rows_of_def split: option.splits)
  moreover have "\<exists>rank. ranked rank (rows_of db')"
    unfolding rows using inv fresh assms(3) by (intro ranked_append [OF rank]) simp_all
  moreover have "ent_id e \<noteq> []" using trig uuid_glob_not_empty by (auto simp: entry_trigger_ok_def)
  moreover have "distinct (filter (\<lambda>op. op \<noteq> []) (map er_operation (sd_entries db')))"
    using inv noc by (auto simp: db' entry_conflict_def)
  moreover have "distinct (map (\<lambda>r. (ent_session_id (er_entry r), ent_parent_id (er_entry r))) (filter is_claimed_compaction (sd_entries db')))"
    using inv noc by (auto simp: db' entry_conflict_def is_claimed_compaction_def parent_text_def)
  ultimately show ?thesis
    using inv fresh ref unfolding session_inv_def rows
    by (auto simp: db' entry_references_ok_def)
qed

lemma session_inv_sessions:
  assumes "session_inv db" and "sd_entries db' = sd_entries db" and "sd_messages db' = sd_messages db"
    and "distinct (map sn_id (sd_sessions db'))" and "sn_id ` set (sd_sessions db) \<subseteq> sn_id ` set (sd_sessions db')"
  shows "session_inv db'"
proof -
  have r: "rows_of db' = rows_of db" by (simp add: rows_of_def assms(2))
  have "ent_session_id ` set (rows_of db) \<subseteq> sn_id ` set (sd_sessions db')"
    using assms(1,5) unfolding session_inv_def by (meson order_trans)
  with assms(1,4) show ?thesis unfolding session_inv_def r assms(2,3) by simp
qed

lemma touch_ids: "map sn_id (sd_sessions (touch_session now i db)) = map sn_id (sd_sessions db)"
  by (simp add: touch_session_def)

lemma session_inv_same_ids:
  assumes "session_inv db" and "sd_entries db' = sd_entries db" and "sd_messages db' = sd_messages db"
    and "map sn_id (sd_sessions db') = map sn_id (sd_sessions db)"
  shows "session_inv db'"
proof (rule session_inv_sessions [OF assms(1,2,3)])
  from assms(1,4) show "distinct (map sn_id (sd_sessions db'))" by (simp add: session_inv_def)
  from arg_cong [OF assms(4), of set] show "sn_id ` set (sd_sessions db) \<subseteq> sn_id ` set (sd_sessions db')" by simp
qed

lemma session_inv_touch: "session_inv db \<Longrightarrow> session_inv (touch_session now i db)"
  by (rule session_inv_same_ids) (auto simp: touch_session_def)

lemma append_entry_message_cases:
  "append_entry_message env e db = Inr db' \<Longrightarrow>
   \<not> entry_carries_message e \<and> db' = db \<or>
   entry_carries_message e \<and> ent_id e \<notin> mw_entry_id ` set (sd_messages db) \<and>
     db' = db\<lparr>sd_messages := sd_messages db @ [\<lparr>mw_entry_id = ent_id e, mw_role = msg_role (ent_message e),
       mw_provider = msg_provider (ent_message e), mw_model = msg_model (ent_message e), mw_parts = msg_parts (ent_message e)\<rparr>]\<rparr>"
  by (auto simp: append_entry_message_def Let_def project_session_message_def split: if_splits)

lemma session_inv_message:
  assumes "session_inv db" and "append_entry_message env e db = Inr db'" and "ent_id e \<in> ent_id ` set (rows_of db)"
  shows "session_inv db'"
proof -
  from append_entry_message_cases [OF assms(2)] show ?thesis
  proof
    let ?m = "\<lparr>mw_entry_id = ent_id e, mw_role = msg_role (ent_message e), mw_provider = msg_provider (ent_message e),
      mw_model = msg_model (ent_message e), mw_parts = msg_parts (ent_message e)\<rparr>"
    assume m: "entry_carries_message e \<and> ent_id e \<notin> mw_entry_id ` set (sd_messages db) \<and>
      db' = db\<lparr>sd_messages := sd_messages db @ [?m]\<rparr>"
    then have "distinct (map mw_entry_id (sd_messages db'))" "mw_entry_id ` set (sd_messages db') \<subseteq> ent_id ` set (rows_of db)"
      using assms(1,3) by (simp_all add: session_inv_def)
    with assms(1) m show ?thesis by (simp add: session_inv_def)
  qed (use assms(1) in simp)
qed

lemma prepared_keeps:
  "prepare_append_entry env e = Inr e' \<Longrightarrow>
   ent_id e' = ent_id e \<and> ent_parent_id e' = ent_parent_id e \<and> ent_session_id e' = ent_session_id e \<and> ent_type e' = ent_type e \<and>
   ent_created_at e' = ent_created_at e \<and> ent_summary e' = ent_summary e \<and> valid_entry_entity env e'"
  by (auto simp: prepare_append_entry_def apply_entry_metadata_def canonicalize_entry_message_parts_def Let_def
      split: sum.splits option.splits if_splits)

lemma inserted_mem:
  "insert_entry_ignoring_conflict e op ic db = Inr (True, db') \<Longrightarrow> ent_id e \<in> ent_id ` set (rows_of db')"
  using insert_entry_cases [of e op ic db True db'] by auto

lemma session_inv_append:
  assumes "session_inv db" and "append_entry env e db = Inr (e', db')" and "ent_parent_id e \<noteq> Some (ent_id e)"
  shows "session_inv db'"
proof -
  from assms(2) obtain e1 db1 db2 where p: "prepare_append_entry env e = Inr e1"
    and i: "insert_entry_ignoring_conflict e1 [] False db = Inr (True, db1)"
    and m: "append_entry_message env e1 db1 = Inr db2" "db' = touch_session (ent_created_at e1) (ent_session_id e1) db2"
    by (auto simp: append_entry_def append_entry_tx_def split: sum.splits if_splits)
  from prepared_keeps [OF p] assms(3) have "ent_parent_id e1 \<noteq> Some (ent_id e1)" by simp
  from session_inv_insert [OF assms(1) i this] have "session_inv db1" .
  from session_inv_message [OF this m(1) inserted_mem [OF i]] show ?thesis by (simp add: m(2) session_inv_touch)
qed

lemma append_compaction_InrD:
  assumes "append_compaction_conditional env e op db = Inr (e', db')"
  obtains e1 b db1 where "prepare_append_entry env e = Inr e1" "trim_space op \<noteq> []"
    "insert_entry_ignoring_conflict e1 op True db = Inr (b, db1)"
    "\<not> b \<Longrightarrow> db' = db1 \<and> (\<exists>x. resolve_compaction_conflict db1 e1 op = Inr x \<and> e' = hydrate_entry db1 x)"
    "b \<Longrightarrow> \<exists>db2. append_entry_message env e1 db1 = Inr db2 \<and> e' = hydrate_entry db' e1 \<and>
       db' = touch_session (ent_created_at e1) (ent_session_id e1) db2"
proof -
  from assms obtain e1 r where p: "prepare_append_entry env e = Inr e1" "trim_space op \<noteq> []"
    and t: "append_compaction_tx env e1 op db = Inr (r, db')" "e' = hydrate_entry db' r"
    by (auto simp: append_compaction_conditional_def split: sum.splits if_splits)
  from t(1) obtain b db1 where i: "insert_entry_ignoring_conflict e1 op True db = Inr (b, db1)"
    by (auto simp: append_compaction_tx_def split: sum.splits)
  show ?thesis
  proof (rule that [OF p i])
    show "db' = db1 \<and> (\<exists>x. resolve_compaction_conflict db1 e1 op = Inr x \<and> e' = hydrate_entry db1 x)" if "\<not> b"
      using t i that by (cases "resolve_compaction_conflict db1 e1 op") (auto simp: append_compaction_tx_def)
    show "\<exists>db2. append_entry_message env e1 db1 = Inr db2 \<and> e' = hydrate_entry db' e1 \<and>
       db' = touch_session (ent_created_at e1) (ent_session_id e1) db2" if b
      using t i that by (auto simp: append_compaction_tx_def split: sum.splits)
  qed
qed

lemma session_inv_compaction:
  assumes "session_inv db" and "append_compaction_conditional env e op db = Inr (e', db')"
    and "ent_parent_id e \<noteq> Some (ent_id e)"
  shows "session_inv db'"
proof (rule append_compaction_InrD [OF assms(2)])
  fix e1 b db1
  assume p: "prepare_append_entry env e = Inr e1" and i: "insert_entry_ignoring_conflict e1 op True db = Inr (b, db1)"
    and no: "\<not> b \<Longrightarrow> db' = db1 \<and> (\<exists>x. resolve_compaction_conflict db1 e1 op = Inr x \<and> e' = hydrate_entry db1 x)"
    and yes: "b \<Longrightarrow> \<exists>db2. append_entry_message env e1 db1 = Inr db2 \<and> e' = hydrate_entry db' e1 \<and>
       db' = touch_session (ent_created_at e1) (ent_session_id e1) db2"
  from prepared_keeps [OF p] assms(3) have "ent_parent_id e1 \<noteq> Some (ent_id e1)" by simp
  from session_inv_insert [OF assms(1) i this] have inv1: "session_inv db1" .
  show ?thesis
  proof (cases b)
    case True
    with yes obtain db2 where m: "append_entry_message env e1 db1 = Inr db2"
      "db' = touch_session (ent_created_at e1) (ent_session_id e1) db2" by blast
    from session_inv_message [OF inv1 m(1)] inserted_mem i True m(2) show ?thesis by (simp add: session_inv_touch)
  qed (use no inv1 in blast)
qed

lemma session_inv_create:
  assumes "session_inv db" and "create_session env new_id now cwd name parent db = Inr (sn, db')"
  shows "session_inv db'"
proof -
  from assms(2) have "sn_id sn \<notin> sn_id ` set (sd_sessions db)" "db' = db\<lparr>sd_sessions := sd_sessions db @ [sn]\<rparr>"
    by (auto simp: create_session_def Let_def split: if_splits)
  with assms(1) show ?thesis by (intro session_inv_sessions [OF assms(1)]) (auto simp: session_inv_def)
qed

lemma built_parent:
  "ent_parent_id (entry_from_append_options new_id now sid parent ty opts) = parent"
  "ent_id (entry_from_append_options new_id now sid parent ty opts) = new_id"
  "ent_session_id (entry_from_append_options new_id now sid parent ty opts) = sid"
  "ent_type (entry_from_append_options new_id now sid parent ty opts) = ty"
  by (simp_all add: entry_from_append_options_def Let_def)

lemma built_entry_append:
  assumes "append_built_entry env new_id now sid parent ty opts db = Inr (e', db')"
  obtains e where "append_entry env e db = Inr (e', db')" "ent_parent_id e = parent" "ent_id e = new_id" "ent_session_id e = sid"
    "ent_type e = ty"
proof -
  from assms obtain e where e: "apply_append_entry_metadata env (entry_from_append_options new_id now sid parent ty opts) opts = Inr e"
    and a: "append_entry env e db = Inr (e', db')"
    by (auto simp: append_built_entry_def split: sum.splits)
  from e obtain json where "e = entry_from_append_options new_id now sid parent ty opts \<or>
      e = entry_from_append_options new_id now sid parent ty opts\<lparr>ent_data_json := json\<rparr>"
    by (auto simp: apply_append_entry_metadata_def Let_def split: option.splits if_splits)
  then have "ent_parent_id e = parent \<and> ent_id e = new_id \<and> ent_session_id e = sid \<and> ent_type e = ty"
    by (elim disjE) (simp_all add: built_parent)
  with that [OF a] show ?thesis by blast
qed

lemma session_inv_info:
  assumes "session_inv db" and "append_session_info env new_id now sid parent name db = Inr (e', db')" and "parent \<noteq> Some new_id"
  shows "session_inv db'"
proof -
  from assms(2) obtain opts db1 where b: "append_built_entry env new_id now sid parent EntrySessionInfo opts db = Inr (e', db1)"
    and db': "db' = db1\<lparr>sd_sessions := map (\<lambda>sn. if sn_id sn = sid then sn\<lparr>sn_name := name\<rparr> else sn) (sd_sessions db1)\<rparr>"
    by (auto simp: append_session_info_def append_summary_entry_def split: sum.splits option.splits)
  from built_entry_append [OF b] obtain e where e: "append_entry env e db = Inr (e', db1)" "ent_parent_id e = parent" "ent_id e = new_id"
    by metis
  from session_inv_append [OF assms(1) e(1)] e(2,3) assms(3) have inv: "session_inv db1" by simp
  have "sd_entries db' = sd_entries db1" "sd_messages db' = sd_messages db1"
    "map sn_id (sd_sessions db') = map sn_id (sd_sessions db1)" by (simp_all add: db')
  with inv show ?thesis by (rule session_inv_same_ids)
qed

section \<open>Walking to the root\<close>

lemma session_inv_ranked: "session_inv db \<Longrightarrow> \<exists>rank. ranked rank (rows_of db)"
  by (simp add: session_inv_def)

lemma find_SomeD: "find p xs = Some x \<Longrightarrow> x \<in> set xs \<and> p x"
  by (induction xs) (auto split: if_splits)

lemma find_row_Some: "find (\<lambda>e. ent_id e = i) (session_rows db sid) = Some e \<Longrightarrow>
    e \<in> set (rows_of db) \<and> ent_id e = i \<and> ent_session_id e = sid"
  by (auto simp: session_rows_eq dest: find_SomeD)

lemma find_row_iff:
  assumes "session_inv db"
  shows "find (\<lambda>e. ent_id e = i) (session_rows db sid) = Some e \<longleftrightarrow>
    e \<in> set (rows_of db) \<and> ent_id e = i \<and> ent_session_id e = sid"
proof
  assume r: "e \<in> set (rows_of db) \<and> ent_id e = i \<and> ent_session_id e = sid"
  have d: "distinct (map ent_id (rows_of db))" using assms by (simp add: session_inv_def)
  from r obtain e' where e': "find (\<lambda>e. ent_id e = i) (session_rows db sid) = Some e'"
    by (cases "find (\<lambda>e. ent_id e = i) (session_rows db sid)") (auto simp: find_None_iff session_rows_eq)
  from find_row_Some [OF e'] r d have "e' = e" by (auto simp: distinct_map dest: inj_onD)
  with e' show "find (\<lambda>e. ent_id e = i) (session_rows db sid) = Some e" by simp
qed (rule find_row_Some)

text \<open>\<open>path_to db sid i es\<close>: the entries from the root to the entry \<open>i\<close>, each the parent of the next.\<close>

fun path_to :: "session_db \<Rightarrow> string \<Rightarrow> string \<Rightarrow> entry list \<Rightarrow> bool" where
  "path_to db sid i [] = False"
| "path_to db sid i (e # es) \<longleftrightarrow>
     ent_parent_id e = None \<and> ent_id (last (e # es)) = i \<and>
     (\<forall>x\<in>set (e # es). x \<in> set (rows_of db) \<and> ent_session_id x = sid) \<and>
     successively (\<lambda>a b. ent_parent_id b = Some (ent_id a)) (e # es)"

lemma path_to_snoc:
  assumes "path_to db sid p es" and "ent_parent_id e = Some p" and "e \<in> set (rows_of db)" and "ent_session_id e = sid"
  shows "path_to db sid (ent_id e) (es @ [e])"
proof -
  obtain a as where es: "es = a # as" using assms(1) by (cases es) auto
  have "successively (\<lambda>a b. ent_parent_id b = Some (ent_id a)) (es @ [e])"
    using assms(1,2) unfolding successively_append_iff by (auto simp: es)
  with assms es show ?thesis by auto
qed

lemma path_to_Nil [simp]: "path_to db sid i es \<Longrightarrow> es \<noteq> []"
  by auto

lemma branch_chain_path:
  assumes inv: "session_inv db"
  shows "e \<in> set (rows_of db) \<Longrightarrow> ent_session_id e = sid \<Longrightarrow> \<exists>es. branch_chain db sid (ent_id e) = Some es \<and> path_to db sid (ent_id e) es"
proof -
  obtain rank where rank: "ranked rank (rows_of db)" using session_inv_ranked [OF inv] by blast
  show "e \<in> set (rows_of db) \<Longrightarrow> ent_session_id e = sid \<Longrightarrow> \<exists>es. branch_chain db sid (ent_id e) = Some es \<and> path_to db sid (ent_id e) es"
  proof (induction "rank (ent_id e)" arbitrary: e rule: less_induct)
    case less
    have f: "find (\<lambda>x. ent_id x = ent_id e) (session_rows db sid) = Some e"
      using less.prems by (simp add: find_row_iff [OF inv])
    show ?case
    proof (cases "ent_parent_id e")
      case None
      with f less.prems show ?thesis by (subst branch_chain.simps) simp
    next
      case (Some p)
      have "parents_present (rows_of db)" using inv by (simp add: session_inv_def)
      with Some less.prems obtain q where q: "q \<in> set (rows_of db)" "ent_id q = p" "ent_session_id q = sid"
        by (auto simp: parents_present_def)
      have "rank (ent_id q) < rank (ent_id e)" using rank Some less.prems(1) q(2) by (simp add: ranked_def)
      from less.hyps [OF this q(1,3)] obtain es where es: "branch_chain db sid p = Some es" "path_to db sid p es" using q(2) by auto
      from path_to_snoc [OF es(2) Some less.prems] f Some es(1) show ?thesis by (subst branch_chain.simps) simp
    qed
  qed
qed

text \<open>A row that is its own parent: the walk never ends, whatever the number of rows visited already.\<close>

lemma cyclic_walk:
  assumes "find (\<lambda>e. ent_id e = i) (session_rows db sid) = Some e" and "ent_parent_id e = Some i"
  shows "branch_chain db sid i = None"
proof (cases "branch_chain db sid i")
  case (Some es)
  have "branch_chain db sid i = Option.bind (branch_chain db sid i) (\<lambda>es. Some (es @ [e]))"
    by (subst (1) branch_chain.simps) (simp add: assms)
  then show ?thesis unfolding Some by simp
qed

section \<open>Deleting a subtree\<close>

definition child_rel :: "session_db \<Rightarrow> string \<Rightarrow> (string \<times> string) set" where
  "child_rel db sid = {(a, b). \<exists>e\<in>set (rows_of db). ent_session_id e = sid \<and> ent_id e = b \<and> ent_parent_id e = Some a}"

lemma next_level:
  "set (concat (map (\<lambda>i. map ent_id (filter (\<lambda>c. ent_parent_id c = Some i) (session_rows db sid))) frontier)) =
   child_rel db sid `` set frontier"
  by (auto simp: child_rel_def session_rows_eq)

lemma subtree_levels_total:
  assumes "ranked rank (rows_of db)" and "\<forall>e\<in>set (rows_of db). rank (ent_id e) < m"
  shows "\<forall>i\<in>set frontier. k \<le> rank i \<and> rank i < m \<Longrightarrow>
    \<exists>ids. subtree_levels db sid frontier = Some ids \<and> set ids = (child_rel db sid)\<^sup>* `` set frontier"
proof (induction "m - k" arbitrary: k frontier)
  case 0
  then have "frontier = []" by (cases frontier) auto
  then show ?case by (subst subtree_levels.simps) simp
next
  case (Suc d)
  let ?next = "concat (map (\<lambda>i. map ent_id (filter (\<lambda>c. ent_parent_id c = Some i) (session_rows db sid))) frontier)"
  have "\<forall>i\<in>set ?next. Suc k \<le> rank i \<and> rank i < m"
  proof
    fix i
    assume "i \<in> set ?next"
    then obtain e a where "e \<in> set (rows_of db)" "ent_id e = i" "ent_parent_id e = Some a" "a \<in> set frontier"
      unfolding next_level by (auto simp: child_rel_def)
    with assms Suc.prems show "Suc k \<le> rank i \<and> rank i < m" by (fastforce simp: ranked_def)
  qed
  moreover have "d = m - Suc k" using Suc.hyps(2) by simp
  ultimately obtain ids where ids: "subtree_levels db sid ?next = Some ids" "set ids = (child_rel db sid)\<^sup>* `` set ?next"
    using Suc.hyps(1) by blast
  show ?case
  proof (cases "frontier = []")
    case False
    then have "subtree_levels db sid frontier = Some (frontier @ ids)" by (subst subtree_levels.simps) (simp add: ids)
    moreover have "set (frontier @ ids) = (child_rel db sid)\<^sup>* `` set frontier"
      unfolding set_append ids(2) next_level by (auto intro: converse_rtrancl_into_rtrancl elim: converse_rtranclE)
    ultimately show ?thesis by blast
  qed (subst subtree_levels.simps, simp)
qed

lemma rank_bound: "\<exists>m. \<forall>e\<in>set es. rank (ent_id e) < (m :: nat)"
proof (induction es)
  case (Cons e es)
  then obtain m where "\<forall>e\<in>set es. rank (ent_id e) < m" by blast
  then have "\<forall>x\<in>set (e # es). rank (ent_id x) < max m (Suc (rank (ent_id e)))" by auto
  then show ?case by blast
qed simp

text \<open>The ids that a deletion removes: those of the descendants of the entry, itself included.\<close>

lemma subtree_of_entry:
  assumes "session_inv db"
  shows "\<exists>ids. subtree_levels db sid (map ent_id (filter (\<lambda>e. ent_id e = entry_id) (session_rows db sid))) = Some ids \<and>
    set ids = {i. (\<exists>e\<in>set (rows_of db). ent_session_id e = sid \<and> ent_id e = entry_id) \<and> (entry_id, i) \<in> (child_rel db sid)\<^sup>*}"
proof -
  let ?start = "map ent_id (filter (\<lambda>e. ent_id e = entry_id) (session_rows db sid))"
  obtain rank where rank: "ranked rank (rows_of db)" using session_inv_ranked [OF assms] by blast
  obtain m where m: "\<forall>e\<in>set (rows_of db). rank (ent_id e) < m" using rank_bound by blast
  have "\<forall>i\<in>set ?start. 0 \<le> rank i \<and> rank i < m" using m by (auto simp: session_rows_eq)
  from subtree_levels_total [OF rank m this] obtain ids where
    "subtree_levels db sid ?start = Some ids" "set ids = (child_rel db sid)\<^sup>* `` set ?start" by blast
  moreover have "(child_rel db sid)\<^sup>* `` set ?start =
      {i. (\<exists>e\<in>set (rows_of db). ent_session_id e = sid \<and> ent_id e = entry_id) \<and> (entry_id, i) \<in> (child_rel db sid)\<^sup>*}"
    by (auto simp: session_rows_eq)
  ultimately show ?thesis by blast
qed

lemma distinct_map_filter': "distinct (map f xs) \<Longrightarrow> distinct (map f (filter p xs))"
  by (simp add: distinct_map inj_on_def)

lemma distinct_map_filter_filter: "distinct (map f (filter q xs)) \<Longrightarrow> distinct (map f (filter q (filter r xs)))"
  using distinct_map_filter' [of f "filter q xs" r] by (simp add: conj_commute)

lemma rows_of_remove: "rows_of (remove_entries sid ids db) =
    filter (\<lambda>e. \<not> (ent_session_id e = sid \<and> ent_id e \<in> set ids)) (rows_of db)"
  by (simp add: rows_of_def remove_entries_def Let_def filter_map comp_def)

lemma session_inv_remove:
  assumes inv: "session_inv db"
    and closed: "\<And>e p. e \<in> set (rows_of db) \<Longrightarrow> ent_session_id e = sid \<Longrightarrow> ent_parent_id e = Some p \<Longrightarrow> p \<in> set ids \<Longrightarrow>
      ent_id e \<in> set ids"
  shows "session_inv (remove_entries sid ids db)"
proof -
  let ?db = "remove_entries sid ids db"
  let ?keep = "\<lambda>e. \<not> (ent_session_id e = sid \<and> ent_id e \<in> set ids)"
  note i = inv [unfolded session_inv_def]
  have sub: "set (rows_of ?db) \<subseteq> set (rows_of db)" by (auto simp: rows_of_remove)
  have "parents_present (rows_of ?db)"
    unfolding parents_present_def
  proof (intro ballI allI impI)
    fix e p
    assume e: "e \<in> set (rows_of ?db)" "ent_parent_id e = Some p"
    then have "e \<in> set (rows_of db)" "?keep e" by (simp_all add: rows_of_remove)
    with i e(2) obtain q where q: "q \<in> set (rows_of db)" "ent_id q = p" "ent_session_id q = ent_session_id e"
      unfolding parents_present_def by blast
    have "?keep q"
    proof
      assume "ent_session_id q = sid \<and> ent_id q \<in> set ids"
      with q closed [OF \<open>e \<in> set (rows_of db)\<close> _ e(2)] \<open>?keep e\<close> show False by auto
    qed
    with q show "\<exists>q\<in>set (rows_of ?db). ent_id q = p \<and> ent_session_id q = ent_session_id e"
      unfolding rows_of_remove by auto
  qed
  moreover have "\<exists>rank. ranked rank (rows_of ?db)" using i sub unfolding ranked_def by (meson subset_iff)
  moreover have "distinct (map ent_id (rows_of ?db))" using i by (simp add: rows_of_remove distinct_map_filter')
  moreover have "mw_entry_id ` set (sd_messages ?db) \<subseteq> ent_id ` set (rows_of ?db)"
  proof
    fix x
    assume "x \<in> mw_entry_id ` set (sd_messages ?db)"
    then obtain mr where mr: "mr \<in> set (sd_messages db)" "x = mw_entry_id mr"
      "mw_entry_id mr \<notin> ent_id ` er_entry ` set (filter (\<lambda>r. ent_session_id (er_entry r) = sid \<and> ent_id (er_entry r) \<in> set ids) (sd_entries db))"
      by (auto simp: remove_entries_def Let_def)
    from mr(1) i have "mw_entry_id mr \<in> ent_id ` set (rows_of db)" by blast
    then obtain r where r: "r \<in> set (sd_entries db)" "ent_id (er_entry r) = x" using mr(2) by (auto simp: rows_of_def)
    have "?keep (er_entry r)"
    proof
      assume "ent_session_id (er_entry r) = sid \<and> ent_id (er_entry r) \<in> set ids"
      with r(1) have "r \<in> set (filter (\<lambda>r. ent_session_id (er_entry r) = sid \<and> ent_id (er_entry r) \<in> set ids) (sd_entries db))"
        by simp
      from imageI [OF imageI [OF this, of er_entry], of ent_id] r(2) mr(2,3) show False by simp
    qed
    with r show "x \<in> ent_id ` set (rows_of ?db)" unfolding rows_of_remove by (auto simp: rows_of_def)
  qed
  moreover have "distinct (filter (\<lambda>op. op \<noteq> []) (map er_operation (sd_entries ?db)))"
    using i by (simp add: remove_entries_def Let_def filter_map comp_def distinct_map_filter_filter del: filter_filter)
  moreover have "distinct (map (\<lambda>r. (ent_session_id (er_entry r), ent_parent_id (er_entry r))) (filter is_claimed_compaction (sd_entries ?db)))"
    using i by (simp add: remove_entries_def Let_def distinct_map_filter_filter del: filter_filter)
  moreover have "distinct (map mw_entry_id (sd_messages ?db))"
    using i by (simp add: remove_entries_def Let_def distinct_map_filter')
  moreover have "distinct (map sn_id (sd_sessions ?db))" "ent_session_id ` set (rows_of ?db) \<subseteq> sn_id ` set (sd_sessions ?db)"
    using i sub by (auto simp: remove_entries_def Let_def)
  moreover have "\<forall>e\<in>set (rows_of ?db). ent_message e = blank_message (ent_created_at e) \<and> ent_id e \<noteq> []"
    using i sub by blast
  ultimately show ?thesis unfolding session_inv_def by - (intro conjI; assumption)
qed

lemma delete_branch_eq:
  assumes "session_inv db"
  obtains ids where "delete_entry_branch now sid entry_id db = Some (touch_session now sid (remove_entries sid ids db))"
    "set ids = {i. (\<exists>e\<in>set (rows_of db). ent_session_id e = sid \<and> ent_id e = entry_id) \<and> (entry_id, i) \<in> (child_rel db sid)\<^sup>*}"
  using subtree_of_entry [OF assms, of sid entry_id] by (auto simp: delete_entry_branch_def)

lemma session_inv_delete:
  assumes "session_inv db" and "delete_entry_branch now sid entry_id db = Some db'"
  shows "session_inv db'"
proof -
  from delete_branch_eq [OF assms(1)] obtain ids where ids:
    "delete_entry_branch now sid entry_id db = Some (touch_session now sid (remove_entries sid ids db))"
    "set ids = {i. (\<exists>e\<in>set (rows_of db). ent_session_id e = sid \<and> ent_id e = entry_id) \<and> (entry_id, i) \<in> (child_rel db sid)\<^sup>*}"
    by blast
  have "session_inv (remove_entries sid ids db)"
  proof (rule session_inv_remove [OF assms(1)])
    fix e p
    assume e: "e \<in> set (rows_of db)" "ent_session_id e = sid" "ent_parent_id e = Some p" "p \<in> set ids"
    then have "(p, ent_id e) \<in> child_rel db sid" by (auto simp: child_rel_def)
    with e(4) show "ent_id e \<in> set ids" unfolding ids(2) by (auto intro: rtrancl_into_rtrancl)
  qed
  with ids(1) assms(2) show ?thesis by (simp add: session_inv_touch)
qed

lemma session_inv_init: "session_init db \<Longrightarrow> session_inv db"
  by (simp add: session_init_def session_inv_def rows_of_def parents_present_def ranked_def)

lemma session_inv_step: "session_inv db \<Longrightarrow> session_step db db' \<Longrightarrow> session_inv db'"
  by (erule session_stepE)
    (blast intro: session_inv_create session_inv_append session_inv_compaction session_inv_info session_inv_delete)+

interpretation session_machine: invariant_machine session_init session_step session_inv
  by unfold_locales (fact session_inv_init, fact session_inv_step)

lemmas session_reachable_inv = session_machine.reachable_inv

end
