(* ===== verification/Session_Branch.thy ===== *)
theory Session_Branch
  imports Session_Tree
begin

text \<open>
  What the operations on the session tree promise in every reachable state: the invariant of the
  tables, the branch of an entry, the deletion of a subtree, and the compactions, which are unique per
  operation and per parent. A small session, built with the operations themselves, is the concrete
  input of the witnesses.
\<close>

section \<open>A sample session\<close>

definition sample_env :: session_env where
  "sample_env = \<lparr>sv_encode = (\<lambda>d. Some ''{}''), sv_decode = (\<lambda>s. Some new_entry_data), sv_compact = (\<lambda>s. s),
     sv_uuid_version = (\<lambda>s. Some 7), sv_valid_mime = (\<lambda>s. False)\<rparr>"

definition session_uuid :: string where "session_uuid = ''00000000-0000-7000-8000-000000000000''"
definition uuid_1 :: string where "uuid_1 = ''00000000-0000-7000-8000-000000000001''"
definition uuid_2 :: string where "uuid_2 = ''00000000-0000-7000-8000-000000000002''"
definition uuid_3 :: string where "uuid_3 = ''00000000-0000-7000-8000-000000000003''"

lemma uuid_facts [simp]:
  "uuid_v7_glob session_uuid" "uuid_v7_glob uuid_1" "uuid_v7_glob uuid_2" "uuid_v7_glob uuid_3"
  "session_uuid \<noteq> []" "uuid_1 \<noteq> []" "uuid_2 \<noteq> []" "uuid_3 \<noteq> []"
  "uuid_1 \<noteq> uuid_2" "uuid_2 \<noteq> uuid_1" "uuid_1 \<noteq> uuid_3" "uuid_3 \<noteq> uuid_1" "uuid_2 \<noteq> uuid_3" "uuid_3 \<noteq> uuid_2"
  by code_simp+

lemma uuid_valid [simp]:
  "valid_uuid_v7 (sv_uuid_version sample_env) session_uuid" "valid_uuid_v7 (sv_uuid_version sample_env) uuid_1"
  "valid_uuid_v7 (sv_uuid_version sample_env) uuid_2" "valid_uuid_v7 (sv_uuid_version sample_env) uuid_3"
  by (simp_all add: valid_uuid_v7_def sample_env_def session_uuid_def uuid_1_def uuid_2_def uuid_3_def sample_texts)

lemma sample_env_simps [simp]: "sv_encode sample_env d = Some ''{}''" "sv_valid_mime sample_env m = False"
  by (simp_all add: sample_env_def)

definition greeting_message :: message where
  "greeting_message = \<lparr>msg_timestamp = 1000, msg_role = RoleUser, msg_content = ''abcd'', msg_provider = [], msg_model = [], msg_parts = []\<rparr>"

definition empty_session_db :: session_db where
  "empty_session_db = \<lparr>sd_sessions = [], sd_entries = [], sd_messages = []\<rparr>"

definition sample_session :: "gotime \<Rightarrow> session" where
  "sample_session updated = \<lparr>sn_id = session_uuid, sn_cwd = ''w'', sn_name = [], sn_parent = None, sn_created = 900, sn_updated = updated\<rparr>"

definition created_db :: session_db where
  "created_db = empty_session_db\<lparr>sd_sessions := [sample_session 900]\<rparr>"

lemma created_db: "create_session sample_env session_uuid 900 ''w'' [] [] empty_session_db = Inr (sample_session 900, created_db)"
  by (simp add: create_session_def Let_def valid_session_entity_def empty_session_db_def created_db_def sample_session_def sample_texts)

definition user_row :: entry where
  "user_row = \<lparr>ent_created_at = 1000, ent_parent_id = None, ent_tool_status = [], ent_session_id = session_uuid, ent_tool_args_json = [],
     ent_custom_type = [], ent_data_json = ''{}'', ent_id = uuid_1, ent_summary = [], ent_tool_name = [], ent_type = EntryMessage,
     ent_branch_from = [], ent_first_kept = [], ent_message = blank_message 1000, ent_tokens_before = 0, ent_token_estimate = 1,
     ent_display = True, ent_model_facing = True\<rparr>"

definition user_parts :: "message_part list" where
  "user_parts = [\<lparr>part_text = ''abcd'', part_mime = [], part_name = [], part_type = PartText, part_data = [], part_width = 0,
     part_height = 0\<rparr>]"

definition user_entry :: entry where
  "user_entry = user_row\<lparr>ent_message := greeting_message\<lparr>msg_parts := user_parts\<rparr>\<rparr>"

definition user_db :: session_db where
  "user_db = \<lparr>sd_sessions = [sample_session 1000], sd_entries = [\<lparr>er_entry = user_row, er_operation = []\<rparr>],
     sd_messages = [\<lparr>mw_entry_id = uuid_1, mw_role = RoleUser, mw_provider = [], mw_model = [], mw_parts = user_parts\<rparr>]\<rparr>"

lemma user_prepared:
  "prepare_append_entry sample_env (entry_from_append_options uuid_1 1000 session_uuid None EntryMessage
     (new_append_options\<lparr>ao_content := ''abcd'', ao_role := RoleUser, ao_timestamp := 1000\<rparr>)) = Inr user_entry"
  by (simp add: prepare_append_entry_def canonicalize_entry_message_parts_def entry_carries_message_def
      entry_from_append_options_def new_append_options_def sample_text apply_entry_metadata_def data_from_entry_def
      normalize_data_json_def Let_def estimate_entry_tokens_def entry_chars_per_token_def entry_participates_def
      entry_displays_def new_entry_data_def valid_entry_entity_def json_valid_empty_object sample_texts
      user_entry_def user_row_def greeting_message_def user_parts_def)

lemma user_appended:
  "append_message_with_metadata sample_env uuid_1 1000 session_uuid None
     (Some \<lparr>msg_timestamp = 1000, msg_role = RoleUser, msg_content = ''abcd'', msg_provider = [], msg_model = [], msg_parts = []\<rparr>)
     None None created_db = Inr (user_entry, user_db)"
proof -
  have "insert_entry_ignoring_conflict user_entry [] False created_db =
      Inr (True, created_db\<lparr>sd_entries := [\<lparr>er_entry = user_row, er_operation = []\<rparr>]\<rparr>)"
    by (simp add: insert_entry_ignoring_conflict_def entry_trigger_ok_def entry_conflict_def entry_references_ok_def
        entry_columns_def user_entry_def user_row_def created_db_def empty_session_db_def sample_session_def)
  moreover have "append_entry_message sample_env user_entry (created_db\<lparr>sd_entries := [\<lparr>er_entry = user_row, er_operation = []\<rparr>]\<rparr>) =
      Inr (user_db\<lparr>sd_sessions := [sample_session 900]\<rparr>)"
    by (simp add: append_entry_message_def entry_carries_message_def project_session_message_def valid_session_message_def
        validate_message_parts_def validate_part_def validate_text_part_def message_parts_text_def Let_def sample_text sample_texts
        user_entry_def user_row_def greeting_message_def user_parts_def user_db_def created_db_def empty_session_db_def)
  ultimately have "append_entry_tx sample_env user_entry created_db = Inr user_db"
    by (simp add: append_entry_tx_def touch_session_def user_db_def sample_session_def user_entry_def user_row_def)
  then show ?thesis
    using user_prepared
    by (simp add: append_message_with_metadata_def append_options_from_message_def append_built_entry_def
        apply_append_entry_metadata_def append_entry_def new_append_options_def)
qed

definition sample_compaction :: "string \<Rightarrow> gotime \<Rightarrow> entry" where
  "sample_compaction i now = entry_from_append_options i now session_uuid (Some uuid_1) EntryCompaction
     (new_append_options\<lparr>ao_summary := ''abcd'', ao_data_json := ''{}''\<rparr>)"

definition compaction_row :: "string \<Rightarrow> gotime \<Rightarrow> entry" where
  "compaction_row i now = \<lparr>ent_created_at = now, ent_parent_id = Some uuid_1, ent_tool_status = [], ent_session_id = session_uuid,
     ent_tool_args_json = [], ent_custom_type = [], ent_data_json = ''{}'', ent_id = i, ent_summary = ''abcd'', ent_tool_name = [],
     ent_type = EntryCompaction, ent_branch_from = [], ent_first_kept = [], ent_message = blank_message now,
     ent_tokens_before = 0, ent_token_estimate = 1, ent_display = True, ent_model_facing = True\<rparr>"

lemma compaction_prepared:
  assumes "valid_uuid_v7 (sv_uuid_version sample_env) i" and "now \<noteq> 0"
  shows "prepare_append_entry sample_env (sample_compaction i now) = Inr (compaction_row i now)"
  using assms
  by (simp add: prepare_append_entry_def canonicalize_entry_message_parts_def entry_carries_message_def sample_compaction_def
      entry_from_append_options_def new_append_options_def sample_text apply_entry_metadata_def data_from_entry_def
      normalize_data_json_def Let_def estimate_entry_tokens_def entry_chars_per_token_def entry_participates_def
      entry_displays_def new_entry_data_def valid_entry_entity_def json_valid_empty_object sample_texts no_role_def
      compaction_row_def blank_message_def)

definition compacted_db :: session_db where
  "compacted_db = user_db\<lparr>sd_sessions := [sample_session 2000],
     sd_entries := sd_entries user_db @ [\<lparr>er_entry = compaction_row uuid_2 2000, er_operation = ''op''\<rparr>]\<rparr>"

lemma compaction_appended:
  "append_compaction_conditional sample_env (sample_compaction uuid_2 2000) ''op'' user_db =
   Inr (compaction_row uuid_2 2000, compacted_db)"
proof -
  let ?row = "\<lparr>er_entry = compaction_row uuid_2 2000, er_operation = ''op''\<rparr>"
  have "insert_entry_ignoring_conflict (compaction_row uuid_2 2000) ''op'' True user_db =
      Inr (True, user_db\<lparr>sd_entries := sd_entries user_db @ [?row]\<rparr>)"
    by (simp add: insert_entry_ignoring_conflict_def entry_trigger_ok_def entry_conflict_def entry_references_ok_def
        entry_columns_def user_db_def user_row_def compaction_row_def sample_session_def)
  moreover have "\<not> entry_carries_message (compaction_row uuid_2 2000)"
    by (simp add: entry_carries_message_def compaction_row_def blank_message_def no_role_def)
  ultimately have "append_compaction_tx sample_env (compaction_row uuid_2 2000) ''op'' user_db =
      Inr (compaction_row uuid_2 2000, compacted_db)"
    by (simp add: append_compaction_tx_def append_entry_message_def touch_session_def compacted_db_def user_db_def
        sample_session_def compaction_row_def)
  moreover have "hydrate_entry compacted_db (compaction_row uuid_2 2000) = compaction_row uuid_2 2000"
    by (simp add: hydrate_entry_def message_row_of_def compacted_db_def user_db_def compaction_row_def entry_carries_message_def
        blank_message_def no_role_def)
  ultimately show ?thesis
    by (simp add: append_compaction_conditional_def compaction_prepared sample_texts user_db_def user_row_def)
       (simp add: compaction_row_def)
qed

lemma compacted_db_reachable: "reachable_from session_init session_step compacted_db"
proof -
  have "session_init empty_session_db" by (simp add: session_init_def empty_session_db_def)
  moreover have "session_step empty_session_db created_db" by (rule session_step.create [OF created_db])
  moreover have "session_step created_db user_db"
  proof -
    from user_appended obtain e where "append_entry sample_env e created_db = Inr (user_entry, user_db)" "ent_parent_id e = None"
      by (auto simp: append_message_with_metadata_def append_options_from_message_def elim: built_entry_append)
    then show ?thesis by (intro session_step.append) auto
  qed
  moreover have "session_step user_db compacted_db"
    by (rule session_step.compaction [OF compaction_appended])
       (simp add: sample_compaction_def built_parent)
  ultimately show ?thesis by (meson reachable_from.intros)
qed

section \<open>The branch of an entry\<close>

lemma path_to_rank:
  assumes "ranked rank (rows_of db)" and "path_to db sid i es"
  shows "sorted_wrt (\<lambda>a b. rank (ent_id a) < rank (ent_id b)) es"
proof -
  obtain a as where es: "es = a # as" using assms(2) by (cases es) auto
  have "successively (\<lambda>a b. ent_parent_id b = Some (ent_id a)) es" and "\<forall>x\<in>set es. x \<in> set (rows_of db)"
    using assms(2) unfolding es by auto
  then have "successively (\<lambda>a b. rank (ent_id a) < rank (ent_id b)) es"
    using assms(1) by (elim successively_mono) (auto simp: ranked_def)
  moreover have "transp (\<lambda>a b. rank (ent_id a) < rank (ent_id b))" by (rule transpI) simp
  ultimately show ?thesis using successively_conv_sorted_wrt by blast
qed

lemma path_to_distinct:
  assumes "session_inv db" and "path_to db sid i es"
  shows "distinct (map ent_id es)"
proof -
  obtain rank where "ranked rank (rows_of db)" using session_inv_ranked [OF assms(1)] by blast
  from path_to_rank [OF this assms(2)] show ?thesis by (induction es) auto
qed

text \<open>The newest leaf exists as soon as the session has an entry: an entry of the highest rank has no child.\<close>

lemma leaf_exists:
  assumes "session_inv db" and "session_rows db sid \<noteq> []"
  shows "\<exists>e\<in>set (session_rows db sid). \<not> (\<exists>c\<in>set (session_rows db sid). ent_parent_id c = Some (ent_id e))"
proof -
  obtain rank where rank: "ranked rank (rows_of db)" using session_inv_ranked [OF assms(1)] by blast
  let ?m = "Max ((\<lambda>e. rank (ent_id e)) ` set (session_rows db sid))"
  have "?m \<in> (\<lambda>e. rank (ent_id e)) ` set (session_rows db sid)" using assms(2) by (intro Max_in) auto
  then obtain e where "e \<in> set (session_rows db sid)" and m: "rank (ent_id e) = ?m" by auto
  moreover have max: "\<forall>c\<in>set (session_rows db sid). rank (ent_id c) \<le> rank (ent_id e)" unfolding m by simp
  moreover have "\<not> (\<exists>c\<in>set (session_rows db sid). ent_parent_id c = Some (ent_id e))"
  proof
    assume "\<exists>c\<in>set (session_rows db sid). ent_parent_id c = Some (ent_id e)"
    then obtain c where c: "c \<in> set (session_rows db sid)" "ent_parent_id c = Some (ent_id e)" by blast
    from c(1) have "c \<in> set (rows_of db)" by (simp add: session_rows_eq)
    with rank c(2) have "rank (ent_id e) < rank (ent_id c)" unfolding ranked_def by blast
    with max c(1) show False by (meson not_less)
  qed
  ultimately show ?thesis by blast
qed

lemma newest_leaf_Some:
  assumes "session_inv db" and "session_rows db sid \<noteq> []"
  obtains e where "newest_leaf db sid = Some (ent_id e)" "e \<in> set (rows_of db)" "ent_session_id e = sid"
    "\<not> (\<exists>c\<in>set (session_rows db sid). ent_parent_id c = Some (ent_id e))"
proof -
  let ?leaves = "filter (\<lambda>e. \<not> (\<exists>c\<in>set (session_rows db sid). ent_parent_id c = Some (ent_id e))) (session_rows db sid)"
  obtain x where "x \<in> set ?leaves" using leaf_exists [OF assms] by auto
  then have "x \<in> set (order_by (\<lambda>a b. entry_before b a) ?leaves)" by (simp only: order_by_set)
  then obtain e rest where e: "order_by (\<lambda>a b. entry_before b a) ?leaves = e # rest"
    by (cases "order_by (\<lambda>a b. entry_before b a) ?leaves") (simp only: list.set empty_iff, blast)
  have "e \<in> set (order_by (\<lambda>a b. entry_before b a) ?leaves)" unfolding e by simp
  then have "e \<in> set ?leaves" by (simp only: order_by_set)
  with e that show ?thesis by (auto simp: newest_leaf_def session_rows_eq)
qed

lemma newest_leaf_None: "session_rows db sid = [] \<Longrightarrow> newest_leaf db sid = None"
  by (simp add: newest_leaf_def order_by_def)

lemma branch_of_row:
  assumes "session_inv db" and "e \<in> set (rows_of db)" and "ent_session_id e = sid"
    and "(if i = [] then newest_leaf db sid else Some i) = Some (ent_id e)"
  shows "\<exists>es. branch db sid i = Some (Inr (map (hydrate_entry db) es)) \<and> path_to db sid (ent_id e) es"
proof -
  from branch_chain_path [OF assms(1-3)] obtain es where
    "branch_chain db sid (ent_id e) = Some es" "path_to db sid (ent_id e) es" by blast
  with assms(4) show ?thesis by (auto simp: branch_def split: if_splits dest: path_to_Nil)
qed

text \<open>
  C13. The branch of an entry in every reachable state. Asked for an entry that the session has, the query
  returns the path from a root to it, each entry the parent of the next and none twice, with the
  messages read from their rows. Asked for an unknown entry it reports the id as missing. Asked without
  an id it returns the path to an entry without children, or nothing when the session is empty.
\<close>

theorem branch_is_path_from_root:
  assumes "reachable_from session_init session_step db"
  shows "case branch db sid i of
      None \<Rightarrow> False
    | Some (Inl err) \<Rightarrow> err = BranchEntryMissing i \<and> i \<noteq> [] \<and> i \<notin> ent_id ` set (session_rows db sid)
    | Some (Inr es) \<Rightarrow>
        es = [] \<and> i = [] \<and> session_rows db sid = [] \<or>
        (\<exists>rows leaf. es = map (hydrate_entry db) rows \<and> path_to db sid leaf rows \<and> distinct (map ent_id rows) \<and>
           (if i = [] then \<forall>c\<in>set (session_rows db sid). ent_parent_id c \<noteq> Some leaf else leaf = i))"
proof -
  note inv = session_reachable_inv [OF assms]
  show ?thesis
  proof (cases "i = []")
    case True
    show ?thesis
    proof (cases "session_rows db sid = []")
      case False
      from newest_leaf_Some [OF inv False] obtain e where e: "newest_leaf db sid = Some (ent_id e)" "e \<in> set (rows_of db)"
        "ent_session_id e = sid" "\<forall>c\<in>set (session_rows db sid). ent_parent_id c \<noteq> Some (ent_id e)" by metis
      from branch_of_row [OF inv e(2,3), of i] e(1) True obtain es where
        "branch db sid i = Some (Inr (map (hydrate_entry db) es))" "path_to db sid (ent_id e) es" by auto
      with path_to_distinct [OF inv this(2)] e(4) True show ?thesis
        by (auto intro!: exI [of _ es] exI [of _ "ent_id e"])
    qed (simp add: branch_def newest_leaf_None True)
  next
    case named: False
    show ?thesis
    proof (cases "i \<in> ent_id ` set (session_rows db sid)")
      case True
      then obtain e where e: "e \<in> set (rows_of db)" "ent_session_id e = sid" "i = ent_id e" by (auto simp: session_rows_eq)
      from branch_of_row [OF inv e(1,2), of i] e(3) named obtain es where
        "branch db sid i = Some (Inr (map (hydrate_entry db) es))" "path_to db sid i es" by auto
      with path_to_distinct [OF inv this(2)] named show ?thesis by auto
    next
      case False
      then have "find (\<lambda>e. ent_id e = i) (session_rows db sid) = None" by (auto simp: find_None_iff)
      then have "branch_chain db sid i = Some []" by (subst branch_chain.simps) simp
      with named False show ?thesis by (simp add: branch_def)
    qed
  qed
qed

theorem branch_is_path_from_root_witness:
  "\<exists>rows. branch compacted_db session_uuid uuid_2 = Some (Inr (map (hydrate_entry compacted_db) rows)) \<and>
     path_to compacted_db session_uuid uuid_2 rows"
proof -
  have "uuid_2 \<in> ent_id ` set (session_rows compacted_db session_uuid)"
    by (simp add: session_rows_def compacted_db_def user_db_def user_row_def compaction_row_def)
  with branch_is_path_from_root [where sid = session_uuid and i = uuid_2, OF compacted_db_reachable] show ?thesis
    by (auto split: option.splits sum.splits)
qed

section \<open>Deleting a branch\<close>

text \<open>The foreign key removes the messages of removed entries, and no other, since ids are unique.\<close>

lemma removed_messages:
  assumes "session_inv db"
  shows "m \<in> set (sd_messages (remove_entries sid ids db)) \<longleftrightarrow>
    m \<in> set (sd_messages db) \<and> mw_entry_id m \<in> ent_id ` set (rows_of (remove_entries sid ids db))"
proof -
  let ?gone = "\<lambda>e. ent_session_id e = sid \<and> ent_id e \<in> set ids"
  have unique: "e = e'" if "e \<in> set (rows_of db)" "e' \<in> set (rows_of db)" "ent_id e = ent_id e'" for e e'
    using assms that by (auto simp: session_inv_def distinct_map dest: inj_onD)
  have owner: "mw_entry_id m \<in> ent_id ` set (rows_of db)" if "m \<in> set (sd_messages db)"
    using assms that by (auto simp: session_inv_def)
  have "mw_entry_id m \<in> ent_id ` (er_entry ` set (filter (\<lambda>r. ?gone (er_entry r)) (sd_entries db))) \<longleftrightarrow>
      mw_entry_id m \<in> ent_id ` {e \<in> set (rows_of db). ?gone e}"
    by (auto simp: rows_of_def image_iff)
  moreover have "mw_entry_id m \<in> ent_id ` {e \<in> set (rows_of db). ?gone e} \<longleftrightarrow>
      mw_entry_id m \<notin> ent_id ` {e \<in> set (rows_of db). \<not> ?gone e}" if "m \<in> set (sd_messages db)"
  proof -
    from owner [OF that] obtain e where e: "e \<in> set (rows_of db)" "mw_entry_id m = ent_id e" by blast
    have "mw_entry_id m \<in> ent_id ` {x \<in> set (rows_of db). P x} \<longleftrightarrow> P e" for P
      using e unique [OF e(1)] by auto
    then show ?thesis by simp
  qed
  ultimately show ?thesis unfolding rows_of_remove set_filter by (auto simp: remove_entries_def Let_def)
qed

text \<open>
  C15. Deleting an entry in a reachable state returns and removes from the session exactly the entry and
  its descendants, together with their messages; the rows of other sessions, the rest of the tree and
  its messages stay, and the tables keep their invariant.
\<close>

theorem delete_removes_exactly_the_subtree:
  assumes "reachable_from session_init session_step db"
  shows "\<exists>db'. delete_entry_branch now sid i db = Some db' \<and> session_inv db' \<and>
    (\<forall>r. r \<in> set (sd_entries db') \<longleftrightarrow> r \<in> set (sd_entries db) \<and>
       \<not> (ent_session_id (er_entry r) = sid \<and> i \<in> ent_id ` set (session_rows db sid) \<and>
          (i, ent_id (er_entry r)) \<in> (child_rel db sid)\<^sup>*)) \<and>
    (\<forall>m. m \<in> set (sd_messages db') \<longleftrightarrow> m \<in> set (sd_messages db) \<and> mw_entry_id m \<in> ent_id ` set (rows_of db'))"
proof -
  note inv = session_reachable_inv [OF assms]
  obtain ids where
    d: "delete_entry_branch now sid i db = Some (touch_session now sid (remove_entries sid ids db))"
    and ids: "set ids = {k. (\<exists>e\<in>set (rows_of db). ent_session_id e = sid \<and> ent_id e = i) \<and> (i, k) \<in> (child_rel db sid)\<^sup>*}"
    by (rule delete_branch_eq [OF inv])
  let ?db' = "touch_session now sid (remove_entries sid ids db)"
  have "k \<in> set ids \<longleftrightarrow> i \<in> ent_id ` set (session_rows db sid) \<and> (i, k) \<in> (child_rel db sid)\<^sup>*" for k
    unfolding ids by (auto simp: session_rows_eq)
  then have entries: "\<forall>r. r \<in> set (sd_entries ?db') \<longleftrightarrow> r \<in> set (sd_entries db) \<and>
       \<not> (ent_session_id (er_entry r) = sid \<and> i \<in> ent_id ` set (session_rows db sid) \<and>
          (i, ent_id (er_entry r)) \<in> (child_rel db sid)\<^sup>*)"
    by (simp add: touch_session_def remove_entries_def Let_def)
  have messages: "\<forall>m. m \<in> set (sd_messages ?db') \<longleftrightarrow> m \<in> set (sd_messages db) \<and> mw_entry_id m \<in> ent_id ` set (rows_of ?db')"
    using removed_messages [OF inv, of _ sid ids] by (simp only: rows_of_simps) (simp add: touch_session_def)
  show ?thesis
    by (rule exI [of _ ?db']) (intro conjI d entries messages session_inv_delete [OF inv d])
qed

theorem delete_removes_exactly_the_subtree_witness:
  "\<exists>db'. delete_entry_branch 3000 session_uuid uuid_2 compacted_db = Some db' \<and> session_inv db'"
  using delete_removes_exactly_the_subtree [where now = 3000 and sid = session_uuid and i = uuid_2, OF compacted_db_reachable] by blast

section \<open>Compactions\<close>

lemma operation_owner:
  assumes "session_inv db" and "r \<in> set (sd_entries db)" and "r' \<in> set (sd_entries db)"
    and "er_operation r \<noteq> []" and "er_operation r' = er_operation r"
  shows "r' = r"
proof -
  have "distinct (map er_operation (filter (\<lambda>r. er_operation r \<noteq> []) (sd_entries db)))"
    using assms(1) by (simp add: session_inv_def filter_map comp_def)
  then have "inj_on er_operation (set (filter (\<lambda>r. er_operation r \<noteq> []) (sd_entries db)))" by (simp only: distinct_map)
  from inj_onD [OF this assms(5)] assms(2-5) show ?thesis by simp
qed

lemma claimed_parent_owner:
  assumes "session_inv db" and "r \<in> set (sd_entries db)" and "r' \<in> set (sd_entries db)"
    and "is_claimed_compaction r" and "is_claimed_compaction r'"
    and "ent_session_id (er_entry r') = ent_session_id (er_entry r)" and "ent_parent_id (er_entry r') = ent_parent_id (er_entry r)"
  shows "r' = r"
proof -
  let ?key = "\<lambda>r. (ent_session_id (er_entry r), ent_parent_id (er_entry r))"
  have "distinct (map ?key (filter is_claimed_compaction (sd_entries db)))" using assms(1) by (simp add: session_inv_def)
  then have inj: "inj_on ?key (set (filter is_claimed_compaction (sd_entries db)))" by (simp only: distinct_map)
  have "?key r' = ?key r" using assms(6,7) by simp
  from inj_onD [OF inj this] assms(2-5) show ?thesis by simp
qed

lemma stored_parent:
  assumes "session_inv db" and "r \<in> set (sd_entries db)" and "ent_parent_id (er_entry r) = Some p"
  shows "\<exists>q\<in>set (sd_entries db). ent_session_id (er_entry q) = ent_session_id (er_entry r) \<and> ent_id (er_entry q) = p"
proof -
  have "parents_present (rows_of db)" using assms(1) by (simp add: session_inv_def)
  with assms(2,3) show ?thesis unfolding parents_present_def rows_of_def by fastforce
qed

lemma find_Some_ex: "x \<in> set xs \<Longrightarrow> p x \<Longrightarrow> \<exists>y. find p xs = Some y \<and> y \<in> set xs \<and> p y"
  by (induction xs) auto

text \<open>
  C12. Compactions in every reachable state. Once a compaction with an operation holds a branch endpoint,
  another append for that endpoint changes nothing: under the same operation it returns the compaction
  that is there; under an operation that belongs to another entry it is rejected as a mismatch; under a
  new operation it is rejected as stale, naming a compaction of that endpoint.
\<close>

theorem compaction_endpoint_is_exclusive:
  assumes "reachable_from session_init session_step db"
    and "r \<in> set (sd_entries db)" and "er_operation r \<noteq> []" and "ent_type (er_entry r) = EntryCompaction"
    and "ent_session_id (er_entry r) = ent_session_id e" and "ent_parent_id (er_entry r) = ent_parent_id e"
    and "ent_type e = EntryCompaction" and "prepare_append_entry env e = Inr x" and "entry_trigger_ok x" and "trim_space op \<noteq> []"
  shows "if op = er_operation r then append_compaction_conditional env e op db = Inr (hydrate_entry db (er_entry r), db)
    else if \<exists>q\<in>set (sd_entries db). er_operation q = op then append_compaction_conditional env e op db = Inl OperationMismatch
    else \<exists>w\<in>set (sd_entries db). ent_type (er_entry w) = EntryCompaction \<and> ent_session_id (er_entry w) = ent_session_id e \<and>
      ent_parent_id (er_entry w) = ent_parent_id e \<and>
      append_compaction_conditional env e op db = Inl (StaleCompactionParent (ent_id (er_entry w)))"
proof -
  note inv = session_reachable_inv [OF assms(1)]
  have op: "op \<noteq> []" using assms(10) by auto
  note k = prepared_keeps [OF assms(8)]
  have claimed: "is_claimed_compaction r" using assms(3,4) by (simp add: is_claimed_compaction_def)
  have "entry_conflict db x op"
    using assms(2-7) k op by (auto simp: entry_conflict_def parent_text_def)
  then have ins: "insert_entry_ignoring_conflict x op True db = Inr (False, db)"
    using assms(9) by (simp add: insert_entry_ignoring_conflict_def)
  have parent: "\<not> (case ent_parent_id x of None \<Rightarrow> False
      | Some p \<Rightarrow> \<not> (\<exists>q\<in>set (sd_entries db). ent_session_id (er_entry q) = ent_session_id x \<and> ent_id (er_entry q) = p))"
    using stored_parent [OF inv assms(2)] assms(5,6) k by (auto split: option.splits)
  have eq: "append_compaction_conditional env e op db =
      (case resolve_compaction_conflict db x op of Inl err \<Rightarrow> Inl err | Inr w \<Rightarrow> Inr (hydrate_entry db w, db))"
    using assms(8,10) parent by (simp add: append_compaction_conditional_def append_compaction_tx_def ins split: sum.splits)
  show ?thesis
  proof (cases "\<exists>q\<in>set (sd_entries db). er_operation q = op")
    case True
    then obtain q where q: "find_entry_row db (\<lambda>r. er_operation r = op) = Some q" "q \<in> set (sd_entries db)" "er_operation q = op"
      unfolding find_entry_row_def using find_Some_ex [of _ "sd_entries db" "\<lambda>r. er_operation r = op"] by blast
    show ?thesis
    proof (cases "op = er_operation r")
      case same: True
      have "q = r" using operation_owner [OF inv assms(2) q(2) assms(3)] q(3) same by simp
      with q(1) assms(4-7) k same have "resolve_compaction_conflict db x op = Inr (er_entry r)"
        by (simp add: resolve_compaction_conflict_def same_compaction_target_def)
      then have "append_compaction_conditional env e op db = Inr (hydrate_entry db (er_entry r), db)" by (simp add: eq)
      with same show ?thesis by simp
    next
      case other: False
      have "\<not> same_compaction_target (er_entry q) x"
      proof
        assume "same_compaction_target (er_entry q) x"
        with k assms(5,6) have "ent_session_id (er_entry q) = ent_session_id (er_entry r)"
          "ent_parent_id (er_entry q) = ent_parent_id (er_entry r)" "is_claimed_compaction q"
          using q(3) op by (auto simp: same_compaction_target_def is_claimed_compaction_def)
        with claimed_parent_owner [OF inv assms(2) q(2) claimed] q(3) other show False by blast
      qed
      with q True other show ?thesis by (simp add: eq resolve_compaction_conflict_def)
    qed
  next
    case False
    then have none: "find_entry_row db (\<lambda>r. er_operation r = op) = None" by (auto simp: find_entry_row_def find_None_iff)
    let ?p = "\<lambda>q. ent_session_id (er_entry q) = ent_session_id x \<and> ent_type (er_entry q) = EntryCompaction \<and>
        ent_parent_id (er_entry q) = ent_parent_id x"
    have "?p r" using assms(4-6) k by simp
    from find_Some_ex [OF assms(2), of ?p, OF this] obtain w where w: "find ?p (sd_entries db) = Some w" "w \<in> set (sd_entries db)" "?p w"
      by blast
    have "append_compaction_conditional env e op db = Inl (StaleCompactionParent (ent_id (er_entry w)))"
      using w(1) by (simp add: eq resolve_compaction_conflict_def none) (simp add: find_entry_row_def)
    moreover have "op \<noteq> er_operation r" using False assms(2) by auto
    ultimately show ?thesis using w(2,3) k False by auto
  qed
qed

theorem compaction_endpoint_is_exclusive_witness:
  "append_compaction_conditional sample_env (sample_compaction uuid_3 3000) ''op'' compacted_db =
     Inr (hydrate_entry compacted_db (compaction_row uuid_2 2000), compacted_db)"
proof -
  let ?r = "\<lparr>er_entry = compaction_row uuid_2 2000, er_operation = ''op''\<rparr>"
  have "?r \<in> set (sd_entries compacted_db)" by (simp add: compacted_db_def)
  moreover have "prepare_append_entry sample_env (sample_compaction uuid_3 3000) = Inr (compaction_row uuid_3 3000)"
    by (simp add: compaction_prepared)
  moreover have "entry_trigger_ok (compaction_row uuid_3 3000)" by (simp add: entry_trigger_ok_def compaction_row_def)
  ultimately show ?thesis
    using compaction_endpoint_is_exclusive [OF compacted_db_reachable, of ?r "sample_compaction uuid_3 3000" sample_env
        "compaction_row uuid_3 3000" "''op''"]
    by (simp add: sample_texts sample_compaction_def built_parent compaction_row_def)
qed

section \<open>Cycles\<close>

lemma chain_of_child:
  assumes "distinct (map ent_id (rows_of db))" and "(a, b) \<in> child_rel db sid" and "branch_chain db sid b = Some es"
  shows "\<exists>es'. branch_chain db sid a = Some es' \<and> length es = Suc (length es')"
proof -
  from assms(2) obtain e where e: "e \<in> set (rows_of db)" "ent_session_id e = sid" "ent_id e = b" "ent_parent_id e = Some a"
    by (auto simp: child_rel_def)
  obtain e' where e': "find (\<lambda>e. ent_id e = b) (session_rows db sid) = Some e'"
    using find_Some_ex [of e "session_rows db sid" "\<lambda>e. ent_id e = b"] e by (auto simp: session_rows_eq)
  from find_row_Some [OF e'] e assms(1) have "e' = e" by (auto simp: distinct_map dest: inj_onD)
  with assms(3) e' e(4) show ?thesis by (subst (asm) branch_chain.simps) (auto simp: bind_eq_Some_conv)
qed

lemma chain_of_descendant:
  assumes "distinct (map ent_id (rows_of db))"
  shows "(a, b) \<in> (child_rel db sid)\<^sup>+ \<Longrightarrow> branch_chain db sid b = Some es \<Longrightarrow>
    \<exists>es'. branch_chain db sid a = Some es' \<and> length es' < length es"
proof (induction arbitrary: es rule: trancl_induct)
  case (base b)
  with chain_of_child [OF assms] show ?case by fastforce
next
  case (step b c)
  from chain_of_child [OF assms step.hyps(2) step.prems] obtain es1 where
    "branch_chain db sid b = Some es1" "length es = Suc (length es1)" by blast
  with step.IH show ?case by fastforce
qed

text \<open>
  The recursive query has no guard against cycles: rows of the walk carry their depth, so \<^verbatim>\<open>UNION\<close>
  never finds a row it has seen, and in a table with unique ids whose parents form a cycle the branch
  of every entry on the cycle, and of every entry below it, is never returned.
\<close>

theorem cyclic_branch_never_returns:
  assumes "distinct (map ent_id (rows_of db))" and "(c, c) \<in> (child_rel db sid)\<^sup>+" and "(c, i) \<in> (child_rel db sid)\<^sup>*"
    and "i \<noteq> []"
  shows "branch db sid i = None"
proof (cases "branch_chain db sid i")
  case None
  with assms(4) show ?thesis by (simp add: branch_def)
next
  case (Some es)
  have "\<exists>es'. branch_chain db sid c = Some es'"
    using assms(3) Some chain_of_descendant [OF assms(1) _ Some, of c] by (auto dest!: rtranclD)
  then obtain es' where c: "branch_chain db sid c = Some es'" by blast
  from chain_of_descendant [OF assms(1,2) c] c show ?thesis by auto
qed

definition cyclic_db :: session_db where
  "cyclic_db = user_db\<lparr>sd_entries := [\<lparr>er_entry = user_row\<lparr>ent_parent_id := Some uuid_1\<rparr>, er_operation = []\<rparr>]\<rparr>"

theorem cyclic_branch_never_returns_witness: "branch cyclic_db session_uuid uuid_1 = None"
proof -
  have "(uuid_1, uuid_1) \<in> child_rel cyclic_db session_uuid"
    by (simp add: child_rel_def rows_of_def cyclic_db_def user_row_def)
  then show ?thesis
    using cyclic_branch_never_returns [of cyclic_db uuid_1 session_uuid uuid_1]
    by (auto simp: rows_of_def cyclic_db_def)
qed

section \<open>The shape of stored rows\<close>

definition stored_entry_ok :: "entry \<Rightarrow> bool" where
  "stored_entry_ok e \<longleftrightarrow> entry_trigger_ok e \<and> trim_space (entry_type_name (ent_type e)) \<noteq> [] \<and> ent_created_at e \<noteq> 0 \<and>
     json_valid (normalize_data_json (ent_data_json e)) \<and> ent_message e = blank_message (ent_created_at e)"

definition stored_message_ok :: "message_row \<Rightarrow> bool" where
  "stored_message_ok m \<longleftrightarrow> trim_space (role_name (mw_role m)) \<noteq> [] \<and> (\<exists>valid_mime. validate_message_parts valid_mime (mw_parts m) = None)"

definition session_shape :: "session_db \<Rightarrow> bool" where
  "session_shape db \<longleftrightarrow> list_all stored_entry_ok (rows_of db) \<and> list_all stored_message_ok (sd_messages db) \<and>
     list_all (\<lambda>sn. uuid_v7_glob (sn_id sn) \<and> trim_space (sn_cwd sn) \<noteq> []) (sd_sessions db)"

lemma shape_insert:
  assumes "session_shape db" and "prepare_append_entry env e = Inr x"
    and "insert_entry_ignoring_conflict x op ic db = Inr (b, db')"
  shows "session_shape db'"
proof -
  from prepared_keeps [OF assms(2)] have "valid_entry_entity env x" by simp
  with insert_entry_cases [OF assms(3)] assms(1) show ?thesis
    by (auto simp: session_shape_def stored_entry_ok_def valid_entry_entity_def entry_trigger_ok_def entry_columns_def)
qed

lemma shape_message:
  assumes "session_shape db" and "append_entry_message env e db = Inr db'"
  shows "session_shape db'"
proof (cases "entry_carries_message e")
  case True
  with assms(2) have "valid_session_message env (project_session_message e (msg_parts (ent_message e)))"
    by (auto simp: append_entry_message_def Let_def split: if_splits)
  then have "trim_space (role_name (msg_role (ent_message e))) \<noteq> []"
    "validate_message_parts (sv_valid_mime env) (msg_parts (ent_message e)) = None"
    by (simp_all add: valid_session_message_def project_session_message_def Let_def)
  with append_entry_message_cases [OF assms(2)] assms(1) show ?thesis
    by (auto simp: session_shape_def stored_message_ok_def)
qed (use append_entry_message_cases [OF assms(2)] assms(1) in auto)

lemma shape_touch: "session_shape db \<Longrightarrow> session_shape (touch_session now i db)"
  by (auto simp: session_shape_def touch_session_def list_all_iff rows_of_def)

lemma shape_append:
  assumes "session_shape db" and "append_entry env e db = Inr (e', db')"
  shows "session_shape db'"
proof -
  from assms(2) obtain x db1 db2 where "prepare_append_entry env e = Inr x" "insert_entry_ignoring_conflict x [] False db = Inr (True, db1)"
    "append_entry_message env x db1 = Inr db2" "db' = touch_session (ent_created_at x) (ent_session_id x) db2"
    by (auto simp: append_entry_def append_entry_tx_def split: sum.splits if_splits)
  with assms(1) show ?thesis by (auto intro: shape_touch shape_message shape_insert)
qed

lemma shape_step: "session_shape db \<Longrightarrow> session_step db db' \<Longrightarrow> session_shape db'"
proof (erule session_stepE)
  fix env new_id now cwd name parent sn
  assume "session_shape db" "create_session env new_id now cwd name parent db = Inr (sn, db')"
  then show ?thesis by (auto simp: create_session_def Let_def session_shape_def valid_session_entity_def rows_of_def split: if_splits)
next
  fix env e op e'
  assume shape: "session_shape db" and c: "append_compaction_conditional env e op db = Inr (e', db')"
  show ?thesis
  proof (rule append_compaction_InrD [OF c])
    fix x b db1
    assume p: "prepare_append_entry env e = Inr x" "insert_entry_ignoring_conflict x op True db = Inr (b, db1)"
      and r: "\<not> b \<Longrightarrow> db' = db1 \<and> (\<exists>y. resolve_compaction_conflict db1 x op = Inr y \<and> e' = hydrate_entry db1 y)"
        "b \<Longrightarrow> \<exists>db2. append_entry_message env x db1 = Inr db2 \<and> e' = hydrate_entry db' x \<and>
          db' = touch_session (ent_created_at x) (ent_session_id x) db2"
    from shape_insert [OF shape p] r show ?thesis by (cases b) (auto intro: shape_touch shape_message)
  qed
next
  fix env new_id now sid parent name e'
  assume shape: "session_shape db" and i: "append_session_info env new_id now sid parent name db = Inr (e', db')"
  from i obtain opts db1 where b: "append_built_entry env new_id now sid parent EntrySessionInfo opts db = Inr (e', db1)"
    and db': "db' = db1\<lparr>sd_sessions := map (\<lambda>sn. if sn_id sn = sid then sn\<lparr>sn_name := name\<rparr> else sn) (sd_sessions db1)\<rparr>"
    by (auto simp: append_session_info_def append_summary_entry_def split: sum.splits option.splits)
  from b obtain e where "append_entry env e db = Inr (e', db1)" by (elim built_entry_append)
  from shape_append [OF shape this] show ?thesis by (auto simp: db' session_shape_def list_all_iff)
next
  fix now sid entry_id
  assume shape: "session_shape db" and d: "delete_entry_branch now sid entry_id db = Some db'"
  from d obtain ids where db': "db' = touch_session now sid (remove_entries sid ids db)" by (auto simp: delete_entry_branch_def)
  have "set (sd_messages (remove_entries sid ids db)) \<subseteq> set (sd_messages db)" "sd_sessions (remove_entries sid ids db) = sd_sessions db"
    by (auto simp: remove_entries_def Let_def)
  with shape have "session_shape (remove_entries sid ids db)" by (auto simp: session_shape_def rows_of_remove list_all_iff)
  then show ?thesis unfolding db' by (rule shape_touch)
qed (auto intro: shape_append)

interpretation shape_machine: invariant_machine session_init session_step session_shape
  by unfold_locales (simp add: session_init_def session_shape_def rows_of_def, fact shape_step)

text \<open>
  C17. The shape of the stored rows in every reachable state: the identifiers of an entry are UUIDs of
  version 7, its type is not blank, its instant is set, its data is valid JSON and its
  message lives in the message table alone; a message row has a role and parts that passed
  validation; a session has a working directory.
\<close>

theorem stored_rows_keep_their_shape:
  assumes "reachable_from session_init session_step db"
  shows "(\<forall>e\<in>set (rows_of db). uuid_v7_glob (ent_id e) \<and> uuid_v7_glob (ent_session_id e) \<and>
      trim_space (entry_type_name (ent_type e)) \<noteq> [] \<and> ent_created_at e \<noteq> 0 \<and>
      json_valid (normalize_data_json (ent_data_json e)) \<and> ent_message e = blank_message (ent_created_at e)) \<and>
    (\<forall>m\<in>set (sd_messages db). trim_space (role_name (mw_role m)) \<noteq> [] \<and>
      (\<exists>valid_mime. validate_message_parts valid_mime (mw_parts m) = None)) \<and>
    (\<forall>sn\<in>set (sd_sessions db). uuid_v7_glob (sn_id sn) \<and> trim_space (sn_cwd sn) \<noteq> [])"
  using shape_machine.reachable_inv [OF assms]
  by (auto simp: session_shape_def list_all_iff stored_entry_ok_def stored_message_ok_def entry_trigger_ok_def)

theorem stored_rows_keep_their_shape_witness:
  "json_valid (normalize_data_json (ent_data_json (compaction_row uuid_2 2000)))"
proof -
  have "compaction_row uuid_2 2000 \<in> set (rows_of compacted_db)" by (simp add: rows_of_def compacted_db_def)
  with stored_rows_keep_their_shape [OF compacted_db_reachable] show ?thesis by blast
qed

section \<open>The invariant\<close>

text \<open>
  C9. In every reachable state of the session tables, whatever the order of creations, appends,
  compactions and deletions: identifiers are unique, the parent of every entry is an entry of its own
  session and the parents form no cycle, an operation belongs to one entry, a branch endpoint has at most one compaction with an
  operation, and every message belongs to exactly one entry.
\<close>

theorem session_tree_invariant:
  assumes "reachable_from session_init session_step db"
  shows "distinct (map sn_id (sd_sessions db)) \<and> distinct (map ent_id (rows_of db)) \<and>
    ent_session_id ` set (rows_of db) \<subseteq> sn_id ` set (sd_sessions db) \<and> parents_present (rows_of db) \<and>
    acyclic (child_rel db sid) \<and>
    distinct (filter (\<lambda>op. op \<noteq> []) (map er_operation (sd_entries db))) \<and>
    distinct (map (\<lambda>r. (ent_session_id (er_entry r), ent_parent_id (er_entry r))) (filter is_claimed_compaction (sd_entries db))) \<and>
    distinct (map mw_entry_id (sd_messages db)) \<and> mw_entry_id ` set (sd_messages db) \<subseteq> ent_id ` set (rows_of db)"
proof -
  note inv = session_reachable_inv [OF assms]
  obtain rank where rank: "ranked rank (rows_of db)" using session_inv_ranked [OF inv] by blast
  have "child_rel db sid \<subseteq> measure rank" using rank by (auto simp: ranked_def child_rel_def)
  then have "acyclic (child_rel db sid)" by (meson acyclic_subset wf_acyclic wf_measure)
  with inv show ?thesis unfolding session_inv_def by blast
qed

theorem session_tree_invariant_witness: "acyclic (child_rel compacted_db session_uuid)"
  using session_tree_invariant [OF compacted_db_reachable] by blast

end
