(* ===== verification/Session_Messages.thy ===== *)
theory Session_Messages
  imports Session_Branch
begin

text \<open>
  The normalized messages of a session (session_message_repository.go): the whole transcript, and its
  pages, read from the end towards the beginning with the key of the oldest message as the cursor.
\<close>

section \<open>Queries\<close>

definition session_message_from_row :: "entry \<Rightarrow> message_row \<Rightarrow> session_message" where
  "session_message_from_row e m =
     project_session_message
       (e\<lparr>ent_message := \<lparr>msg_timestamp = ent_created_at e, msg_role = mw_role m, msg_content = [], msg_provider = mw_provider m,
          msg_model = mw_model m, msg_parts = []\<rparr>\<rparr>) (mw_parts m)"

text \<open>The inner join of the entries of a session with their messages.\<close>

definition joined_rows :: "session_db \<Rightarrow> string \<Rightarrow> entry list" where
  "joined_rows db sid = filter (\<lambda>e. message_row_of db (ent_id e) \<noteq> None) (session_rows db sid)"

definition query_session_messages :: "session_db \<Rightarrow> entry list \<Rightarrow> session_message list" where
  "query_session_messages db rows = map (\<lambda>e. session_message_from_row e (the (message_row_of db (ent_id e)))) rows"

definition messages :: "session_db \<Rightarrow> string \<Rightarrow> session_message list" where
  "messages db sid = query_session_messages db (order_by entry_before (joined_rows db sid))"

definition displayed_rows :: "session_db \<Rightarrow> string \<Rightarrow> entry list" where
  "displayed_rows db sid = filter ent_display (joined_rows db sid)"

definition transcript_messages :: "session_db \<Rightarrow> string \<Rightarrow> session_message list" where
  "transcript_messages db sid = query_session_messages db (order_by entry_before (displayed_rows db sid))"

text \<open>The newest rows up to the limit, put back into chronological order.\<close>

definition newest_rows :: "int \<Rightarrow> entry list \<Rightarrow> entry list" where
  "newest_rows limit rows = order_by entry_before (take (nat limit) (order_by (\<lambda>a b. entry_before b a) rows))"

definition transcript_message_tail :: "session_db \<Rightarrow> string \<Rightarrow> int \<Rightarrow> session_message list" where
  "transcript_message_tail db sid limit =
     (if limit \<le> 0 then [] else query_session_messages db (newest_rows limit (displayed_rows db sid)))"

definition before_cursor :: "gotime \<Rightarrow> string \<Rightarrow> entry \<Rightarrow> bool" where
  "before_cursor created i e \<longleftrightarrow>
     stamp_less (stamp_of (ent_created_at e)) (stamp_of created) \<or>
     stamp_of (ent_created_at e) = stamp_of created \<and> text_less (ent_id e) i"

definition transcript_messages_before :: "session_db \<Rightarrow> string \<Rightarrow> gotime \<Rightarrow> string \<Rightarrow> int \<Rightarrow> session_message list" where
  "transcript_messages_before db sid created i limit =
     (if limit \<le> 0 then []
      else query_session_messages db (newest_rows limit (filter (before_cursor created i) (displayed_rows db sid))))"

definition context_has_image_parts :: "session_db \<Rightarrow> string \<Rightarrow> string \<Rightarrow> bool option" where
  "context_has_image_parts db sid i =
     map_option (\<lambda>chain. \<exists>e\<in>set chain. \<exists>m\<in>set (sd_messages db). mw_entry_id m = ent_id e \<and> (\<exists>p\<in>set (mw_parts m). part_type p = PartImage))
       (branch_chain db sid i)"

definition message_for_entry :: "session_db \<Rightarrow> string \<Rightarrow> string \<Rightarrow> session_message option" where
  "message_for_entry db sid i =
     (case find (\<lambda>e. ent_id e = i) (joined_rows db sid) of None \<Rightarrow> None
      | Some e \<Rightarrow> Some (session_message_from_row e (the (message_row_of db i))))"

section \<open>The order of entries\<close>

lemma entry_before_trans: "transp entry_before"
  by (rule transpI) (auto simp: entry_before_def intro: stamp_less_trans text_less_trans)

lemma entry_before_asym: "asymp entry_before"
  by (rule asympI) (auto simp: entry_before_def dest: stamp_less_asym stamp_less_trans text_less_trans)

lemma entry_before_total: "distinct (map ent_id xs) \<Longrightarrow> totalp_on (set xs) entry_before"
  by (rule totalp_onI) (auto simp: entry_before_def distinct_map inj_on_def dest: stamp_less_total text_less_total)

section \<open>Pages of a sorted list\<close>

lemma order_by_reverse:
  assumes "transp before" and "asymp before" and "totalp_on (set xs) before" and "distinct xs"
  shows "order_by (\<lambda>a b. before b a) xs = rev (order_by before xs)"
proof (rule sorted_wrt_unique)
  show "asymp (\<lambda>a b. before b a)" using assms(2) by (simp add: asymp_on_def)
  have "transp (\<lambda>a b. before b a)" using assms(1) unfolding transp_def by blast
  moreover have "totalp_on (set xs) (\<lambda>a b. before b a)" using assms(3) by (simp add: totalp_on_def disj_commute)
  ultimately show "sorted_wrt (\<lambda>a b. before b a) (order_by (\<lambda>a b. before b a) xs)"
    using assms(4) by (rule sorted_order_by)
  show "sorted_wrt (\<lambda>a b. before b a) (rev (order_by before xs))"
    using sorted_order_by [OF assms(1,3,4)] by (simp add: sorted_wrt_rev)
qed simp

lemma newest_of_sorted:
  assumes "transp before" and "asymp before" and "totalp_on (set xs) before" and "distinct xs"
  shows "order_by before (take n (order_by (\<lambda>a b. before b a) xs)) = drop (length xs - n) (order_by before xs)"
proof -
  let ?s = "order_by before xs"
  have sorted: "sorted_wrt before ?s" by (rule sorted_order_by [OF assms(1,3,4)])
  have "take n (order_by (\<lambda>a b. before b a) xs) = rev (drop (length xs - n) ?s)"
    unfolding order_by_reverse [OF assms] by (simp add: take_rev)
  moreover have "order_by before (rev (drop (length xs - n) ?s)) = drop (length xs - n) ?s"
  proof (rule sorted_wrt_unique [OF assms(2)])
    have d: "distinct ?s" using assms(4) by (metis order_by_mset mset_eq_imp_distinct_iff)
    have "set (drop (length xs - n) ?s) \<subseteq> set xs" using set_drop_subset by fastforce
    then have "totalp_on (set (rev (drop (length xs - n) ?s))) before"
      using totalp_on_subset [OF assms(3)] by simp
    then show "sorted_wrt before (order_by before (rev (drop (length xs - n) ?s)))"
      using d by (intro sorted_order_by [OF assms(1)]) simp_all
    show "sorted_wrt before (drop (length xs - n) ?s)" using sorted by (rule sorted_wrt_drop)
  qed simp
  ultimately show ?thesis by simp
qed

lemma filter_before_sorted:
  assumes "asymp before" and "sorted_wrt before s" and "k < length s"
  shows "filter (\<lambda>x. before x (s ! k)) s = take k s"
proof -
  have s: "s = take k s @ s ! k # drop (Suc k) s" using assms(3) by (rule id_take_nth_drop)
  have "\<forall>x\<in>set (take k s). before x (s ! k)"
    using assms(2) by (subst (asm) s) (simp add: sorted_wrt_append)
  moreover have "\<forall>x\<in>set (s ! k # drop (Suc k) s). \<not> before x (s ! k)"
    using assms(2) asympD [OF assms(1)] by (subst (asm) s) (auto simp: sorted_wrt_append)
  ultimately show ?thesis by (subst (2) s) (simp add: filter_id_conv del: id_take_nth_drop)
qed

lemma newest_before_sorted:
  assumes "transp before" and "asymp before" and "totalp_on (set xs) before" and "distinct xs" and "k < length xs"
  defines "s \<equiv> order_by before xs"
  shows "order_by before (take n (order_by (\<lambda>a b. before b a) (filter (\<lambda>x. before x (s ! k)) xs))) = drop (k - n) (take k s)"
proof -
  let ?ys = "filter (\<lambda>x. before x (s ! k)) xs"
  have sorted: "sorted_wrt before s" unfolding s_def by (rule sorted_order_by [OF assms(1,3,4)])
  have len: "length s = length xs" by (simp add: s_def)
  have "totalp_on (set ?ys) before" by (rule totalp_on_subset [OF assms(3)]) auto
  note ys = this distinct_filter [OF assms(4), of "\<lambda>x. before x (s ! k)"]
  have f: "filter (\<lambda>x. before x (s ! k)) s = take k s"
    using assms(5) len by (intro filter_before_sorted [OF assms(2) sorted]) simp
  have "order_by before ?ys = take k s"
  proof (rule sorted_wrt_unique [OF assms(2)])
    show "sorted_wrt before (order_by before ?ys)" by (rule sorted_order_by [OF assms(1) ys])
    show "sorted_wrt before (take k s)" using sorted by (rule sorted_wrt_take)
    have "set (filter (\<lambda>x. before x (s ! k)) s) = set ?ys" by (simp add: s_def)
    with f show "set (order_by before ?ys) = set (take k s)" by simp
  qed
  moreover have "length ?ys = k"
  proof -
    have "mset ?ys = mset (filter (\<lambda>x. before x (s ! k)) s)" by (simp add: s_def)
    with f have "length ?ys = length (take k s)" by (metis mset_eq_length)
    with assms(5) len show ?thesis by simp
  qed
  ultimately show ?thesis using newest_of_sorted [OF assms(1,2) ys, of n] by simp
qed

section \<open>Properties\<close>

lemma displayed_distinct: "session_inv db \<Longrightarrow> distinct (map ent_id (displayed_rows db sid))"
  by (simp add: session_inv_def displayed_rows_def joined_rows_def session_rows_eq distinct_map inj_on_def)

lemma query_row_key:
  "sm_created (session_message_from_row e m) = ent_created_at e" "sm_entry_id (session_message_from_row e m) = ent_id e"
  by (simp_all add: session_message_from_row_def project_session_message_def Let_def)

text \<open>
  C16. Paging through a transcript in a reachable state. The tail is the end of the transcript, at most
  \<open>limit\<close> messages long; and with the key of any message as the cursor, the page before it is the part of the transcript that
  ends right before that message, at most \<open>limit\<close> messages long. So pages that follow one another from the tail, whatever their limits,
  give back the transcript without repeating or losing a message, also among messages of the same instant.
\<close>

theorem transcript_pages_rebuild_transcript:
  assumes "reachable_from session_init session_step db"
  shows "transcript_message_tail db sid limit =
      drop (length (transcript_messages db sid) - nat limit) (transcript_messages db sid) \<and>
    (\<forall>k<length (transcript_messages db sid).
       transcript_messages_before db sid (sm_created (transcript_messages db sid ! k)) (sm_entry_id (transcript_messages db sid ! k)) limit =
       drop (k - nat limit) (take k (transcript_messages db sid)))"
proof -
  let ?xs = "displayed_rows db sid"
  let ?s = "order_by entry_before ?xs"
  let ?f = "\<lambda>e. session_message_from_row e (the (message_row_of db (ent_id e)))"
  have ids: "distinct (map ent_id ?xs)" by (rule displayed_distinct [OF session_reachable_inv [OF assms]])
  have "distinct ?xs" using ids by (simp add: distinct_map)
  note ord = entry_before_trans entry_before_asym entry_before_total [OF ids] this
  have t: "transcript_messages db sid = map ?f ?s" by (simp add: transcript_messages_def query_session_messages_def)
  have "transcript_message_tail db sid limit = drop (length ?s - nat limit) (map ?f ?s)"
    using newest_of_sorted [OF ord, of "nat limit"]
    by (simp add: transcript_message_tail_def newest_rows_def query_session_messages_def drop_map)
  moreover have "transcript_messages_before db sid (sm_created (map ?f ?s ! k)) (sm_entry_id (map ?f ?s ! k)) limit =
      drop (k - nat limit) (take k (map ?f ?s))" if k: "k < length ?s" for k
  proof -
    have "before_cursor (ent_created_at (?s ! k)) (ent_id (?s ! k)) = (\<lambda>e. entry_before e (?s ! k))"
      by (simp add: fun_eq_iff before_cursor_def entry_before_def)
    with newest_before_sorted [OF ord, of k "nat limit"] k show ?thesis
      by (simp add: transcript_messages_before_def newest_rows_def query_session_messages_def query_row_key drop_map take_map)
  qed
  ultimately show ?thesis by (simp add: t)
qed

theorem transcript_pages_rebuild_transcript_witness:
  "transcript_message_tail compacted_db session_uuid 5 = transcript_messages compacted_db session_uuid \<and>
   length (transcript_messages compacted_db session_uuid) = 1"
proof -
  have "joined_rows compacted_db session_uuid = [user_row]"
    by (simp add: joined_rows_def session_rows_def message_row_of_def compacted_db_def user_db_def user_row_def compaction_row_def)
  then have "length (transcript_messages compacted_db session_uuid) = 1"
    by (simp add: transcript_messages_def query_session_messages_def displayed_rows_def user_row_def)
  with transcript_pages_rebuild_transcript [where sid = session_uuid and limit = 5, OF compacted_db_reachable] show ?thesis by simp
qed

end
