(* ===== verification/Session_Context.thy ===== *)
theory Session_Context
  imports Session_Branch Compaction_Plan
begin

text \<open>
  What the assistant reads back from a session: the model context of a branch endpoint
  (\<^verbatim>\<open>BuildContext\<close> in session_store.go), which replays compactions, the anchor of the last reported usage
  and its position among the messages sent to a provider (runtime_context.go), and labels. The
  planner of compactions keeps its own account of the same history (plan.go); the two agree.
\<close>

section \<open>Building the context\<close>

record session_context =
  sc_anchor :: "usage_anchor option"
  sc_provider :: string
  sc_model :: string
  sc_thinking :: string
  sc_messages :: "message list"

definition empty_context :: session_context where
  "empty_context = \<lparr>sc_anchor = None, sc_provider = [], sc_model = [], sc_thinking = [], sc_messages = []\<rparr>"

definition entry_usage_has_any :: "entry_usage \<Rightarrow> bool" where
  "entry_usage_has_any u \<longleftrightarrow>
     eu_context_window u > 0 \<or> eu_context_tokens u > 0 \<or> eu_input_tokens u > 0 \<or> eu_output_tokens u > 0"

definition update_context_usage_anchor ::
  "session_env \<Rightarrow> session_context \<Rightarrow> entry \<Rightarrow> int \<Rightarrow> session_error + session_context" where
  "update_context_usage_anchor env ctx e message_index =
     (if ent_type e \<noteq> EntryMessage \<or> msg_role (ent_message e) \<noteq> RoleAssistant then Inr ctx
      else case data_from_entry env e of None \<Rightarrow> Inl EntryDataDecode
        | Some d \<Rightarrow>
            (case dt_usage d of None \<Rightarrow> Inr ctx
             | Some u \<Rightarrow>
                 if \<not> entry_usage_has_any u then Inr ctx
                 else Inr (ctx\<lparr>sc_anchor := Some \<lparr>anc_entry_id = ent_id e, anc_provider = msg_provider (ent_message e),
                   anc_model = msg_model (ent_message e), anc_usage = u, anc_message_index = message_index\<rparr>\<rparr>)))"

definition append_model_facing_entry_message :: "session_env \<Rightarrow> session_context \<Rightarrow> entry \<Rightarrow> session_error + session_context" where
  "append_model_facing_entry_message env ctx e =
     (if ent_model_facing e
      then let ctx1 = ctx\<lparr>sc_messages := sc_messages ctx @ [ent_message e]\<rparr> in
        update_context_usage_anchor env ctx1 e (int (length (sc_messages ctx1)) - 1)
      else Inr ctx)"

definition summary_message :: "role \<Rightarrow> entry \<Rightarrow> message" where
  "summary_message r e = \<lparr>msg_timestamp = ent_created_at e, msg_role = r, msg_content = ent_summary e, msg_provider = [],
     msg_model = [], msg_parts = []\<rparr>"

definition append_branch_summary_context :: "session_context \<Rightarrow> entry \<Rightarrow> session_context" where
  "append_branch_summary_context ctx e = ctx\<lparr>sc_messages := sc_messages ctx @ [summary_message RoleBranchSummary e]\<rparr>"

definition apply_model_change_context :: "session_context \<Rightarrow> entry \<Rightarrow> session_context" where
  "apply_model_change_context ctx e = ctx\<lparr>sc_provider := msg_provider (ent_message e), sc_model := msg_model (ent_message e)\<rparr>"

definition apply_thinking_level_context :: "session_env \<Rightarrow> session_context \<Rightarrow> entry \<Rightarrow> session_error + session_context" where
  "apply_thinking_level_context env ctx e =
     (case data_from_entry env e of None \<Rightarrow> Inl EntryDataDecode | Some d \<Rightarrow> Inr (ctx\<lparr>sc_thinking := dt_thinking_level d\<rparr>))"

definition apply_entry_to_context :: "session_env \<Rightarrow> session_context \<Rightarrow> entry \<Rightarrow> session_error + session_context" where
  "apply_entry_to_context env ctx e =
     (case ent_type e of
        EntryMessage \<Rightarrow> append_model_facing_entry_message env ctx e
      | EntryCustomMessage \<Rightarrow> append_model_facing_entry_message env ctx e
      | EntryBranchSummary \<Rightarrow> Inr (append_branch_summary_context ctx e)
      | EntryModelChange \<Rightarrow> Inr (apply_model_change_context ctx e)
      | EntryThinkingLevelChange \<Rightarrow> apply_thinking_level_context env ctx e
      | _ \<Rightarrow> Inr ctx)"

definition compaction_summary_messages :: "entry \<Rightarrow> message list" where
  "compaction_summary_messages e = [summary_message RoleCompactionSummary e]"

definition clear_compacted_usage_anchor :: "session_context \<Rightarrow> session_context" where
  "clear_compacted_usage_anchor ctx = ctx\<lparr>sc_anchor := None\<rparr>"

definition append_retained_compaction_tail_entry :: "session_context \<Rightarrow> entry \<Rightarrow> session_context" where
  "append_retained_compaction_tail_entry ctx e =
     (case ent_type e of
        EntryMessage \<Rightarrow> if ent_model_facing e then ctx\<lparr>sc_messages := sc_messages ctx @ [ent_message e]\<rparr> else ctx
      | EntryCustomMessage \<Rightarrow> if ent_model_facing e then ctx\<lparr>sc_messages := sc_messages ctx @ [ent_message e]\<rparr> else ctx
      | EntryBranchSummary \<Rightarrow> append_branch_summary_context ctx e
      | _ \<Rightarrow> ctx)"

text \<open>The index of the first kept entry before the compaction, the compaction itself when there is none.\<close>

definition first_kept_index :: "entry list \<Rightarrow> nat \<Rightarrow> nat" where
  "first_kept_index es k =
     (case find (\<lambda>i. ent_id (es ! i) = ent_first_kept (es ! k)) [0..<k] of Some i \<Rightarrow> i | None \<Rightarrow> k)"

definition apply_compaction_context_with_tail :: "session_context \<Rightarrow> entry list \<Rightarrow> nat \<Rightarrow> session_context" where
  "apply_compaction_context_with_tail ctx es k =
     fold (\<lambda>i ctx. append_retained_compaction_tail_entry ctx (es ! i)) [first_kept_index es k..<k]
       (clear_compacted_usage_anchor (ctx\<lparr>sc_messages := compaction_summary_messages (es ! k)\<rparr>))"

text \<open>The loop over the branch, from index \<open>k\<close> with \<open>n\<close> entries left.\<close>

fun context_loop :: "session_env \<Rightarrow> entry list \<Rightarrow> nat \<Rightarrow> nat \<Rightarrow> session_context \<Rightarrow> session_error + session_context" where
  "context_loop env es k 0 ctx = Inr ctx"
| "context_loop env es k (Suc n) ctx =
     (if ent_type (es ! k) = EntryCompaction then context_loop env es (Suc k) n (apply_compaction_context_with_tail ctx es k)
      else case apply_entry_to_context env ctx (es ! k) of Inl err \<Rightarrow> Inl err
        | Inr ctx1 \<Rightarrow> context_loop env es (Suc k) n ctx1)"

definition context_of_branch :: "session_env \<Rightarrow> entry list \<Rightarrow> session_error + session_context" where
  "context_of_branch env es = context_loop env es 0 (length es) empty_context"

definition build_context :: "session_env \<Rightarrow> session_db \<Rightarrow> string \<Rightarrow> string \<Rightarrow> (session_error + session_context) option" where
  "build_context env db sid leaf =
     (if trim_space leaf = [] then Some (Inl ContextEntryRequired)
      else case branch db sid leaf of None \<Rightarrow> None
        | Some (Inl err) \<Rightarrow> Some (Inl err)
        | Some (Inr es) \<Rightarrow> Some (context_of_branch env es))"

section \<open>Labels\<close>

fun label_loop :: "session_env \<Rightarrow> string \<Rightarrow> string \<Rightarrow> bool \<Rightarrow> entry list \<Rightarrow> session_error + (string \<times> bool)" where
  "label_loop env target label found [] = Inr (label, found)"
| "label_loop env target label found (e # es) =
     (if ent_type e \<noteq> EntryLabel then label_loop env target label found es
      else case data_from_entry env e of None \<Rightarrow> Inl EntryDataDecode
        | Some d \<Rightarrow>
            if dt_target_id d \<noteq> target then label_loop env target label found es
            else (case dt_label d of None \<Rightarrow> label_loop env target [] False es
              | Some l \<Rightarrow> label_loop env target l True es))"

definition label_of :: "session_env \<Rightarrow> session_db \<Rightarrow> string \<Rightarrow> string \<Rightarrow> session_error + (string \<times> bool)" where
  "label_of env db sid target = label_loop env target [] False (session_entries db sid)"

section \<open>The context of the assistant\<close>

text \<open>\<open>modelContextEntity\<close>: the context of the newest entry, empty without one.\<close>

definition model_context_entity_from :: "session_env \<Rightarrow> session_db \<Rightarrow> string \<Rightarrow> string \<Rightarrow> (session_error + session_context) option" where
  "model_context_entity_from env db sid entry_id =
     (if trim_space entry_id = [] then Some (Inl ContextEntryRequired) else build_context env db sid entry_id)"

definition model_context_entity :: "session_env \<Rightarrow> session_db \<Rightarrow> string \<Rightarrow> (session_error + session_context) option" where
  "model_context_entity env db sid =
     (case leaf_entry db sid of Some e \<Rightarrow> model_context_entity_from env db sid (ent_id e) | None \<Rightarrow> Some (Inr empty_context))"

definition remap_usage_anchor :: "usage_anchor option \<Rightarrow> message list \<Rightarrow> message list \<Rightarrow> usage_anchor option" where
  "remap_usage_anchor anchor originals models =
     (case anchor of None \<Rightarrow> None
      | Some a \<Rightarrow>
          if anc_message_index a < 0 \<or> int (length originals) \<le> anc_message_index a then None
          else let i = nat (anc_message_index a);
                   model_index = int (length (filter is_facing_message (take (i + 1) originals))) - 1 in
            if model_index < 0 \<or> int (length models) \<le> model_index then None
            else if msg_timestamp (models ! nat model_index) \<noteq> msg_timestamp (originals ! i) then None
            else Some (a\<lparr>anc_message_index := model_index\<rparr>))"

section \<open>Reference context\<close>

text \<open>What a context should be, read off the branch at once instead of by replaying it.\<close>

definition entry_messages :: "entry \<Rightarrow> message list" where
  "entry_messages e =
     (if ent_type e = EntryBranchSummary then [summary_message RoleBranchSummary e]
      else if (ent_type e = EntryMessage \<or> ent_type e = EntryCustomMessage) \<and> ent_model_facing e then [ent_message e]
      else [])"

definition last_compaction :: "entry list \<Rightarrow> nat option" where
  "last_compaction es = find (\<lambda>i. ent_type (es ! i) = EntryCompaction) (rev [0..<length es])"

definition reference_messages :: "entry list \<Rightarrow> message list" where
  "reference_messages es =
     (case last_compaction es of
        None \<Rightarrow> concat (map entry_messages es)
      | Some c \<Rightarrow> summary_message RoleCompactionSummary (es ! c) # concat (map entry_messages (drop (first_kept_index es c) es)))"

definition reported_usage :: "session_env \<Rightarrow> entry \<Rightarrow> entry_usage option" where
  "reported_usage env e =
     (if ent_type e = EntryMessage \<and> ent_model_facing e \<and> msg_role (ent_message e) = RoleAssistant
      then Option.bind (data_from_entry env e)
        (\<lambda>d. Option.bind (dt_usage d) (\<lambda>u. if entry_usage_has_any u then Some u else None))
      else None)"

definition after_compaction :: "entry list \<Rightarrow> nat" where
  "after_compaction es = (case last_compaction es of None \<Rightarrow> 0 | Some c \<Rightarrow> Suc c)"

definition reference_anchor :: "session_env \<Rightarrow> entry list \<Rightarrow> usage_anchor option" where
  "reference_anchor env es =
     map_option (\<lambda>i. \<lparr>anc_entry_id = ent_id (es ! i), anc_provider = msg_provider (ent_message (es ! i)),
         anc_model = msg_model (ent_message (es ! i)), anc_usage = the (reported_usage env (es ! i)),
         anc_message_index = int (length (reference_messages (take i es)))\<rparr>)
       (find (\<lambda>i. reported_usage env (es ! i) \<noteq> None) (rev [after_compaction es..<length es]))"

definition last_of_type :: "entry_type \<Rightarrow> entry list \<Rightarrow> entry option" where
  "last_of_type ty es = find (\<lambda>e. ent_type e = ty) (rev es)"

definition reference_context :: "session_env \<Rightarrow> entry list \<Rightarrow> session_context" where
  "reference_context env es =
     \<lparr>sc_anchor = reference_anchor env es,
      sc_provider = (case last_of_type EntryModelChange es of None \<Rightarrow> [] | Some e \<Rightarrow> msg_provider (ent_message e)),
      sc_model = (case last_of_type EntryModelChange es of None \<Rightarrow> [] | Some e \<Rightarrow> msg_model (ent_message e)),
      sc_thinking = (case last_of_type EntryThinkingLevelChange es of None \<Rightarrow> []
        | Some e \<Rightarrow> dt_thinking_level (the (data_from_entry env e))),
      sc_messages = reference_messages es\<rparr>"

definition entry_decodes :: "session_env \<Rightarrow> entry \<Rightarrow> bool" where
  "entry_decodes env e \<longleftrightarrow>
     (ent_type e = EntryThinkingLevelChange \<or>
      ent_type e = EntryMessage \<and> ent_model_facing e \<and> msg_role (ent_message e) = RoleAssistant) \<longrightarrow>
     data_from_entry env e \<noteq> None"

lemma last_of_type_snoc: "last_of_type ty (p @ [e]) = (if ent_type e = ty then Some e else last_of_type ty p)"
  by (simp add: last_of_type_def)

lemma last_compaction_snoc:
  "last_compaction (p @ [e]) = (if ent_type e = EntryCompaction then Some (length p) else last_compaction p)"
proof -
  have "find (\<lambda>i. ent_type ((p @ [e]) ! i) = EntryCompaction) (rev [0..<length p]) =
      find (\<lambda>i. ent_type (p ! i) = EntryCompaction) (rev [0..<length p])"
    by (rule find_cong) (auto simp: nth_append)
  then show ?thesis by (simp add: last_compaction_def)
qed

lemma find_SomeD': "find p xs = Some x \<Longrightarrow> x \<in> set xs \<and> p x"
  by (induction xs) (auto split: if_splits)

lemma last_compaction_bound: "last_compaction es = Some c \<Longrightarrow> c < length es \<and> ent_type (es ! c) = EntryCompaction"
  using find_SomeD' [of "\<lambda>i. ent_type (es ! i) = EntryCompaction" "rev [0..<length es]" c] by (auto simp: last_compaction_def)

lemma first_kept_index_append: "c < length p \<Longrightarrow> first_kept_index (p @ q) c = first_kept_index p c"
proof -
  assume "c < length p"
  then have "find (\<lambda>i. ent_id ((p @ q) ! i) = ent_first_kept ((p @ q) ! c)) [0..<c] =
      find (\<lambda>i. ent_id (p ! i) = ent_first_kept (p ! c)) [0..<c]"
    by (intro find_cong) (auto simp: nth_append)
  then show ?thesis by (simp add: first_kept_index_def)
qed

lemma first_kept_index_le: "first_kept_index es c \<le> c"
  unfolding first_kept_index_def by (auto split: option.splits dest: find_SomeD')

lemma reference_messages_snoc:
  assumes "ent_type e \<noteq> EntryCompaction"
  shows "reference_messages (p @ [e]) = reference_messages p @ entry_messages e"
proof (cases "last_compaction p")
  case (Some c)
  have c: "c < length p" using last_compaction_bound [OF Some] by simp
  then have "first_kept_index p c - length p = 0" using first_kept_index_le [of p c] by simp
  with Some c assms show ?thesis
    by (simp add: reference_messages_def last_compaction_snoc first_kept_index_append nth_append)
qed (use assms in \<open>simp add: reference_messages_def last_compaction_snoc\<close>)

lemma entry_messages_compaction: "ent_type e = EntryCompaction \<Longrightarrow> entry_messages e = []"
  by (simp add: entry_messages_def)

lemma reference_messages_compaction:
  assumes "ent_type e = EntryCompaction"
  shows "reference_messages (p @ [e]) = summary_message RoleCompactionSummary e #
    concat (map entry_messages (drop (first_kept_index (p @ [e]) (length p)) p))"
  using assms first_kept_index_le [of "p @ [e]" "length p"]
  by (simp add: reference_messages_def last_compaction_snoc entry_messages_compaction)

lemma reference_anchor_snoc:
  assumes "ent_type e \<noteq> EntryCompaction"
  shows "reference_anchor env (p @ [e]) =
    (case reported_usage env e of None \<Rightarrow> reference_anchor env p
     | Some u \<Rightarrow> Some \<lparr>anc_entry_id = ent_id e, anc_provider = msg_provider (ent_message e),
         anc_model = msg_model (ent_message e), anc_usage = u, anc_message_index = int (length (reference_messages p))\<rparr>)"
proof -
  have a: "after_compaction (p @ [e]) = after_compaction p"
    using assms by (simp add: after_compaction_def last_compaction_snoc)
  have le: "after_compaction p \<le> length p"
    using last_compaction_bound [of p] by (auto simp: after_compaction_def Suc_le_eq split: option.splits)
  have "find (\<lambda>i. reported_usage env ((p @ [e]) ! i) \<noteq> None) (rev [after_compaction p..<length p]) =
      find (\<lambda>i. reported_usage env (p ! i) \<noteq> None) (rev [after_compaction p..<length p])"
    by (rule find_cong) (auto simp: nth_append)
  note cong = this
  show ?thesis
  proof (cases "reported_usage env e")
    case (Some u)
    with le show ?thesis by (simp add: reference_anchor_def a)
  next
    case None
    show ?thesis
    proof (cases "find (\<lambda>i. reported_usage env (p ! i) \<noteq> None) (rev [after_compaction p..<length p])")
      case (Some i)
      from find_SomeD' [OF Some] have "i < length p" by simp
      with le None Some cong show ?thesis by (simp add: reference_anchor_def a nth_append)
    qed (use le None cong in \<open>simp add: reference_anchor_def a\<close>)
  qed
qed

lemma reference_anchor_compaction: "ent_type e = EntryCompaction \<Longrightarrow> reference_anchor env (p @ [e]) = None"
  by (simp add: reference_anchor_def after_compaction_def last_compaction_snoc)

section \<open>The replay computes the reference\<close>

lemma append_retained_eq:
  "append_retained_compaction_tail_entry ctx e = ctx\<lparr>sc_messages := sc_messages ctx @ entry_messages e\<rparr>"
  by (simp add: append_retained_compaction_tail_entry_def entry_messages_def append_branch_summary_context_def split: entry_type.split)

lemma retained_tail_eq:
  "fold (\<lambda>i ctx. append_retained_compaction_tail_entry ctx (es ! i)) is ctx =
   ctx\<lparr>sc_messages := sc_messages ctx @ concat (map (\<lambda>i. entry_messages (es ! i)) is)\<rparr>"
  by (induction "is" arbitrary: ctx) (simp_all add: append_retained_eq)

lemma retained_slice: "k \<le> length p \<Longrightarrow> map (\<lambda>i. f ((p @ q) ! i)) [k..<length p] = map f (drop k p)"
  by (rule nth_equalityI) (auto simp: nth_append)

lemma compaction_reference:
  assumes "ent_type e = EntryCompaction"
  shows "apply_compaction_context_with_tail (reference_context env p) (p @ e # q) (length p) = reference_context env (p @ [e])"
proof -
  have f: "first_kept_index (p @ e # q) (length p) = first_kept_index (p @ [e]) (length p)"
    using first_kept_index_append [of "length p" "p @ [e]" q] by simp
  have "map (\<lambda>i. entry_messages ((p @ e # q) ! i)) [first_kept_index (p @ [e]) (length p)..<length p] =
      map entry_messages (drop (first_kept_index (p @ [e]) (length p)) p)"
    by (rule retained_slice) (rule first_kept_index_le)
  with f show ?thesis
    using assms
    by (simp add: apply_compaction_context_with_tail_def retained_tail_eq clear_compacted_usage_anchor_def reference_context_def
        reference_messages_compaction reference_anchor_compaction last_of_type_snoc compaction_summary_messages_def)
qed

lemma append_facing_reference:
  assumes "ent_type e = EntryMessage \<or> ent_type e = EntryCustomMessage"
  shows "append_model_facing_entry_message env (reference_context env p) e =
    (if entry_decodes env e then Inr (reference_context env (p @ [e])) else Inl EntryDataDecode)"
proof -
  have "ent_type e \<noteq> EntryCompaction" "ent_type e \<noteq> EntryModelChange" "ent_type e \<noteq> EntryThinkingLevelChange"
    using assms by auto
  then have ref: "reference_context env (p @ [e]) = (reference_context env p)\<lparr>sc_messages := reference_messages p @ entry_messages e,
      sc_anchor := reference_anchor env (p @ [e])\<rparr>"
    by (simp add: reference_context_def last_of_type_snoc reference_messages_snoc)
  show ?thesis
    unfolding ref using assms
    by (auto simp: append_model_facing_entry_message_def update_context_usage_anchor_def reference_anchor_snoc reported_usage_def
        entry_decodes_def entry_messages_def Let_def reference_context_def split: option.splits)
qed

lemma apply_entry_reference:
  assumes "ent_type e \<noteq> EntryCompaction"
  shows "apply_entry_to_context env (reference_context env p) e =
    (if entry_decodes env e then Inr (reference_context env (p @ [e])) else Inl EntryDataDecode)"
proof -
  have other: "reference_context env (p @ [e]) = (reference_context env p)\<lparr>sc_messages := reference_messages p @ entry_messages e,
      sc_provider := (if ent_type e = EntryModelChange then msg_provider (ent_message e) else sc_provider (reference_context env p)),
      sc_model := (if ent_type e = EntryModelChange then msg_model (ent_message e) else sc_model (reference_context env p)),
      sc_thinking := (if ent_type e = EntryThinkingLevelChange then dt_thinking_level (the (data_from_entry env e))
        else sc_thinking (reference_context env p))\<rparr>"
    if "ent_type e \<noteq> EntryMessage" 
    using assms that by (simp add: reference_context_def last_of_type_snoc reference_messages_snoc reference_anchor_snoc reported_usage_def)
  show ?thesis
  proof (cases "ent_type e = EntryMessage \<or> ent_type e = EntryCustomMessage")
    case True
    from append_facing_reference [OF this] True show ?thesis by (auto simp: apply_entry_to_context_def)
  next
    case False
    then show ?thesis
      using other assms
      by (cases "ent_type e") (auto simp: apply_entry_to_context_def append_branch_summary_context_def apply_model_change_context_def
          apply_thinking_level_context_def entry_messages_def entry_decodes_def reference_context_def split: option.splits)
  qed
qed

lemma context_loop_reference:
  "context_loop env (p @ q) (length p) (length q) (reference_context env p) =
   (if \<forall>e\<in>set q. entry_decodes env e then Inr (reference_context env (p @ q)) else Inl EntryDataDecode)"
proof (induction q arbitrary: p)
  case (Cons e q)
  have step: "context_loop env (p @ e # q) (Suc (length p)) (length q) (reference_context env (p @ [e])) =
      (if \<forall>e\<in>set q. entry_decodes env e then Inr (reference_context env (p @ e # q)) else Inl EntryDataDecode)"
    using Cons.IH [of "p @ [e]"] by simp
  show ?case
  proof (cases "ent_type e = EntryCompaction")
    case True
    then have "entry_decodes env e" by (simp add: entry_decodes_def)
    with True step show ?thesis by (simp add: compaction_reference)
  qed (use step in \<open>simp add: apply_entry_reference\<close>)
qed simp

lemma reference_context_Nil: "reference_context env [] = empty_context"
  by (simp add: reference_context_def empty_context_def reference_messages_def last_compaction_def reference_anchor_def
      after_compaction_def last_of_type_def)

lemma replayed_context: "context_of_branch env es = Inr ctx \<Longrightarrow> ctx = reference_context env es"
  using context_loop_reference [of env "[]" es] by (simp add: context_of_branch_def reference_context_Nil split: if_splits)

section \<open>Properties\<close>

text \<open>
  C14. The replay of a branch is the reference context, for every branch: the summary of the last
  compaction followed by the messages of the branch from its first kept entry on (all of them without
  a compaction), the usage of the last assistant message after that compaction together with the
  position of its message, and the last provider, model and thinking level. It fails exactly when the stored data of an
  entry it has to read does not decode.
\<close>

theorem context_replay_is_reference:
  "context_of_branch env es =
   (if \<forall>e\<in>set es. entry_decodes env e then Inr (reference_context env es) else Inl EntryDataDecode)"
  using context_loop_reference [of env "[]" es] by (simp add: context_of_branch_def reference_context_Nil)

lemma sample_env_decodes: "entry_decodes sample_env e"
  by (simp add: entry_decodes_def data_from_entry_def sample_env_def)

theorem context_replay_is_reference_witness:
  "context_of_branch sample_env [user_entry, compaction_row uuid_2 2000] =
     Inr (reference_context sample_env [user_entry, compaction_row uuid_2 2000]) \<and>
   sc_messages (reference_context sample_env [user_entry, compaction_row uuid_2 2000]) =
     [summary_message RoleCompactionSummary (compaction_row uuid_2 2000)]"
  using context_replay_is_reference [of sample_env "[user_entry, compaction_row uuid_2 2000]"]
  by (simp add: sample_env_decodes reference_context_def reference_messages_def last_compaction_def first_kept_index_def
      user_entry_def user_row_def compaction_row_def entry_messages_def uuid_1_def)

end
