(* ===== verification/Session_Replay.thy ===== *)
theory Session_Replay
  imports Session_Context
begin

text \<open>
  The history after compactions is computed twice in the program: the repository replays it for the
  provider request (\<^verbatim>\<open>BuildContext\<close>), the planner replays it to count tokens
  (\<^verbatim>\<open>effectiveModelFacingEntries\<close> in plan.go). Here the two are shown to agree on the branches that
  the planner itself produces.
\<close>

section \<open>Branches of compactions that kept their tail\<close>

text \<open>
  A compaction of such a branch is seen by the model, and either names no earlier entry or one that
  the model sees, not before the entries kept by earlier compactions. Summaries have no message row.
\<close>

definition replayable_entry :: "entry list \<Rightarrow> nat \<Rightarrow> bool" where
  "replayable_entry es k \<longleftrightarrow>
     (let e = es ! k; j = first_kept_index es k in
      (ent_type e = EntryCompaction \<longrightarrow> message_for_context e \<noteq> None \<and>
         (j = k \<or> message_for_summary (es ! j) \<noteq> None) \<and>
         (\<forall>c<k. ent_type (es ! c) = EntryCompaction \<longrightarrow> first_kept_index es c \<le> j)) \<and>
      (ent_type e = EntryBranchSummary \<longrightarrow> ent_model_facing e) \<and>
      (ent_type e = EntryCompaction \<or> ent_type e = EntryBranchSummary \<longrightarrow> ent_message e = blank_message (ent_created_at e)) \<and>
      (ent_type e \<notin> {EntryMessage, EntryCustomMessage, EntryBranchSummary, EntryCompaction} \<longrightarrow> message_for_context e = None))"

definition replayable :: "entry list \<Rightarrow> bool" where
  "replayable es \<longleftrightarrow> distinct (map ent_id es) \<and> (\<forall>k<length es. replayable_entry es k)"

lemma replayable_entry_append:
  assumes "k < length p"
  shows "replayable_entry (p @ q) k \<longleftrightarrow> replayable_entry p k"
proof -
  have "first_kept_index p k < length p" using assms first_kept_index_le [of p k] by simp
  with assms show ?thesis
    by (auto simp: replayable_entry_def Let_def nth_append first_kept_index_append)
qed

lemma replayable_snoc:
  "replayable (p @ [e]) \<longleftrightarrow> replayable p \<and> ent_id e \<notin> ent_id ` set p \<and> replayable_entry (p @ [e]) (length p)"
  by (auto simp: replayable_def replayable_entry_append less_Suc_eq)

section \<open>The planner's account\<close>

definition facing_of :: "entry \<Rightarrow> entry list" where
  "facing_of e = (case message_for_context e of None \<Rightarrow> [] | Some m \<Rightarrow> [e\<lparr>ent_message := m\<rparr>])"

definition plain_facing_of :: "entry \<Rightarrow> entry list" where
  "plain_facing_of e = (if ent_type e = EntryCompaction then [] else facing_of e)"

definition replay_start :: "entry list \<Rightarrow> nat" where
  "replay_start es = (case last_compaction es of None \<Rightarrow> 0 | Some c \<Rightarrow> first_kept_index es c)"

definition replay_head :: "entry list \<Rightarrow> entry list" where
  "replay_head es = (case last_compaction es of None \<Rightarrow> [] | Some c \<Rightarrow> facing_of (es ! c))"

definition replay_entries :: "entry list \<Rightarrow> entry list" where
  "replay_entries es = replay_head es @ concat (map plain_facing_of (drop (replay_start es) es))"

lemma effective_snoc:
  "effective_model_facing_entries (p @ [e]) = fold (\<lambda>e effective. effective_step effective e) (facing_of e) (effective_model_facing_entries p)"
  by (simp add: effective_model_facing_entries_def model_facing_entries_def facing_of_def)

lemma replay_start_snoc:
  "replay_start (p @ [e]) = (if ent_type e = EntryCompaction then first_kept_index (p @ [e]) (length p) else replay_start p)"
  by (auto simp: replay_start_def last_compaction_snoc first_kept_index_append dest: last_compaction_bound split: option.splits)

lemma replay_head_snoc:
  "replay_head (p @ [e]) = (if ent_type e = EntryCompaction then facing_of e else replay_head p)"
  by (auto simp: replay_head_def last_compaction_snoc nth_append dest: last_compaction_bound split: option.splits)

lemma replay_start_le: "replay_start es \<le> length es"
  using first_kept_index_le [of es] by (auto simp: replay_start_def dest!: last_compaction_bound split: option.splits
      intro: order.trans order.strict_implies_order)

lemma entry_index_by_id_None: "\<forall>y\<in>set es. ent_id y \<noteq> i \<Longrightarrow> entry_index_by_id es i = None"
  by (auto simp: entry_index_by_id_def find_None_iff)

lemma entry_index_by_id_middle:
  assumes "\<forall>y\<in>set A. ent_id y \<noteq> i" and "ent_id x = i"
  shows "entry_index_by_id (A @ x # B) i = Some (length A)"
proof -
  have "[0..<length (A @ x # B)] = [0..<length A] @ length A # [Suc (length A)..<length (A @ x # B)]"
    using upt_add_eq_append [of 0 "length A" "Suc (length B)"] by (simp add: upt_conv_Cons del: upt_Suc)
  moreover have "find (\<lambda>k. ent_id ((A @ x # B) ! k) = i) [0..<length A] = None"
    using assms(1) by (auto simp: find_None_iff nth_append)
  ultimately show ?thesis
    using assms(2) by (simp add: entry_index_by_id_def find_append)
qed

text \<open>The entries that the model sees keep their identifiers.\<close>

lemma facing_of_id: "x \<in> set (facing_of e) \<Longrightarrow> ent_id x = ent_id e"
  by (auto simp: facing_of_def split: option.splits)

lemma plain_facing_ids: "x \<in> set (concat (map plain_facing_of es)) \<Longrightarrow> ent_id x \<in> ent_id ` set es"
  by (auto simp: plain_facing_of_def dest: facing_of_id split: if_splits)

lemma replay_head_ids:
  assumes "x \<in> set (replay_head es)"
  shows "\<exists>c<length es. ent_type (es ! c) = EntryCompaction \<and> ent_id x = ent_id (es ! c)"
proof (cases "last_compaction es")
  case (Some c)
  with assms have "ent_id x = ent_id (es ! c)" by (auto simp: replay_head_def dest: facing_of_id)
  with last_compaction_bound [OF Some] show ?thesis by blast
qed (use assms in \<open>simp add: replay_head_def\<close>)

lemma replay_entries_ids:
  assumes "x \<in> set (replay_entries es)"
  shows "ent_id x \<in> ent_id ` set es"
proof (cases "x \<in> set (replay_head es)")
  case True
  from replay_head_ids [OF this] show ?thesis by auto
next
  case False
  with assms have "x \<in> set (concat (map plain_facing_of (drop (replay_start es) es)))" by (simp add: replay_entries_def)
  from plain_facing_ids [OF this] set_drop_subset [of "replay_start es" es] show ?thesis by blast
qed

lemma first_kept_found:
  assumes "first_kept_index (p @ [e]) (length p) = j" and "j < length p"
  shows "ent_id (p ! j) = ent_first_kept e"
proof -
  have "find (\<lambda>i. ent_id ((p @ [e]) ! i) = ent_first_kept ((p @ [e]) ! length p)) [0..<length p] = Some j"
    using assms by (auto simp: first_kept_index_def split: option.splits)
  from find_SomeD' [OF this] assms(2) show ?thesis by (simp add: nth_append)
qed

lemma first_kept_missing:
  assumes "first_kept_index (p @ [e]) (length p) = length p"
  shows "\<forall>x\<in>set p. ent_id x \<noteq> ent_first_kept e"
proof (cases "find (\<lambda>i. ent_id ((p @ [e]) ! i) = ent_first_kept ((p @ [e]) ! length p)) [0..<length p]")
  case None
  then show ?thesis by (auto simp: find_None_iff in_set_conv_nth nth_append)
next
  case (Some i)
  with assms find_SomeD' [OF Some] show ?thesis by (simp add: first_kept_index_def)
qed

text \<open>A compaction drops what precedes its first kept entry.\<close>

lemma replay_drop:
  assumes "distinct (map ent_id p)" and "replay_start p \<le> j" and "j < length p" and "message_for_summary (p ! j) \<noteq> None"
  shows "(case entry_index_by_id (replay_entries p) (ent_id (p ! j)) of None \<Rightarrow> [] | Some i \<Rightarrow> drop i (replay_entries p)) =
    concat (map plain_facing_of (drop j p))"
proof -
  let ?s = "replay_start p"
  let ?A = "replay_head p @ concat (map plain_facing_of (take (j - ?s) (drop ?s p)))"
  let ?B = "concat (map plain_facing_of (drop (Suc j) p))"
  from assms(4) obtain m where m: "message_for_context (p ! j) = Some m" "ent_type (p ! j) \<noteq> EntryCompaction"
    by (auto simp: message_for_summary_def split: if_splits)
  let ?x = "(p ! j)\<lparr>ent_message := m\<rparr>"
  have j: "plain_facing_of (p ! j) = [?x]" using m by (simp add: plain_facing_of_def facing_of_def)
  have tail: "concat (map plain_facing_of (drop j p)) = ?x # ?B"
    using assms(3) j by (simp add: Cons_nth_drop_Suc [symmetric])
  have "drop ?s p = take (j - ?s) (drop ?s p) @ drop j p"
    using assms(2) append_take_drop_id [of "j - ?s" "drop ?s p"] by simp
  then have "concat (map plain_facing_of (drop ?s p)) =
      concat (map plain_facing_of (take (j - ?s) (drop ?s p))) @ concat (map plain_facing_of (drop j p))"
    by (metis concat_append map_append)
  then have split: "replay_entries p = ?A @ ?x # ?B" by (simp add: replay_entries_def tail)
  have unique: "i = j" if "i < length p" "ent_id (p ! i) = ent_id (p ! j)" for i
    using assms(1,3) that by (simp add: distinct_map distinct_conv_nth) (metis assms(1) distinct_conv_nth length_map nth_map)
  have "ent_id y \<noteq> ent_id (p ! j)" if "y \<in> set ?A" for y
  proof
    assume y: "ent_id y = ent_id (p ! j)"
    from that consider "y \<in> set (replay_head p)" | "y \<in> set (concat (map plain_facing_of (take (j - ?s) (drop ?s p))))" by auto
    then show False
    proof cases
      case 1
      from replay_head_ids [OF this] y unique m(2) show ?thesis by auto
    next
      case 2
      from plain_facing_ids [OF this] y obtain z where z: "z \<in> set (take (j - ?s) (drop ?s p))" "ent_id z = ent_id (p ! j)" by auto
      from z(1) obtain i where "i < j - ?s" "z = p ! (?s + i)" by (auto simp: in_set_conv_nth)
      then have "?s + i < j" by linarith
      with unique [of "?s + i"] z(2) \<open>z = p ! (?s + i)\<close> assms(3) show ?thesis by simp
    qed
  qed
  with entry_index_by_id_middle [of ?A "ent_id (p ! j)" ?x ?B] show ?thesis
    by (simp add: split tail)
qed

lemma effective_step_compaction:
  assumes "ent_type e = EntryCompaction" and "message_for_context e = Some m"
  shows "fold (\<lambda>e effective. effective_step effective e) (facing_of e) effective = facing_of e @
    (case entry_index_by_id effective (ent_first_kept e) of None \<Rightarrow> [] | Some i \<Rightarrow> drop i effective)"
  using assms by (simp add: facing_of_def effective_step_def)

lemma effective_step_plain:
  "ent_type e \<noteq> EntryCompaction \<Longrightarrow> fold (\<lambda>e effective. effective_step effective e) (facing_of e) effective = effective @ plain_facing_of e"
  by (simp add: facing_of_def plain_facing_of_def effective_step_def split: option.splits)

lemma effective_is_replay: "replayable es \<Longrightarrow> effective_model_facing_entries es = replay_entries es"
proof (induction es rule: rev_induct)
  case Nil
  show ?case by (simp add: effective_model_facing_entries_def model_facing_entries_def replay_entries_def replay_head_def last_compaction_def)
next
  case (snoc e p)
  then have p: "replayable p" "effective_model_facing_entries p = replay_entries p"
    and e: "replayable_entry (p @ [e]) (length p)" by (simp_all add: replayable_snoc)
  show ?case
  proof (cases "ent_type e = EntryCompaction")
    case False
    with p(2) replay_start_le [of p] show ?thesis
      by (simp add: effective_snoc effective_step_plain replay_entries_def replay_head_snoc replay_start_snoc)
  next
    case True
    let ?j = "first_kept_index (p @ [e]) (length p)"
    have le: "?j \<le> length p" by (rule first_kept_index_le)
    from e True obtain m where m: "message_for_context e = Some m"
      and found: "?j = length p \<or> message_for_summary ((p @ [e]) ! ?j) \<noteq> None"
      and mono: "\<And>c. c < length p \<Longrightarrow> ent_type (p ! c) = EntryCompaction \<Longrightarrow> first_kept_index p c \<le> ?j"
      by (auto simp: replayable_entry_def Let_def nth_append first_kept_index_append)
    have "(case entry_index_by_id (replay_entries p) (ent_first_kept e) of None \<Rightarrow> [] | Some i \<Rightarrow> drop i (replay_entries p)) =
        concat (map plain_facing_of (drop ?j p))"
    proof (cases "?j = length p")
      case True
      have "\<forall>y\<in>set (replay_entries p). ent_id y \<noteq> ent_first_kept e"
        using first_kept_missing [OF True] replay_entries_ids [of _ p] by (metis image_iff)
      from entry_index_by_id_None [OF this] True show ?thesis by simp
    next
      case False
      with le have j: "?j < length p" by simp
      have "replay_start p \<le> ?j"
        using mono by (auto simp: replay_start_def dest: last_compaction_bound split: option.splits)
      moreover have "message_for_summary (p ! ?j) \<noteq> None" using found j by (simp add: nth_append)
      moreover have "distinct (map ent_id p)" using p(1) by (simp add: replayable_def)
      ultimately show ?thesis using replay_drop j first_kept_found [OF refl j] by metis
    qed
    moreover have "drop ?j (p @ [e]) = drop ?j p @ [e]" using le by simp
    moreover have "plain_facing_of e = []" using True by (simp add: plain_facing_of_def)
    ultimately show ?thesis
      using True m p(2)
      by (simp add: effective_snoc effective_step_compaction replay_entries_def [of "p @ [e]"] replay_head_snoc replay_start_snoc)
  qed
qed

section \<open>Messages of the two accounts\<close>

definition planned_messages :: "entry list \<Rightarrow> message list" where
  "planned_messages es = concat (map (\<lambda>e. case message_for_context e of None \<Rightarrow> [] | Some m \<Rightarrow> [facing_message m]) es)"

lemma planned_of_facing: "planned_messages (facing_of e) = (case message_for_context e of None \<Rightarrow> [] | Some m \<Rightarrow> [facing_message m])"
proof -
  have "message_for_context (e\<lparr>ent_message := m\<rparr>) = Some m" if "message_for_context e = Some m" for m
    using that by (auto simp: message_for_context_def candidate_message_def Let_def split: if_splits entry_type.splits)
  then show ?thesis by (simp add: planned_messages_def facing_of_def split: option.split)
qed

lemma planned_append [simp]: "planned_messages (xs @ ys) = planned_messages xs @ planned_messages ys" "planned_messages [] = []"
  by (simp_all add: planned_messages_def)

lemma facing_messages_append: "facing_messages (xs @ ys) = facing_messages xs @ facing_messages ys"
  by (simp add: facing_messages_def)

lemma summary_is_candidate:
  "ent_message e = blank_message (ent_created_at e) \<Longrightarrow> ent_type e = EntryBranchSummary \<Longrightarrow>
     candidate_message e = summary_message RoleBranchSummary e"
  "ent_message e = blank_message (ent_created_at e) \<Longrightarrow> ent_type e = EntryCompaction \<Longrightarrow>
     candidate_message e = summary_message RoleCompactionSummary e"
  by (simp_all add: candidate_message_def summary_message_def blank_message_def)

lemma entry_messages_agree:
  assumes "replayable_entry es k" and "ent_type (es ! k) \<noteq> EntryCompaction"
  shows "facing_messages (entry_messages (es ! k)) = planned_messages (plain_facing_of (es ! k))"
  using assms
  by (cases "ent_type (es ! k)")
     (auto simp: replayable_entry_def Let_def plain_facing_of_def planned_of_facing entry_messages_def facing_messages_def
       summary_is_candidate message_for_context_def, auto simp: candidate_message_def)

lemma messages_agree:
  "\<forall>e\<in>set xs. facing_messages (entry_messages e) = planned_messages (plain_facing_of e) \<Longrightarrow>
   facing_messages (concat (map entry_messages xs)) = planned_messages (concat (map plain_facing_of xs))"
  by (induction xs) (simp_all add: facing_messages_append, simp add: facing_messages_def)

lemma replayed_messages_agree:
  assumes "replayable es"
  shows "facing_messages (reference_messages es) = planned_messages (effective_model_facing_entries es)"
proof -
  have all: "\<forall>k<length es. replayable_entry es k" using assms by (simp add: replayable_def)
  have "\<forall>e\<in>set es. facing_messages (entry_messages e) = planned_messages (plain_facing_of e)"
  proof
    fix e
    assume "e \<in> set es"
    then obtain k where k: "k < length es" "e = es ! k" by (auto simp: in_set_conv_nth)
    show "facing_messages (entry_messages e) = planned_messages (plain_facing_of e)"
    proof (cases "ent_type e = EntryCompaction")
      case True
      then show ?thesis by (simp add: entry_messages_compaction plain_facing_of_def facing_messages_def)
    qed (use entry_messages_agree all k in blast)
  qed
  then have tail: "facing_messages (concat (map entry_messages (drop j es))) = planned_messages (concat (map plain_facing_of (drop j es)))" for j
    using messages_agree [of "drop j es"] set_drop_subset [of j es] by blast
  show ?thesis
  proof (cases "last_compaction es")
    case None
    then show ?thesis
      using tail [of 0] by (simp add: effective_is_replay [OF assms] reference_messages_def replay_entries_def replay_head_def replay_start_def)
  next
    case (Some c)
    from last_compaction_bound [OF Some] all have c: "ent_type (es ! c) = EntryCompaction" "replayable_entry es c" by blast+
    then have "message_for_context (es ! c) = Some (summary_message RoleCompactionSummary (es ! c))"
      by (auto simp: replayable_entry_def Let_def summary_is_candidate message_for_context_def split: if_splits)
    then have "facing_messages [summary_message RoleCompactionSummary (es ! c)] = planned_messages (facing_of (es ! c))"
      by (auto simp: planned_of_facing facing_messages_def message_for_context_def Let_def split: if_splits)
    then show ?thesis
      using tail [of "first_kept_index es c"] facing_messages_append [of "[summary_message RoleCompactionSummary (es ! c)]"]
      by (simp add: effective_is_replay [OF assms] reference_messages_def replay_entries_def replay_head_def replay_start_def Some)
  qed
qed

section \<open>Properties\<close>

text \<open>
  C11. The two accounts agree. On a branch whose compactions kept their tail, the messages that the
  repository rebuilds and the filter lets through to the provider are, in the same order, those of the
  entries that the planner counts; so the token count the planner compares with its threshold is the
  count of what would be sent.
\<close>

theorem replay_agrees_with_planner:
  assumes "replayable es" and "context_of_branch env es = Inr ctx"
  shows "facing_messages (sc_messages ctx) = planned_messages (effective_model_facing_entries es) \<and>
    branch_tokens es count_tokens = message_tokens count_tokens (facing_messages (sc_messages ctx))"
proof -
  from replayed_context [OF assms(2)] have "sc_messages ctx = reference_messages es" by (simp add: reference_context_def)
  with replayed_messages_agree [OF assms(1)] show ?thesis by (simp add: branch_tokens_def planned_messages_def)
qed

lemma last_compaction_greatest:
  assumes "last_compaction es = Some l" and "l < c" and "c < length es"
  shows "ent_type (es ! c) \<noteq> EntryCompaction"
proof
  assume t: "ent_type (es ! c) = EntryCompaction"
  have "rev [0..<length es] = rev [c..<length es] @ rev [0..<c]"
    using upt_add_eq_append [of 0 c "length es - c"] assms(3) by (simp flip: rev_append)
  moreover have "find (\<lambda>i. ent_type (es ! i) = EntryCompaction) (rev [c..<length es]) \<noteq> None"
    using t assms(3) by (auto simp: find_None_iff)
  ultimately obtain k where "find (\<lambda>i. ent_type (es ! i) = EntryCompaction) (rev [c..<length es]) = Some k" "last_compaction es = Some k"
    by (auto simp: last_compaction_def find_append)
  with assms(1,2) show False by (auto dest!: find_SomeD')
qed

lemma first_kept_below_boundary:
  assumes "last_compaction es = Some l"
  shows "first_kept_index es l \<le> boundary_of es"
proof -
  have b: "boundary_of es = (case entry_index_by_id es (ent_first_kept (es ! l)) of None \<Rightarrow> l + 1 | Some k \<Rightarrow> k)"
    using assms by (simp add: boundary_of_def previous_compaction_boundary_def last_compaction_def)
  show ?thesis
  proof (cases "entry_index_by_id es (ent_first_kept (es ! l))")
    case None
    then show ?thesis using first_kept_index_le [of es l] by (simp add: b)
  next
    case (Some k)
    show ?thesis
    proof (cases "k < l")
      case True
      have "[0..<length es] = [0..<l] @ [l..<length es]"
        using upt_add_eq_append [of 0 l "length es - l"] last_compaction_bound [OF assms] by simp
      with Some True have "find (\<lambda>i. ent_id (es ! i) = ent_first_kept (es ! l)) [0..<l] = Some k"
        by (auto simp: entry_index_by_id_def find_append split: option.splits dest!: find_SomeD')
      then show ?thesis by (simp add: b Some first_kept_index_def)
    next
      case False
      then show ?thesis using first_kept_index_le [of es l] by (simp add: b Some)
    qed
  qed
qed

lemma boundary_bounds_starts:
  assumes "replayable es" and "c < length es" and "ent_type (es ! c) = EntryCompaction"
  shows "first_kept_index es c \<le> boundary_of es"
proof -
  from assms(2,3) have "last_compaction es \<noteq> None" by (auto simp: last_compaction_def find_None_iff)
  then obtain l where l: "last_compaction es = Some l" by blast
  have "c \<le> l"
    using last_compaction_greatest [OF l, of c] assms(2,3) not_le by blast
  moreover have "replayable_entry es l" using assms(1) last_compaction_bound [OF l] by (simp add: replayable_def)
  ultimately have "first_kept_index es c \<le> first_kept_index es l"
    using last_compaction_bound [OF l] assms(3) by (cases "c = l") (auto simp: replayable_entry_def Let_def)
  also have "\<dots> \<le> boundary_of es" using first_kept_below_boundary [OF l] .
  finally show ?thesis .
qed

lemma first_kept_of_unique:
  assumes "distinct (map ent_id es)" and "k < length es" and "ent_first_kept e = ent_id (es ! k)"
  shows "first_kept_index (es @ [e]) (length es) = k"
proof -
  let ?j = "first_kept_index (es @ [e]) (length es)"
  have "?j \<noteq> length es" using first_kept_missing [of es e] assms(2,3) by (metis nth_mem)
  with first_kept_index_le [of "es @ [e]" "length es"] have j: "?j < length es" by simp
  from first_kept_found [OF refl j] assms j show ?thesis
    by (simp add: distinct_conv_nth) (metis nth_map length_map)
qed

text \<open>
  C10. Compaction as a whole, from the plan to the next request: when the compaction of a plan is
  appended to the branch it was planned for, the context becomes its summary followed by exactly the
  messages of the entries the plan kept, with no usage anchor left, and the branch can be planned and
  replayed again.
\<close>

theorem planned_compaction_shapes_context:
  assumes "replayable es" and "plan_branch collect es target counter = Inr p"
    and "ent_type e = EntryCompaction" and "ent_first_kept e = pln_first_kept_id p" and "message_for_context e \<noteq> None"
    and "ent_message e = blank_message (ent_created_at e)" and "ent_id e \<notin> ent_id ` set es"
    and "context_of_branch env (es @ [e]) = Inr ctx"
  shows "sc_messages ctx = summary_message RoleCompactionSummary e # concat (map entry_messages (drop (pln_first_kept_index p) es)) \<and>
    sc_anchor ctx = None \<and> replayable (es @ [e])"
proof -
  let ?k = "pln_first_kept_index p"
  obtain ms ids sp where pay: "summary_payload es (boundary_of es) (split_cut es ?k (boundary_of es)) = (ms, ids, sp)"
    by (rule prod_cases3)
  from plan_branch_InrD [OF assms(2)] pay have k: "boundary_of es < ?k" "?k < length es" "message_for_summary (es ! ?k) \<noteq> None"
    and mk: "make_plan collect es (fst (previous_compaction_boundary es)) ?k (default_counter counter) (ent_id (es ! ?k)) (ms, ids, sp) = Inr p"
    by (simp_all add: is_valid_cut_point_def)
  have "ent_first_kept e = ent_id (es ! ?k)" using make_plan_Inr [OF mk] assms(4) by simp
  with assms(1) k(2) have j: "first_kept_index (es @ [e]) (length es) = ?k"
    by (intro first_kept_of_unique) (simp_all add: replayable_def)
  have ctx: "ctx = reference_context env (es @ [e])" by (rule replayed_context [OF assms(8)])
  have "replayable_entry (es @ [e]) (length es)"
    using k boundary_bounds_starts [OF assms(1)] assms(3,5,6)
    by (force simp: replayable_entry_def Let_def nth_append j first_kept_index_append)
  with assms(1,3,7) show ?thesis
    by (simp add: ctx reference_context_def reference_messages_compaction reference_anchor_compaction j replayable_snoc)
qed

section \<open>Model changes and the newest entry\<close>

lemma model_change_appended:
  assumes "session_inv db" and "append_model_change env new_id now sid parent provider model db = Inr (e', db')"
  obtains x where "x \<in> set (rows_of db')" "ent_id x = new_id" "ent_session_id x = sid" "ent_type x = EntryModelChange"
    "new_id \<notin> mw_entry_id ` set (sd_messages db')"
proof -
  let ?opts = "new_append_options\<lparr>ao_model := model, ao_provider := provider\<rparr>"
  let ?e = "entry_from_append_options new_id now sid parent EntryModelChange ?opts"
  from assms(2) have a: "append_entry env ?e db = Inr (e', db')"
    by (simp add: append_model_change_def append_built_entry_def apply_append_entry_metadata_def new_append_options_def)
  from a obtain x db1 db2 where p: "prepare_append_entry env ?e = Inr x"
    and i: "insert_entry_ignoring_conflict x [] False db = Inr (True, db1)"
    and m: "append_entry_message env x db1 = Inr db2" "db' = touch_session (ent_created_at x) (ent_session_id x) db2"
    by (auto simp: append_entry_def append_entry_tx_def split: sum.splits if_splits)
  from insert_entry_cases [OF i] have db1: "db1 = db\<lparr>sd_entries := sd_entries db @ [\<lparr>er_entry = entry_columns x, er_operation = []\<rparr>]\<rparr>"
    and noc: "\<not> entry_conflict db x []" by auto
  note k = prepared_keeps [OF p]
  have "msg_role (ent_message x) = no_role"
    using p by (auto simp: prepare_append_entry_def apply_entry_metadata_def canonicalize_entry_message_parts_def Let_def
        entry_carries_message_def entry_from_append_options_def new_append_options_def no_role_def
        split: sum.splits option.splits if_splits)
  then have db2: "db2 = db1" using m(1) by (simp add: append_entry_message_def entry_carries_message_def no_role_def)
  have "ent_id x \<notin> ent_id ` set (rows_of db)" using noc by (auto simp: entry_conflict_def rows_of_def)
  then have "ent_id x \<notin> mw_entry_id ` set (sd_messages db)" using assms(1) by (auto simp: session_inv_def)
  moreover have "sd_messages db' = sd_messages db" by (simp add: m(2) db2 db1 touch_session_def)
  moreover have "entry_columns x \<in> set (rows_of db')" by (simp add: m(2) db2 db1)
  ultimately show ?thesis using that [of "entry_columns x"] k by (simp add: built_parent)
qed

text \<open>
  A model change is recorded without the model. The entry that \<open>AppendModelChange\<close> appends has no
  role, hence no message row, and the provider and the model are columns of the message rows alone:
  the context rebuilt from that entry names no provider and no model, whatever was recorded.
\<close>

theorem model_change_retains_no_model:
  assumes "reachable_from session_init session_step db" and "parent \<noteq> Some new_id"
    and "append_model_change env new_id now sid parent provider model db = Inr (e, db')"
    and "build_context env' db' sid new_id = Some (Inr ctx)"
  shows "sc_provider ctx = [] \<and> sc_model ctx = []"
proof -
  note inv = session_reachable_inv [OF assms(1)]
  from model_change_appended [OF inv assms(3)] obtain x where x: "x \<in> set (rows_of db')" "ent_id x = new_id"
    "ent_session_id x = sid" "ent_type x = EntryModelChange" and none: "new_id \<notin> mw_entry_id ` set (sd_messages db')" by metis
  from assms(3) obtain e1 where "append_entry env e1 db = Inr (e, db')" "ent_parent_id e1 = parent" "ent_id e1 = new_id"
    unfolding append_model_change_def by (elim built_entry_append)
  with session_inv_append [OF inv] assms(2) have inv': "session_inv db'" by blast
  from assms(4) have named: "new_id \<noteq> []" by (auto simp: build_context_def)
  from branch_of_row [OF inv' x(1,3), of new_id] named x(2) obtain es where
    es: "branch db' sid new_id = Some (Inr (map (hydrate_entry db') es))" "path_to db' sid new_id es" by auto
  obtain p l where l: "es = p @ [l]" using es(2) by (cases es rule: rev_cases) auto
  have "l \<in> set (rows_of db')" "ent_id l = new_id" using es(2) unfolding l by (cases p; auto)+
  then have "l = x" using inv' x(1,2) by (auto simp: session_inv_def distinct_map dest: inj_onD)
  moreover have "message_row_of db' new_id = None"
    using none by (auto simp: message_row_of_def find_None_iff)
  moreover have "ent_message x = blank_message (ent_created_at x)" using inv' x(1) by (simp add: session_inv_def)
  ultimately have h: "hydrate_entry db' l = x"
    using x(2) by (simp add: hydrate_entry_def entry_carries_message_def blank_message_def no_role_def)
  from assms(4) es(1) have "context_of_branch env' (map (hydrate_entry db') es) = Inr ctx"
    by (simp add: build_context_def split: if_splits)
  from replayed_context [OF this] h x(4) \<open>ent_message x = _\<close> show ?thesis
    by (simp add: l reference_context_def last_of_type_snoc blank_message_def)
qed

text \<open>The newest entry by the stored texts is the older one when it lies on a full second.\<close>

lemma leaf_entry_within_a_second:
  assumes "session_rows db sid = [a, b]"
    and "ent_created_at a = s * 1000000000 - zero_instant" and "ent_created_at b = ent_created_at a + 500000000"
  shows "leaf_entry db sid = Some (hydrate_entry db a)"
proof -
  have "s * 1000000000 div 1000000000 = s" "(s * 1000000000 + 500000000) div 1000000000 = s"
    "s * 1000000000 mod 1000000000 = 0" "(s * 1000000000 + 500000000) mod 1000000000 = 500000000"
    by simp_all
  then have "stamp_less (stamp_of (ent_created_at b)) (stamp_of (ent_created_at a))"
    using assms(2,3)
    by (simp add: stamp_of_def stamp_less_def format_time_def fraction_text_def nine_digits_def drop_trailing_zeros_def byte_def)
  then have "entry_before b a" "\<not> entry_before a b"
    by (auto simp: entry_before_def dest: stamp_less_asym)
  then show ?thesis by (simp add: leaf_entry_def assms(1) order_by_def)
qed

section \<open>Witnesses\<close>

definition sample_summary :: entry where
  "sample_summary = (compaction_row uuid_2 2000)\<lparr>ent_first_kept := pln_first_kept_id sample_plan\<rparr>"

lemma sample_summary_facts:
  "ent_type sample_summary = EntryCompaction" "ent_message sample_summary = blank_message (ent_created_at sample_summary)"
  "ent_first_kept sample_summary = pln_first_kept_id sample_plan" "ent_id sample_summary = uuid_2" "ent_summary sample_summary = ''abcd''"
  "ent_model_facing sample_summary"
  by (simp_all add: sample_summary_def compaction_row_def)

lemma sample_summary_facing: "message_for_context sample_summary \<noteq> None"
  by (simp add: message_for_context_def Let_def candidate_message_def sample_summary_facts is_facing_message_def sample_text)

lemma sample_branch_replayable: "replayable sample_branch"
  by (auto simp: replayable_def replayable_entry_def sample_branch_def sample_entry_def less_Suc_eq Let_def)

lemma sample_branch_decodes: "context_of_branch env (sample_branch @ [sample_summary]) = Inr (reference_context env (sample_branch @ [sample_summary]))"
  using context_loop_reference [of env "[]" "sample_branch @ [sample_summary]"]
  by (simp add: context_of_branch_def reference_context_Nil sample_branch_def sample_entry_def entry_decodes_def data_from_entry_def
      normalize_data_json_def sample_summary_facts)

theorem planned_compaction_shapes_context_witness:
  "sc_messages (reference_context sample_env (sample_branch @ [sample_summary])) =
     summary_message RoleCompactionSummary sample_summary #
     concat (map entry_messages (drop (pln_first_kept_index sample_plan) sample_branch))"
proof -
  have "ent_id sample_summary \<notin> ent_id ` set sample_branch"
    by (simp add: sample_branch_def sample_entry_def sample_summary_facts uuid_2_def)
  with planned_compaction_shapes_context [OF sample_branch_replayable sample_plan sample_summary_facts(1,3) sample_summary_facing
      sample_summary_facts(2) _ sample_branch_decodes] show ?thesis by blast
qed

lemma sample_entry_decodes: "context_of_branch env sample_branch = Inr (reference_context env sample_branch)"
  using context_loop_reference [of env "[]" sample_branch]
  by (simp add: context_of_branch_def reference_context_Nil sample_branch_def sample_entry_def entry_decodes_def data_from_entry_def
      normalize_data_json_def)

theorem replay_agrees_with_planner_witness:
  "facing_messages (sc_messages (reference_context sample_env sample_branch)) =
     planned_messages (effective_model_facing_entries sample_branch)"
  using replay_agrees_with_planner [OF sample_branch_replayable sample_entry_decodes] by blast

definition model_change_row :: entry where
  "model_change_row = \<lparr>ent_created_at = 3000, ent_parent_id = Some uuid_2, ent_tool_status = [], ent_session_id = session_uuid,
     ent_tool_args_json = [], ent_custom_type = [], ent_data_json = ''{}'', ent_id = uuid_3, ent_summary = [], ent_tool_name = [],
     ent_type = EntryModelChange, ent_branch_from = [], ent_first_kept = [], ent_message = blank_message 3000,
     ent_tokens_before = 0, ent_token_estimate = 0, ent_display = False, ent_model_facing = False\<rparr>"

definition model_change_entry :: entry where
  "model_change_entry = model_change_row\<lparr>ent_message := (blank_message 3000)\<lparr>msg_provider := ''p'', msg_model := ''m''\<rparr>\<rparr>"

definition model_change_db :: session_db where
  "model_change_db = compacted_db\<lparr>sd_sessions := [sample_session 3000],
     sd_entries := sd_entries compacted_db @ [\<lparr>er_entry = model_change_row, er_operation = []\<rparr>]\<rparr>"

lemma model_change_sample:
  "append_model_change sample_env uuid_3 3000 session_uuid (Some uuid_2) ''p'' ''m'' compacted_db = Inr (model_change_entry, model_change_db)"
proof -
  let ?e = "entry_from_append_options uuid_3 3000 session_uuid (Some uuid_2) EntryModelChange
      (new_append_options\<lparr>ao_model := ''m'', ao_provider := ''p''\<rparr>)"
  have p: "prepare_append_entry sample_env ?e = Inr model_change_entry"
    by (simp add: prepare_append_entry_def canonicalize_entry_message_parts_def entry_carries_message_def
        entry_from_append_options_def new_append_options_def apply_entry_metadata_def data_from_entry_def
        normalize_data_json_def Let_def estimate_entry_tokens_def entry_participates_def entry_displays_def new_entry_data_def
        valid_entry_entity_def json_valid_empty_object sample_texts no_role_def model_change_entry_def model_change_row_def blank_message_def)
  have "insert_entry_ignoring_conflict model_change_entry [] False compacted_db =
      Inr (True, compacted_db\<lparr>sd_entries := sd_entries compacted_db @ [\<lparr>er_entry = model_change_row, er_operation = []\<rparr>]\<rparr>)"
    by (simp add: insert_entry_ignoring_conflict_def entry_trigger_ok_def entry_conflict_def entry_references_ok_def
        entry_columns_def model_change_entry_def model_change_row_def compacted_db_def user_db_def user_row_def compaction_row_def
        sample_session_def)
  moreover have "\<not> entry_carries_message model_change_entry"
    by (simp add: entry_carries_message_def model_change_entry_def blank_message_def no_role_def)
  ultimately have "append_entry_tx sample_env model_change_entry compacted_db = Inr model_change_db"
    by (simp add: append_entry_tx_def append_entry_message_def touch_session_def model_change_db_def compacted_db_def
        sample_session_def model_change_entry_def model_change_row_def)
  with p have "append_entry sample_env ?e compacted_db = Inr (model_change_entry, model_change_db)" by (simp add: append_entry_def)
  then show ?thesis
    by (simp add: append_model_change_def append_built_entry_def apply_append_entry_metadata_def new_append_options_def)
qed

theorem model_change_retains_no_model_witness:
  "\<exists>ctx. build_context sample_env model_change_db session_uuid uuid_3 = Some (Inr ctx) \<and> sc_provider ctx = []"
proof -
  have "session_step compacted_db model_change_db"
  proof -
    from model_change_sample obtain e where "append_entry sample_env e compacted_db = Inr (model_change_entry, model_change_db)"
      "ent_parent_id e = Some uuid_2" "ent_id e = uuid_3"
      unfolding append_model_change_def by (elim built_entry_append)
    then show ?thesis by (intro session_step.append) auto
  qed
  from reachable_from.step [OF compacted_db_reachable this] have inv: "session_inv model_change_db" by (rule session_reachable_inv)
  have "model_change_row \<in> set (rows_of model_change_db)" by (simp add: rows_of_def model_change_db_def)
  moreover have "ent_session_id model_change_row = session_uuid" "ent_id model_change_row = uuid_3" by (simp_all add: model_change_row_def)
  ultimately obtain es where "branch model_change_db session_uuid uuid_3 = Some (Inr es)"
    using branch_of_row [OF inv, of model_change_row session_uuid uuid_3] by auto
  moreover have "context_of_branch sample_env es = Inr (reference_context sample_env es)" for es
    using context_loop_reference [of sample_env "[]" es]
    by (simp add: context_of_branch_def reference_context_Nil sample_env_decodes)
  moreover have "trim_space uuid_3 \<noteq> []" by (simp add: uuid_3_def sample_texts)
  ultimately have c: "build_context sample_env model_change_db session_uuid uuid_3 = Some (Inr (reference_context sample_env es))"
    by (simp add: build_context_def)
  have "Some uuid_2 \<noteq> Some uuid_3" by simp
  from model_change_retains_no_model [OF compacted_db_reachable this model_change_sample c] c show ?thesis by blast
qed

end
