(* ===== verification/Timestamp.thy ===== *)
theory Timestamp
  imports Go_Strings "HOL-Library.Word" "HOL-Library.Signed_Division"
begin

text \<open>
  Compact timestamps (\<^verbatim>\<open>internal/timestamp/timestamp.go\<close>): whole seconds since 1970 in 32 bits, with their
  conversions to and from instants, JSON and SQL. Machine integers are words: \<^verbatim>\<open>int64\<close> and
  \<^verbatim>\<open>time.Duration\<close> are 64-bit words read as signed numbers, division truncates towards zero, and
  every addition and conversion wraps; that none of them does is what is proved.
\<close>

section \<open>Conversions\<close>

type_synonym unix_seconds = "32 word"
type_synonym int64 = "64 word"

datatype timestamp_error = OutOfRange | TimestampOverflow | ArithmeticOutOfRange | InvalidTimestampJson | InvalidTimestampSql

definition max_timestamp :: unix_seconds where
  "max_timestamp = - 1"

record optional_timestamp =
  ots_seconds :: unix_seconds
  ots_valid :: bool

text \<open>\<open>time.Time\<close> as the two numbers that are read of it.\<close>

record instant =
  in_unix :: int64
  in_nanosecond :: nat

definition ts_unix :: "unix_seconds \<Rightarrow> int64" where
  "ts_unix t = ucast t"

definition from_unix :: "int64 \<Rightarrow> timestamp_error + unix_seconds" where
  "from_unix seconds =
     (if sint seconds < 0 \<or> sint seconds > sint (ucast max_timestamp :: int64) then Inl OutOfRange else Inr (ucast seconds))"

definition from_time :: "instant \<Rightarrow> timestamp_error + unix_seconds" where
  "from_time v = from_unix (in_unix v)"

definition ts_time :: "unix_seconds \<Rightarrow> instant" where
  "ts_time t = \<lparr>in_unix = ts_unix t, in_nanosecond = 0\<rparr>"

definition deadline_from_time :: "instant \<Rightarrow> timestamp_error + unix_seconds" where
  "deadline_from_time v =
     (let seconds = in_unix v in
      if sint seconds < 0 \<or> sint seconds > sint (ucast max_timestamp :: int64) then Inl OutOfRange
      else if in_nanosecond v = 0 then Inr (ucast seconds)
      else if seconds = ucast max_timestamp then Inl TimestampOverflow
      else from_unix (seconds + 1))"

section \<open>Arithmetic\<close>

definition second :: int64 where "second = 1000000000"

text \<open>Go's \<open>/\<close> and \<open>%\<close> on \<^verbatim>\<open>int64\<close>.\<close>

definition quot64 :: "int64 \<Rightarrow> int64 \<Rightarrow> int64" where
  "quot64 a b = word_of_int (sint a sdiv sint b)"

definition rem64 :: "int64 \<Rightarrow> int64 \<Rightarrow> int64" where
  "rem64 a b = word_of_int (sint a smod sint b)"

definition ts_add :: "unix_seconds \<Rightarrow> int64 \<Rightarrow> timestamp_error + unix_seconds" where
  "ts_add t duration =
     (let whole_seconds = quot64 duration second;
          remainder = rem64 duration second;
          result = ts_unix t + whole_seconds in
      if sint result < 0 \<or> sint result > sint (ucast max_timestamp :: int64) \<or> result = 0 \<and> sint remainder < 0
      then Inl ArithmeticOutOfRange
      else if sint remainder > 0
      then (if result = ucast max_timestamp then Inl TimestampOverflow else from_unix (result + 1))
      else from_unix result)"

definition ts_sub :: "unix_seconds \<Rightarrow> unix_seconds \<Rightarrow> int64" where
  "ts_sub t other = (ts_unix t - ts_unix other) * second"

definition ts_compare :: "unix_seconds \<Rightarrow> unix_seconds \<Rightarrow> int" where
  "ts_compare t other = (if t < other then -1 else if t > other then 1 else 0)"

definition ts_before :: "unix_seconds \<Rightarrow> unix_seconds \<Rightarrow> bool" where "ts_before t other \<longleftrightarrow> t < other"
definition ts_after :: "unix_seconds \<Rightarrow> unix_seconds \<Rightarrow> bool" where "ts_after t other \<longleftrightarrow> t > other"
definition ts_equal :: "unix_seconds \<Rightarrow> unix_seconds \<Rightarrow> bool" where "ts_equal t other \<longleftrightarrow> t = other"

section \<open>JSON and SQL\<close>

definition ts_marshal_json :: "unix_seconds \<Rightarrow> string" where
  "ts_marshal_json t = digits_of (unat t)"

text \<open>
  \<open>json.Unmarshal\<close> into a \<^verbatim>\<open>uint64\<close>: an integer literal without sign, fraction, exponent or leading zero,
  below \<open>2 ^ 64\<close>.
\<close>

definition is_digit :: "char \<Rightarrow> bool" where
  "is_digit c \<longleftrightarrow> 48 \<le> byte c \<and> byte c \<le> 57"

definition digits_value :: "string \<Rightarrow> nat" where
  "digits_value s = foldl (\<lambda>n c. 10 * n + (byte c - 48)) 0 s"

definition json_uint64 :: "string \<Rightarrow> nat option" where
  "json_uint64 s =
     (if s \<noteq> [] \<and> list_all is_digit s \<and> (hd s = CHR ''0'' \<longrightarrow> length s = 1) \<and> digits_value s < 2 ^ 64
      then Some (digits_value s) else None)"

definition ts_unmarshal_json :: "string \<Rightarrow> timestamp_error + unix_seconds" where
  "ts_unmarshal_json data =
     (let trimmed = trim_space data in
      if trimmed = ''null'' then Inl InvalidTimestampJson
      else case json_uint64 trimmed of None \<Rightarrow> Inl InvalidTimestampJson
        | Some raw \<Rightarrow> if raw > unat max_timestamp then Inl OutOfRange else Inr (of_nat raw))"

datatype sql_value = SqlNull | SqlInteger int64 | SqlOther

definition ts_value :: "unix_seconds \<Rightarrow> sql_value" where
  "ts_value t = SqlInteger (ts_unix t)"

definition ts_scan :: "sql_value \<Rightarrow> timestamp_error + unix_seconds" where
  "ts_scan v =
     (case v of SqlInteger seconds \<Rightarrow> (case from_unix seconds of Inl _ \<Rightarrow> Inl InvalidTimestampSql | Inr t \<Rightarrow> Inr t)
      | _ \<Rightarrow> Inl InvalidTimestampSql)"

definition optional_marshal_json :: "optional_timestamp \<Rightarrow> string" where
  "optional_marshal_json t = (if \<not> ots_valid t then ''null'' else ts_marshal_json (ots_seconds t))"

definition absent_timestamp :: optional_timestamp where
  "absent_timestamp = \<lparr>ots_seconds = 0, ots_valid = False\<rparr>"

definition optional_unmarshal_json :: "string \<Rightarrow> timestamp_error + optional_timestamp" where
  "optional_unmarshal_json data =
     (let trimmed = trim_space data in
      if trimmed = ''null'' then Inr absent_timestamp
      else case ts_unmarshal_json trimmed of Inl _ \<Rightarrow> Inl InvalidTimestampJson
        | Inr t \<Rightarrow> Inr \<lparr>ots_seconds = t, ots_valid = True\<rparr>)"

definition optional_value :: "optional_timestamp \<Rightarrow> sql_value" where
  "optional_value t = (if \<not> ots_valid t then SqlNull else ts_value (ots_seconds t))"

definition optional_scan :: "sql_value \<Rightarrow> timestamp_error + optional_timestamp" where
  "optional_scan v =
     (if v = SqlNull then Inr absent_timestamp
      else case ts_scan v of Inl _ \<Rightarrow> Inl InvalidTimestampSql | Inr t \<Rightarrow> Inr \<lparr>ots_seconds = t, ots_valid = True\<rparr>)"

section \<open>Words as numbers\<close>

lemma uint_bound: "uint (t :: unix_seconds) \<le> 4294967295"
  using uint_lt2p [of t] by simp

lemma sint_small:
  assumes "uint (w :: int64) < 2 ^ 63"
  shows "sint w = uint w"
proof -
  have "- (2 ^ 63) \<le> uint w" by (rule order_trans [of _ 0]) simp_all
  with assms show ?thesis using signed_take_bit_int_eq_self [of 63 "uint w"] by (simp add: sint_uint)
qed

lemma uint_unix: "uint (ts_unix t) = uint t"
  using uint_bound [of t] by (simp add: ts_unix_def unsigned_ucast_eq take_bit_int_eq_self)

lemma sint_unix [simp]: "sint (ts_unix t) = uint t"
  using sint_small [of "ts_unix t"] uint_bound [of t] by (simp add: uint_unix)

lemma uint_max: "uint max_timestamp = 4294967295"
  by (simp add: max_timestamp_def unsigned_minus_1_eq_mask mask_eq_exp_minus_1)

lemma unat_max [simp]: "unat max_timestamp = 4294967295"
  using uint_max by (simp flip: nat_uint_eq)

lemma sint_max [simp]: "sint (ucast max_timestamp :: int64) = 4294967295"
  using sint_unix [of max_timestamp] by (simp add: ts_unix_def uint_max)

lemma sint_word_of_int: "- (2 ^ 63) \<le> i \<Longrightarrow> i < 2 ^ 63 \<Longrightarrow> sint (word_of_int i :: int64) = i"
  by (simp only: sint_sbintrunc') (rule signed_take_bit_int_eq_self, simp_all)

lemma sint_range: "- 9223372036854775808 \<le> sint (a :: int64)" "sint (a :: int64) < 9223372036854775808"
  using sint_ge [of a] sint_lt [of a] by simp_all

lemma sint_plus: "- (2 ^ 63) \<le> sint a + sint b \<Longrightarrow> sint a + sint b < 2 ^ 63 \<Longrightarrow> sint (a + b :: int64) = sint a + sint b"
  using sint_word_of_int [of "sint a + sint b"] by simp

lemma of_unix_range:
  assumes "0 \<le> sint (s :: int64)" and "sint s \<le> 4294967295"
  shows "uint (ucast s :: unix_seconds) = sint s"
proof -
  have "uint s = take_bit 64 (sint s)" by (simp add: uint_sint)
  also have "\<dots> = sint s" using assms by (intro take_bit_int_eq_self) simp_all
  finally have "uint s = sint s" .
  with assms show ?thesis by (simp add: unsigned_ucast_eq take_bit_int_eq_self)
qed

lemma from_unix_Inr: "from_unix s = Inr r \<longleftrightarrow> 0 \<le> sint s \<and> sint s \<le> 4294967295 \<and> uint r = sint s"
proof -
  have "r = ucast s \<longleftrightarrow> uint r = sint s" if "0 \<le> sint s" "sint s \<le> 4294967295"
    using of_unix_range [OF that] by (metis word_uint_eqI)
  then show ?thesis by (auto simp: from_unix_def)
qed

lemma quotient_and_remainder:
  "sint (quot64 d second) = sint d sdiv 1000000000" "sint (rem64 d second) = sint d smod 1000000000"
  "sint d = (sint d sdiv 1000000000) * 1000000000 + sint d smod 1000000000"
  "- 1000000000 < sint d smod 1000000000" "sint d smod 1000000000 < 1000000000"
  "\<bar>sint d sdiv 1000000000\<bar> \<le> 9223372037"
proof -
  show eq: "sint d = (sint d sdiv 1000000000) * 1000000000 + sint d smod 1000000000"
    by (simp add: sdiv_mult_smod_eq)
  show lo: "- 1000000000 < sint d smod 1000000000" and hi: "sint d smod 1000000000 < 1000000000"
    using smod_int_range [of 1000000000 "sint d"] by simp_all
  show q: "\<bar>sint d sdiv 1000000000\<bar> \<le> 9223372037"
    using eq lo hi sint_range [of d] by linarith
  have s: "sint second = 1000000000" by (simp add: second_def)
  show "sint (quot64 d second) = sint d sdiv 1000000000"
    unfolding quot64_def s using q by (intro sint_word_of_int) (simp_all add: abs_le_iff)
  show "sint (rem64 d second) = sint d smod 1000000000"
    unfolding rem64_def s using lo hi by (intro sint_word_of_int) simp_all
qed

lemma ceiling_above: "0 < m \<Longrightarrow> m < 1000000000 \<Longrightarrow> (k * 1000000000 + m + 999999999) div 1000000000 = (k + 1 :: int)"
  by (rule int_div_pos_eq [of _ _ _ "m - 1"]) simp_all

lemma ceiling_below: "- 1000000000 < m \<Longrightarrow> m \<le> 0 \<Longrightarrow> (k * 1000000000 + m + 999999999) div 1000000000 = (k :: int)"
  by (rule int_div_pos_eq [of _ _ _ "m + 999999999"]) simp_all

lemma sum_out_of_range:
  fixes k m :: int
  assumes "- 1000000000 < m" and "m < 1000000000" and "k < 0 \<or> 4294967295 < k \<or> k = 0 \<and> m < 0"
  shows "k * 1000000000 + m < 0 \<or> 4294967295 * 1000000000 < k * 1000000000 + m"
proof -
  from assms(3) consider "k + 1 \<le> 0" | "4294967296 \<le> k" | "k = 0" "m < 0" by linarith
  then show ?thesis
  proof cases
    case 1
    with assms(2) have "k * 1000000000 + m < 0" by linarith
    then show ?thesis ..
  next
    case 2
    with assms(1) have "4294967295 * 1000000000 < k * 1000000000 + m" by linarith
    then show ?thesis ..
  qed simp
qed

lemma sum_in_range:
  fixes k m :: int
  assumes "\<not> (k < 0 \<or> 4294967295 < k \<or> k = 0 \<and> m < 0)" and "- 1000000000 < m" and "m < 1000000000"
    and "0 < m \<Longrightarrow> k \<noteq> 4294967295"
  shows "0 \<le> k * 1000000000 + m \<and> k * 1000000000 + m \<le> 4294967295 * 1000000000"
proof (cases "0 < m")
  case True
  with assms have "0 \<le> k" "k \<le> 4294967294" by linarith+
  with True assms(3) show ?thesis by linarith
next
  case False
  from assms(1) False have "0 \<le> k" "k \<le> 4294967295" "m = 0 \<or> 1 \<le> k" by linarith+
  with False assms(2) show ?thesis by linarith
qed

section \<open>Properties\<close>

lemma add_exact:
  "case ts_add t d of
     Inr r \<Rightarrow> 0 \<le> uint t * 1000000000 + sint d \<and> uint t * 1000000000 + sint d \<le> 4294967295 * 1000000000 \<and>
       uint r = (uint t * 1000000000 + sint d + 999999999) div 1000000000
   | Inl _ \<Rightarrow> uint t * 1000000000 + sint d < 0 \<or> 4294967295 * 1000000000 < uint t * 1000000000 + sint d"
proof -
  let ?q = "sint d sdiv 1000000000" and ?m = "sint d smod 1000000000"
  note qr = quotient_and_remainder [of d]
  have "- 9223372037 \<le> ?q" "?q \<le> 9223372037" "0 \<le> uint t" "uint t \<le> 4294967295"
    using qr(6) uint_bound [of t] by (simp_all add: abs_le_iff)
  then have "- 9223372036854775808 \<le> uint t + ?q" "uint t + ?q < 9223372036854775808" by linarith+
  then have sum: "sint (ts_unix t + quot64 d second) = uint t + ?q"
    using sint_plus [of "ts_unix t" "quot64 d second"] qr(1) by simp
  have exact: "uint t * 1000000000 + sint d = (uint t + ?q) * 1000000000 + ?m" using qr(3) by (simp add: algebra_simps)
  have zero: "ts_unix t + quot64 d second = 0 \<longleftrightarrow> uint t + ?q = 0"
    using sum by (metis signed_0 signed_word_eqI)
  have top: "ts_unix t + quot64 d second = ucast max_timestamp \<longleftrightarrow> uint t + ?q = 4294967295"
    using sum sint_max by (metis signed_word_eqI)
  have next_second: "sint (ts_unix t + quot64 d second + 1) = uint t + ?q + 1" if "0 \<le> uint t + ?q" "uint t + ?q \<le> 4294967295"
    using sint_plus [of "ts_unix t + quot64 d second" 1] that sum by simp
  show ?thesis
  proof (cases "uint t + ?q < 0 \<or> uint t + ?q > 4294967295 \<or> uint t + ?q = 0 \<and> ?m < 0")
    case True
    have "uint t * 1000000000 + sint d < 0 \<or> 4294967295 * 1000000000 < uint t * 1000000000 + sint d"
      unfolding exact using sum_out_of_range [OF qr(4,5) True] .
    with True show ?thesis by (simp add: ts_add_def Let_def sum zero qr(2))
  next
    case False
    show ?thesis
    proof (cases "0 < ?m")
      case pos: True
      show ?thesis
      proof (cases "uint t + ?q = 4294967295")
        case True
        then have "4294967295 * 1000000000 < uint t * 1000000000 + sint d" unfolding exact using pos by simp
        with True pos show ?thesis by (simp add: ts_add_def Let_def sum zero top qr(2))
      next
        case small: False
        obtain r where r: "from_unix (ts_unix t + quot64 d second + 1) = Inr r" "uint r = uint t + ?q + 1"
          using False small next_second of_unix_range [of "ts_unix t + quot64 d second + 1"] by (auto simp: from_unix_Inr)
        have "0 \<le> uint t * 1000000000 + sint d \<and> uint t * 1000000000 + sint d \<le> 4294967295 * 1000000000"
          unfolding exact using sum_in_range [OF False qr(4,5)] small by blast
        with False pos small r show ?thesis
          using ceiling_above [OF pos qr(5), of "uint t + ?q"] by (simp add: ts_add_def Let_def sum zero top qr(2) exact)
      qed
    next
      case neg: False
      obtain r where r: "from_unix (ts_unix t + quot64 d second) = Inr r" "uint r = uint t + ?q"
        using False sum of_unix_range [of "ts_unix t + quot64 d second"] by (auto simp: from_unix_Inr)
      have "0 \<le> uint t * 1000000000 + sint d \<and> uint t * 1000000000 + sint d \<le> 4294967295 * 1000000000"
        unfolding exact using sum_in_range [OF False qr(4,5)] neg by blast
      with False neg r show ?thesis
        using ceiling_below [OF qr(4), of "uint t + ?q"] by (simp add: ts_add_def Let_def sum zero top qr(2) exact)
    qed
  qed
qed

lemma deadline_exact:
  assumes "in_nanosecond v < 1000000000"
  defines "e \<equiv> sint (in_unix v) * 1000000000 + int (in_nanosecond v)"
  shows "case deadline_from_time v of
      Inr r \<Rightarrow> 0 \<le> e \<and> e \<le> 4294967295 * 1000000000 \<and> uint r = (e + 999999999) div 1000000000
    | Inl _ \<Rightarrow> e < 0 \<or> 4294967295 * 1000000000 < e"
proof (cases "sint (in_unix v) < 0 \<or> sint (in_unix v) > 4294967295")
  case True
  then have "e < 0 \<or> 4294967295 * 1000000000 < e"
    unfolding e_def using sum_out_of_range [of "int (in_nanosecond v)" "sint (in_unix v)"] assms(1) by simp
  with True show ?thesis by (simp add: deadline_from_time_def Let_def)
next
  case False
  have top: "in_unix v = ucast max_timestamp \<longleftrightarrow> sint (in_unix v) = 4294967295"
    using sint_max by (metis signed_word_eqI)
  show ?thesis
  proof (cases "in_nanosecond v = 0")
    case True
    from False have r: "uint (ucast (in_unix v) :: unix_seconds) = sint (in_unix v)" by (intro of_unix_range) simp_all
    have "(e + 999999999) div 1000000000 = sint (in_unix v)"
      unfolding e_def True using ceiling_below [of 0 "sint (in_unix v)"] by simp
    with False True r show ?thesis by (simp add: deadline_from_time_def Let_def e_def)
  next
    case ns: False
    show ?thesis
    proof (cases "sint (in_unix v) = 4294967295")
      case True
      with ns show ?thesis by (simp add: deadline_from_time_def Let_def top e_def)
    next
      case small: False
      have "sint (in_unix v + 1) = sint (in_unix v) + 1" using False sint_plus [of "in_unix v" 1] by simp
      then obtain r where r: "from_unix (in_unix v + 1) = Inr r" "uint r = sint (in_unix v) + 1"
        using False small of_unix_range [of "in_unix v + 1"] by (auto simp: from_unix_Inr)
      have "0 \<le> e \<and> e \<le> 4294967295 * 1000000000"
        unfolding e_def using sum_in_range [of "sint (in_unix v)" "int (in_nanosecond v)"] False small assms(1) by simp
      moreover have "(e + 999999999) div 1000000000 = sint (in_unix v) + 1"
        unfolding e_def using ceiling_above [of "int (in_nanosecond v)" "sint (in_unix v)"] ns assms(1) by simp
      ultimately show ?thesis using False ns small r by (simp add: deadline_from_time_def Let_def top)
    qed
  qed
qed

text \<open>
  Deadlines and sums are rounded up, never early, in 32 and 64-bit arithmetic. With the exact
  value counted in nanoseconds, the sum of a timestamp and a duration, and the deadline of an instant, are the exact
  value rounded up to the next second whenever the exact value is representable, and an error
  exactly when it is not; no intermediate addition or conversion wraps.
\<close>

theorem timestamps_round_up:
  assumes "in_nanosecond v < 1000000000"
  shows "(case ts_add t d of
      Inr r \<Rightarrow> 0 \<le> uint t * 1000000000 + sint d \<and> uint t * 1000000000 + sint d \<le> 4294967295 * 1000000000 \<and>
        uint r = (uint t * 1000000000 + sint d + 999999999) div 1000000000
    | Inl _ \<Rightarrow> uint t * 1000000000 + sint d < 0 \<or> 4294967295 * 1000000000 < uint t * 1000000000 + sint d) \<and>
    (case deadline_from_time v of
      Inr r \<Rightarrow> 0 \<le> sint (in_unix v) * 1000000000 + int (in_nanosecond v) \<and>
        sint (in_unix v) * 1000000000 + int (in_nanosecond v) \<le> 4294967295 * 1000000000 \<and>
        uint r = (sint (in_unix v) * 1000000000 + int (in_nanosecond v) + 999999999) div 1000000000
    | Inl _ \<Rightarrow> sint (in_unix v) * 1000000000 + int (in_nanosecond v) < 0 \<or>
        4294967295 * 1000000000 < sint (in_unix v) * 1000000000 + int (in_nanosecond v))"
  using add_exact [of t d] deadline_exact [OF assms] by blast

theorem timestamps_round_up_witness: "deadline_from_time \<lparr>in_unix = 7, in_nanosecond = 5\<rparr> = Inr 8"
  using timestamps_round_up [of "\<lparr>in_unix = 7, in_nanosecond = 5\<rparr>" 0 0]
  by (simp split: sum.splits add: word_uint_eqI)

section \<open>Round trips\<close>

lemma byte_digit: "n < 10 \<Longrightarrow> byte (char_of (48 + n)) = 48 + n"
  by (simp add: byte_def of_char_of)

lemma digits_of_facts:
  "digits_value (digits_of n) = n \<and> list_all is_digit (digits_of n) \<and> digits_of n \<noteq> [] \<and>
   (hd (digits_of n) = CHR ''0'' \<longrightarrow> n = 0)"
proof (induction n rule: digits_of.induct)
  case (1 n)
  show ?case
  proof (cases "n < 10")
    case True
    have "n = 0" if "char_of (48 + n) = CHR ''0''"
    proof -
      from arg_cong [OF that, of byte] have "48 + n = byte (CHR ''0'')" by (simp add: byte_digit [OF True])
      then show ?thesis by (simp add: byte_def)
    qed
    with True show ?thesis by (simp add: digits_of.simps [of n] digits_value_def is_digit_def byte_digit)
  next
    case False
    with 1 have ih: "digits_value (digits_of (n div 10)) = n div 10" "list_all is_digit (digits_of (n div 10))" "digits_of (n div 10) \<noteq> []"
      "hd (digits_of (n div 10)) = CHR ''0'' \<longrightarrow> n div 10 = 0" by auto
    have b: "byte (char_of (48 + n mod 10)) = 48 + n mod 10" by (rule byte_digit) simp
    moreover have "n mod 10 < 10" by simp
    ultimately have "is_digit (char_of (48 + n mod 10))" unfolding is_digit_def by linarith
    moreover have "n div 10 \<noteq> 0" using False by simp
    ultimately show ?thesis
      using False ih b by (simp add: digits_of.simps [of n] digits_value_def)
  qed
qed

lemma trim_digits:
  assumes "list_all is_digit s"
  shows "trim_space s = s"
proof -
  have plain: "byte c < 128 \<and> \<not> is_space (byte c)" if "c \<in> set s" for c
    using assms that by (auto simp: list_all_iff is_digit_def is_space_def)
  show ?thesis
  proof (cases s rule: rev_cases)
    case (snoc u d)
    have right: "trim_right s = s"
      using trim_right_keeps [of d u "[]"] plain [of d] by (simp add: snoc)
    have "s \<noteq> []" using snoc by simp
    then obtain c v where c: "s = c # v" using list.exhaust by blast
    have "trim_left s = s" using plain [of c] by (simp add: trim_left_fixed c decode_rune_ascii)
    with right show ?thesis by (simp add: trim_space_def)
  qed simp
qed

lemma digits_not_null: "list_all is_digit s \<Longrightarrow> s \<noteq> ''null''"
  by (auto simp: is_digit_def byte_def)

lemma json_uint64_digits:
  assumes "n < 2 ^ 64"
  shows "json_uint64 (digits_of n) = Some n"
proof -
  have "length (digits_of n) = 1" if "hd (digits_of n) = CHR ''0''"
    using digits_of_facts [of n] that by (simp add: digits_of.simps [of 0])
  with digits_of_facts [of n] assms show ?thesis by (simp add: json_uint64_def)
qed

lemma json_roundtrip: "ts_unmarshal_json (ts_marshal_json t) = Inr t"
proof -
  have "unat t \<le> 4294967295" using uint_bound [of t] by (metis nat_le_iff nat_numeral of_nat_numeral unat_eq_nat_uint)
  moreover from this have "unat t < 2 ^ 64" by simp
  ultimately show ?thesis
    using digits_of_facts [of "unat t"] json_uint64_digits [of "unat t"]
    by (simp add: ts_unmarshal_json_def ts_marshal_json_def trim_digits digits_not_null)
qed

lemma sql_roundtrip: "ts_scan (ts_value t) = Inr t" and time_roundtrip: "from_time (ts_time t) = Inr t"
  and duration_exact: "sint (ts_sub t u) = (uint t - uint u) * 1000000000"
proof -
  have "from_unix (ts_unix t) = Inr t" using uint_bound [of t] by (simp add: from_unix_Inr)
  then show "ts_scan (ts_value t) = Inr t" "from_time (ts_time t) = Inr t"
    by (simp_all add: ts_scan_def ts_value_def from_time_def ts_time_def)
  have b: "0 \<le> uint t" "uint t \<le> 4294967295" "0 \<le> uint u" "uint u \<le> 4294967295" using uint_bound by simp_all
  then have "- 4294967295 \<le> uint t - uint u" "uint t - uint u \<le> 4294967295" by linarith+
  then have "- 4294967295 * 1000000000 \<le> (uint t - uint u) * 1000000000" "(uint t - uint u) * 1000000000 \<le> 4294967295 * 1000000000"
    by (intro mult_right_mono; simp)+
  then have "- 9223372036854775808 \<le> (uint t - uint u) * 1000000000" "(uint t - uint u) * 1000000000 < 9223372036854775808"
    by simp_all
  moreover have "ts_sub t u = word_of_int ((uint t - uint u) * 1000000000)"
  proof -
    have "ts_unix x = word_of_int (uint x)" for x by (metis uint_unix word_of_int_uint)
    then show ?thesis by (simp add: ts_sub_def second_def)
  qed
  ultimately show "sint (ts_sub t u) = (uint t - uint u) * 1000000000" by (simp only:) (rule sint_word_of_int, simp_all)
qed

text \<open>
  Every encoding of a timestamp is read back: JSON, SQL and instants, for required and for optional
  timestamps (an absent one comes back in its canonical form). The duration between two timestamps is
  exact, without wrapping, and added to the earlier one gives the later one again.
\<close>

theorem timestamp_roundtrips:
  "ts_unmarshal_json (ts_marshal_json t) = Inr t \<and> ts_scan (ts_value t) = Inr t \<and> from_time (ts_time t) = Inr t \<and>
   optional_unmarshal_json (optional_marshal_json p) = Inr (if ots_valid p then p else absent_timestamp) \<and>
   optional_scan (optional_value p) = Inr (if ots_valid p then p else absent_timestamp) \<and>
   sint (ts_sub t u) = (uint t - uint u) * 1000000000 \<and> ts_add u (ts_sub t u) = Inr t"
proof -
  have json: "optional_unmarshal_json (optional_marshal_json p) = Inr (if ots_valid p then p else absent_timestamp)"
  proof (cases "ots_valid p")
    case True
    have d: "trim_space (ts_marshal_json (ots_seconds p)) = ts_marshal_json (ots_seconds p)" "ts_marshal_json (ots_seconds p) \<noteq> ''null''"
      using digits_of_facts [of "unat (ots_seconds p)"] by (simp_all add: ts_marshal_json_def trim_digits digits_not_null)
    from True d json_roundtrip [of "ots_seconds p"] show ?thesis
      by (simp add: optional_unmarshal_json_def optional_marshal_json_def)
  next
    case False
    have "trim_space ''null'' = ''null''"
      using trim_space_id [of "CHR ''n''" "CHR ''l''" "''ul''"] by (simp add: byte_def is_space_def)
    with False show ?thesis by (simp add: optional_unmarshal_json_def optional_marshal_json_def)
  qed
  have sql: "optional_scan (optional_value p) = Inr (if ots_valid p then p else absent_timestamp)"
  proof (cases "ots_valid p")
    case True
    have "optional_value p \<noteq> SqlNull" using True by (simp add: optional_value_def ts_value_def)
    with True sql_roundtrip [of "ots_seconds p"] show ?thesis by (simp add: optional_scan_def optional_value_def)
  qed (simp add: optional_scan_def optional_value_def)
  have "ts_add u (ts_sub t u) = Inr t"
  proof -
    have e: "uint u * 1000000000 + sint (ts_sub t u) = uint t * 1000000000" by (simp add: duration_exact algebra_simps)
    obtain r where r: "ts_add u (ts_sub t u) = Inr r" "uint r = (uint t * 1000000000 + 999999999) div 1000000000"
      using add_exact [of u "ts_sub t u"] uint_bound [of t] unfolding e by (auto split: sum.splits)
    have "(uint t * 1000000000 + 999999999) div 1000000000 = uint t"
      using ceiling_below [of 0 "uint t"] by simp
    with r show ?thesis by (simp add: word_uint_eqI)
  qed
  with json sql show ?thesis by (simp add: json_roundtrip sql_roundtrip time_roundtrip duration_exact)
qed

end
