(* ===== verification/Provider_Errors.thy ===== *)
theory Provider_Errors
  imports Go_Strings
begin

text \<open>
  Which failures of a provider are worth another attempt (\<^verbatim>\<open>internal/assistant/retry.go\<close>, and
  \<open>retryAttempt\<close> in runtime_model.go). A Go error is what these functions observe of it: its text, the
  sentinel and typed errors found in its chain, and the structured errors that \<^verbatim>\<open>oops.AsOops\<close> reports from the successive
  points of the chain. Lower-casing is an argument, \<open>lower\<close>.
\<close>

section \<open>Errors\<close>

record oops_view =
  ov_code :: "string option"
  ov_text :: "string \<Rightarrow> string option"
  ov_status :: "int option"

record provider_failure =
  pf_message :: string
  pf_views :: "oops_view list"
  pf_canceled :: bool
  pf_deadline :: bool
  pf_network :: bool
  pf_http :: "(int \<times> int) option"

definition contains_any :: "string list \<Rightarrow> string \<Rightarrow> bool" where
  "contains_any patterns s \<longleftrightarrow> list_ex (\<lambda>p. str_contains p s) patterns"

definition provider_code_key :: string where "provider_code_key = ''provider_code''"
definition provider_type_key :: string where "provider_type_key = ''provider_type''"

definition context_window_provider_message :: "string \<Rightarrow> bool" where
  "context_window_provider_message message \<longleftrightarrow>
     \<not> contains_any [''billing'', ''daily token limit'', ''monthly token limit'', ''plan limit'', ''quota exceeded''] message \<and>
     contains_any [''context length'', ''context token limit'', ''context window'', ''input exceeds the context'', ''maximum context'',
       ''token limit exceeded for request'', ''token limit for this request'', ''too many tokens in request''] message"

definition non_retryable_provider_message :: "string \<Rightarrow> bool" where
  "non_retryable_provider_message message \<longleftrightarrow>
     context_window_provider_message message \<or>
     contains_any [''billing'', ''insufficient quota'', ''quota exceeded'', ''account limit'', ''invalid api key'', ''unauthorized'',
       ''authentication'', ''permission denied'', ''forbidden'', ''bad request'', ''invalid request''] message"

definition retryable_provider_message :: "string \<Rightarrow> bool" where
  "retryable_provider_message message \<longleftrightarrow>
     contains_any [''429'', ''rate limit'', ''too many requests'', ''overloaded'', ''temporarily unavailable'', ''service unavailable'',
       ''server error'', ''internal error'', ''internal_error'', ''stream error'', ''stream id'', ''stream closed before completion'',
       ''received from peer'', ''http2'', ''bad gateway'', ''gateway timeout'', ''timeout'', ''timed out'', ''connection reset'',
       ''connection refused'', ''connection closed'', ''socket hang up'', ''fetch failed'', ''websocket closed'', ''websocket error'',
       ''terminated'', ''you can retry your request'', ''please try again later''] message"

definition context_window_exceeded_code :: string where
  "context_window_exceeded_code = ''context_window_exceeded''"

definition retryable_provider_code :: "string \<Rightarrow> bool" where
  "retryable_provider_code code \<longleftrightarrow>
     code \<in> set [''server_error'', ''internal_error'', ''overloaded_error'', ''responses_stream_incomplete'', ''responses_http'',
       ''provider_http'', ''responses_read'', ''provider_read'', ''sse_read'']"

definition non_retryable_provider_code :: "string \<Rightarrow> bool" where
  "non_retryable_provider_code code \<longleftrightarrow>
     code \<in> set [''context_window_exceeded'', ''invalid_request_error'', ''authentication_error'', ''permission_error'',
       ''insufficient_quota'', ''openai_chat_decode'', ''anthropic_decode'', ''openai_response_decode'', ''provider_payload'',
       ''provider_request'', ''unsupported_provider_api'']"

definition retryable_status :: "int \<Rightarrow> bool" where
  "retryable_status status \<longleftrightarrow> status \<in> set [429, 408, 502, 503, 504] \<or> 500 \<le> status \<and> status < 600"

section \<open>Reading an error\<close>

fun first_view :: "(oops_view \<Rightarrow> string option) \<Rightarrow> oops_view list \<Rightarrow> string option" where
  "first_view f [] = None"
| "first_view f (v # vs) = (case f v of Some s \<Rightarrow> Some s | None \<Rightarrow> first_view f vs)"

definition provider_error_context_string :: "provider_failure \<Rightarrow> string \<Rightarrow> string" where
  "provider_error_context_string e key =
     (case first_view (\<lambda>v. case ov_text v key of
          Some s \<Rightarrow> if trim_space s \<noteq> [] then Some (trim_space s) else None | None \<Rightarrow> None) (pf_views e) of
        Some s \<Rightarrow> s | None \<Rightarrow> [])"

definition provider_error_code :: "(string \<Rightarrow> string) \<Rightarrow> provider_failure \<Rightarrow> string option" where
  "provider_error_code lower e =
     first_view (\<lambda>v. case ov_code v of None \<Rightarrow> None
       | Some c \<Rightarrow> (let code = lower (trim_space c) in
           if code \<noteq> [] \<and> code \<noteq> ''assistant_error'' then Some code else None)) (pf_views e)"

definition provider_failure_code :: "(string \<Rightarrow> string) \<Rightarrow> provider_failure \<Rightarrow> string option" where
  "provider_failure_code lower e =
     (let v = provider_error_context_string e provider_code_key in
      if v \<noteq> [] then Some (lower v) else provider_error_code lower e)"

definition provider_error_status :: "provider_failure \<Rightarrow> int option" where
  "provider_error_status e =
     (case pf_http e of Some (status, _) \<Rightarrow> Some status
      | None \<Rightarrow> (case pf_views e of [] \<Rightarrow> None | v # _ \<Rightarrow> ov_status v))"

definition normalized_error_message :: "(string \<Rightarrow> string) \<Rightarrow> provider_failure option \<Rightarrow> string" where
  "normalized_error_message lower err = (case err of None \<Rightarrow> [] | Some e \<Rightarrow> lower (pf_message e))"

definition retry_decision_from_provider_code :: "(string \<Rightarrow> string) \<Rightarrow> provider_failure \<Rightarrow> bool option" where
  "retry_decision_from_provider_code lower e =
     (let codes = [provider_error_context_string e provider_code_key, provider_error_context_string e provider_type_key] @
            (case provider_error_code lower e of Some c \<Rightarrow> [c] | None \<Rightarrow> []) in
      if list_ex (\<lambda>c. non_retryable_provider_code (lower c)) codes then Some False
      else if list_ex (\<lambda>c. retryable_provider_code (lower c)) codes then Some True
      else None)"

definition retryable_deadline_exceeded :: "string \<Rightarrow> bool" where
  "retryable_deadline_exceeded message \<longleftrightarrow>
     (str_contains ''client.timeout exceeded'' message \<or> str_contains ''awaiting headers'' message) \<and>
     \<not> non_retryable_provider_message message"

definition should_retry_model_error :: "(string \<Rightarrow> string) \<Rightarrow> provider_failure option \<Rightarrow> bool" where
  "should_retry_model_error lower err =
     (case err of None \<Rightarrow> False
      | Some e \<Rightarrow>
          if pf_canceled e then False
          else let message = normalized_error_message lower err in
            if non_retryable_provider_message message then False
            else if pf_deadline e then retryable_deadline_exceeded message
            else case retry_decision_from_provider_code lower e of Some retry \<Rightarrow> retry
              | None \<Rightarrow> (case provider_error_status e of Some status \<Rightarrow> retryable_status status
                  | None \<Rightarrow> if pf_network e then True else retryable_provider_message message))"

definition is_context_window_error :: "(string \<Rightarrow> string) \<Rightarrow> provider_failure option \<Rightarrow> bool" where
  "is_context_window_error lower err =
     (case err of None \<Rightarrow> False
      | Some e \<Rightarrow> provider_error_code lower e = Some context_window_exceeded_code \<or>
          context_window_provider_message (normalized_error_message lower err))"

section \<open>Settings and delays\<close>

text \<open>Durations are numbers of nanoseconds.\<close>

record retry_config =
  rc_enabled :: bool
  rc_max_attempts :: int
  rc_base_delay :: int
  rc_max_delay :: int

definition default_retry_max_attempts :: int where "default_retry_max_attempts = 3"
definition default_retry_base_delay :: int where "default_retry_base_delay = 2 * 1000000000"
definition default_retry_max_delay :: int where "default_retry_max_delay = 30 * 1000000000"
definition max_retry_after :: int where "max_retry_after = 5 * 60 * 1000000000"

definition default_retry_config :: retry_config where
  "default_retry_config = \<lparr>rc_enabled = True, rc_max_attempts = default_retry_max_attempts,
     rc_base_delay = default_retry_base_delay, rc_max_delay = default_retry_max_delay\<rparr>"

definition normalized_retry :: "retry_config \<Rightarrow> retry_config" where
  "normalized_retry r =
     (let r1 = (if rc_max_attempts r \<le> 0 then r\<lparr>rc_max_attempts := default_retry_max_attempts\<rparr> else r);
          r2 = (if rc_base_delay r1 \<le> 0 then r1\<lparr>rc_base_delay := default_retry_base_delay\<rparr> else r1);
          r3 = (if rc_max_delay r2 \<le> 0 then r2\<lparr>rc_max_delay := default_retry_max_delay\<rparr> else r2) in
      if rc_max_delay r3 < rc_base_delay r3 then r3\<lparr>rc_max_delay := rc_base_delay r3\<rparr> else r3)"

definition retry_settings :: "retry_config option \<Rightarrow> retry_config" where
  "retry_settings cfg = (case cfg of None \<Rightarrow> default_retry_config | Some r \<Rightarrow> normalized_retry r)"

definition provider_retry_delay :: "provider_failure option \<Rightarrow> int \<Rightarrow> int" where
  "provider_retry_delay err fallback =
     (case err of None \<Rightarrow> fallback
      | Some e \<Rightarrow> (case pf_http e of None \<Rightarrow> fallback
          | Some (_, retry_after) \<Rightarrow>
              (let delay = min retry_after max_retry_after in if delay > fallback then delay else fallback)))"

definition max_retry_delays :: "retry_config \<Rightarrow> nat" where
  "max_retry_delays r = (if rc_max_attempts r \<le> 1 then 0 else nat (rc_max_attempts r - 1))"

text \<open>One attempt: a result, a final error, or an error that the retry library takes for another attempt.\<close>

datatype 'r attempt_outcome = AttemptDone 'r | AttemptFailed provider_failure | AttemptRetry provider_failure

definition retry_attempt :: "(string \<Rightarrow> string) \<Rightarrow> bool \<Rightarrow> provider_failure + 'r \<Rightarrow> 'r attempt_outcome" where
  "retry_attempt lower tool_side_effects_started completed =
     (case completed of Inr r \<Rightarrow> AttemptDone r
      | Inl e \<Rightarrow>
          if tool_side_effects_started \<or> \<not> should_retry_model_error lower (Some e) then AttemptFailed e
          else AttemptRetry e)"

section \<open>What is never retried\<close>

lemma context_window_message_final:
  assumes "context_window_provider_message (normalized_error_message lower err)"
  shows "\<not> should_retry_model_error lower err"
  using assms by (auto simp: should_retry_model_error_def non_retryable_provider_message_def Let_def split: option.splits)

lemma context_window_code_final:
  assumes "lower context_window_exceeded_code = context_window_exceeded_code"
    and "provider_error_code lower e = Some context_window_exceeded_code" and "\<not> pf_deadline e"
  shows "\<not> should_retry_model_error lower (Some e)"
  using assms by (auto simp: should_retry_model_error_def retry_decision_from_provider_code_def
      non_retryable_provider_code_def context_window_exceeded_code_def Let_def)

lemma context_window_error_final:
  assumes "lower context_window_exceeded_code = context_window_exceeded_code"
    and "is_context_window_error lower (Some e)" and "\<not> pf_deadline e"
  shows "\<not> should_retry_model_error lower (Some e)"
  using assms context_window_message_final [of lower "Some e"] context_window_code_final [of lower e]
  by (auto simp: is_context_window_error_def)

text \<open>
  An attempt is only handed back for another attempt when it failed with exactly that error before any tool had
  started, the caller did not cancel, and the error does not say that the request exceeds the context window (unless the
  deadline of the call passed, where only the wording of a transport timeout decides).
\<close>

theorem retry_attempt_is_safe:
  assumes lower: "lower context_window_exceeded_code = context_window_exceeded_code"
    and retry: "retry_attempt lower started completed = AttemptRetry e"
  shows "completed = Inl e \<and> \<not> started \<and> \<not> pf_canceled e \<and> should_retry_model_error lower (Some e) \<and>
    (if pf_deadline e then retryable_deadline_exceeded (lower (pf_message e)) else \<not> is_context_window_error lower (Some e))"
proof -
  from retry have e: "completed = Inl e" "\<not> started" "should_retry_model_error lower (Some e)"
    by (auto simp: retry_attempt_def split: sum.splits if_splits)
  then have "\<not> pf_canceled e" by (auto simp: should_retry_model_error_def)
  moreover have "pf_deadline e \<longrightarrow> retryable_deadline_exceeded (lower (pf_message e))"
    using e(3) by (auto simp: should_retry_model_error_def normalized_error_message_def Let_def split: if_splits)
  ultimately show ?thesis using e context_window_error_final [where lower = lower and e = e] lower by auto
qed

definition overloaded_failure :: provider_failure where
  "overloaded_failure = \<lparr>pf_message = ''status 503: overloaded'', pf_views = [], pf_canceled = False, pf_deadline = False,
     pf_network = False, pf_http = Some (503, 0)\<rparr>"

lemma retry_attempt_is_safe_witness:
  "retry_attempt id False (Inl overloaded_failure :: provider_failure + nat) = AttemptRetry overloaded_failure \<and>
   \<not> is_context_window_error id (Some overloaded_failure)"
proof -
  have "should_retry_model_error id (Some overloaded_failure)" by code_simp
  then have 1: "retry_attempt id False (Inl overloaded_failure :: provider_failure + nat) = AttemptRetry overloaded_failure"
    by (simp add: retry_attempt_def)
  from retry_attempt_is_safe [OF _ 1] have "\<not> is_context_window_error id (Some overloaded_failure)"
    by (simp add: overloaded_failure_def)
  with 1 show ?thesis by simp
qed

section \<open>How long a retry waits\<close>

lemma normalized_retry_idempotent: "normalized_retry (normalized_retry r) = normalized_retry r"
  by (simp add: normalized_retry_def Let_def default_retry_max_attempts_def default_retry_base_delay_def
      default_retry_max_delay_def)

lemma normalized_retry_positive:
  "0 < rc_max_attempts (normalized_retry r)" "0 < rc_base_delay (normalized_retry r)"
  "rc_base_delay (normalized_retry r) \<le> rc_max_delay (normalized_retry r)"
  by (simp_all add: normalized_retry_def Let_def default_retry_max_attempts_def default_retry_base_delay_def
      default_retry_max_delay_def)

lemma retry_settings_positive:
  "0 < rc_max_attempts (retry_settings cfg)" "0 < rc_base_delay (retry_settings cfg)"
  "rc_base_delay (retry_settings cfg) \<le> rc_max_delay (retry_settings cfg)"
  by (cases cfg; simp add: retry_settings_def normalized_retry_positive default_retry_config_def
      default_retry_max_attempts_def default_retry_base_delay_def default_retry_max_delay_def)+

lemma provider_retry_delay_bounds:
  "fallback \<le> provider_retry_delay err fallback" "provider_retry_delay err fallback \<le> max fallback max_retry_after"
  by (auto simp: provider_retry_delay_def Let_def split: option.splits prod.splits)

text \<open>
  Whatever the configuration says and however long the provider asks to wait, each wait of a retry lies between
  the backoff delay and the larger of the configured maximum and five minutes, and the number of waits allowed to the retry
  library is the configured number of attempts minus one.
\<close>

theorem retry_waits_bounded:
  assumes "backoff \<le> rc_max_delay (retry_settings cfg)"
  shows "backoff \<le> provider_retry_delay err backoff \<and>
    provider_retry_delay err backoff \<le> max (rc_max_delay (retry_settings cfg)) max_retry_after \<and>
    int (max_retry_delays (retry_settings cfg)) = rc_max_attempts (retry_settings cfg) - 1"
  using assms provider_retry_delay_bounds [where fallback = backoff and err = err] retry_settings_positive(1) [of cfg]
  by (auto simp: max_retry_delays_def)

lemma retry_waits_bounded_witness:
  "provider_retry_delay (Some (overloaded_failure\<lparr>pf_http := Some (429, 3600 * 1000000000)\<rparr>)) 2000000000
     \<le> max (rc_max_delay (retry_settings None)) max_retry_after"
  using retry_waits_bounded [of 2000000000 None "Some (overloaded_failure\<lparr>pf_http := Some (429, 3600 * 1000000000)\<rparr>)"]
  by (simp add: retry_settings_def default_retry_config_def default_retry_max_delay_def)

end
