(* ===== verification/Overflow_Recovery.thy ===== *)
theory Overflow_Recovery
  imports Provider_Errors Summary_Reduction
begin

text \<open>
  Classification of provider responses (\<^verbatim>\<open>internal/assistant/response_classification.go\<close>), the single replay after a
  context overflow (context_overflow_compaction.go) and the compactions before a request and after a response
  (context_auto_compaction.go), with the lineage of a prompt (runtime_model.go).

  What these functions call outside their own logic is a record of functions over a world \<open>'w\<close>: the settings of the
  model selection, the context of an entry, the compaction of a branch and the provider call. A provider call reports the
  number of attempts it made, whether tools were dispatched and which entries its checkpoints adopted. The
  flow carries a log of the calls and of the compaction events.
\<close>

section \<open>Classification\<close>

datatype response_class =
  ResponseSuccess | ResponseExplicitContextOverflow | ResponseMetadataContextOverflow | ResponseOutputLengthTruncation
  | ResponseContentFilter | ResponseRefusal | ResponseProviderError

record classification_input =
  ci_err :: "provider_failure option"
  ci_incomplete :: string
  ci_provider_finish :: string
  ci_provider :: string
  ci_finish :: finish_reason
  ci_requested_max :: int
  ci_reported_output :: int

record response_classification =
  cl_class :: response_class
  cl_finish :: finish_reason
  cl_incomplete :: string
  cl_signal :: string
  cl_output_limit :: int
  cl_reported_output :: int

definition anthropic_provider :: string where "anthropic_provider = ''anthropic''"
definition minimum_output_limit_tolerance :: int where "minimum_output_limit_tolerance = 8"

text \<open>
  The code rounds the product with the double nearest to 0.02 up; below \<open>2 ^ 45\<close> that is the exact
  quotient by fifty rounded up.
\<close>

definition output_limit_tolerance :: "int \<Rightarrow> int" where
  "output_limit_tolerance maximum =
     (if maximum \<le> 0 then 0 else max minimum_output_limit_tolerance ((2 * maximum + 99) div 100))"

definition output_at_limit :: "int \<Rightarrow> int \<Rightarrow> bool" where
  "output_at_limit requested out \<longleftrightarrow>
     requested > 0 \<and> out > 0 \<and> out \<ge> requested - output_limit_tolerance requested"

definition is_structured_context_window_error :: "(string \<Rightarrow> string) \<Rightarrow> provider_failure \<Rightarrow> bool" where
  "is_structured_context_window_error lower e \<longleftrightarrow>
     (case provider_error_code lower e of None \<Rightarrow> False
      | Some code \<Rightarrow> code = context_window_exceeded_code \<or> code = ''context_length_exceeded'')"

fun finish_reason_class :: "finish_reason \<Rightarrow> response_class" where
  "finish_reason_class FinishContentFilter = ResponseContentFilter"
| "finish_reason_class FinishRefusal = ResponseRefusal"
| "finish_reason_class FinishLength = ResponseOutputLengthTruncation"
| "finish_reason_class FinishStop = ResponseSuccess"
| "finish_reason_class FinishToolCalls = ResponseSuccess"
| "finish_reason_class FinishUnknown = ResponseProviderError"
| "finish_reason_class FinishError = ResponseProviderError"
| "finish_reason_class FinishAborted = ResponseProviderError"
| "finish_reason_class (FinishOther _) = ResponseProviderError"

definition classify_response_error ::
  "(string \<Rightarrow> string) \<Rightarrow> provider_failure \<Rightarrow> response_classification \<Rightarrow> response_classification" where
  "classify_response_error lower e out =
     (if is_structured_context_window_error lower e
      then out\<lparr>cl_class := ResponseExplicitContextOverflow, cl_signal := ''structured_error''\<rparr>
      else out\<lparr>cl_class := ResponseProviderError\<rparr>)"

definition classify_anthropic_response ::
  "classification_input \<Rightarrow> response_classification \<Rightarrow> response_classification option" where
  "classify_anthropic_response i out =
     (if ci_provider i \<noteq> anthropic_provider then None
      else if ci_provider_finish i = ''model_context_window_exceeded''
      then Some (out\<lparr>cl_class := ResponseMetadataContextOverflow, cl_signal := ''anthropic_model_context_window_exceeded''\<rparr>)
      else if ci_provider_finish i = ''max_tokens'' \<and> ci_finish i = FinishLength \<and> ci_requested_max i > 0 \<and>
          ci_reported_output i > 0 \<and> \<not> output_at_limit (ci_requested_max i) (ci_reported_output i)
      then Some (out\<lparr>cl_class := ResponseMetadataContextOverflow, cl_signal := ''anthropic_premature_max_tokens''\<rparr>)
      else None)"

definition classify_response :: "(string \<Rightarrow> string) \<Rightarrow> classification_input \<Rightarrow> response_classification" where
  "classify_response lower i =
     (let out = \<lparr>cl_class = ResponseSuccess, cl_finish = ci_finish i, cl_incomplete = ci_incomplete i, cl_signal = [],
            cl_output_limit = ci_requested_max i, cl_reported_output = ci_reported_output i\<rparr> in
      case ci_err i of Some e \<Rightarrow> classify_response_error lower e out
      | None \<Rightarrow> (case classify_anthropic_response i out of Some c \<Rightarrow> c
          | None \<Rightarrow> out\<lparr>cl_class := finish_reason_class (ci_finish i)\<rparr>))"

definition is_context_overflow_classification :: "response_class \<Rightarrow> bool" where
  "is_context_overflow_classification c \<longleftrightarrow> c = ResponseExplicitContextOverflow \<or> c = ResponseMetadataContextOverflow"

section \<open>The recovery policy\<close>

record request_identity =
  id_logical :: string
  id_provider :: string
  id_model :: string
  id_parent :: string
  id_attempt :: int
  id_generation :: nat
  id_recovery :: nat

definition empty_request_identity :: request_identity where
  "empty_request_identity = \<lparr>id_logical = [], id_provider = [], id_model = [], id_parent = [], id_attempt = 0,
     id_generation = 0, id_recovery = 0\<rparr>"

record replay_state =
  rp_consumed :: bool
  rp_dispatched :: bool
  rp_advanced :: bool

datatype recovery_decision =
  Recover | IneligibleClass | StaleIdentity | SideEffectsStarted | LineageAdvanced | RetryConsumed | NothingToCompact

definition decide_overflow_recovery ::
  "response_class \<Rightarrow> request_identity \<Rightarrow> request_identity \<Rightarrow> replay_state \<Rightarrow> bool \<Rightarrow> recovery_decision" where
  "decide_overflow_recovery c identity active replay candidate =
     (if c \<noteq> ResponseExplicitContextOverflow \<and> c \<noteq> ResponseMetadataContextOverflow then IneligibleClass
      else if identity \<noteq> active then StaleIdentity
      else if rp_dispatched replay then SideEffectsStarted
      else if rp_advanced replay then LineageAdvanced
      else if rp_consumed replay \<or> id_recovery identity \<noteq> 0 then RetryConsumed
      else if \<not> candidate then NothingToCompact
      else Recover)"

section \<open>Lineage, requests and the flow\<close>

record prompt_lineage =
  lin_parent :: string
  lin_run :: string
  lin_generation :: nat

definition adopt :: "string \<Rightarrow> prompt_lineage \<Rightarrow> prompt_lineage" where
  "adopt entry_id l = l\<lparr>lin_parent := entry_id, lin_generation := lin_generation l + 1\<rparr>"

record model_settings =
  ms_profile_provider :: string
  ms_profile_model :: string
  ms_provider :: string
  ms_model :: string
  ms_models :: "ai_model list"

definition selected_model :: "model_settings \<Rightarrow> ai_model option" where
  "selected_model s =
     (let provider = (if ms_profile_provider s = [] then ms_provider s else ms_profile_provider s);
          model = (if ms_profile_model s = [] then ms_model s else ms_profile_model s) in
      case List.find (\<lambda>m. mdl_provider m = provider \<and> mdl_id m = model) (ms_models s) of
        Some m \<Rightarrow> Some m
      | None \<Rightarrow> if provider = [] \<or> model = [] then None
          else Some \<lparr>mdl_provider = provider, mdl_id = model, mdl_context_window = 0, mdl_max_tokens = 0\<rparr>)"

record provider_request =
  pr_identity :: request_identity
  pr_provider :: string
  pr_max_tokens :: int
  pr_attempt :: int
  pr_started :: bool

record context_build =
  cb_request :: provider_request
  cb_budget :: budget
  cb_usage :: usage

record completion_effect =
  ce_attempts :: nat
  ce_dispatched :: bool
  ce_adopted :: "string list"
  ce_result :: "provider_failure + completion_result"

datatype log_entry =
  CallComplete provider_request | CallCompact string compaction_reason retry_intent | CallBuild string
  | CompactionStarted | CompactionDone | CompactionFailed | UsageShown usage

record 'w flow =
  fl_world :: 'w
  fl_lineage :: prompt_lineage
  fl_attempt :: int
  fl_authorized :: bool
  fl_consumed :: bool
  fl_log :: "log_entry list"

record 'w environment =
  env_lower :: "string \<Rightarrow> string"
  env_policy :: context_config
  env_settings :: "'w \<Rightarrow> model_settings"
  env_context :: "string \<Rightarrow> 'w \<Rightarrow> (provider_failure + usage \<times> int option) \<times> 'w"
  env_compact :: "string \<Rightarrow> compaction_reason \<Rightarrow> 'w \<Rightarrow> (provider_failure + string) \<times> 'w"
  env_image_error :: "'w \<Rightarrow> provider_failure option"
  env_complete :: "provider_request \<Rightarrow> 'w \<Rightarrow> completion_effect \<times> 'w"

datatype recovery_error =
  ProviderError provider_failure | OverflowMetadata string | RebuildFailed provider_failure | CompactFailed provider_failure
  | BudgetStillExceeded budget_error | BudgetExceeded budget_error | ContextFailed provider_failure
  | ImageInputUnsupported provider_failure

definition emit :: "log_entry \<Rightarrow> 'w flow \<Rightarrow> 'w flow" where
  "emit x fl = fl\<lparr>fl_log := fl_log fl @ [x]\<rparr>"

section \<open>Calls\<close>

definition active_request_identity :: "'w environment \<Rightarrow> 'w flow \<Rightarrow> request_identity option" where
  "active_request_identity env fl =
     (case selected_model (env_settings env (fl_world fl)) of None \<Rightarrow> None
      | Some m \<Rightarrow> Some \<lparr>id_logical = lin_run (fl_lineage fl), id_provider = mdl_provider m, id_model = mdl_id m,
          id_parent = lin_parent (fl_lineage fl), id_attempt = fl_attempt fl,
          id_generation = lin_generation (fl_lineage fl), id_recovery = (if fl_authorized fl then 1 else 0)\<rparr>)"

definition request_identity_is_active :: "'w environment \<Rightarrow> provider_request \<Rightarrow> 'w flow \<Rightarrow> bool" where
  "request_identity_is_active env r fl \<longleftrightarrow> active_request_identity env fl = Some (pr_identity r)"

definition model_completion_request :: "ai_model \<Rightarrow> prompt_lineage \<Rightarrow> provider_request" where
  "model_completion_request m l =
     \<lparr>pr_identity = \<lparr>id_logical = lin_run l, id_provider = mdl_provider m, id_model = mdl_id m, id_parent = lin_parent l,
          id_attempt = 0, id_generation = lin_generation l, id_recovery = 0\<rparr>,
      pr_provider = mdl_provider m, pr_max_tokens = mdl_max_tokens m, pr_attempt = 0, pr_started = False\<rparr>"

definition build_completion_request ::
  "'w environment \<Rightarrow> ai_model \<Rightarrow> 'w flow \<Rightarrow> (provider_failure + context_build) \<times> 'w flow" where
  "build_completion_request env m fl =
     (let parent = lin_parent (fl_lineage fl);
          (r, w) = env_context env parent (fl_world fl);
          fl' = emit (CallBuild parent) (fl\<lparr>fl_world := w\<rparr>) in
      case r of Inl e \<Rightarrow> (Inl e, fl')
      | Inr (u, tool_tokens) \<Rightarrow>
          (let b = new_budget u (Some m) (env_policy env) tool_tokens in
           (Inr \<lparr>cb_request = model_completion_request m (fl_lineage fl), cb_budget = b,
              cb_usage = usage_with_budget b u\<rparr>, fl')))"

definition complete_with_retry ::
  "'w environment \<Rightarrow> provider_request \<Rightarrow> 'w flow \<Rightarrow>
     provider_request \<times> (provider_failure + completion_result) \<times> 'w flow" where
  "complete_with_retry env r fl =
     (let (eff, w) = env_complete env r (fl_world fl);
          numbered = (if ce_attempts eff = 0 then r
            else r\<lparr>pr_attempt := int (ce_attempts eff),
              pr_identity := (pr_identity r)\<lparr>id_attempt := int (ce_attempts eff)\<rparr>\<rparr>);
          r' = numbered\<lparr>pr_started := pr_started r \<or> ce_dispatched eff\<rparr>;
          fl' = emit (CallComplete r) (fl\<lparr>fl_world := w, fl_lineage := fold adopt (ce_adopted eff) (fl_lineage fl),
            fl_attempt := (if ce_attempts eff = 0 then fl_attempt fl else int (ce_attempts eff))\<rparr>) in
      (r', ce_result eff, fl'))"

definition compact_session_from ::
  "'w environment \<Rightarrow> string \<Rightarrow> compaction_reason \<Rightarrow> retry_intent \<Rightarrow> 'w flow \<Rightarrow> (provider_failure + string) \<times> 'w flow" where
  "compact_session_from env parent reason intent fl =
     (let (r, w) = env_compact env parent reason (fl_world fl) in
      (r, emit (CallCompact parent reason intent) (fl\<lparr>fl_world := w\<rparr>)))"

definition is_compact_nothing_to_do_error :: "(string \<Rightarrow> string) \<Rightarrow> provider_failure \<Rightarrow> bool" where
  "is_compact_nothing_to_do_error lower e \<longleftrightarrow> provider_error_code lower e = Some ''compact_nothing_to_do''"

definition classify_completion ::
  "'w environment \<Rightarrow> provider_request \<Rightarrow> provider_failure + completion_result \<Rightarrow> response_classification" where
  "classify_completion env r res = classify_response (env_lower env)
     (case res of
        Inl e \<Rightarrow> \<lparr>ci_err = Some e, ci_incomplete = [], ci_provider_finish = [], ci_provider = pr_provider r,
          ci_finish = FinishUnknown, ci_requested_max = pr_max_tokens r, ci_reported_output = 0\<rparr>
      | Inr c \<Rightarrow> \<lparr>ci_err = None, ci_incomplete = res_incomplete_reason c, ci_provider_finish = res_provider_finish c,
          ci_provider = pr_provider r, ci_finish = res_finish c, ci_requested_max = pr_max_tokens r,
          ci_reported_output = output_tokens (res_usage c)\<rparr>)"

section \<open>The replay after a context overflow\<close>

type_synonym 'w recovery_result =
  "(context_build option \<times> string option \<times> (recovery_error + completion_result)) \<times> 'w flow"

definition lineage_advanced :: "provider_request \<Rightarrow> 'w flow \<Rightarrow> bool" where
  "lineage_advanced r fl \<longleftrightarrow> id_parent (pr_identity r) \<noteq> lin_parent (fl_lineage fl) \<or>
     id_generation (pr_identity r) \<noteq> lin_generation (fl_lineage fl)"

definition decide_provider_overflow_recovery ::
  "'w environment \<Rightarrow> provider_request \<Rightarrow> response_classification \<Rightarrow> 'w flow \<Rightarrow> recovery_decision" where
  "decide_provider_overflow_recovery env r c fl =
     (let active = (case active_request_identity env fl of Some i \<Rightarrow> i | None \<Rightarrow> empty_request_identity) in
      decide_overflow_recovery (cl_class c) (pr_identity r) active
        \<lparr>rp_consumed = fl_consumed fl, rp_dispatched = pr_started r, rp_advanced = lineage_advanced r fl\<rparr> True)"

definition reserve :: "'w flow \<Rightarrow> bool \<times> 'w flow" where
  "reserve fl = (if fl_consumed fl then (False, fl) else (True, fl\<lparr>fl_consumed := True\<rparr>))"

definition reserve_provider_overflow_recovery ::
  "'w environment \<Rightarrow> provider_request \<Rightarrow> response_classification \<Rightarrow> 'w flow \<Rightarrow> bool \<times> 'w flow" where
  "reserve_provider_overflow_recovery env r c fl =
     (if decide_provider_overflow_recovery env r c fl = Recover then reserve fl else (False, fl))"

definition unrecovered_provider_result ::
  "context_build \<Rightarrow> string option \<Rightarrow> response_classification \<Rightarrow> provider_failure + completion_result \<Rightarrow> 'w flow \<Rightarrow>
     'w recovery_result" where
  "unrecovered_provider_result build entry c res fl =
     (case res of Inl e \<Rightarrow> ((Some build, entry, Inl (ProviderError e)), fl)
      | Inr r \<Rightarrow> if cl_class c = ResponseMetadataContextOverflow
          then ((Some build, entry, Inl (OverflowMetadata (cl_signal c))), fl)
          else ((Some build, entry, Inr r), fl))"

definition compact_after_provider_overflow ::
  "'w environment \<Rightarrow> string \<Rightarrow> recovery_error \<Rightarrow> 'w flow \<Rightarrow> (recovery_error + string) \<times> 'w flow" where
  "compact_after_provider_overflow env parent provider_err fl =
     (case compact_session_from env parent ReasonProviderOverflow RetryAfterCompaction (emit CompactionStarted fl) of
        (Inr entry, fl') \<Rightarrow> (Inr entry, fl')
      | (Inl e, fl') \<Rightarrow>
          if is_compact_nothing_to_do_error (env_lower env) e then (Inl provider_err, emit CompactionFailed fl')
          else (Inl (CompactFailed e), emit CompactionFailed fl'))"

definition prepare_recovered_provider_request :: "provider_request \<Rightarrow> 'w flow \<Rightarrow> provider_request \<times> 'w flow" where
  "prepare_recovered_provider_request r fl =
     (r\<lparr>pr_attempt := 1, pr_identity := (pr_identity r)\<lparr>id_attempt := 1, id_recovery := 1\<rparr>\<rparr>,
      fl\<lparr>fl_attempt := 1, fl_authorized := True\<rparr>)"

definition replay_provider_request ::
  "'w environment \<Rightarrow> context_build \<Rightarrow> string \<Rightarrow> recovery_error \<Rightarrow> 'w flow \<Rightarrow> 'w recovery_result" where
  "replay_provider_request env build entry provider_err fl =
     (let (r, fl1) = prepare_recovered_provider_request (cb_request build) fl;
          build' = build\<lparr>cb_request := r\<rparr> in
      if \<not> request_identity_is_active env r fl1 then ((Some build', Some entry, Inl provider_err), fl1)
      else (let (r', res, fl2) = complete_with_retry env r fl1;
                c = classify_completion env r' res;
                build'' = build\<lparr>cb_request := r'\<rparr> in
        if is_context_overflow_classification (cl_class c)
        then (case res of Inl e \<Rightarrow> ((Some build'', Some entry, Inl (ProviderError e)), fl2)
              | Inr _ \<Rightarrow> ((Some build'', Some entry, Inl (OverflowMetadata (cl_signal c))), fl2))
        else (case res of Inl e \<Rightarrow> ((Some build'', Some entry, Inl (ProviderError e)), fl2)
              | Inr out \<Rightarrow> ((Some build'', Some entry, Inr out), fl2))))"

definition recover_provider_context_overflow ::
  "'w environment \<Rightarrow> ai_model \<Rightarrow> context_build \<Rightarrow> string option \<Rightarrow> recovery_error \<Rightarrow> 'w flow \<Rightarrow> 'w recovery_result" where
  "recover_provider_context_overflow env m build entry provider_err fl =
     (if \<not> request_identity_is_active env (cb_request build) fl then ((Some build, entry, Inl provider_err), fl)
      else case compact_after_provider_overflow env (lin_parent (fl_lineage fl)) provider_err fl of
          (Inl e, fl1) \<Rightarrow> ((None, None, Inl e), fl1)
        | (Inr new_entry, fl1) \<Rightarrow>
            (case build_completion_request env m (fl1\<lparr>fl_lineage := adopt new_entry (fl_lineage fl1)\<rparr>) of
               (Inl e, fl2) \<Rightarrow> ((None, Some new_entry, Inl (RebuildFailed e)), emit CompactionFailed fl2)
             | (Inr rebuilt, fl2) \<Rightarrow>
                 (let fl3 = emit (UsageShown (cb_usage rebuilt)) fl2 in
                  case validate_budget (cb_budget rebuilt) of
                    Some e \<Rightarrow> ((None, Some new_entry, Inl (BudgetStillExceeded e)), emit CompactionFailed fl3)
                  | None \<Rightarrow> replay_provider_request env rebuilt new_entry provider_err (emit CompactionDone fl3))))"

definition complete_with_provider_overflow_recovery ::
  "'w environment \<Rightarrow> ai_model \<Rightarrow> context_build \<Rightarrow> string option \<Rightarrow> 'w flow \<Rightarrow> 'w recovery_result" where
  "complete_with_provider_overflow_recovery env m build entry fl =
     (let (r, res, fl1) = complete_with_retry env (cb_request build) fl;
          build' = build\<lparr>cb_request := r\<rparr>;
          c = classify_completion env r res;
          (reserved, fl2) = reserve_provider_overflow_recovery env r c fl1 in
      if \<not> reserved then unrecovered_provider_result build' entry c res fl2
      else (let overflow_err = (case res of Inl e \<Rightarrow> ProviderError e | Inr _ \<Rightarrow> OverflowMetadata (cl_signal c)) in
        case recover_provider_context_overflow env m build' entry overflow_err fl2 of
          ((_, _, Inl e), fl3) \<Rightarrow> ((Some build', entry, Inl e), fl3)
        | ((recovered, new_entry, Inr out), fl3) \<Rightarrow> ((recovered, new_entry, Inr out), fl3)))"

section \<open>Compaction before a request and after a response\<close>





definition should_auto_compact_after_response_at :: "budget \<Rightarrow> int \<Rightarrow> bool" where
  "should_auto_compact_after_response_at b threshold \<longleftrightarrow>
     \<not> (bud_context_window b \<le> 0 \<or> bud_usable_input b \<le> 0 \<or> bud_input_tokens b \<le> 0) \<and>
     bud_input_tokens b \<ge> wrap64 (bud_usable_input b * threshold) sdiv 100"

definition should_try_post_response_auto_compaction :: "context_config \<Rightarrow> string \<Rightarrow> string \<Rightarrow> bool" where
  "should_try_post_response_auto_compaction policy session_id parent \<longleftrightarrow>
     cfg_preflight_enabled policy \<and> cfg_auto_enabled policy \<and> trim_space session_id \<noteq> [] \<and> trim_space parent \<noteq> []"

text \<open>The usage of the context (\<open>ContextUsage\<close>) is read through \<open>usage_of\<close>.\<close>

definition auto_compact_after_response ::
  "'w environment \<Rightarrow> ('w \<Rightarrow> (provider_failure + usage) \<times> 'w) \<Rightarrow> string \<Rightarrow> string \<Rightarrow> 'w flow \<Rightarrow> (usage \<times> bool) \<times> 'w flow" where
  "auto_compact_after_response env usage_of session_id parent fl =
     (if \<not> should_try_post_response_auto_compaction (env_policy env) session_id parent then ((empty_usage, False), fl)
      else case usage_of (fl_world fl) of
          (Inl e, w) \<Rightarrow> ((empty_usage, False), emit CompactionFailed (fl\<lparr>fl_world := w\<rparr>))
        | (Inr u, w) \<Rightarrow>
            (if \<not> should_auto_compact_after_response_at (budget_from_usage u) (cfg_auto_threshold (env_policy env))
             then ((empty_usage, False), fl\<lparr>fl_world := w\<rparr>)
             else case compact_session_from env parent ReasonPostResponse RetryNone
                 (emit CompactionStarted (fl\<lparr>fl_world := w\<rparr>)) of
                 (Inl e, fl1) \<Rightarrow> ((empty_usage, False), emit CompactionFailed fl1)
               | (Inr entry, fl1) \<Rightarrow>
                   (case usage_of (fl_world fl1) of
                      (Inl e, w') \<Rightarrow> ((empty_usage, False), emit CompactionFailed (fl1\<lparr>fl_world := w'\<rparr>))
                    | (Inr u', w') \<Rightarrow>
                        ((u', True), emit CompactionDone (emit (UsageShown u') (fl1\<lparr>fl_world := w'\<rparr>))))))"

section \<open>What a recovery calls\<close>

fun provider_call_of :: "log_entry \<Rightarrow> provider_request list" where
  "provider_call_of (CallComplete r) = [r]" | "provider_call_of _ = []"

fun compaction_call_of :: "log_entry \<Rightarrow> string list" where
  "compaction_call_of (CallCompact parent _ _) = [parent]" | "compaction_call_of _ = []"

definition provider_calls :: "'w flow \<Rightarrow> provider_request list" where
  "provider_calls fl = concat (map provider_call_of (fl_log fl))"

definition compaction_calls :: "'w flow \<Rightarrow> string list" where
  "compaction_calls fl = concat (map compaction_call_of (fl_log fl))"

lemma calls_emit [simp]:
  "provider_calls (emit x fl) = provider_calls fl @ provider_call_of x"
  "compaction_calls (emit x fl) = compaction_calls fl @ compaction_call_of x"
  by (simp_all add: provider_calls_def compaction_calls_def emit_def)

lemma calls_update [simp]:
  "provider_calls (fl\<lparr>fl_world := w\<rparr>) = provider_calls fl" "compaction_calls (fl\<lparr>fl_world := w\<rparr>) = compaction_calls fl"
  "provider_calls (fl\<lparr>fl_lineage := l\<rparr>) = provider_calls fl" "compaction_calls (fl\<lparr>fl_lineage := l\<rparr>) = compaction_calls fl"
  "provider_calls (fl\<lparr>fl_attempt := a\<rparr>) = provider_calls fl" "compaction_calls (fl\<lparr>fl_attempt := a\<rparr>) = compaction_calls fl"
  "provider_calls (fl\<lparr>fl_authorized := b\<rparr>) = provider_calls fl" "compaction_calls (fl\<lparr>fl_authorized := b\<rparr>) = compaction_calls fl"
  "provider_calls (fl\<lparr>fl_consumed := b\<rparr>) = provider_calls fl" "compaction_calls (fl\<lparr>fl_consumed := b\<rparr>) = compaction_calls fl"
  by (simp_all add: provider_calls_def compaction_calls_def)

lemma flow_emit [simp]:
  "fl_world (emit x fl) = fl_world fl" "fl_lineage (emit x fl) = fl_lineage fl" "fl_attempt (emit x fl) = fl_attempt fl"
  "fl_authorized (emit x fl) = fl_authorized fl" "fl_consumed (emit x fl) = fl_consumed fl"
  by (simp_all add: emit_def)

lemma complete_with_retry_calls:
  assumes "complete_with_retry env r fl = (r', res, fl')"
  shows "provider_calls fl' = provider_calls fl @ [r] \<and>
    compaction_calls fl' = compaction_calls fl \<and>
    fl_consumed fl' = fl_consumed fl \<and>
    fl_authorized fl' = fl_authorized fl \<and>
    pr_provider r' = pr_provider r \<and>
    pr_max_tokens r' = pr_max_tokens r \<and>
    id_logical (pr_identity r') = id_logical (pr_identity r) \<and>
    id_generation (pr_identity r') = id_generation (pr_identity r) \<and>
    id_parent (pr_identity r') = id_parent (pr_identity r) \<and>
    id_recovery (pr_identity r') = id_recovery (pr_identity r) \<and>
    (pr_started r \<longrightarrow> pr_started r')"
  using assms by (auto simp: complete_with_retry_def Let_def split: prod.splits)

lemma build_completion_request_calls:
  assumes "build_completion_request env m fl = (r, fl')"
  shows "provider_calls fl' = provider_calls fl \<and>
    compaction_calls fl' = compaction_calls fl \<and>
    fl_consumed fl' = fl_consumed fl \<and>
    fl_lineage fl' = fl_lineage fl \<and>
    fl_authorized fl' = fl_authorized fl \<and>
    (r = Inr build \<longrightarrow> cb_request build = model_completion_request m (fl_lineage fl))"
  using assms by (auto simp: build_completion_request_def Let_def split: prod.splits sum.splits)

lemma compact_session_from_calls:
  assumes "compact_session_from env parent reason intent fl = (r, fl')"
  shows "provider_calls fl' = provider_calls fl \<and>
    compaction_calls fl' = compaction_calls fl @ [parent] \<and>
    fl_consumed fl' = fl_consumed fl \<and>
    fl_lineage fl' = fl_lineage fl \<and>
    fl_authorized fl' = fl_authorized fl"
  using assms by (auto simp: compact_session_from_def Let_def split: prod.splits)

lemma compact_after_provider_overflow_calls:
  assumes "compact_after_provider_overflow env parent err fl = (r, fl')"
  shows "provider_calls fl' = provider_calls fl \<and>
    compaction_calls fl' = compaction_calls fl @ [parent] \<and>
    fl_consumed fl' = fl_consumed fl \<and>
    fl_lineage fl' = fl_lineage fl \<and>
    fl_authorized fl' = fl_authorized fl"
  using assms by (auto simp: compact_after_provider_overflow_def dest!: compact_session_from_calls
      split: prod.splits sum.splits if_splits)


lemma adopt_fields [simp]:
  "lin_parent (adopt i l) = i" "lin_run (adopt i l) = lin_run l" "lin_generation (adopt i l) = Suc (lin_generation l)"
  by (simp_all add: adopt_def)

lemma replay_calls:
  assumes "replay_provider_request env build entry err fl = ((b, e, r), fl')"
  shows "compaction_calls fl' = compaction_calls fl \<and>
    fl_consumed fl' = fl_consumed fl \<and>
    (provider_calls fl' = provider_calls fl \<or>
     provider_calls fl' = provider_calls fl @ [fst (prepare_recovered_provider_request (cb_request build) fl)])"
  using assms by (auto simp: replay_provider_request_def prepare_recovered_provider_request_def Let_def
      dest!: complete_with_retry_calls split: prod.splits sum.splits if_splits)

lemma recover_calls:
  assumes "recover_provider_context_overflow env m build entry err fl = ((b, e, r), fl')"
  shows "fl_consumed fl' = fl_consumed fl \<and>
    (compaction_calls fl' = compaction_calls fl \<and> provider_calls fl' = provider_calls fl \<or>
     compaction_calls fl' = compaction_calls fl @ [lin_parent (fl_lineage fl)] \<and>
     (provider_calls fl' = provider_calls fl \<or>
      (\<exists>second. provider_calls fl' = provider_calls fl @ [second] \<and> \<not> pr_started second \<and>
         id_recovery (pr_identity second) = 1 \<and> id_logical (pr_identity second) = lin_run (fl_lineage fl) \<and>
         id_generation (pr_identity second) = Suc (lin_generation (fl_lineage fl)))))"
proof (cases "request_identity_is_active env (cb_request build) fl")
  case False
  then show ?thesis using assms by (simp add: recover_provider_context_overflow_def)
next
  case active: True
  obtain c fl1 where c: "compact_after_provider_overflow env (lin_parent (fl_lineage fl)) err fl = (c, fl1)" by force
  note calls1 = compact_after_provider_overflow_calls [OF c]
  show ?thesis
  proof (cases c)
    case (Inl x)
    then show ?thesis using assms active c calls1 by (simp add: recover_provider_context_overflow_def)
  next
    case (Inr new_entry)
    obtain q fl2 where q: "build_completion_request env m (fl1\<lparr>fl_lineage := adopt new_entry (fl_lineage fl1)\<rparr>) = (q, fl2)"
      by force
    show ?thesis
    proof (cases q)
      case (Inl x)
      then show ?thesis using assms active c calls1 q build_completion_request_calls [OF q] \<open>c = Inr new_entry\<close>
        by (auto simp: recover_provider_context_overflow_def)
    next
      case (Inr rebuilt)
      note calls2 = build_completion_request_calls [OF q, of rebuilt]
      show ?thesis
        using assms active c calls1 q calls2 Inr \<open>c = Inr new_entry\<close>
        by (auto simp: recover_provider_context_overflow_def Let_def prepare_recovered_provider_request_def
            model_completion_request_def dest!: replay_calls split: option.splits)
    qed
  qed
qed

lemma recover_decision:
  assumes "decide_provider_overflow_recovery env r c fl = Recover"
  shows "is_context_overflow_classification (cl_class c) \<and> \<not> fl_consumed fl \<and> \<not> pr_started r \<and>
    \<not> lineage_advanced r fl \<and> id_recovery (pr_identity r) = 0"
  using assms by (auto simp: decide_provider_overflow_recovery_def decide_overflow_recovery_def
      is_context_overflow_classification_def Let_def split: if_splits)

lemma reserve_recovery:
  assumes "reserve_provider_overflow_recovery env r c fl = (reserved, fl')"
  shows "if reserved then decide_provider_overflow_recovery env r c fl = Recover \<and> fl' = fl\<lparr>fl_consumed := True\<rparr>
    else fl' = fl \<and> decide_provider_overflow_recovery env r c fl \<noteq> Recover"
proof (cases "decide_provider_overflow_recovery env r c fl = Recover")
  case True
  then have "\<not> fl_consumed fl" using recover_decision by blast
  with True assms show ?thesis by (auto simp: reserve_provider_overflow_recovery_def reserve_def)
qed (use assms in \<open>auto simp: reserve_provider_overflow_recovery_def\<close>)

text \<open>
  C30. The provider is asked at most twice. A second request is only sent after the first answer was a context overflow
  that came before any tool was dispatched and while the prompt still hung on the entry the request was built from;
  between the two there is exactly one compaction, of that entry, and the second request belongs to the same run, one
  generation later, and is marked as the recovery.
\<close>

theorem overflow_replayed_at_most_once:
  assumes first: "complete_with_retry env (cb_request build) fl = (r1, res1, fl1)"
    and run: "complete_with_provider_overflow_recovery env m build entry fl = ((b, e, r), fl')"
  shows "provider_calls fl' = provider_calls fl @ [cb_request build] \<and>
      length (compaction_calls fl') \<le> length (compaction_calls fl) + 1 \<or>
    (\<exists>second. provider_calls fl' = provider_calls fl @ [cb_request build, second] \<and>
      compaction_calls fl' = compaction_calls fl @ [id_parent (pr_identity (cb_request build))] \<and>
      is_context_overflow_classification (cl_class (classify_completion env r1 res1)) \<and>
      \<not> pr_started r1 \<and> \<not> lineage_advanced r1 fl1 \<and> \<not> fl_consumed fl \<and> fl_consumed fl' \<and>
      id_recovery (pr_identity second) = 1 \<and> \<not> pr_started second \<and>
      id_generation (pr_identity second) = Suc (id_generation (pr_identity (cb_request build))))"
proof -
  note calls1 = complete_with_retry_calls [OF first]
  define c where "c = classify_completion env r1 res1"
  obtain reserved fl2 where res: "reserve_provider_overflow_recovery env r1 c fl1 = (reserved, fl2)" by force
  note reserved = reserve_recovery [OF res]
  show ?thesis
  proof (cases reserved)
    case False
    then show ?thesis using run first res reserved calls1
      by (auto simp: complete_with_provider_overflow_recovery_def c_def unrecovered_provider_result_def Let_def
          split: sum.splits if_splits)
  next
    case True
    then have d: "is_context_overflow_classification (cl_class c) \<and> \<not> fl_consumed fl1 \<and> \<not> pr_started r1 \<and>
        \<not> lineage_advanced r1 fl1 \<and> id_recovery (pr_identity r1) = 0" and fl2: "fl2 = fl1\<lparr>fl_consumed := True\<rparr>"
      using reserved recover_decision [of env r1 c fl1] by auto
    have kept: "lin_parent (fl_lineage fl1) = id_parent (pr_identity (cb_request build))"
      "lin_generation (fl_lineage fl1) = id_generation (pr_identity (cb_request build))"
      using d calls1 by (auto simp: lineage_advanced_def)
    obtain err b' e' r'' where rec:
      "recover_provider_context_overflow env m (build\<lparr>cb_request := r1\<rparr>) entry err fl2 = ((b', e', r''), fl')"
      using run first res True
      by (auto simp: complete_with_provider_overflow_recovery_def c_def Let_def split: prod.splits sum.splits)
    show ?thesis
      using recover_calls [OF rec] fl2 kept calls1 d unfolding c_def by auto
  qed
qed

text \<open>
  A completion that is returned is never a context overflow: neither the first answer nor the answer to the
  replayed request is passed on when its metadata says that the context was exhausted.
\<close>

theorem returned_completion_is_no_overflow:
  assumes "complete_with_provider_overflow_recovery env m build entry fl = ((b, e, Inr out), fl')"
  shows "\<exists>build'. b = Some build' \<and>
    \<not> is_context_overflow_classification (cl_class (classify_completion env (cb_request build') (Inr out)))"
proof -
  obtain r1 res1 fl1 where first: "complete_with_retry env (cb_request build) fl = (r1, res1, fl1)" by (metis prod_cases3)
  define c where "c = classify_completion env r1 res1"
  obtain reserved fl2 where res: "reserve_provider_overflow_recovery env r1 c fl1 = (reserved, fl2)" by force
  have explicit: "cl_class (classify_completion env r (Inr x)) \<noteq> ResponseExplicitContextOverflow" for r x
    by (cases "res_finish x") (auto simp: classify_completion_def classify_response_def classify_anthropic_response_def Let_def
        split: option.splits if_splits)
  show ?thesis
  proof (cases reserved)
    case False
    then show ?thesis using assms first res explicit
      by (auto simp: complete_with_provider_overflow_recovery_def c_def unrecovered_provider_result_def Let_def
          is_context_overflow_classification_def split: sum.splits if_splits)
  next
    case True
    obtain err e' where
      rec: "recover_provider_context_overflow env m (build\<lparr>cb_request := r1\<rparr>) entry err fl2 = ((b, e', Inr out), fl')"
      using assms first res True
      by (auto simp: complete_with_provider_overflow_recovery_def c_def Let_def split: prod.splits sum.splits)
    show ?thesis using rec
      by (auto simp: recover_provider_context_overflow_def replay_provider_request_def Let_def
          compact_after_provider_overflow_def split: if_splits prod.splits sum.splits option.splits)
  qed
qed

section \<open>Whole prompts\<close>





section \<open>What counts as an overflow\<close>

lemma output_at_limit_iff:
  assumes "0 < requested" and "0 < out"
  shows "output_at_limit requested out \<longleftrightarrow> requested \<le> out + 8 \<or> 49 * requested < 50 * out + 50"
proof -
  have "out \<ge> requested - max 8 ((2 * requested + 99) div 100) \<longleftrightarrow>
      requested \<le> out + 8 \<or> requested - out \<le> (2 * requested + 99) div 100" by linarith
  moreover have "requested - out \<le> (2 * requested + 99) div 100 \<longleftrightarrow> 49 * requested < 50 * out + 50"
  proof -
    define t where "t = (2 * requested + 99) div 100"
    have "100 * t \<le> 2 * requested + 99" "2 * requested + 99 < 100 * t + 100" unfolding t_def by linarith+
    then show ?thesis unfolding t_def [symmetric] by linarith
  qed
  ultimately show ?thesis
    using assms by (simp add: output_at_limit_def output_limit_tolerance_def minimum_output_limit_tolerance_def)
qed

text \<open>
  A response without an error is taken for a context overflow exactly when Anthropic says so, or when Anthropic
  stopped at the output limit although the reported output is more than eight tokens and about two percent below the limit that
  was asked for. A failed response is one exactly when a structured code of the error says so.
\<close>

theorem overflow_classification_iff:
  "is_context_overflow_classification (cl_class (classify_response lower i)) \<longleftrightarrow>
     (case ci_err i of
        Some e \<Rightarrow> is_structured_context_window_error lower e
      | None \<Rightarrow> ci_provider i = ''anthropic'' \<and>
          (ci_provider_finish i = ''model_context_window_exceeded'' \<or>
           ci_provider_finish i = ''max_tokens'' \<and> ci_finish i = FinishLength \<and> 0 < ci_reported_output i \<and>
           ci_reported_output i + 8 < ci_requested_max i \<and> 50 * ci_reported_output i + 50 \<le> 49 * ci_requested_max i))"
proof -
  have plain: "\<not> is_context_overflow_classification (finish_reason_class f)" for f
    by (cases f) (simp_all add: is_context_overflow_classification_def)
  have premature: "0 < ci_requested_max i \<and> 0 < ci_reported_output i \<and>
      \<not> output_at_limit (ci_requested_max i) (ci_reported_output i) \<longleftrightarrow>
    0 < ci_reported_output i \<and> ci_reported_output i + 8 < ci_requested_max i \<and>
      50 * ci_reported_output i + 50 \<le> 49 * ci_requested_max i"
    using output_at_limit_iff [of "ci_requested_max i" "ci_reported_output i"] by auto
  show ?thesis
  proof (cases "ci_err i")
    case None
    then show ?thesis using plain premature
      by (auto simp: classify_response_def classify_anthropic_response_def anthropic_provider_def
          is_context_overflow_classification_def Let_def)
  next
    case (Some e)
    then show ?thesis
      by (auto simp: classify_response_def classify_response_error_def is_context_overflow_classification_def Let_def)
  qed
qed






section \<open>A prompt that overflows once\<close>

definition overflowing_model :: ai_model where
  "overflowing_model = \<lparr>mdl_provider = ''anthropic'', mdl_id = ''m'', mdl_context_window = 200000, mdl_max_tokens = 4096\<rparr>"

definition overflowing_env :: "nat environment" where
  "overflowing_env = \<lparr>env_lower = id, env_policy = sample_policy,
     env_settings = (\<lambda>_. \<lparr>ms_profile_provider = [], ms_profile_model = [], ms_provider = ''anthropic'', ms_model = ''m'',
       ms_models = [overflowing_model]\<rparr>),
     env_context = (\<lambda>_ w. (Inr (empty_usage\<lparr>context_tokens := 1000\<rparr>, Some 10), w)),
     env_compact = (\<lambda>_ _ w. (Inr ''c1'', w + 1)),
     env_image_error = (\<lambda>_. None),
     env_complete = (\<lambda>_ w. (\<lparr>ce_attempts = 1, ce_dispatched = False, ce_adopted = [],
       ce_result = Inr \<lparr>res_finish = FinishStop, res_incomplete_reason = [],
         res_provider_finish = (if w = 0 then ''model_context_window_exceeded'' else ''end_turn''),
         res_text = [], res_usage = empty_usage\<rparr>\<rparr>, w + 1))\<rparr>"

definition overflowing_flow :: "nat flow" where
  "overflowing_flow = \<lparr>fl_world = 0, fl_lineage = \<lparr>lin_parent = ''u1'', lin_run = ''u1'', lin_generation = 0\<rparr>,
     fl_attempt = 0, fl_authorized = False, fl_consumed = False, fl_log = []\<rparr>"

definition overflowing_build :: context_build where
  "overflowing_build = \<lparr>cb_request = model_completion_request overflowing_model (fl_lineage overflowing_flow),
     cb_budget = new_budget empty_usage (Some overflowing_model) sample_policy (Some 10), cb_usage = empty_usage\<rparr>"

lemma overflowing_run:
  "case complete_with_provider_overflow_recovery overflowing_env overflowing_model overflowing_build None overflowing_flow of
     ((Some b, Some e, Inr out), fl) \<Rightarrow>
       length (provider_calls fl) = 2 \<and> e = ''c1'' \<and> res_provider_finish out = ''end_turn'' | _ \<Rightarrow> False"
  by code_simp

lemma overflowing_run_obtain:
  obtains b e out fl where
    "complete_with_provider_overflow_recovery overflowing_env overflowing_model overflowing_build None overflowing_flow
       = ((b, e, Inr out), fl)" "length (provider_calls fl) = 2"
  using overflowing_run by (auto split: prod.splits option.splits sum.splits)

lemma overflow_replayed_at_most_once_witness:
  "\<exists>b e r fl' second. complete_with_provider_overflow_recovery overflowing_env overflowing_model overflowing_build None overflowing_flow
     = ((b, e, r), fl') \<and> id_generation (pr_identity second) = 1 \<and> provider_calls fl' = [cb_request overflowing_build, second] \<and>
       compaction_calls fl' = [''u1'']"
proof -
  obtain b e out fl' where run: "complete_with_provider_overflow_recovery overflowing_env overflowing_model overflowing_build None
      overflowing_flow = ((b, e, Inr out), fl')" "length (provider_calls fl') = 2"
    by (rule overflowing_run_obtain)
  obtain r1 res1 fl1 where first:
    "complete_with_retry overflowing_env (cb_request overflowing_build) overflowing_flow = (r1, res1, fl1)" by (metis prod_cases3)
  have empty: "provider_calls overflowing_flow = []" "compaction_calls overflowing_flow = []"
    by (simp_all add: provider_calls_def compaction_calls_def overflowing_flow_def)
  have "id_parent (pr_identity (cb_request overflowing_build)) = ''u1''" "id_generation (pr_identity (cb_request overflowing_build)) = 0"
    by (simp_all add: overflowing_build_def model_completion_request_def overflowing_flow_def)
  then show ?thesis using overflow_replayed_at_most_once [OF first run(1)] run(2) empty run(1) by auto
qed

lemma returned_completion_is_no_overflow_witness:
  "\<exists>b e out fl'. complete_with_provider_overflow_recovery overflowing_env overflowing_model overflowing_build None overflowing_flow
     = ((Some b, e, Inr out), fl') \<and>
     \<not> is_context_overflow_classification (cl_class (classify_completion overflowing_env (cb_request b) (Inr out)))"
proof -
  obtain b e out fl' where run: "complete_with_provider_overflow_recovery overflowing_env overflowing_model overflowing_build None
      overflowing_flow = ((b, e, Inr out), fl')" by (rule overflowing_run_obtain)
  from returned_completion_is_no_overflow [OF run] run show ?thesis by auto
qed




end
