(* ===== verification/Json_Text.thy ===== *)
theory Json_Text
  imports Db_Time Go_Json
begin

text \<open>
  JSON texts as the structured-output contract reads and writes them (\<^verbatim>\<open>internal/outputschema/schema.go\<close>): the tokens of
  \<^verbatim>\<open>json.Decoder\<close> with its state for commas and colons, the bounded parser and the canonical
  encoder. A Go map is its list of members in the order of the keys.
\<close>

section \<open>Values\<close>

datatype json_value =
  JNull | JBool bool | JNumber string | JString string | JArray "json_value list" | JObject "(string \<times> json_value) list"

fun insert_member :: "string \<Rightarrow> 'a \<Rightarrow> (string \<times> 'a) list \<Rightarrow> (string \<times> 'a) list" where
  "insert_member k v [] = [(k, v)]"
| "insert_member k v ((k', v') # m) =
     (if text_less k k' then (k, v) # (k', v') # m
      else if k = k' then (k, v) # m
      else (k', v') # insert_member k v m)"

definition max_string_bytes :: nat where "max_string_bytes = 16384"

section \<open>Strings and numbers\<close>

text \<open>The text of a rune that was just decoded from a string is the bytes it was decoded from.\<close>

definition rune_text :: "string \<Rightarrow> string" where
  "rune_text s = (if decode_rune s = (rune_error, 1) then encode_rune rune_error else take (snd (decode_rune s)) s)"

definition hex_digit :: "nat \<Rightarrow> char" where
  "hex_digit n = char_of (if n < 10 then 48 + n else 87 + n)"

definition hex_value :: "char \<Rightarrow> nat option" where
  "hex_value c =
     (if json_digit c then Some (byte c - 48)
      else if 97 \<le> byte c \<and> byte c \<le> 102 then Some (byte c - 87)
      else if 65 \<le> byte c \<and> byte c \<le> 70 then Some (byte c - 55) else None)"

text \<open>Four hexadecimal digits after \<open>u\<close>, and a surrogate pair as two escapes (\<open>utf16.DecodeRune\<close>).\<close>

definition hex4 :: "string \<Rightarrow> (nat \<times> string) option" where
  "hex4 s = (case s of
       a # b # c # d # rest \<Rightarrow> (case (hex_value a, hex_value b, hex_value c, hex_value d) of
           (Some p, Some q, Some r, Some t) \<Rightarrow> Some (((p * 16 + q) * 16 + r) * 16 + t, rest)
         | _ \<Rightarrow> None)
     | _ \<Rightarrow> None)"

definition low_surrogate_escape :: "nat \<Rightarrow> string \<Rightarrow> (nat \<times> string) option" where
  "low_surrogate_escape high s =
     (case s of
        x # y # rest \<Rightarrow>
          if x = CHR 0x5C \<and> y = CHR ''u'' \<and> high < 56320 then
            (case hex4 rest of
               Some (low, after) \<Rightarrow>
                 if 56320 \<le> low \<and> low < 57344 then Some ((high - 55296) * 1024 + (low - 56320) + 65536, after) else None
             | None \<Rightarrow> None)
          else None
      | _ \<Rightarrow> None)"

definition simple_escape :: "char \<Rightarrow> string option" where
  "simple_escape c =
     (if c = CHR 0x22 \<or> c = CHR 0x5C \<or> c = CHR ''/'' then Some [c]
      else if c = CHR ''b'' then Some [char_of (8::nat)] else if c = CHR ''f'' then Some [char_of (12::nat)]
      else if c = CHR ''n'' then Some [char_of (10::nat)] else if c = CHR ''r'' then Some [char_of (13::nat)]
      else if c = CHR ''t'' then Some [char_of (9::nat)] else None)"

lemma hex4_shorter: "hex4 s = Some (r, rest) \<Longrightarrow> length rest < length s"
  by (auto simp: hex4_def split: list.splits option.splits)

lemma low_surrogate_escape_shorter: "low_surrogate_escape h s = Some (r, rest) \<Longrightarrow> length rest < length s"
  by (auto simp: low_surrogate_escape_def dest!: hex4_shorter split: list.splits option.splits if_splits)

lemma drop_rune_shorter: "length (c # cs) - snd (decode_rune (c # cs)) < Suc (length cs)"
  using decode_rune_width(1) [of "c # cs"] by simp

text \<open>The scan and the unquoting of a string after its opening quote: its value and what follows it.\<close>

function read_string :: "string \<Rightarrow> (string \<times> string) option" where
  "read_string s = (case s of
       [] \<Rightarrow> None
     | c # cs \<Rightarrow>
         if c = CHR 0x22 then Some ([], cs)
         else if c = CHR 0x5C then
           (case cs of
              [] \<Rightarrow> None
            | e # rest \<Rightarrow>
                if e = CHR ''u'' then
                  (case hex4 rest of
                     None \<Rightarrow> None
                   | Some (r, after) \<Rightarrow>
                       if surrogate r then
                         (case low_surrogate_escape r after of
                            Some (full, after') \<Rightarrow> map_option (apfst ((@) (encode_rune full))) (read_string after')
                          | None \<Rightarrow> map_option (apfst ((@) (encode_rune rune_error))) (read_string after))
                       else map_option (apfst ((@) (encode_rune r))) (read_string after))
                else (case simple_escape e of
                    None \<Rightarrow> None
                  | Some t \<Rightarrow> map_option (apfst ((@) t)) (read_string rest)))
         else if byte c < 32 then None
         else if byte c < 128 then map_option (apfst ((@) [c])) (read_string cs)
         else map_option (apfst ((@) (rune_text s))) (read_string (drop (snd (decode_rune s)) s)))"
  by pat_completeness auto

termination
  by (relation "measure length")
    (auto dest!: hex4_shorter low_surrogate_escape_shorter simp del: length_Cons
      intro: drop_rune_shorter [simplified] simp: length_Cons [symmetric])

declare read_string.simps [simp del]

fun digits_prefix :: "string \<Rightarrow> string \<times> string" where
  "digits_prefix [] = ([], [])"
| "digits_prefix (c # cs) = (if json_digit c then apfst ((#) c) (digits_prefix cs) else ([], c # cs))"

definition read_integer :: "string \<Rightarrow> (string \<times> string) option" where
  "read_integer s = (case s of
       [] \<Rightarrow> None
     | c # cs \<Rightarrow> if c = CHR ''0'' then Some ([c], cs) else if json_digit c then Some (digits_prefix s) else None)"

definition read_fraction :: "string \<Rightarrow> (string \<times> string) option" where
  "read_fraction s = (case s of
       c # cs \<Rightarrow> if c = CHR ''.'' then
           (case digits_prefix cs of (ds, rest) \<Rightarrow> if ds = [] then None else Some (c # ds, rest))
         else Some ([], s)
     | [] \<Rightarrow> Some ([], []))"

definition read_exponent :: "string \<Rightarrow> (string \<times> string) option" where
  "read_exponent s = (case s of
       c # cs \<Rightarrow> if c = CHR ''e'' \<or> c = CHR ''E'' then
           (let (sign, cs') = (case cs of x # xs \<Rightarrow> if x = CHR ''+'' \<or> x = CHR ''-'' then ([x], xs) else ([], cs)
                               | [] \<Rightarrow> ([], [])) in
            case digits_prefix cs' of (ds, rest) \<Rightarrow> if ds = [] then None else Some (c # sign @ ds, rest))
         else Some ([], s)
     | [] \<Rightarrow> Some ([], []))"

text \<open>The longest number at the start of a text, and \<open>validJSONNumber\<close>.\<close>

definition read_number :: "string \<Rightarrow> (string \<times> string) option" where
  "read_number s =
     (let (sign, s1) = (case s of c # cs \<Rightarrow> if c = CHR ''-'' then ([c], cs) else ([], s) | [] \<Rightarrow> ([], [])) in
      case read_integer s1 of None \<Rightarrow> None
      | Some (i, s2) \<Rightarrow> (case read_fraction s2 of None \<Rightarrow> None
          | Some (f, s3) \<Rightarrow> (case read_exponent s3 of None \<Rightarrow> None
              | Some (e, rest) \<Rightarrow> Some (sign @ i @ f @ e, rest))))"

definition valid_json_number :: "string \<Rightarrow> bool" where
  "valid_json_number s \<longleftrightarrow> read_number s = Some (s, [])"

section \<open>Tokens\<close>

datatype json_token = TokDelim char | TokString string | TokNumber string | TokBool bool | TokNull

datatype token_state =
  TopValue | ArrayStart | ArrayValue | ArrayComma | ObjectStart | ObjectKey | ObjectColon | ObjectValue | ObjectComma

datatype token_error = TokEof | TokSyntax

type_synonym decoder = "token_state \<times> token_state list \<times> string"

definition value_allowed :: "token_state \<Rightarrow> bool" where
  "value_allowed st \<longleftrightarrow> st \<in> {TopValue, ArrayStart, ArrayValue, ObjectValue}"

definition value_end :: "token_state \<Rightarrow> token_state" where
  "value_end st = (case st of ArrayStart \<Rightarrow> ArrayComma | ArrayValue \<Rightarrow> ArrayComma | ObjectValue \<Rightarrow> ObjectComma | _ \<Rightarrow> st)"

text \<open>Decoding one scalar (\<open>Decode\<close> into an interface value with \<open>UseNumber\<close>).\<close>

definition read_scalar :: "string \<Rightarrow> (json_token \<times> string) option" where
  "read_scalar s = (case s of
       [] \<Rightarrow> None
     | c # cs \<Rightarrow>
         if c = CHR 0x22 then map_option (apfst TokString) (read_string cs)
         else if starts_with ''true'' s then Some (TokBool True, drop 4 s)
         else if starts_with ''false'' s then Some (TokBool False, drop 5 s)
         else if starts_with ''null'' s then Some (TokNull, drop 4 s)
         else map_option (apfst TokNumber) (read_number s))"

lemma dropWhile_Cons_length: "dropWhile p s = c # cs \<Longrightarrow> length cs < length s"
  by (metis Suc_le_lessD length_Cons length_dropWhile_le)

function next_token :: "decoder \<Rightarrow> token_error + (json_token \<times> decoder)" where
  "next_token (st, stack, s) =
     (case dropWhile json_space s of
        [] \<Rightarrow> Inl TokEof
      | c # cs \<Rightarrow>
          if c = CHR ''['' then
            (if value_allowed st then Inr (TokDelim c, ArrayStart, st # stack, cs) else Inl TokSyntax)
          else if c = CHR '']'' then
            (if st = ArrayStart \<or> st = ArrayComma then
               (case stack of [] \<Rightarrow> Inl TokSyntax | p # ps \<Rightarrow> Inr (TokDelim c, value_end p, ps, cs))
             else Inl TokSyntax)
          else if c = CHR ''{'' then
            (if value_allowed st then Inr (TokDelim c, ObjectStart, st # stack, cs) else Inl TokSyntax)
          else if c = CHR ''}'' then
            (if st = ObjectStart \<or> st = ObjectComma then
               (case stack of [] \<Rightarrow> Inl TokSyntax | p # ps \<Rightarrow> Inr (TokDelim c, value_end p, ps, cs))
             else Inl TokSyntax)
          else if c = CHR '':'' then
            (if st = ObjectColon then next_token (ObjectValue, stack, cs) else Inl TokSyntax)
          else if c = CHR '','' then
            (if st = ArrayComma then next_token (ArrayValue, stack, cs)
             else if st = ObjectComma then next_token (ObjectKey, stack, cs)
             else Inl TokSyntax)
          else if c = CHR 0x22 \<and> (st = ObjectStart \<or> st = ObjectKey) then
            (case read_string cs of None \<Rightarrow> Inl TokSyntax | Some (key, rest) \<Rightarrow> Inr (TokString key, ObjectColon, stack, rest))
          else if value_allowed st then
            (case read_scalar (c # cs) of None \<Rightarrow> Inl TokSyntax | Some (t, rest) \<Rightarrow> Inr (t, value_end st, stack, rest))
          else Inl TokSyntax)"
  by pat_completeness auto

termination
  by (relation "measure (\<lambda>(st, stack, s). length s)") (auto dest: dropWhile_Cons_length)

declare next_token.simps [simp del]

definition more :: "decoder \<Rightarrow> bool" where
  "more d = (case d of (_, _, s) \<Rightarrow> (case dropWhile json_space s of [] \<Rightarrow> False | c # _ \<Rightarrow> c \<noteq> CHR '']'' \<and> c \<noteq> CHR ''}''))"

section \<open>The bounded parser\<close>

datatype parse_error =
  DepthExceeded | ValuesExceeded | StringTooLong | DuplicateMember string | KeyNotString | UnexpectedDelimiter char
  | TokenFailed token_error | TrailingValue | TrailingError token_error | ParserStuck

type_synonym parser = "decoder \<times> nat"
type_synonym reader = "parser \<Rightarrow> parse_error + json_value \<times> parser"

fun read_members :: "reader \<Rightarrow> nat \<Rightarrow> (string \<times> json_value) list \<Rightarrow> parser \<Rightarrow> parse_error + json_value \<times> parser" where
  "read_members rd 0 obj (d, n) = Inl ParserStuck"
| "read_members rd (Suc fuel) obj (d, n) =
     (if more d then
        (case next_token d of
           Inl e \<Rightarrow> Inl (TokenFailed e)
         | Inr (TokString key, d1) \<Rightarrow>
             if length key > max_string_bytes then Inl StringTooLong
             else if map_of obj key \<noteq> None then Inl (DuplicateMember key)
             else (case rd (d1, n) of
                 Inl e \<Rightarrow> Inl e
               | Inr (v, d2, n2) \<Rightarrow> read_members rd fuel (insert_member key v obj) (d2, n2))
         | Inr _ \<Rightarrow> Inl KeyNotString)
      else (case next_token d of Inl e \<Rightarrow> Inl (TokenFailed e) | Inr (_, d1) \<Rightarrow> Inr (JObject obj, d1, n)))"

fun read_items :: "reader \<Rightarrow> nat \<Rightarrow> json_value list \<Rightarrow> parser \<Rightarrow> parse_error + json_value \<times> parser" where
  "read_items rd 0 arr (d, n) = Inl ParserStuck"
| "read_items rd (Suc fuel) arr (d, n) =
     (if more d then
        (case rd (d, n) of
           Inl e \<Rightarrow> Inl e
         | Inr (v, d1, n1) \<Rightarrow> read_items rd fuel (arr @ [v]) (d1, n1))
      else (case next_token d of Inl e \<Rightarrow> Inl (TokenFailed e) | Inr (_, d1) \<Rightarrow> Inr (JArray arr, d1, n)))"

text \<open>
  \<open>read\<close>: the first argument is the depth that is left. The loops over members and items get the length of
  the remaining input as fuel; every round consumes a token.
\<close>

fun read_value :: "nat \<Rightarrow> nat \<Rightarrow> parser \<Rightarrow> parse_error + json_value \<times> parser" where
  "read_value 0 maximum p = Inl DepthExceeded"
| "read_value (Suc depth) maximum (d, n) =
     (case next_token d of
        Inl e \<Rightarrow> Inl (TokenFailed e)
      | Inr (t, d1) \<Rightarrow>
          if n + 1 > maximum then Inl ValuesExceeded
          else (case t of
              TokDelim c \<Rightarrow>
                if c = CHR ''{'' then read_members (read_value depth maximum) (Suc (length (snd (snd d1)))) [] (d1, n + 1)
                else if c = CHR ''['' then read_items (read_value depth maximum) (Suc (length (snd (snd d1)))) [] (d1, n + 1)
                else Inl (UnexpectedDelimiter c)
            | TokString s \<Rightarrow> if length s > max_string_bytes then Inl StringTooLong else Inr (JString s, d1, n + 1)
            | TokNumber s \<Rightarrow> Inr (JNumber s, d1, n + 1)
            | TokBool b \<Rightarrow> Inr (JBool b, d1, n + 1)
            | TokNull \<Rightarrow> Inr (JNull, d1, n + 1)))"

definition parse_json :: "string \<Rightarrow> nat \<Rightarrow> nat \<Rightarrow> parse_error + json_value" where
  "parse_json data max_depth max_values =
     (case read_value max_depth max_values ((TopValue, [], data), 0) of
        Inl e \<Rightarrow> Inl e
      | Inr (v, d, _) \<Rightarrow> (case next_token d of
            Inr _ \<Rightarrow> Inl TrailingValue
          | Inl TokEof \<Rightarrow> Inr v
          | Inl e \<Rightarrow> Inl (TrailingError e)))"

section \<open>The canonical encoder\<close>

definition escape_unit :: "nat \<Rightarrow> string" where
  "escape_unit b = [CHR 0x5C, CHR ''u'', CHR ''0'', CHR ''0'', hex_digit (b div 16), hex_digit (b mod 16)]"

definition escape_byte :: "char \<Rightarrow> string" where
  "escape_byte c =
     (let b = byte c in
      if c = CHR 0x5C \<or> c = CHR 0x22 then [CHR 0x5C, c]
      else if b = 8 then [CHR 0x5C, CHR ''b''] else if b = 12 then [CHR 0x5C, CHR ''f'']
      else if b = 10 then [CHR 0x5C, CHR ''n''] else if b = 13 then [CHR 0x5C, CHR ''r'']
      else if b = 9 then [CHR 0x5C, CHR ''t'']
      else if b < 32 \<or> c \<in> {CHR ''<'', CHR ''>'', CHR ''&''} then escape_unit b
      else [c])"

definition escape_rune :: "string \<Rightarrow> string" where
  "escape_rune s =
     (let (r, w) = decode_rune s in
      if r = rune_error \<and> w = 1 then CHR 0x5C # ''ufffd''
      else if r = 8232 \<or> r = 8233 then CHR 0x5C # ''u202'' @ [hex_digit (r mod 16)]
      else take w s)"

text \<open>\<^verbatim>\<open>json.Marshal\<close> of a string, without its quotes.\<close>

function escape_string :: "string \<Rightarrow> string" where
  "escape_string s = (case s of
       [] \<Rightarrow> []
     | c # cs \<Rightarrow> if byte c < 128 then escape_byte c @ escape_string cs
         else escape_rune s @ escape_string (drop (snd (decode_rune s)) s))"
  by pat_completeness auto

termination
  by (relation "measure length") (auto simp del: length_Cons intro: drop_rune_shorter [simplified] simp: length_Cons [symmetric])

declare escape_string.simps [simp del]

definition quote_string :: "string \<Rightarrow> string" where
  "quote_string s = CHR 0x22 # escape_string s @ [CHR 0x22]"

fun canonical_json :: "json_value \<Rightarrow> string option"
  and canonical_items :: "json_value list \<Rightarrow> string list option"
  and canonical_members :: "(string \<times> json_value) list \<Rightarrow> string list option" where
  "canonical_json JNull = Some ''null''"
| "canonical_json (JBool b) = Some (if b then ''true'' else ''false'')"
| "canonical_json (JString s) = Some (quote_string s)"
| "canonical_json (JNumber s) = (if valid_json_number s then Some s else None)"
| "canonical_json (JArray vs) = map_option (\<lambda>ts. ''['' @ join_with '','' ts @ '']'') (canonical_items vs)"
| "canonical_json (JObject ms) = map_option (\<lambda>ts. ''{'' @ join_with '','' ts @ ''}'') (canonical_members ms)"
| "canonical_items [] = Some []"
| "canonical_items (v # vs) = (case (canonical_json v, canonical_items vs) of (Some t, Some ts) \<Rightarrow> Some (t # ts) | _ \<Rightarrow> None)"
| "canonical_members [] = Some []"
| "canonical_members ((k, v) # ms) =
     (case (canonical_json v, canonical_members ms) of (Some t, Some ts) \<Rightarrow> Some ((quote_string k @ '':'' @ t) # ts) | _ \<Rightarrow> None)"

end
