(* ===== verification/Json_Roundtrip.thy ===== *)
theory Json_Roundtrip
  imports Json_Text
begin

text \<open>
  Reading back what the canonical encoder wrote: strings, numbers, tokens and whole values, and the well-formedness of
  every value the bounded parser returns.
\<close>

section \<open>Strings\<close>

lemma valid_utf8_encode: "valid_utf8 (encode_rune r @ y) = valid_utf8 y"
proof -
  have "decode_rune (encode_rune r @ y) \<noteq> (rune_error, 1)"
    by (simp add: decode_encode_rune) (auto simp: encode_rune_def rune_error_def surrogate_def)
  moreover have "snd (decode_rune (encode_rune r @ y)) = length (encode_rune r)" by (simp add: decode_encode_rune)
  ultimately show ?thesis
    using encode_rune_nonempty [of r] by (subst valid_utf8.simps) auto
qed

lemma decode_rune_take:
  assumes "decode_rune s \<noteq> (rune_error, 1)" and "s \<noteq> []"
  shows "decode_rune (take (snd (decode_rune s)) s @ y) = decode_rune s"
proof -
  consider (1) a where "s = [a]" | (2) a b where "s = [a, b]" | (3) a b c where "s = [a, b, c]"
    | (4) a b c d r where "s = a # b # c # d # r"
    using assms(2) by (metis neq_Nil_conv)
  then show ?thesis using assms(1) by cases (auto simp: decode_rune_def split: if_splits)
qed

lemma valid_utf8_rune_text: "s \<noteq> [] \<Longrightarrow> valid_utf8 (rune_text s @ y) = valid_utf8 y"
proof (cases "decode_rune s = (rune_error, 1)")
  case True
  then show ?thesis by (simp add: rune_text_def valid_utf8_encode)
next
  case False
  assume "s \<noteq> []"
  with False have d: "decode_rune (rune_text s @ y) = decode_rune s" "length (rune_text s) = snd (decode_rune s)"
    using decode_rune_take [of s y] decode_rune_width(2) [of s] by (auto simp: rune_text_def)
  moreover have "rune_text s \<noteq> []" using d(2) decode_rune_width(1) [OF \<open>s \<noteq> []\<close>] by auto
  ultimately show ?thesis using False by (subst valid_utf8.simps) (simp add: )
qed

lemma simple_escape_valid: "simple_escape c = Some t \<Longrightarrow> valid_utf8 (t @ y) = valid_utf8 y"
  by (auto simp: simple_escape_def valid_utf8_ascii byte_char_of byte_def split: if_splits)

lemma read_string_elim:
  assumes "read_string s = Some (t, rest)"
  shows "s = CHR 0x22 # rest \<and> t = [] \<or>
    (\<exists>x u s'. t = x @ u \<and> read_string s' = Some (u, rest) \<and> length s' < length s \<and> (\<forall>y. valid_utf8 (x @ y) = valid_utf8 y))"
    (is "_ \<or> ?piece")
proof -
  note eq = assms [unfolded read_string.simps [of s]]
  have piece: ?piece if "map_option (apfst ((@) x)) (read_string s') = Some (t, rest)" "length s' < length s"
    "\<forall>y. valid_utf8 (x @ y) = valid_utf8 y" for x s'
    using that by auto
  show ?thesis
  proof (cases s)
    case Nil
    then show ?thesis using eq by simp
  next
    case (Cons c cs)
    consider "c = CHR 0x22" | "c = CHR 0x5C" | "c \<noteq> CHR 0x22" "c \<noteq> CHR 0x5C" by blast
    then show ?thesis
    proof cases
      case 1
      then show ?thesis using eq Cons by simp
    next
      case 2
      then obtain e r where cs: "cs = e # r" using eq Cons by (cases cs) auto
      show ?thesis
      proof (cases "e = CHR ''u''")
        case False
        then obtain x where x: "simple_escape e = Some x" using eq Cons 2 cs by (cases "simple_escape e") auto
        then have ?piece using eq Cons 2 cs False by (intro piece [of x r]) (auto simp: simple_escape_valid [OF x])
        then show ?thesis ..
      next
        case True
        then obtain a b where h: "hex4 r = Some (a, b)" using eq Cons 2 cs by (cases "hex4 r") auto
        note short = hex4_shorter [OF h]
        consider full b' where "surrogate a" "low_surrogate_escape a b = Some (full, b')"
          | "surrogate a" "low_surrogate_escape a b = None" | "\<not> surrogate a"
          by (cases "low_surrogate_escape a b") auto
        then have ?piece
        proof cases
          case (1 full b')
          then show ?thesis using eq Cons 2 cs True h short low_surrogate_escape_shorter [OF 1(2)]
            by (intro piece [of "encode_rune full" b']) (auto simp: valid_utf8_encode)
        next
          case 2
          then show ?thesis using eq Cons \<open>c = CHR 0x5C\<close> cs True h short
            by (intro piece [of "encode_rune rune_error" b]) (auto simp: valid_utf8_encode)
        next
          case 3
          then show ?thesis using eq Cons \<open>c = CHR 0x5C\<close> cs True h short
            by (intro piece [of "encode_rune a" b]) (auto simp: valid_utf8_encode)
        qed
        then show ?thesis ..
      qed
    next
      case 3
      have short: "length (drop (snd (decode_rune s)) s) < length s"
        using Cons decode_rune_width(1) [of s] by simp
      show ?thesis
      proof (cases "byte c < 128")
        case True
        then have ?piece using eq Cons 3 by (intro piece [of "[c]" cs]) (auto simp: valid_utf8_ascii split: if_splits)
        then show ?thesis ..
      next
        case False
        then have ?piece using eq Cons 3 short valid_utf8_rune_text [of s]
          by (intro piece [of "rune_text s" "drop (snd (decode_rune s)) s"]) (auto split: if_splits)
        then show ?thesis ..
      qed
    qed
  qed
qed

lemma read_string_valid: "read_string s = Some (t, rest) \<Longrightarrow> valid_utf8 t \<and> length rest < length s"
proof (induction s arbitrary: t rest rule: length_induct)
  case (1 s)
  from read_string_elim [OF 1(2)] show ?case
  proof (elim disjE exE conjE)
    fix x u s'
    assume p: "t = x @ u" "read_string s' = Some (u, rest)" "length s' < length s" "\<forall>y. valid_utf8 (x @ y) = valid_utf8 y"
    with 1(1) have "valid_utf8 u \<and> length rest < length s'" by blast
    with p show ?thesis by auto
  qed simp
qed

lemma hex_value_digit: "n < 16 \<Longrightarrow> hex_value (hex_digit n) = Some n"
  by (auto simp: hex_value_def hex_digit_def json_digit_def byte_char_of)

lemma hex_value_zero: "hex_value (CHR ''0'') = Some 0" "hex_value (CHR ''2'') = Some 2"
  by (simp_all add: hex_value_def json_digit_def byte_def)

lemma read_string_ascii:
  "c \<noteq> CHR 0x22 \<Longrightarrow> c \<noteq> CHR 0x5C \<Longrightarrow> 32 \<le> byte c \<Longrightarrow> byte c < 128 \<Longrightarrow>
   read_string (c # s) = map_option (apfst ((@) [c])) (read_string s)"
  by (subst read_string.simps) simp

lemma read_string_simple:
  "e \<noteq> CHR ''u'' \<Longrightarrow> simple_escape e = Some t \<Longrightarrow>
   read_string (CHR 0x5C # e # s) = map_option (apfst ((@) t)) (read_string s)"
  by (subst read_string.simps) simp

lemma read_string_unit:
  assumes "hex4 (a # b # c # d # s) = Some (r, s)" and "\<not> surrogate r"
  shows "read_string (CHR 0x5C # CHR ''u'' # a # b # c # d # s) = map_option (apfst ((@) (encode_rune r))) (read_string s)"
  using assms by (subst read_string.simps) simp

lemma read_string_multi:
  assumes "s \<noteq> []" and "128 \<le> byte (hd s)"
  shows "read_string s = map_option (apfst ((@) (rune_text s))) (read_string (drop (snd (decode_rune s)) s))"
proof -
  obtain c cs where s: "s = c # cs" using assms(1) by (cases s) auto
  have "c \<noteq> CHR 0x22" "c \<noteq> CHR 0x5C" using assms(2) s by (auto simp: byte_def)
  then show ?thesis using assms s by (subst read_string.simps) simp
qed

lemma char_of_byte: "char_of (byte c) = c"
  by (simp add: byte_def)

lemma byte_eq_char: "byte c = n \<Longrightarrow> c = char_of n"
  using char_of_byte by metis

lemma read_escape_byte:
  assumes "byte c < 128"
  shows "read_string (escape_byte c @ s) = map_option (apfst ((@) [c])) (read_string s)"
proof -
  consider "c = CHR 0x5C \<or> c = CHR 0x22" | "c \<noteq> CHR 0x5C" "c \<noteq> CHR 0x22" "byte c \<in> {8, 9, 10, 12, 13}"
    | "byte c \<notin> {8, 9, 10, 12, 13}" "byte c < 32 \<or> c \<in> {CHR ''<'', CHR ''>'', CHR ''&''}"
    | "c \<noteq> CHR 0x5C" "c \<noteq> CHR 0x22" "32 \<le> byte c" "c \<notin> {CHR ''<'', CHR ''>'', CHR ''&''}"
    by force
  then show ?thesis
  proof cases
    case 1
    then show ?thesis by (auto simp: escape_byte_def read_string_simple simple_escape_def)
  next
    case 2
    from 2(3) show ?thesis
      using 2(1,2) byte_eq_char [of c]
      by (elim insertE emptyE) (simp_all add: escape_byte_def Let_def read_string_simple simple_escape_def byte_char_of)
  next
    case 3
    have lt: "byte c div 16 < 16" "byte c mod 16 < 16" using assms by auto
    have "c \<noteq> CHR 0x5C" "c \<noteq> CHR 0x22" using 3(2) by (auto simp: byte_def)
    then have e: "escape_byte c = escape_unit (byte c)" using 3 by (auto simp: escape_byte_def Let_def)
    have "hex4 (CHR ''0'' # CHR ''0'' # hex_digit (byte c div 16) # hex_digit (byte c mod 16) # s) = Some (byte c, s)"
      using lt by (simp add: hex4_def hex_value_zero hex_value_digit)
    from read_string_unit [OF this] assms show ?thesis
      by (simp add: e escape_unit_def surrogate_def encode_rune_def char_of_byte)
  next
    case 4
    then show ?thesis using assms by (simp add: escape_byte_def Let_def read_string_ascii)
  qed
qed

lemma decode_rune_head:
  assumes "s \<noteq> []" and "128 \<le> byte (hd s)" and "decode_rune s \<noteq> (rune_error, 1)"
  shows "2 \<le> snd (decode_rune s)"
proof -
  consider (1) a where "s = [a]" | (2) a b where "s = [a, b]" | (3) a b c where "s = [a, b, c]"
    | (4) a b c d r where "s = a # b # c # d # r"
    using assms(1) by (metis neq_Nil_conv)
  then show ?thesis using assms(2,3) by cases (auto simp: decode_rune_def split: if_splits)
qed

lemma split64: "c < 64 \<Longrightarrow> (u * 64 + c) div 64 = u" "c < 64 \<Longrightarrow> (u * 64 + c) mod 64 = (c::nat)"
  by simp_all

lemma div4096: "(n::nat) div 4096 = n div 64 div 64" "n div 262144 = n div 64 div 64 div 64"
  by (simp_all add: div_mult2_eq [symmetric])

lemma encode_two:
  assumes "2 \<le> a" "a \<le> 31" "b < 64"
  shows "encode_rune (a * 64 + b) = [char_of (192 + a), char_of (128 + b)]"
  using assms by (simp add: encode_rune_def split64)

lemma encode_three:
  assumes r: "r = u * 64 + c" "u = a * 64 + b"
    and "a \<le> 15" "b < 64" "c < 64" "a = 0 \<longrightarrow> 32 \<le> b" "a = 13 \<longrightarrow> b < 32"
  shows "encode_rune r = [char_of (224 + a), char_of (128 + b), char_of (128 + c)]"
proof -
  have "2048 \<le> r" using assms by (cases "a = 0") simp_all
  moreover have "r < 65536" using assms by simp
  moreover have "\<not> (55296 \<le> r \<and> r \<le> 57343)"
    using assms by (cases "a \<le> 12"; cases "a = 13") auto
  moreover have "r div 64 = u" "r mod 64 = c" "u div 64 = a" "u mod 64 = b"
    using assms(4,5) unfolding r by (simp_all only: split64)
  ultimately show ?thesis by (auto simp: encode_rune_def div4096)
qed

lemma encode_four:
  assumes r: "r = u * 64 + d" "u = v * 64 + c" "v = a * 64 + b"
    and "a \<le> 4" "b < 64" "c < 64" "d < 64" "a = 0 \<longrightarrow> 16 \<le> b" "a = 4 \<longrightarrow> b < 16"
  shows "encode_rune r = [char_of (240 + a), char_of (128 + b), char_of (128 + c), char_of (128 + d)]"
proof -
  have "65536 \<le> r" using assms by (cases "a = 0") simp_all
  moreover have "r \<le> 1114111" using assms by (cases "a = 4") simp_all
  moreover have "r div 64 = u" "r mod 64 = d" "u div 64 = v" "u mod 64 = c" "v div 64 = a" "v mod 64 = b"
    using assms(5-7) unfolding r by (simp_all only: split64)
  ultimately show ?thesis by (auto simp: encode_rune_def div4096)
qed

lemma byte_minus: "k \<le> byte c \<Longrightarrow> char_of (k + (byte c - k)) = c"
  by (simp add: char_of_byte)

lemma encode_decoded:
  assumes "s \<noteq> []" and "decode_rune s \<noteq> (rune_error, 1)"
  shows "encode_rune (fst (decode_rune s)) = take (snd (decode_rune s)) s"
proof -
  define x where "x = take 4 s"
  obtain c cs where s: "s = c # cs" using assms(1) by (cases s) auto
  consider "byte c < 128"
    | b where "194 \<le> byte c" "byte c \<le> 223" "second_ok (byte c) (byte b)" "take 2 s = [c, b]"
        "decode_rune s = ((byte c - 192) * 64 + (byte b - 128), 2)"
    | b d where "224 \<le> byte c" "byte c \<le> 239" "second_ok (byte c) (byte b)" "continuation (byte d)" "take 3 s = [c, b, d]"
        "decode_rune s = (((byte c - 224) * 64 + (byte b - 128)) * 64 + (byte d - 128), 3)"
    | b d e where "240 \<le> byte c" "byte c \<le> 244" "second_ok (byte c) (byte b)" "continuation (byte d)" "continuation (byte e)"
        "take 4 s = [c, b, d, e]"
        "decode_rune s = ((((byte c - 240) * 64 + (byte b - 128)) * 64 + (byte d - 128)) * 64 + (byte e - 128), 4)"
    using assms(2) s
    by (cases cs; cases "tl cs"; cases "tl (tl cs)")
      (auto simp: decode_rune_def algebra_simps split: if_splits)
  then show ?thesis
  proof cases
    case 1
    then show ?thesis using s by (simp add: decode_rune_ascii encode_rune_def char_of_byte)
  next
    case (2 b)
    have b: "128 \<le> byte b" "byte b < 192" using 2(1-3) by (auto simp: second_ok_def continuation_def split: if_splits)
    have "encode_rune ((byte c - 192) * 64 + (byte b - 128)) = [char_of (192 + (byte c - 192)), char_of (128 + (byte b - 128))]"
      by (rule encode_two) (use 2 b in linarith)+
    then show ?thesis using 2 b by (simp add: byte_minus char_of_byte)
  next
    case (3 b d)
    have b: "128 \<le> byte b" "byte b < 192" "128 \<le> byte d" "byte d < 192" "byte c = 224 \<longrightarrow> 160 \<le> byte b" "byte c = 237 \<longrightarrow> byte b < 160"
      using 3(1-4) by (auto simp: second_ok_def continuation_def split: if_splits)
    have "encode_rune (((byte c - 224) * 64 + (byte b - 128)) * 64 + (byte d - 128))
        = [char_of (224 + (byte c - 224)), char_of (128 + (byte b - 128)), char_of (128 + (byte d - 128))]"
      by (rule encode_three [OF refl refl]) (use 3 b in linarith)+
    then show ?thesis using 3 b by (simp add: byte_minus char_of_byte)
  next
    case (4 b d e)
    have b: "128 \<le> byte b" "byte b < 192" "128 \<le> byte d" "byte d < 192" "128 \<le> byte e" "byte e < 192"
      "byte c = 240 \<longrightarrow> 144 \<le> byte b" "byte c = 244 \<longrightarrow> byte b < 144"
      using 4(1-5) by (auto simp: second_ok_def continuation_def split: if_splits)
    have "encode_rune ((((byte c - 240) * 64 + (byte b - 128)) * 64 + (byte d - 128)) * 64 + (byte e - 128))
        = [char_of (240 + (byte c - 240)), char_of (128 + (byte b - 128)), char_of (128 + (byte d - 128)), char_of (128 + (byte e - 128))]"
      by (rule encode_four [OF refl refl refl]) (use 4 b in linarith)+
    then show ?thesis using 4 b by (simp add: byte_minus char_of_byte)
  qed
qed

text \<open>So the text of a decoded rune is the text of its code point.\<close>

lemma rune_text_encode: "s \<noteq> [] \<Longrightarrow> rune_text s = encode_rune (fst (decode_rune s))"
  using encode_decoded [of s] by (auto simp: rune_text_def)

lemma valid_utf8_decode: "valid_utf8 s \<Longrightarrow> s \<noteq> [] \<Longrightarrow> decode_rune s \<noteq> (rune_error, 1)"
  by (subst (asm) valid_utf8.simps) (auto split: if_splits)

lemma valid_utf8_drop: "valid_utf8 s \<Longrightarrow> s \<noteq> [] \<Longrightarrow> valid_utf8 (drop (snd (decode_rune s)) s)"
  by (subst (asm) valid_utf8.simps) (auto split: if_splits)

lemma read_escape_rune:
  assumes "s \<noteq> []" and "128 \<le> byte (hd s)" and "decode_rune s \<noteq> (rune_error, 1)"
  shows "read_string (escape_rune s @ y) = map_option (apfst ((@) (take (snd (decode_rune s)) s))) (read_string y)"
proof -
  obtain r w where d: "decode_rune s = (r, w)" by force
  show ?thesis
  proof (cases "r = 8232 \<or> r = 8233")
    case True
    have r: "r \<noteq> rune_error" using True by (auto simp: rune_error_def)
    have e: "escape_rune s = CHR 0x5C # CHR ''u'' # CHR ''2'' # CHR ''0'' # CHR ''2'' # hex_digit (r mod 16) # []"
      using True r by (simp add: escape_rune_def d)
    have "hex4 (CHR ''2'' # CHR ''0'' # CHR ''2'' # hex_digit (r mod 16) # y) = Some (r, y)"
      using True by (elim disjE) (simp_all add: hex4_def hex_value_zero hex_value_digit)
    moreover have "\<not> surrogate r" using True by (auto simp: surrogate_def)
    moreover have "encode_rune r = take w s" using encode_decoded [OF assms(1,3)] d by simp
    ultimately show ?thesis using read_string_unit e d by simp
  next
    case False
    let ?t = "take w s"
    have e: "escape_rune s = ?t" using False assms(3) d by (auto simp: escape_rune_def)
    have dt: "decode_rune (?t @ y) = (r, w)" using decode_rune_take [OF assms(3,1), of y] d by simp
    have w: "1 \<le> w" "w \<le> length s" using decode_rune_width [OF assms(1)] d by auto
    then have "hd (?t @ y) = hd s" "?t @ y \<noteq> []" using assms(1) by (cases s; cases w; simp)+
    then have "read_string (?t @ y) = map_option (apfst ((@) (rune_text (?t @ y)))) (read_string (drop w (?t @ y)))"
      using read_string_multi [of "?t @ y"] assms(2) dt by simp
    moreover have "rune_text (?t @ y) = ?t" "drop w (?t @ y) = y"
      using dt d assms(3) w by (auto simp: rune_text_def)
    ultimately show ?thesis using e d by simp
  qed
qed

lemma read_escape_string:
  "valid_utf8 s \<Longrightarrow> read_string (escape_string s @ CHR 0x22 # rest) = Some (s, rest)"
proof (induction s rule: escape_string.induct)
  case (1 s)
  show ?case
  proof (cases s)
    case Nil
    then show ?thesis by (simp add: escape_string.simps) (simp add: read_string.simps)
  next
    case (Cons c cs)
    show ?thesis
    proof (cases "byte c < 128")
      case True
      then have "valid_utf8 cs" using 1(3) Cons by (simp add: valid_utf8_ascii)
      with 1(1) [OF Cons True] True show ?thesis
        by (simp add: Cons escape_string.simps [of "c # cs"] read_escape_byte)
    next
      case False
      have v: "decode_rune s \<noteq> (rune_error, 1)" "valid_utf8 (drop (snd (decode_rune s)) s)"
        using 1(3) Cons valid_utf8_decode valid_utf8_drop by auto
      have "read_string (escape_rune s @ escape_string (drop (snd (decode_rune s)) s) @ CHR 0x22 # rest)
          = Some (take (snd (decode_rune s)) s @ drop (snd (decode_rune s)) s, rest)"
        using read_escape_rune [of s] v 1(2) [OF Cons False v(2)] Cons False by simp
      then show ?thesis using False Cons by (subst escape_string.simps) simp
    qed
  qed
qed

section \<open>Numbers\<close>

definition number_end :: "string \<Rightarrow> bool" where
  "number_end y \<longleftrightarrow> y = [] \<or> \<not> json_digit (hd y) \<and> hd y \<notin> {CHR ''.'', CHR ''e'', CHR ''E''}"

lemma digits_prefix_split: "digits_prefix s = (a, b) \<Longrightarrow> s = a @ b \<and> list_all json_digit a \<and> (b = [] \<or> \<not> json_digit (hd b))"
  by (induction s arbitrary: a b) (auto split: if_splits prod.splits simp: apfst_def map_prod_def)

lemma digits_prefix_append:
  "list_all json_digit a \<Longrightarrow> b = [] \<or> \<not> json_digit (hd b) \<Longrightarrow> digits_prefix (a @ b) = (a, b)"
proof (induction a)
  case Nil
  then show ?case by (cases b) auto
qed simp

definition integer_text :: "string \<Rightarrow> bool" where
  "integer_text i \<longleftrightarrow> i = ''0'' \<or> (i \<noteq> [] \<and> list_all json_digit i \<and> hd i \<noteq> CHR ''0'')"

definition fraction_text_ok :: "string \<Rightarrow> bool" where
  "fraction_text_ok f \<longleftrightarrow> f = [] \<or> (\<exists>ds. f = CHR ''.'' # ds \<and> ds \<noteq> [] \<and> list_all json_digit ds)"

definition exponent_text :: "string \<Rightarrow> bool" where
  "exponent_text e \<longleftrightarrow> e = [] \<or> (\<exists>c sign ds. e = c # sign @ ds \<and> c \<in> {CHR ''e'', CHR ''E''} \<and>
     sign \<in> {[], ''+'', ''-''} \<and> ds \<noteq> [] \<and> list_all json_digit ds)"

lemma digit_chars: "json_digit c \<Longrightarrow> c \<notin> {CHR ''.'', CHR ''e'', CHR ''E'', CHR ''+'', CHR ''-''}"
  by (auto simp: json_digit_def byte_def)

lemma digits_prefix_all: "list_all json_digit a \<Longrightarrow> digits_prefix a = (a, [])"
  using digits_prefix_append [of a "[]"] by simp

lemma read_integer_sound:
  assumes "read_integer s = Some (i, r)"
  shows "s = i @ r \<and> integer_text i \<and> (i \<noteq> ''0'' \<longrightarrow> r = [] \<or> \<not> json_digit (hd r))"
proof -
  obtain c cs where s: "s = c # cs" using assms by (cases s) (auto simp: read_integer_def)
  show ?thesis
  proof (cases "c = CHR ''0''")
    case True
    then show ?thesis using assms s by (auto simp: read_integer_def integer_text_def)
  next
    case False
    then have d: "digits_prefix s = (i, r)" "json_digit c"
      using assms s by (auto simp: read_integer_def simp del: digits_prefix.simps split: if_splits)
    then obtain i' where "i = c # i'" using s by (auto simp: apfst_def map_prod_def split: prod.splits)
    then show ?thesis using digits_prefix_split [OF d(1)] False by (simp add: integer_text_def)
  qed
qed

lemma read_integer_complete:
  assumes "integer_text i" and "r = [] \<or> \<not> json_digit (hd r)"
  shows "read_integer (i @ r) = Some (i, r)"
proof (cases "i = ''0''")
  case False
  then obtain c cs where "i = c # cs" "json_digit c" "c \<noteq> CHR ''0''" "list_all json_digit i"
    using assms(1) by (cases i) (auto simp: integer_text_def)
  then show ?thesis using digits_prefix_append [of i r] assms(2) by (simp add: read_integer_def)
qed (simp add: read_integer_def)

lemma read_fraction_sound:
  "read_fraction s = Some (f, r) \<Longrightarrow> s = f @ r \<and> fraction_text_ok f"
  by (auto simp: read_fraction_def fraction_text_ok_def split: list.splits if_splits prod.splits dest!: digits_prefix_split)

lemma read_fraction_complete:
  assumes "fraction_text_ok f" and "r = [] \<or> \<not> json_digit (hd r) \<and> hd r \<noteq> CHR ''.''"
  shows "read_fraction (f @ r) = Some (f, r)"
  using assms by (cases r) (auto simp: read_fraction_def fraction_text_ok_def digits_prefix_append digits_prefix_all)

lemma read_exponent_sound:
  assumes "read_exponent s = Some (e, r)"
  shows "s = e @ r \<and> exponent_text e"
proof (cases s)
  case Nil
  then show ?thesis using assms by (simp add: read_exponent_def exponent_text_def)
next
  case (Cons c cs)
  show ?thesis
  proof (cases "c = CHR ''e'' \<or> c = CHR ''E''")
    case False
    then show ?thesis using assms Cons by (simp add: read_exponent_def exponent_text_def)
  next
    case True
    define p where "p = (case cs of x # xs \<Rightarrow> if x = CHR ''+'' \<or> x = CHR ''-'' then ([x], xs) else ([], cs) | [] \<Rightarrow> ([], []))"
    obtain sign cs' where p: "p = (sign, cs')" by force
    then have cs: "cs = sign @ cs'" "sign \<in> {[], ''+'', ''-''}"
      unfolding p_def by (auto split: list.splits if_splits)
    obtain ds rest where d: "digits_prefix cs' = (ds, rest)" by force
    then have "ds \<noteq> []" "e = c # sign @ ds" "r = rest"
      using assms Cons True p unfolding p_def by (auto simp: read_exponent_def split: if_splits)
    then show ?thesis using digits_prefix_split [OF d] cs Cons True by (auto simp: exponent_text_def)
  qed
qed

lemma read_exponent_complete:
  assumes "exponent_text e" and "number_end r"
  shows "read_exponent (e @ r) = Some (e, r)"
proof (cases "e = []")
  case True
  then show ?thesis using assms(2) by (cases r) (auto simp: read_exponent_def number_end_def)
next
  case False
  then obtain c sign ds where e: "e = c # sign @ ds" "c \<in> {CHR ''e'', CHR ''E''}" "sign \<in> {[], ''+'', ''-''}"
    "ds \<noteq> []" "list_all json_digit ds" using assms(1) by (auto simp: exponent_text_def)
  obtain x xs where ds: "ds = x # xs" "x \<noteq> CHR ''+''" "x \<noteq> CHR ''-''"
    using e(4,5) digit_chars by (cases ds) auto
  have "digits_prefix (ds @ r) = (ds, r)" using digits_prefix_append e(5) assms(2) by (auto simp: number_end_def)
  then show ?thesis using e ds by (auto simp: read_exponent_def)
qed

definition number_text :: "string \<Rightarrow> bool" where
  "number_text x \<longleftrightarrow> (\<exists>sign i f e. x = sign @ i @ f @ e \<and> sign \<in> {[], ''-''} \<and> integer_text i \<and>
     fraction_text_ok f \<and> exponent_text e)"

lemma read_number_sound:
  assumes "read_number s = Some (x, r)"
  shows "s = x @ r \<and> number_text x"
proof -
  define p where "p = (case s of c # cs \<Rightarrow> if c = CHR ''-'' then ([c], cs) else ([], s) | [] \<Rightarrow> ([], []))"
  obtain sign s1 where p: "p = (sign, s1)" by force
  then have s: "s = sign @ s1" "sign \<in> {[], ''-''}" unfolding p_def by (auto split: list.splits if_splits)
  have "(case p of (sign, s1) \<Rightarrow> case read_integer s1 of None \<Rightarrow> None
      | Some (i, s2) \<Rightarrow> (case read_fraction s2 of None \<Rightarrow> None
          | Some (f, s3) \<Rightarrow> (case read_exponent s3 of None \<Rightarrow> None
              | Some (e, rest) \<Rightarrow> Some (sign @ i @ f @ e, rest)))) = Some (x, r)"
    using assms unfolding read_number_def p_def Let_def by simp
  then obtain i s2 f s3 e where parts: "read_integer s1 = Some (i, s2)" "read_fraction s2 = Some (f, s3)"
    "read_exponent s3 = Some (e, r)" "x = sign @ i @ f @ e"
    unfolding p by (auto split: option.splits)
  show ?thesis
    using read_integer_sound [OF parts(1)] read_fraction_sound [OF parts(2)] read_exponent_sound [OF parts(3)] s parts(4)
    unfolding number_text_def by auto
qed

lemma number_tail_end:
  assumes "fraction_text_ok f" and "exponent_text e" and "number_end r"
  shows "e @ r = [] \<or> \<not> json_digit (hd (e @ r)) \<and> hd (e @ r) \<noteq> CHR ''.''"
    and "f @ e @ r = [] \<or> \<not> json_digit (hd (f @ e @ r))"
proof -
  have marks: "\<not> json_digit (CHR ''.'')" "\<not> json_digit (CHR ''e'')" "\<not> json_digit (CHR ''E'')"
    using digit_chars by blast+
  show 1: "e @ r = [] \<or> \<not> json_digit (hd (e @ r)) \<and> hd (e @ r) \<noteq> CHR ''.''"
    using assms(2,3) marks by (auto simp: exponent_text_def number_end_def)
  show "f @ e @ r = [] \<or> \<not> json_digit (hd (f @ e @ r))"
    using 1 assms(1) marks by (auto simp: fraction_text_ok_def)
qed

lemma read_number_complete:
  assumes "number_text x" and "number_end r"
  shows "read_number (x @ r) = Some (x, r)"
proof -
  obtain sign i f e where x: "x = sign @ i @ f @ e" "sign \<in> {[], ''-''}" "integer_text i" "fraction_text_ok f" "exponent_text e"
    using assms(1) by (auto simp: number_text_def)
  note tails = number_tail_end [OF x(4,5) assms(2)]
  obtain c cs where i: "i = c # cs" "json_digit c" using x(3) by (cases i) (auto simp: integer_text_def json_digit_def byte_def)
  then have "c \<noteq> CHR ''-''" using digit_chars by blast
  then show ?thesis
    using x(2) read_integer_complete [OF x(3) tails(2)] read_fraction_complete [OF x(4) tails(1)]
      read_exponent_complete [OF x(5) assms(2)] i(1)
    by (auto simp: read_number_def x(1))
qed

lemma valid_json_number_iff: "valid_json_number x \<longleftrightarrow> number_text x"
proof
  assume "valid_json_number x"
  then show "number_text x" using read_number_sound [of x x "[]"] by (simp add: valid_json_number_def)
next
  assume "number_text x"
  then show "valid_json_number x"
    using read_number_complete [of x "[]"] by (simp add: valid_json_number_def number_end_def)
qed

lemma number_text_head: "number_text x \<Longrightarrow> \<exists>c cs. x = c # cs \<and> (c = CHR ''-'' \<or> json_digit c)"
  by (auto simp: number_text_def integer_text_def json_digit_def byte_def neq_Nil_conv)

section \<open>Well-formed values\<close>

fun member_keys_sorted :: "(string \<times> 'a) list \<Rightarrow> bool" where
  "member_keys_sorted [] = True"
| "member_keys_sorted ((k, v) # m) \<longleftrightarrow> list_all (\<lambda>x. text_less k (fst x)) m \<and> member_keys_sorted m"

fun wf_json :: "nat \<Rightarrow> json_value \<Rightarrow> bool" where
  "wf_json 0 v = False"
| "wf_json (Suc d) v =
     (case v of
        JString s \<Rightarrow> valid_utf8 s \<and> length s \<le> max_string_bytes
      | JNumber s \<Rightarrow> valid_json_number s
      | JArray vs \<Rightarrow> (\<forall>x \<in> set vs. wf_json d x)
      | JObject ms \<Rightarrow> member_keys_sorted ms \<and>
          (\<forall>(k, x) \<in> set ms. valid_utf8 k \<and> length k \<le> max_string_bytes \<and> wf_json d x)
      | _ \<Rightarrow> True)"

fun json_count :: "json_value \<Rightarrow> nat" where
  "json_count (JArray vs) = Suc (\<Sum>v\<leftarrow>vs. json_count v)"
| "json_count (JObject ms) = Suc (\<Sum>m\<leftarrow>ms. json_count (snd m))"
| "json_count _ = 1"

lemma insert_member_sorted:
  "member_keys_sorted m \<Longrightarrow> member_keys_sorted (insert_member k v m) \<and>
   set (map fst (insert_member k v m)) \<subseteq> insert k (set (map fst m))"
proof (induction k v m rule: insert_member.induct)
  case (2 k v k' v' m)
  have "list_all (\<lambda>x. text_less k' (fst x)) (insert_member k v m)" if "\<not> text_less k k'" "k \<noteq> k'"
  proof -
    have "text_less k' k" using that text_less_total by blast
    with 2 that show ?thesis by (fastforce simp: list_all_iff)
  qed
  with 2 show ?case by (auto simp: list_all_iff intro: text_less_trans)
qed simp

lemma insert_member_mem: "(k', v') \<in> set (insert_member k v m) \<Longrightarrow> (k', v') = (k, v) \<or> (k', v') \<in> set m"
  by (induction k v m rule: insert_member.induct) (auto split: if_splits)

lemma insert_member_last:
  "list_all (\<lambda>x. text_less (fst x) k) m \<Longrightarrow> insert_member k v m = m @ [(k, v)]"
proof (induction k v m rule: insert_member.induct)
  case (2 k v k' v' m)
  then have "\<not> text_less k k'" "k \<noteq> k'" using text_less_trans text_less_irrefl by fastforce+
  with 2 show ?case by simp
qed simp

lemma sorted_lookup_none:
  assumes "list_all (\<lambda>x. text_less (fst x) k) m"
  shows "map_of m k = None"
  using assms by (induction m) auto

lemma insert_member_count:
  "map_of m k = None \<Longrightarrow> (\<Sum>x\<leftarrow>insert_member k v m. json_count (snd x)) = json_count v + (\<Sum>x\<leftarrow>m. json_count (snd x))"
  by (induction k v m rule: insert_member.induct) (auto split: if_splits)

section \<open>Tokens of canonical texts\<close>

lemma json_space_chars: "\<not> json_space (CHR ''['')" "\<not> json_space (CHR '']'')" "\<not> json_space (CHR ''{'')"
  "\<not> json_space (CHR ''}'')" "\<not> json_space (CHR '':'')" "\<not> json_space (CHR '','')" "\<not> json_space (CHR 0x22)"
  "\<not> json_space (CHR ''-'')" "\<not> json_space (CHR ''t'')" "\<not> json_space (CHR ''f'')" "\<not> json_space (CHR ''n'')"
  "json_digit c \<Longrightarrow> \<not> json_space c"
  by (auto simp: json_space_def json_digit_def byte_def)

text \<open>The first character of a value's text, which decides the branch of the tokenizer.\<close>

definition value_start :: "char \<Rightarrow> bool" where
  "value_start c \<longleftrightarrow> c \<in> {CHR ''['', CHR ''{'', CHR 0x22, CHR ''-'', CHR ''t'', CHR ''f'', CHR ''n''} \<or> json_digit c"

lemma value_start_char:
  assumes "value_start c"
  shows "\<not> json_space c" "c \<noteq> CHR '']''" "c \<noteq> CHR ''}''" "c \<noteq> CHR '':''" "c \<noteq> CHR '',''"
proof -
  have "\<not> json_digit (CHR '']'')" "\<not> json_digit (CHR ''}'')" "\<not> json_digit (CHR '':'')" "\<not> json_digit (CHR '','')"
    by (simp_all add: json_digit_def byte_def)
  then show "\<not> json_space c" "c \<noteq> CHR '']''" "c \<noteq> CHR ''}''" "c \<noteq> CHR '':''" "c \<noteq> CHR '',''"
    using assms json_space_chars by (auto simp: value_start_def)
qed

lemma canonical_start: "canonical_json v = Some t \<Longrightarrow> \<exists>c cs. t = c # cs \<and> value_start c"
proof (cases v)
  case (JNumber x)
  assume "canonical_json v = Some t"
  then have "t = x" "number_text x" using JNumber valid_json_number_iff by (auto split: if_splits)
  then show ?thesis using number_text_head [of x] by (auto simp: value_start_def)
qed (auto simp: value_start_def quote_string_def)

lemma more_start: "value_start c \<Longrightarrow> more (st, stack, c # cs)"
  by (simp add: more_def value_start_char)

lemma more_comma: "more (st, stack, CHR '','' # cs)"
  by (simp add: more_def json_space_chars)

lemma more_close: "\<not> more (st, stack, CHR '']'' # cs)" "\<not> more (st, stack, CHR ''}'' # cs)"
  by (simp_all add: more_def json_space_chars)

lemma next_token_open:
  "value_allowed st \<Longrightarrow> next_token (st, stack, CHR ''['' # cs) = Inr (TokDelim (CHR ''[''), ArrayStart, st # stack, cs)"
  "value_allowed st \<Longrightarrow> next_token (st, stack, CHR ''{'' # cs) = Inr (TokDelim (CHR ''{''), ObjectStart, st # stack, cs)"
  by (subst next_token.simps, simp add: json_space_chars)+

lemma next_token_close:
  "st = ArrayStart \<or> st = ArrayComma \<Longrightarrow>
   next_token (st, p # ps, CHR '']'' # cs) = Inr (TokDelim (CHR '']''), value_end p, ps, cs)"
  "st = ObjectStart \<or> st = ObjectComma \<Longrightarrow>
   next_token (st, p # ps, CHR ''}'' # cs) = Inr (TokDelim (CHR ''}''), value_end p, ps, cs)"
  by (subst next_token.simps, simp add: json_space_chars)+

lemma next_token_skip:
  "next_token (ObjectColon, stack, CHR '':'' # cs) = next_token (ObjectValue, stack, cs)"
  "next_token (ArrayComma, stack, CHR '','' # cs) = next_token (ArrayValue, stack, cs)"
  "next_token (ObjectComma, stack, CHR '','' # cs) = next_token (ObjectKey, stack, cs)"
  by (subst next_token.simps, simp add: json_space_chars)+

lemma next_token_key:
  "st = ObjectStart \<or> st = ObjectKey \<Longrightarrow> read_string cs = Some (key, rest) \<Longrightarrow>
   next_token (st, stack, CHR 0x22 # cs) = Inr (TokString key, ObjectColon, stack, rest)"
  by (subst next_token.simps) (auto simp: json_space_chars)

lemma next_token_scalar:
  assumes "value_allowed st" and "value_start c" and "c \<noteq> CHR ''[''" and "c \<noteq> CHR ''{''"
    and "read_scalar (c # cs) = Some (t, rest)"
  shows "next_token (st, stack, c # cs) = Inr (t, value_end st, stack, rest)"
proof -
  have "st \<noteq> ObjectStart \<and> st \<noteq> ObjectKey" using assms(1) by (auto simp: value_allowed_def)
  then show ?thesis using assms value_start_char [OF assms(2)] by (subst next_token.simps) simp
qed

lemma read_value_token: "next_token d = next_token d' \<Longrightarrow> read_value k m (d, n) = read_value k m (d', n)"
  by (cases k) simp_all

lemma read_value_skip:
  "read_value k m ((ObjectColon, stack, CHR '':'' # cs), n) = read_value k m ((ObjectValue, stack, cs), n)"
  "read_value k m ((ArrayComma, stack, CHR '','' # cs), n) = read_value k m ((ArrayValue, stack, cs), n)"
  by (rule read_value_token, simp add: next_token_skip)+

section \<open>Reading a canonical text\<close>

lemma read_value_scalar:
  assumes "value_allowed st" "value_start c" "c \<noteq> CHR ''[''" "c \<noteq> CHR ''{''" "read_scalar (c # cs) = Some (t, rest)"
    and "n < m" and "\<And>s. t = TokString s \<Longrightarrow> length s \<le> max_string_bytes" and "\<And>d. t \<noteq> TokDelim d"
  shows "read_value (Suc k) m ((st, stack, c # cs), n) =
    Inr (case t of TokString s \<Rightarrow> JString s | TokNumber s \<Rightarrow> JNumber s | TokBool b \<Rightarrow> JBool b | _ \<Rightarrow> JNull,
      (value_end st, stack, rest), n + 1)"
  using next_token_scalar [OF assms(1-5), of stack] assms(6-8) by (cases t) (force split: json_token.split)+

lemma number_not_literal:
  assumes "c = CHR ''-'' \<or> json_digit c"
  shows "\<not> starts_with ''true'' (c # cs)" "\<not> starts_with ''false'' (c # cs)" "\<not> starts_with ''null'' (c # cs)" "c \<noteq> CHR 0x22"
  using assms by (auto simp: starts_with_def json_digit_def byte_def)

lemma length_canonical_items: "canonical_items vs = Some ts \<Longrightarrow> length ts = length vs"
  by (induction vs arbitrary: ts) (auto split: option.splits)

lemma length_canonical_members: "canonical_members ms = Some ts \<Longrightarrow> length ts = length ms"
  by (induction ms arbitrary: ts) (auto split: option.splits)

text \<open>\<open>tail_of\<close> is what follows an element: the other elements, each after a comma.\<close>

definition tail_of :: "string list \<Rightarrow> string" where
  "tail_of ts = concat (map (\<lambda>t. CHR '','' # t) ts)"

lemma join_tail: "join_with '','' (t # ts) = t @ tail_of ts"
  by (induction ts arbitrary: t) (simp_all add: tail_of_def)

lemma tail_of_simps [simp]: "tail_of [] = []" "tail_of (t # ts) = CHR '','' # t @ tail_of ts"
  by (simp_all add: tail_of_def)

lemma length_tail_of: "length ts \<le> length (tail_of ts)"
  by (induction ts) simp_all

lemma number_end_tail: "number_end (tail_of ts @ CHR '']'' # rest)" "number_end (tail_of ts @ CHR ''}'' # rest)"
  by (cases ts; simp add: number_end_def json_digit_def byte_def)+

text \<open>What the induction hypothesis says of one element at depth \<open>d\<close>.\<close>

definition reads_back :: "nat \<Rightarrow> nat \<Rightarrow> json_value \<Rightarrow> bool" where
  "reads_back d m v \<longleftrightarrow> (\<forall>t st stack rest n. canonical_json v = Some t \<longrightarrow> value_allowed st \<longrightarrow> number_end rest \<longrightarrow>
     n + json_count v \<le> m \<longrightarrow>
     read_value d m ((st, stack, t @ rest), n) = Inr (v, (value_end st, stack, rest), n + json_count v))"

lemma reads_backD:
  "reads_back d m v \<Longrightarrow> canonical_json v = Some t \<Longrightarrow> value_allowed st \<Longrightarrow> number_end rest \<Longrightarrow> n + json_count v \<le> m \<Longrightarrow>
   read_value d m ((st, stack, t @ rest), n) = Inr (v, (value_end st, stack, rest), n + json_count v)"
  by (simp add: reads_back_def)

lemma read_items_tail:
  assumes "list_all (reads_back d m) vs" "canonical_items vs = Some ts" "length ts < fuel"
    and "n + (\<Sum>v\<leftarrow>vs. json_count v) \<le> m"
  shows "read_items (read_value d m) fuel arr ((ArrayComma, p # ps, tail_of ts @ CHR '']'' # rest), n) =
    Inr (JArray (arr @ vs), (value_end p, ps, rest), n + (\<Sum>v\<leftarrow>vs. json_count v))"
  using assms
proof (induction vs arbitrary: ts fuel n arr)
  case Nil
  then show ?case by (cases fuel) (simp_all add: more_close next_token_close)
next
  case (Cons v vs)
  obtain t ts' where ts: "ts = t # ts'" "canonical_json v = Some t" "canonical_items vs = Some ts'"
    using Cons.prems(2) by (auto split: option.splits)
  obtain fuel' where fuel: "fuel = Suc fuel'" "length ts' < fuel'" using Cons.prems(3) ts(1) by (cases fuel) auto
  have "read_value d m ((ArrayComma, p # ps, CHR '','' # t @ tail_of ts' @ CHR '']'' # rest), n) =
      Inr (v, (ArrayComma, p # ps, tail_of ts' @ CHR '']'' # rest), n + json_count v)"
    unfolding read_value_skip
    using reads_backD [of d m v t ArrayValue "tail_of ts' @ CHR '']'' # rest" n "p # ps"] Cons.prems(1,4) ts(2) number_end_tail
    by (simp add: value_allowed_def value_end_def)
  then show ?case
    using Cons.IH [of ts' fuel' "n + json_count v" "arr @ [v]"] Cons.prems(1,4) ts fuel by (simp add: more_comma add.assoc)
qed

lemma read_array_text:
  assumes "list_all (reads_back d m) vs" "canonical_items vs = Some ts" "value_allowed st" "n + json_count (JArray vs) \<le> m"
  shows "read_value (Suc d) m ((st, stack, ''['' @ join_with '','' ts @ '']'' @ rest), n) =
    Inr (JArray vs, (value_end st, stack, rest), n + json_count (JArray vs))"
proof -
  define T where T: "T = join_with '','' ts @ CHR '']'' # rest"
  have step: "read_value (Suc d) m ((st, stack, CHR ''['' # T), n) =
      read_items (read_value d m) (Suc (length T)) [] ((ArrayStart, st # stack, T), n + 1)"
    using assms(3,4) by (simp add: next_token_open del: read_items.simps)
  show ?thesis
  proof (cases vs)
    case Nil
    then show ?thesis using step assms(2) by (simp add: T more_close next_token_close)
  next
    case (Cons v vs')
    obtain t ts' where ts: "ts = t # ts'" "canonical_json v = Some t" "canonical_items vs' = Some ts'"
      using assms(2) Cons by (auto split: option.splits)
    obtain c cs where t: "t = c # cs" "value_start c" using canonical_start [OF ts(2)] by blast
    have shape: "T = t @ tail_of ts' @ CHR '']'' # rest" using ts(1) join_tail [of t ts'] by (simp add: T)
    have "read_value d m ((ArrayStart, st # stack, t @ tail_of ts' @ CHR '']'' # rest), n + 1) =
        Inr (v, (ArrayComma, st # stack, tail_of ts' @ CHR '']'' # rest), n + 1 + json_count v)"
      using reads_backD [of d m v t ArrayStart "tail_of ts' @ CHR '']'' # rest" "n + 1" "st # stack"] assms(1,4) ts(2)
        number_end_tail Cons by (simp add: value_allowed_def value_end_def)
    moreover have "length ts' < length T" using length_tail_of [of ts'] shape by simp
    ultimately show ?thesis
      using step shape t read_items_tail [of d m vs' ts' "length T" "n + 1 + json_count v" "[v]" st stack rest] assms(1,4) ts(3) Cons
      by (simp add: T more_start add.assoc)
  qed
qed

lemma read_members_tail:
  assumes "list_all (\<lambda>(k, v). reads_back d m v \<and> valid_utf8 k \<and> length k \<le> max_string_bytes) ms"
    and "canonical_members ms = Some ts" "length ts < fuel" "member_keys_sorted ms"
    and "list_all (\<lambda>x. list_all (\<lambda>y. text_less (fst x) (fst y)) ms) obj"
    and "n + (\<Sum>x\<leftarrow>ms. json_count (snd x)) \<le> m"
  shows "read_members (read_value d m) fuel obj ((ObjectComma, p # ps, tail_of ts @ CHR ''}'' # rest), n) =
    Inr (JObject (obj @ ms), (value_end p, ps, rest), n + (\<Sum>x\<leftarrow>ms. json_count (snd x)))"
  using assms
proof (induction ms arbitrary: ts fuel n obj)
  case Nil
  then show ?case by (cases fuel) (simp_all add: more_close next_token_close)
next
  case (Cons x ms)
  obtain k v where x: "x = (k, v)" by force
  obtain t ts' where ts: "ts = (quote_string k @ '':'' @ t) # ts'" "canonical_json v = Some t" "canonical_members ms = Some ts'"
    using Cons.prems(2) x by (auto split: option.splits)
  obtain fuel' where fuel: "fuel = Suc fuel'" "length ts' < fuel'" using Cons.prems(3) ts(1) by (cases fuel) auto
  let ?after = "tail_of ts' @ CHR ''}'' # rest"
  have less: "list_all (\<lambda>y. text_less (fst y) k) obj" using Cons.prems(5) x by (auto simp: list_all_iff)
  have key: "next_token (ObjectComma, p # ps, CHR '','' # CHR 0x22 # escape_string k @ CHR 0x22 # CHR '':'' # t @ ?after) =
      Inr (TokString k, ObjectColon, p # ps, CHR '':'' # t @ ?after)"
    unfolding next_token_skip using Cons.prems(1) x by (intro next_token_key) (auto intro: read_escape_string)
  have val: "read_value d m ((ObjectColon, p # ps, CHR '':'' # t @ ?after), n) =
      Inr (v, (ObjectComma, p # ps, ?after), n + json_count v)"
    unfolding read_value_skip
    using reads_backD [of d m v t ObjectValue ?after n "p # ps"] Cons.prems(1,6) ts(2) number_end_tail x
    by (simp add: value_allowed_def value_end_def)
  have "list_all (\<lambda>z. list_all (\<lambda>y. text_less (fst z) (fst y)) ms) (obj @ [(k, v)])"
    using Cons.prems(4,5) x by (auto simp: list_all_iff)
  then have "read_members (read_value d m) fuel' (obj @ [(k, v)]) ((ObjectComma, p # ps, ?after), n + json_count v) =
      Inr (JObject ((obj @ [(k, v)]) @ ms), (value_end p, ps, rest), n + json_count v + (\<Sum>x\<leftarrow>ms. json_count (snd x)))"
    using Cons.IH [of ts' fuel' "obj @ [(k, v)]" "n + json_count v"] Cons.prems(1,4,6) ts fuel x by simp
  moreover have "\<not> length k > max_string_bytes" using Cons.prems(1) x by simp
  ultimately show ?case
    using key val sorted_lookup_none [OF less] insert_member_last [OF less] ts(1) fuel x
    by (simp add: more_comma quote_string_def add.assoc)
qed

lemma read_object_text:
  assumes "list_all (\<lambda>(k, v). reads_back d m v \<and> valid_utf8 k \<and> length k \<le> max_string_bytes) ms"
    and "canonical_members ms = Some ts" "member_keys_sorted ms" "value_allowed st" "n + json_count (JObject ms) \<le> m"
  shows "read_value (Suc d) m ((st, stack, ''{'' @ join_with '','' ts @ ''}'' @ rest), n) =
    Inr (JObject ms, (value_end st, stack, rest), n + json_count (JObject ms))"
proof -
  define T where T: "T = join_with '','' ts @ CHR ''}'' # rest"
  have step: "read_value (Suc d) m ((st, stack, CHR ''{'' # T), n) =
      read_members (read_value d m) (Suc (length T)) [] ((ObjectStart, st # stack, T), n + 1)"
    using assms(4,5) by (simp add: next_token_open del: read_members.simps)
  show ?thesis
  proof (cases ms)
    case Nil
    then show ?thesis using step assms(2) by (simp add: T more_close next_token_close)
  next
    case (Cons x ms')
    obtain k v where x: "x = (k, v)" by force
    obtain t ts' where ts: "ts = (quote_string k @ '':'' @ t) # ts'" "canonical_json v = Some t" "canonical_members ms' = Some ts'"
      using assms(2) Cons x by (auto split: option.splits)
    let ?after = "tail_of ts' @ CHR ''}'' # rest"
    have shape: "T = CHR 0x22 # escape_string k @ CHR 0x22 # CHR '':'' # t @ ?after"
      using ts(1) join_tail [of "quote_string k @ '':'' @ t" ts'] by (simp add: T quote_string_def)
    have key: "next_token (ObjectStart, st # stack, T) = Inr (TokString k, ObjectColon, st # stack, CHR '':'' # t @ ?after)"
      unfolding shape using assms(1) Cons x by (intro next_token_key) (auto intro: read_escape_string)
    have val: "read_value d m ((ObjectColon, st # stack, CHR '':'' # t @ ?after), n + 1) =
        Inr (v, (ObjectComma, st # stack, ?after), n + 1 + json_count v)"
      unfolding read_value_skip
      using reads_backD [of d m v t ObjectValue ?after "n + 1" "st # stack"] assms(1,5) ts(2) number_end_tail Cons x
      by (simp add: value_allowed_def value_end_def)
    have "more (ObjectStart, st # stack, T)" unfolding shape by (intro more_start) (simp add: value_start_def)
    moreover have "length ts' < length T" using length_tail_of [of ts'] unfolding shape by simp
    then have "read_members (read_value d m) (length T) [(k, v)] ((ObjectComma, st # stack, ?after), n + 1 + json_count v) =
        Inr (JObject ms, (value_end st, stack, rest), n + json_count (JObject ms))"
      using read_members_tail [of d m ms' ts' "length T" "[(k, v)]" "n + 1 + json_count v" st stack rest] assms(1,3,5) ts(3) Cons x
      by (simp add: list_all_iff)
    moreover have "\<not> length k > max_string_bytes" using assms(1) Cons x by simp
    ultimately show ?thesis using step key val by (simp add: T [symmetric])
  qed
qed

lemma reads_back_scalar:
  assumes "canonical_json v = Some t" "t = c # cs" "value_start c" "c \<noteq> CHR ''[''" "c \<noteq> CHR ''{''" "json_count v = 1" "n + 1 \<le> m"
    and "value_allowed st"
    and "read_scalar (c # cs @ rest) = Some (tok, rest)" "\<And>d. tok \<noteq> TokDelim d"
    and "\<And>s. tok = TokString s \<Longrightarrow> length s \<le> max_string_bytes"
    and "(case tok of TokString s \<Rightarrow> JString s | TokNumber s \<Rightarrow> JNumber s | TokBool b \<Rightarrow> JBool b | _ \<Rightarrow> JNull) = v"
  shows "read_value (Suc d) m ((st, stack, t @ rest), n) = Inr (v, (value_end st, stack, rest), n + json_count v)"
  using read_value_scalar [OF assms(8,3-5,9), of n m d stack] assms by simp

lemma reads_back_wf: "wf_json d v \<Longrightarrow> reads_back d m v"
proof (induction d arbitrary: v)
  case (Suc d)
  show ?case
  proof (cases v)
    case (JArray vs)
    then have "list_all (reads_back d m) vs" using Suc by (auto simp: list_all_iff)
    then show ?thesis using JArray read_array_text [of d m vs]
      by (auto simp: reads_back_def simp del: read_value.simps json_count.simps)
  next
    case (JObject ms)
    then have "list_all (\<lambda>(k, v). reads_back d m v \<and> valid_utf8 k \<and> length k \<le> max_string_bytes) ms" "member_keys_sorted ms"
      using Suc by (auto simp: list_all_iff)
    then show ?thesis using JObject read_object_text [of d m ms]
      by (auto simp: reads_back_def simp del: read_value.simps json_count.simps)
  next
    case JNull
    have "read_scalar (CHR ''n'' # ''ull'' @ rest) = Some (TokNull, rest)" for rest
      by (simp add: read_scalar_def starts_with_def)
    then show ?thesis unfolding reads_back_def using JNull
      by (intro allI impI reads_back_scalar [where c = "CHR ''n''" and cs = "''ull''"]) (auto simp: value_start_def)
  next
    case (JBool b)
    have "read_scalar (CHR ''t'' # ''rue'' @ rest) = Some (TokBool True, rest)"
      "read_scalar (CHR ''f'' # ''alse'' @ rest) = Some (TokBool False, rest)" for rest
      by (simp_all add: read_scalar_def starts_with_def)
    note scalars = this
    show ?thesis
    proof (cases b)
      case True
      then show ?thesis unfolding reads_back_def using JBool scalars(1)
        by (intro allI impI reads_back_scalar [where c = "CHR ''t''" and cs = "''rue''" and tok = "TokBool True"])
          (auto simp: value_start_def)
    next
      case False
      then show ?thesis unfolding reads_back_def using JBool scalars(2)
        by (intro allI impI reads_back_scalar [where c = "CHR ''f''" and cs = "''alse''" and tok = "TokBool False"])
          (auto simp: value_start_def)
    qed
  next
    case (JString x)
    then have "valid_utf8 x" "length x \<le> max_string_bytes" using Suc(2) by auto
    moreover have "read_scalar (CHR 0x22 # (escape_string x @ [CHR 0x22]) @ rest) = Some (TokString x, rest)" for rest
      using read_escape_string [OF calculation(1), of rest] by (simp add: read_scalar_def)
    ultimately show ?thesis unfolding reads_back_def using JString
      by (intro allI impI reads_back_scalar [where c = "CHR 0x22" and cs = "escape_string x @ [CHR 0x22]"])
        (auto simp: value_start_def quote_string_def)
  next
    case (JNumber x)
    then have x: "number_text x" using Suc(2) valid_json_number_iff by simp
    then obtain c cs where c: "x = c # cs" "c = CHR ''-'' \<or> json_digit c" using number_text_head by blast
    have "read_scalar (c # cs @ rest) = Some (TokNumber x, rest)" if "number_end rest" for rest
      using read_number_complete [OF x that] number_not_literal [OF c(2)] c(1) by (simp add: read_scalar_def)
    moreover have "value_start c" "c \<noteq> CHR ''[''" "c \<noteq> CHR ''{''"
      using c(2) by (auto simp: value_start_def json_digit_def byte_def)
    ultimately show ?thesis unfolding reads_back_def using JNumber c(1)
      by (intro allI impI reads_back_scalar [where c = c and cs = cs]) (auto split: if_splits)
  qed
qed simp

lemma canonical_items_total: "(\<And>v. v \<in> set vs \<Longrightarrow> \<exists>t. canonical_json v = Some t) \<Longrightarrow> \<exists>ts. canonical_items vs = Some ts"
proof (induction vs)
  case (Cons v vs)
  then obtain t ts where "canonical_json v = Some t" "canonical_items vs = Some ts" by fastforce
  then show ?case by simp
qed simp

lemma canonical_members_total:
  "(\<And>k v. (k, v) \<in> set ms \<Longrightarrow> \<exists>t. canonical_json v = Some t) \<Longrightarrow> \<exists>ts. canonical_members ms = Some ts"
proof (induction ms)
  case (Cons x ms)
  obtain k v where x: "x = (k, v)" by force
  with Cons obtain t ts where "canonical_json v = Some t" "canonical_members ms = Some ts" by fastforce
  with x show ?case by simp
qed simp

lemma canonical_total: "wf_json d v \<Longrightarrow> \<exists>t. canonical_json v = Some t"
proof (induction d arbitrary: v)
  case (Suc d)
  show ?case
  proof (cases v)
    case (JArray vs)
    then show ?thesis using Suc canonical_items_total [of vs] by fastforce
  next
    case (JObject ms)
    then show ?thesis using Suc canonical_members_total [of ms] by fastforce
  qed (use Suc in auto)
qed simp

lemma parse_canonical:
  assumes "wf_json d v" "canonical_json v = Some t" "json_count v \<le> m"
  shows "parse_json t d m = Inr v"
proof -
  have "read_value d m ((TopValue, [], t @ []), 0) = Inr (v, (value_end TopValue, [], []), 0 + json_count v)"
    by (rule reads_backD [OF reads_back_wf [OF assms(1)] assms(2)]) (use assms(3) in \<open>simp_all add: value_allowed_def number_end_def\<close>)
  moreover have "next_token (TopValue, [], []) = Inl TokEof" by (subst next_token.simps) simp
  ultimately show ?thesis by (simp add: parse_json_def value_end_def)
qed

end
