(* ===== verification/Json_Sound.thy ===== *)
theory Json_Sound
  imports Json_Roundtrip
begin

text \<open>
  What the bounded parser returns: well-formed values within the limits of depth and number, and never for lack of
  fuel, since every token it reads is taken from the input. With the reading of canonical texts this gives the
  round trip through the canonical form.
\<close>

section \<open>Tokens\<close>

lemma read_scalar_sound:
  assumes "read_scalar s = Some (t, rest)"
  shows "length rest < length s \<and> (\<forall>x. t = TokString x \<longrightarrow> valid_utf8 x) \<and> (\<forall>x. t = TokNumber x \<longrightarrow> valid_json_number x)"
proof -
  obtain c cs where s: "s = c # cs" using assms by (cases s) (auto simp: read_scalar_def)
  consider x where "c = CHR 0x22" "read_string cs = Some (x, rest)" "t = TokString x"
    | k where "starts_with k s" "k \<noteq> []" "rest = drop (length k) s" "t \<in> {TokBool True, TokBool False, TokNull}"
    | x where "read_number s = Some (x, rest)" "t = TokNumber x"
  proof -
    assume str: "\<And>x. c = CHR 0x22 \<Longrightarrow> read_string cs = Some (x, rest) \<Longrightarrow> t = TokString x \<Longrightarrow> thesis"
      and lit: "\<And>k. starts_with k s \<Longrightarrow> k \<noteq> [] \<Longrightarrow> rest = drop (length k) s \<Longrightarrow> t \<in> {TokBool True, TokBool False, TokNull} \<Longrightarrow> thesis"
      and num: "\<And>x. read_number s = Some (x, rest) \<Longrightarrow> t = TokNumber x \<Longrightarrow> thesis"
    show thesis using assms s str lit [of "''true''"] lit [of "''false''"] lit [of "''null''"] num
      by (auto simp: read_scalar_def numeral_eq_Suc split: if_splits)
  qed
  then show ?thesis
  proof cases
    case (1 x)
    then show ?thesis using read_string_valid [OF 1(2)] s by simp
  next
    case (2 k)
    then have "0 < length k" by simp
    then show ?thesis using 2 s by auto
  next
    case (3 x)
    then have "s = x @ rest" "number_text x" using read_number_sound by blast+
    then show ?thesis using 3 number_text_head [of x] valid_json_number_iff by auto
  qed
qed

definition token_ok :: "json_token \<Rightarrow> bool" where
  "token_ok t \<longleftrightarrow> (\<forall>x. t = TokString x \<longrightarrow> valid_utf8 x) \<and> (\<forall>x. t = TokNumber x \<longrightarrow> valid_json_number x)"

abbreviation input_length :: "decoder \<Rightarrow> nat" where
  "input_length d \<equiv> length (snd (snd d))"

lemma next_token_sound:
  "next_token d = Inr (t, d') \<Longrightarrow> input_length d' < input_length d \<and> token_ok t"
proof (induction d arbitrary: t d' rule: next_token.induct)
  case (1 st stack s)
  show ?case
  proof (cases "dropWhile json_space s")
    case Nil
    then show ?thesis using 1(4) unfolding next_token.simps [of st stack s] by (simp only: list.case sum.distinct)
  next
    case (Cons c cs)
    have short: "length cs < length s" by (rule dropWhile_Cons_length [OF Cons])
    have short': "Suc (length cs) \<le> length s" using short by simp
    note IH = 1(1-3) [OF Cons]
    note eq = 1(4) [unfolded next_token.simps [of st stack s] Cons list.case]
    have scalar: "input_length d' < length s \<and> token_ok t" if "read_scalar (c # cs) = Some (x, rest)" "t = x" "snd (snd d') = rest" for x rest
      using read_scalar_sound [OF that(1)] that(2,3) short' by (auto simp: token_ok_def)
    have key: "input_length d' < length s \<and> token_ok t" if "read_string cs = Some (x, rest)" "t = TokString x" "snd (snd d') = rest" for x rest
      using read_string_valid [OF that(1)] that(2,3) short by (auto simp: token_ok_def)
    consider "c \<in> {CHR ''['', CHR '']'', CHR ''{'', CHR ''}''}" | "c = CHR '':''" | "c = CHR '',''"
      | "c \<notin> {CHR ''['', CHR '']'', CHR ''{'', CHR ''}'', CHR '':'', CHR '',''}" by blast
    then show ?thesis
    proof cases
      case 1
      then show ?thesis using eq short by (auto split: if_splits list.splits simp: token_ok_def)
    next
      case 2
      then have "st = ObjectColon" "next_token (ObjectValue, stack, cs) = Inr (t, d')" using eq by (auto split: if_splits)
      moreover have "input_length d' < input_length (ObjectValue, stack, cs) \<and> token_ok t" using 2 calculation by (intro IH(1)) auto
      ultimately show ?thesis using short by simp
    next
      case 3
      then consider "st = ArrayComma" "next_token (ArrayValue, stack, cs) = Inr (t, d')"
        | "st = ObjectComma" "next_token (ObjectKey, stack, cs) = Inr (t, d')" using eq by (auto split: if_splits)
      then show ?thesis
      proof cases
        case 1
        have "input_length d' < input_length (ArrayValue, stack, cs) \<and> token_ok t" using 3 1 by (intro IH(2)) auto
        then show ?thesis using short by simp
      next
        case 2
        have "input_length d' < input_length (ObjectKey, stack, cs) \<and> token_ok t" using 3 2 by (intro IH(3)) auto
        then show ?thesis using short by simp
      qed
    next
      case 4
      then show ?thesis using eq scalar key by (auto split: if_splits option.splits prod.splits)
    qed
  qed
qed

section \<open>The parser\<close>

text \<open>What is needed of the reader of one element at the remaining depth \<open>d\<close>.\<close>

definition reader_ok :: "nat \<Rightarrow> nat \<Rightarrow> reader \<Rightarrow> bool" where
  "reader_ok d m rd \<longleftrightarrow>
     (\<forall>p. rd p \<noteq> Inl ParserStuck) \<and>
     (\<forall>p v p'. rd p = Inr (v, p') \<longrightarrow> wf_json d v \<and> snd p' = snd p + json_count v \<and> snd p' \<le> m \<and>
        input_length (fst p') < input_length (fst p))"

lemma reader_okD:
  assumes "reader_ok d m rd"
  shows "rd p \<noteq> Inl ParserStuck" and "rd p = Inr (v, p') \<Longrightarrow> wf_json d v \<and> snd p' = snd p + json_count v \<and> snd p' \<le> m \<and>
    input_length (fst p') < input_length (fst p)"
  using assms unfolding reader_ok_def by blast+

lemma read_items_sound:
  assumes "reader_ok d m rd" "input_length dec < fuel" "list_all (wf_json d) arr" "n \<le> m"
  shows "read_items rd fuel arr (dec, n) \<noteq> Inl ParserStuck \<and>
    (\<forall>v p'. read_items rd fuel arr (dec, n) = Inr (v, p') \<longrightarrow> wf_json (Suc d) v \<and>
       snd p' + (\<Sum>x\<leftarrow>arr. json_count x) + 1 = n + json_count v \<and> snd p' \<le> m \<and> input_length (fst p') < input_length dec)"
  using assms(2-)
proof (induction fuel arbitrary: arr dec n)
  case (Suc fuel)
  show ?case
  proof (cases "more dec")
    case False
    then show ?thesis using Suc.prems next_token_sound [of dec]
      by (auto simp: list_all_iff split: sum.splits prod.splits)
  next
    case True
    show ?thesis
    proof (cases "rd (dec, n)")
      case (Inl e)
      then show ?thesis using True reader_okD(1) [OF assms(1), of "(dec, n)"] by auto
    next
      case (Inr q)
      obtain v dec1 n1 where q: "q = (v, dec1, n1)" by (metis prod_cases3)
      note ok = reader_okD(2) [OF assms(1) Inr [unfolded q]]
      have "read_items rd (Suc fuel) arr (dec, n) = read_items rd fuel (arr @ [v]) (dec1, n1)" using True Inr q by simp
      moreover have "input_length dec1 < fuel" "list_all (wf_json d) (arr @ [v])" "n1 \<le> m"
        using ok Suc.prems by auto
      note IH = Suc.IH [OF this]
      ultimately show ?thesis using IH ok by (auto; fastforce)
    qed
  qed
qed simp

lemma read_members_sound:
  assumes "reader_ok d m rd" "input_length dec < fuel" "member_keys_sorted obj" "n \<le> m"
    and "list_all (\<lambda>(k, x). valid_utf8 k \<and> length k \<le> max_string_bytes \<and> wf_json d x) obj"
  shows "read_members rd fuel obj (dec, n) \<noteq> Inl ParserStuck \<and>
    (\<forall>v p'. read_members rd fuel obj (dec, n) = Inr (v, p') \<longrightarrow> wf_json (Suc d) v \<and>
       snd p' + (\<Sum>x\<leftarrow>obj. json_count (snd x)) + 1 = n + json_count v \<and> snd p' \<le> m \<and> input_length (fst p') < input_length dec)"
  using assms(2-)
proof (induction fuel arbitrary: obj dec n)
  case (Suc fuel)
  show ?case
  proof (cases "more dec")
    case False
    then show ?thesis using Suc.prems next_token_sound [of dec]
      by (auto simp: list_all_iff split: sum.splits prod.splits)
  next
    case True
    show ?thesis
    proof (cases "next_token dec")
      case (Inl e)
      then show ?thesis using True by auto
    next
      case (Inr q)
      obtain t dec1 where q: "q = (t, dec1)" by (metis surj_pair)
      note tok = next_token_sound [OF Inr [unfolded q]]
      show ?thesis
      proof (cases t)
        case (TokString key)
        show ?thesis
        proof (cases "length key > max_string_bytes \<or> map_of obj key \<noteq> None")
          case bad: True
          then show ?thesis using True Inr q TokString by (cases "length key > max_string_bytes") (simp_all del: not_None_eq)
        next
          case good: False
          show ?thesis
          proof (cases "rd (dec1, n)")
            case (Inl e)
            then show ?thesis using True Inr q TokString good reader_okD(1) [OF assms(1), of "(dec1, n)"] \<open>next_token dec = Inr q\<close>
              by auto
          next
            case (Inr w)
            obtain v dec2 n2 where w: "w = (v, dec2, n2)" by (metis prod_cases3)
            note ok = reader_okD(2) [OF assms(1) Inr [unfolded w]]
            let ?obj = "insert_member key v obj"
            have eq: "read_members rd (Suc fuel) obj (dec, n) = read_members rd fuel ?obj (dec2, n2)"
              using True \<open>next_token dec = Inr q\<close> q TokString good Inr w by simp
            have all: "list_all (\<lambda>(k, x). valid_utf8 k \<and> length k \<le> max_string_bytes \<and> wf_json d x) ?obj"
              using Suc.prems(4) ok tok good TokString insert_member_mem [of _ _ key v obj]
              by (fastforce simp: list_all_iff token_ok_def)
            have kept: "input_length dec2 < fuel" "member_keys_sorted ?obj" "n2 \<le> m"
              using ok tok Suc.prems(1-3) insert_member_sorted [of obj key v] by auto
            note IH = Suc.IH [OF kept all]
            have "(\<Sum>x\<leftarrow>?obj. json_count (snd x)) = json_count v + (\<Sum>x\<leftarrow>obj. json_count (snd x))"
              using insert_member_count good by blast
            then show ?thesis unfolding eq using IH ok tok by fastforce
          qed
        qed
      qed (use True Inr q in auto)
    qed
  qed
qed simp

lemma read_value_ok: "reader_ok d m (read_value d m)"
proof (induction d)
  case 0
  then show ?case by (simp add: reader_ok_def)
next
  case (Suc d)
  have "read_value (Suc d) m (dec, n) \<noteq> Inl ParserStuck \<and>
    (\<forall>v p'. read_value (Suc d) m (dec, n) = Inr (v, p') \<longrightarrow> wf_json (Suc d) v \<and> snd p' = n + json_count v \<and>
       snd p' \<le> m \<and> input_length (fst p') < input_length dec)" for dec n
  proof (cases "next_token dec")
    case (Inl e)
    then show ?thesis by simp
  next
    case (Inr q)
    obtain t dec1 where q: "q = (t, dec1)" by (metis surj_pair)
    note tok = next_token_sound [OF Inr [unfolded q]]
    show ?thesis
    proof (cases "n + 1 > m")
      case True
      then show ?thesis using Inr q by simp
    next
      case False
      have members: "read_members (read_value d m) (Suc (input_length dec1)) [] (dec1, n + 1) \<noteq> Inl ParserStuck \<and>
          (\<forall>v p'. read_members (read_value d m) (Suc (input_length dec1)) [] (dec1, n + 1) = Inr (v, p') \<longrightarrow> wf_json (Suc d) v \<and>
            snd p' + 1 = n + 1 + json_count v \<and> snd p' \<le> m \<and> input_length (fst p') < input_length dec1)"
        using read_members_sound [OF Suc, of dec1 "Suc (input_length dec1)" "[]" "n + 1"] False by simp
      have items: "read_items (read_value d m) (Suc (input_length dec1)) [] (dec1, n + 1) \<noteq> Inl ParserStuck \<and>
          (\<forall>v p'. read_items (read_value d m) (Suc (input_length dec1)) [] (dec1, n + 1) = Inr (v, p') \<longrightarrow> wf_json (Suc d) v \<and>
            snd p' + 1 = n + 1 + json_count v \<and> snd p' \<le> m \<and> input_length (fst p') < input_length dec1)"
        using read_items_sound [OF Suc, of dec1 "Suc (input_length dec1)" "[]" "n + 1"] False by simp
      show ?thesis
      proof (cases t)
        case (TokDelim c)
        consider "c = CHR ''{''" | "c = CHR ''[''" | "c \<noteq> CHR ''{''" "c \<noteq> CHR ''[''" by blast
        then show ?thesis
        proof cases
          case 1
          then have "read_value (Suc d) m (dec, n) = read_members (read_value d m) (Suc (input_length dec1)) [] (dec1, n + 1)"
            using Inr q TokDelim False by (simp del: read_members.simps)
          then show ?thesis using members tok by fastforce
        next
          case 2
          then have "read_value (Suc d) m (dec, n) = read_items (read_value d m) (Suc (input_length dec1)) [] (dec1, n + 1)"
            using Inr q TokDelim False by (simp del: read_items.simps)
          then show ?thesis using items tok by fastforce
        next
          case 3
          then show ?thesis using Inr q TokDelim False by simp
        qed
      qed (use Inr q False tok in \<open>auto simp: token_ok_def\<close>)
    qed
  qed
  then show ?case unfolding reader_ok_def by (metis fst_conv prod.collapse snd_conv)
qed

section \<open>The parser and the canonical form\<close>

lemma parse_json_sound:
  assumes "parse_json s d m = Inr v"
  shows "wf_json d v \<and> json_count v \<le> m"
proof -
  obtain dec n where "read_value d m ((TopValue, [], s), 0) = Inr (v, dec, n)"
    using assms by (auto simp: parse_json_def split: sum.splits prod.splits token_error.splits)
  from reader_okD(2) [OF read_value_ok this] show ?thesis by simp
qed

text \<open>
  C33. The bounded parser always decides: it never runs out of steps, and what it accepts is a value within its limits
  whose strings are valid UTF-8, whose numbers are JSON numbers and whose objects have no repeated member.
\<close>

theorem parser_total_and_sound:
  "(case parse_json s d m of
      Inl e \<Rightarrow> e \<noteq> ParserStuck
    | Inr v \<Rightarrow> wf_json d v \<and> json_count v \<le> m)"
proof (cases "parse_json s d m")
  case (Inl e)
  then have "e \<noteq> ParserStuck"
    using reader_okD(1) [OF read_value_ok, of d m "((TopValue, [], s), 0)"]
    by (auto simp: parse_json_def split: sum.splits prod.splits token_error.splits)
  with Inl show ?thesis by simp
next
  case (Inr v)
  with parse_json_sound show ?thesis by simp
qed

text \<open>
  C34. Every text the parser accepts has a canonical form, and parsing the canonical form gives the same value: white
  space, escapes and the order of members are all that is lost.
\<close>

theorem canonical_form_reparses:
  assumes "parse_json s d m = Inr v"
  shows "\<exists>t. canonical_json v = Some t \<and> parse_json t d m = Inr v"
  using parse_json_sound [OF assms] canonical_total parse_canonical by blast

lemma canonical_form_reparses_witness:
  "\<exists>v t. parse_json ''[ true , { } ]'' 3 9 = Inr v \<and> canonical_json v = Some t \<and> parse_json t 3 9 = Inr v"
proof -
  have "parse_json ''[ true , { } ]'' 3 9 = Inr (JArray [JBool True, JObject []])" by code_simp
  from canonical_form_reparses [OF this] this show ?thesis by blast
qed

end
