(* ===== verification/Output_Schema.thy ===== *)
theory Output_Schema
  imports Json_Sound
begin

text \<open>
  Admission, restoration and use of structured-output schemas (\<^verbatim>\<open>internal/outputschema/schema.go\<close>). The validity of
  regular expressions, the digest and the schema compiler are functions of the environment. Go visits the
  members of a map in an order of its own choosing; the environment ranks the names, with the number of nodes counted so far
  as an argument, so that every visit may have another order.
\<close>

section \<open>The environment and errors\<close>

record 's schema_environment =
  se_rank :: "nat \<Rightarrow> string \<Rightarrow> nat"
  se_pattern_ok :: "string \<Rightarrow> bool"
  se_digest :: "string \<Rightarrow> string"
  se_compile :: "string \<Rightarrow> 's option"
  se_check :: "'s \<Rightarrow> json_value \<Rightarrow> bool"

datatype preflight_error =
  DraftUnsupported | DefsNotObject | NodesExceeded | SchemaShape | MembersExceeded | KeywordUnsupported
  | PatternNotString | PatternTooLong | PatternInvalid | RefInsideTarget | RefNotString | RefUnsupported | RefUnresolved
  | RefRepeated | RefsExceeded | BranchesExceeded | EntriesExceeded string | NotAnArray string | EntriesNotStrings string
  | EntryRepeated string | TypeArrayEmpty | PropertiesNotObject

datatype schema_error =
  SchemaTooLarge | SchemaNotUtf8 | SchemaParse parse_error | RootNotObject | PreflightFailed preflight_error | CanonicalFailed
  | CanonicalTooLarge | CompileFailed | PolicyUnsupported | IdentityMismatch
  | CandidateTooLarge | CandidateNotUtf8 | CandidateParse parse_error | AssertionFailed | ValueTooLarge

definition max_document_depth :: nat where "max_document_depth = 32"
definition max_document_values :: nat where "max_document_values = 8192"
definition max_schema_nodes :: nat where "max_schema_nodes = 1024"
definition max_schema_members :: nat where "max_schema_members = 4096"
definition max_branches :: nat where "max_branches = 128"
definition max_refs :: nat where "max_refs = 128"
definition max_array_entries :: nat where "max_array_entries = 256"
definition max_pattern_bytes :: nat where "max_pattern_bytes = 1024"
definition max_candidate_bytes :: nat where "max_candidate_bytes = 262144"
definition max_candidate_depth :: nat where "max_candidate_depth = 64"
definition max_candidate_values :: nat where "max_candidate_values = 16384"
definition max_value_bytes :: nat where "max_value_bytes = 65536"

definition sum_bind :: "'e + 'a \<Rightarrow> ('a \<Rightarrow> 'e + 'b) \<Rightarrow> 'e + 'b" where
  "sum_bind r f = (case r of Inl e \<Rightarrow> Inl e | Inr x \<Rightarrow> f x)"

lemma sum_bind_simps [simp]: "sum_bind (Inl e) f = Inl e" "sum_bind (Inr x) f = f x"
  by (simp_all add: sum_bind_def)

lemma sum_bind_cong [fundef_cong]:
  "r = r' \<Longrightarrow> (\<And>x. r' = Inr x \<Longrightarrow> f x = g x) \<Longrightarrow> sum_bind r f = sum_bind r' g"
  by (simp add: sum_bind_def split: sum.split)

section \<open>Checks of one schema object\<close>

record preflight_state =
  ps_used :: "string list"
  ps_nodes :: nat
  ps_members :: nat
  ps_branches :: nat
  ps_refs :: nat

definition allowed_keyword :: "string \<Rightarrow> bool" where
  "allowed_keyword k \<longleftrightarrow> k \<in> set [''$schema'', ''$defs'', ''$ref'', ''title'', ''description'', ''default'', ''examples'',
     ''deprecated'', ''readOnly'', ''writeOnly'', ''type'', ''enum'', ''const'', ''allOf'', ''anyOf'', ''oneOf'', ''not'',
     ''properties'', ''required'', ''additionalProperties'', ''minProperties'', ''maxProperties'', ''items'', ''prefixItems'',
     ''minItems'', ''maxItems'', ''uniqueItems'', ''minLength'', ''maxLength'', ''pattern'', ''minimum'', ''maximum'',
     ''exclusiveMinimum'', ''exclusiveMaximum'', ''multipleOf'']"

type_synonym json_object = "(string \<times> json_value) list"

definition count_node :: "preflight_state \<Rightarrow> preflight_error + preflight_state" where
  "count_node st = (let st' = st\<lparr>ps_nodes := ps_nodes st + 1\<rparr> in
     if ps_nodes st' > max_schema_nodes then Inl NodesExceeded else Inr st')"

definition check_object :: "json_object \<Rightarrow> preflight_state \<Rightarrow> preflight_error + preflight_state" where
  "check_object ms st = (let st' = st\<lparr>ps_members := ps_members st + length ms\<rparr> in
     if ps_members st' > max_schema_members then Inl MembersExceeded
     else if list_all (\<lambda>(k, _). allowed_keyword k) ms then Inr st' else Inl KeywordUnsupported)"

definition check_pattern :: "(string \<Rightarrow> bool) \<Rightarrow> json_object \<Rightarrow> preflight_error + unit" where
  "check_pattern ok ms = (case map_of ms ''pattern'' of
       None \<Rightarrow> Inr ()
     | Some (JString t) \<Rightarrow> if length t > max_pattern_bytes then Inl PatternTooLong else if ok t then Inr () else Inl PatternInvalid
     | Some _ \<Rightarrow> Inl PatternNotString)"

fun decode_pointer_token :: "string \<Rightarrow> string option" where
  "decode_pointer_token [] = Some []"
| "decode_pointer_token (c # cs) =
     (if c \<noteq> CHR ''~'' then map_option ((#) c) (decode_pointer_token cs)
      else (case cs of
          [] \<Rightarrow> None
        | d # rest \<Rightarrow>
            if d = CHR ''0'' then map_option ((#) (CHR ''~'')) (decode_pointer_token rest)
            else if d = CHR ''1'' then map_option ((#) (CHR ''/'')) (decode_pointer_token rest) else None))"

definition ref_name :: "string \<Rightarrow> string option" where
  "ref_name ref =
     (if \<not> starts_with ''#/$defs/'' ref then None
      else (let token = drop 8 ref in
        if token = [] \<or> list_ex (\<lambda>c. c \<in> {CHR ''/'', CHR ''%'', CHR ''?'', CHR ''#''}) token then None
        else decode_pointer_token token))"

definition schema_array :: "json_object \<Rightarrow> string \<Rightarrow> preflight_error + json_value list" where
  "schema_array ms k = (case map_of ms k of None \<Rightarrow> Inr [] | Some (JArray vs) \<Rightarrow> Inr vs | Some _ \<Rightarrow> Inl (NotAnArray k))"

fun unique_strings :: "string list \<Rightarrow> json_value list \<Rightarrow> string \<Rightarrow> preflight_error + unit" where
  "unique_strings seen [] k = Inr ()"
| "unique_strings seen (JString t # vs) k =
     (if t \<in> set seen then Inl (EntryRepeated k) else unique_strings (t # seen) vs k)"
| "unique_strings seen (_ # vs) k = Inl (EntriesNotStrings k)"

definition check_value_array :: "json_object \<Rightarrow> string \<Rightarrow> preflight_error + unit" where
  "check_value_array ms k = (case map_of ms k of
       None \<Rightarrow> Inr ()
     | Some (JArray vs) \<Rightarrow> if length vs > max_array_entries then Inl (EntriesExceeded k)
         else if k = ''required'' then unique_strings [] vs k else Inr ()
     | Some _ \<Rightarrow> Inl (NotAnArray k))"

definition check_value_arrays :: "json_object \<Rightarrow> preflight_error + unit" where
  "check_value_arrays ms =
     sum_bind (check_value_array ms ''enum'') (\<lambda>_. sum_bind (check_value_array ms ''required'') (\<lambda>_.
       (case map_of ms ''type'' of
          Some (JArray vs) \<Rightarrow> if vs = [] then Inl TypeArrayEmpty else unique_strings [] vs ''type''
        | _ \<Rightarrow> Inr ())))"

text \<open>The entries of a composition keyword, counted as branches, and those of \<open>prefixItems\<close>.\<close>

definition branch_children :: "json_object \<Rightarrow> string \<Rightarrow> preflight_state \<Rightarrow> preflight_error + json_value list \<times> preflight_state" where
  "branch_children ms k st = sum_bind (schema_array ms k) (\<lambda>vs.
     let st' = st\<lparr>ps_branches := ps_branches st + length vs\<rparr> in
     if ps_branches st' > max_branches then Inl BranchesExceeded else Inr (vs, st'))"

definition prefix_children :: "json_object \<Rightarrow> preflight_error + json_value list" where
  "prefix_children ms = sum_bind (schema_array ms ''prefixItems'') (\<lambda>vs.
     if length vs > max_array_entries then Inl (EntriesExceeded ''prefixItems'') else Inr vs)"

definition property_members :: "json_object \<Rightarrow> preflight_error + json_object" where
  "property_members ms = (case map_of ms ''properties'' of
     None \<Rightarrow> Inr [] | Some (JObject ps) \<Rightarrow> Inr ps | Some _ \<Rightarrow> Inl PropertiesNotObject)"

definition definition_members :: "json_object \<Rightarrow> preflight_error + json_object" where
  "definition_members ms = (case map_of ms ''$defs'' of
     None \<Rightarrow> Inr [] | Some (JObject ds) \<Rightarrow> Inr ds | Some _ \<Rightarrow> Inl DefsNotObject)"

definition child_list :: "json_object \<Rightarrow> string \<Rightarrow> json_value list" where
  "child_list ms k = (case map_of ms k of None \<Rightarrow> [] | Some v \<Rightarrow> [v])"

text \<open>One visit of a map.\<close>

definition visit :: "(nat \<Rightarrow> string \<Rightarrow> nat) \<Rightarrow> preflight_state \<Rightarrow> json_object \<Rightarrow> json_object" where
  "visit rank st ms = sort_key (\<lambda>(k, _). rank (ps_nodes st) k) ms"

section \<open>The walk\<close>

type_synonym walker = "json_value \<Rightarrow> preflight_state \<Rightarrow> preflight_error + preflight_state"

definition walk_reference :: "json_object \<Rightarrow> walker \<Rightarrow> bool \<Rightarrow> json_object \<Rightarrow> preflight_state \<Rightarrow> preflight_error + preflight_state" where
  "walk_reference defs follow inside ms st = (case map_of ms ''$ref'' of
       None \<Rightarrow> Inr st
     | Some ref \<Rightarrow>
         if inside then Inl RefInsideTarget
         else (case ref of
             JString t \<Rightarrow> (case ref_name t of
                 None \<Rightarrow> Inl RefUnsupported
               | Some name \<Rightarrow> (case map_of defs name of
                     None \<Rightarrow> Inl RefUnresolved
                   | Some target \<Rightarrow>
                       if name \<in> set (ps_used st) then Inl RefRepeated
                       else (let st' = st\<lparr>ps_used := name # ps_used st, ps_refs := ps_refs st + 1\<rparr> in
                         if ps_refs st' > max_refs then Inl RefsExceeded else follow target st')))
           | _ \<Rightarrow> Inl RefNotString))"

abbreviation member_count :: "json_object \<Rightarrow> nat" where
  "member_count ms \<equiv> (\<Sum>x\<leftarrow>ms. json_count (snd x))"

lemma json_count_pos: "Suc 0 \<le> json_count v"
  by (cases v) simp_all

lemma member_count_lookup: "map_of ms k = Some v \<Longrightarrow> json_count v \<le> member_count ms"
  by (induction ms) (auto split: if_splits)

lemma schema_array_count: "schema_array ms k = Inr vs \<Longrightarrow> (\<Sum>v\<leftarrow>vs. json_count v) \<le> member_count ms"
  using member_count_lookup [of ms k] by (fastforce simp: schema_array_def split: option.splits json_value.splits)

lemma branch_children_count: "branch_children ms k st = Inr (vs, st') \<Longrightarrow> (\<Sum>v\<leftarrow>vs. json_count v) \<le> member_count ms"
  by (auto simp: branch_children_def sum_bind_def Let_def split: sum.splits if_splits dest: schema_array_count)

lemma prefix_children_count: "prefix_children ms = Inr vs \<Longrightarrow> (\<Sum>v\<leftarrow>vs. json_count v) \<le> member_count ms"
  by (auto simp: prefix_children_def sum_bind_def split: sum.splits if_splits dest: schema_array_count)

lemma property_members_count: "property_members ms = Inr ps \<Longrightarrow> member_count ps \<le> member_count ms"
  using member_count_lookup [of ms "''properties''"] by (fastforce simp: property_members_def split: option.splits json_value.splits)

lemma definition_members_count: "definition_members ms = Inr ps \<Longrightarrow> member_count ps \<le> member_count ms"
  using member_count_lookup [of ms "''$defs''"] by (fastforce simp: definition_members_def split: option.splits json_value.splits)

lemma child_list_count: "(\<Sum>v\<leftarrow>child_list ms k. json_count v) \<le> member_count ms"
  using member_count_lookup [of ms k] by (simp add: child_list_def split: option.splits)

lemma member_count_visit [simp]: "member_count (visit rank st ms) = member_count ms"
proof -
  have "mset (map (\<lambda>x. json_count (snd x)) (visit rank st ms)) = mset (map (\<lambda>x. json_count (snd x)) ms)"
    by (simp add: visit_def)
  then show ?thesis by (metis sum_mset_sum_list)
qed

text \<open>
  The walk at one depth of references; \<open>follow\<close> walks the target of a reference. The three functions are the
  loop over a schema, over a list of schemas, and over the definitions that no reference has used.
\<close>

function walk_schema :: "(nat \<Rightarrow> string \<Rightarrow> nat) \<Rightarrow> (string \<Rightarrow> bool) \<Rightarrow> json_object \<Rightarrow> walker \<Rightarrow> bool \<Rightarrow> walker"
  and walk_each :: "(nat \<Rightarrow> string \<Rightarrow> nat) \<Rightarrow> (string \<Rightarrow> bool) \<Rightarrow> json_object \<Rightarrow> walker \<Rightarrow> bool \<Rightarrow> json_value list \<Rightarrow>
    preflight_state \<Rightarrow> preflight_error + preflight_state"
  and walk_unused :: "(nat \<Rightarrow> string \<Rightarrow> nat) \<Rightarrow> (string \<Rightarrow> bool) \<Rightarrow> json_object \<Rightarrow> walker \<Rightarrow> json_object \<Rightarrow>
    preflight_state \<Rightarrow> preflight_error + preflight_state" where
  "walk_schema rank ok defs follow inside v st =
     sum_bind (count_node st) (\<lambda>s0. case v of
         JBool _ \<Rightarrow> Inr s0
       | JObject ms \<Rightarrow>
           sum_bind (check_object ms s0) (\<lambda>s1.
           sum_bind (check_pattern ok ms) (\<lambda>_.
           sum_bind (walk_reference defs follow inside ms s1) (\<lambda>s2.
           sum_bind (branch_children ms ''allOf'' s2) (\<lambda>(vs, s3). sum_bind (walk_each rank ok defs follow inside vs s3) (\<lambda>s4.
           sum_bind (branch_children ms ''anyOf'' s4) (\<lambda>(vs, s5). sum_bind (walk_each rank ok defs follow inside vs s5) (\<lambda>s6.
           sum_bind (branch_children ms ''oneOf'' s6) (\<lambda>(vs, s7). sum_bind (walk_each rank ok defs follow inside vs s7) (\<lambda>s8.
           sum_bind (prefix_children ms) (\<lambda>vs. sum_bind (walk_each rank ok defs follow inside vs s8) (\<lambda>s9.
           sum_bind (check_value_arrays ms) (\<lambda>_.
           sum_bind (walk_each rank ok defs follow inside (child_list ms ''not'') s9) (\<lambda>s10.
           sum_bind (walk_each rank ok defs follow inside (child_list ms ''items'') s10) (\<lambda>s11.
           sum_bind (walk_each rank ok defs follow inside (child_list ms ''additionalProperties'') s11) (\<lambda>s12.
           sum_bind (property_members ms) (\<lambda>ps.
           sum_bind (walk_each rank ok defs follow inside (map snd (visit rank s12 ps)) s12) (\<lambda>s13.
           sum_bind (definition_members ms) (\<lambda>ds.
             walk_unused rank ok defs follow (visit rank s13 ds) s13))))))))))))))))))
       | _ \<Rightarrow> Inl SchemaShape)"
| "walk_each rank ok defs follow inside [] st = Inr st"
| "walk_each rank ok defs follow inside (v # vs) st =
     sum_bind (walk_schema rank ok defs follow inside v st) (\<lambda>s. walk_each rank ok defs follow inside vs s)"
| "walk_unused rank ok defs follow [] st = Inr st"
| "walk_unused rank ok defs follow ((k, v) # ds) st =
     (if k \<in> set (ps_used st) then walk_unused rank ok defs follow ds st
      else sum_bind (walk_schema rank ok defs follow False v st) (\<lambda>s. walk_unused rank ok defs follow ds s))"
  by pat_completeness auto

termination
proof (relation "measure (case_sum (\<lambda>(_, _, _, _, _, v, _). 2 * json_count v)
    (case_sum (\<lambda>(_, _, _, _, _, vs, _). Suc (2 * (\<Sum>v\<leftarrow>vs. json_count v))) (\<lambda>(_, _, _, _, ds, _). Suc (2 * member_count ds))))",
    goal_cases)
  case 1
  show ?case by simp
qed (use branch_children_count prefix_children_count property_members_count definition_members_count child_list_count json_count_pos in
  \<open>auto simp: o_def less_Suc_eq_le split: if_splits\<close>)

declare walk_schema.simps [simp del]

text \<open>
  With \<open>r\<close> references still possible below. At zero, \<open>max_refs\<close> references enclose the position and the counter of
  references is at its limit, so that \<open>walk_reference\<close> fails before it follows another.
\<close>

fun walk_at :: "(nat \<Rightarrow> string \<Rightarrow> nat) \<Rightarrow> (string \<Rightarrow> bool) \<Rightarrow> json_object \<Rightarrow> nat \<Rightarrow> bool \<Rightarrow> walker" where
  "walk_at rank ok defs 0 inside = walk_schema rank ok defs (\<lambda>_ _. Inl RefsExceeded) inside"
| "walk_at rank ok defs (Suc r) inside = walk_schema rank ok defs (walk_at rank ok defs r True) inside"

definition preflight :: "(nat \<Rightarrow> string \<Rightarrow> nat) \<Rightarrow> (string \<Rightarrow> bool) \<Rightarrow> json_object \<Rightarrow> preflight_error + preflight_state" where
  "preflight rank ok root =
     (case map_of root ''$schema'' of
        Some v \<Rightarrow> if v \<noteq> JString ''https://json-schema.org/draft/2020-12/schema'' then Inl DraftUnsupported else
          sum_bind (definition_members root) (\<lambda>defs. walk_at rank ok defs max_refs False (JObject root)
            \<lparr>ps_used = [], ps_nodes = 0, ps_members = 0, ps_branches = 0, ps_refs = 0\<rparr>)
      | None \<Rightarrow>
          sum_bind (definition_members root) (\<lambda>defs. walk_at rank ok defs max_refs False (JObject root)
            \<lparr>ps_used = [], ps_nodes = 0, ps_members = 0, ps_branches = 0, ps_refs = 0\<rparr>))"

section \<open>Contracts\<close>

record 's contract =
  ct_schema :: 's
  ct_digest :: string
  ct_canonical :: string




definition validate_candidate :: "'s schema_environment \<Rightarrow> 's contract \<Rightarrow> string \<Rightarrow> schema_error + string" where
  "validate_candidate env c candidate =
     (if length candidate > max_candidate_bytes then Inl CandidateTooLarge
      else if \<not> valid_utf8 candidate then Inl CandidateNotUtf8
      else (case parse_json candidate max_candidate_depth max_candidate_values of
          Inl e \<Rightarrow> Inl (CandidateParse e)
        | Inr v \<Rightarrow>
            if \<not> se_check env (ct_schema c) v then Inl AssertionFailed
            else (case canonical_json v of
                None \<Rightarrow> Inl CanonicalFailed
              | Some t \<Rightarrow> if length t > max_value_bytes then Inl ValueTooLarge else Inr t)))"

section \<open>Canonical texts are valid\<close>

lemma valid_utf8_append: "valid_utf8 x \<Longrightarrow> valid_utf8 (x @ y) = valid_utf8 y"
proof (induction x rule: length_induct)
  case (1 x)
  show ?case
  proof (cases "x = []")
    case False
    let ?w = "snd (decode_rune x)"
    have d: "decode_rune x \<noteq> (rune_error, 1)" using 1(2) False by (rule valid_utf8_decode)
    have "decode_rune (take ?w x @ (drop ?w x @ y)) = decode_rune x" by (rule decode_rune_take [OF d False])
    then have same: "decode_rune (x @ y) = decode_rune x" by (simp only: append.assoc [symmetric] append_take_drop_id)
    have w: "1 \<le> ?w" "?w \<le> length x" using decode_rune_width [OF False] by auto
    have "valid_utf8 (x @ y) = valid_utf8 (drop ?w (x @ y))"
      using d same False by (subst valid_utf8.simps) simp
    also have "drop ?w (x @ y) = drop ?w x @ y" using w by simp
    also have "valid_utf8 (drop ?w x @ y) = valid_utf8 y"
      using 1(1) w False valid_utf8_drop [OF 1(2) False] by (simp add: Suc_le_lessD)
    finally show ?thesis .
  qed simp
qed

lemma valid_utf8_ascii_list: "list_all (\<lambda>c. byte c < 128) x \<Longrightarrow> valid_utf8 x"
  by (induction x) (simp_all add: valid_utf8_ascii)

lemma valid_escape_byte: "byte c < 128 \<Longrightarrow> list_all (\<lambda>c. byte c < 128) (escape_byte c)"
proof -
  assume c: "byte c < 128"
  have hex: "byte (hex_digit n) < 128" if "n < 16" for n using that by (simp add: hex_digit_def byte_char_of)
  have "list_all (\<lambda>c. byte c < 128) (escape_unit (byte c))"
    using c hex [of "byte c div 16"] hex [of "byte c mod 16"] by (simp add: escape_unit_def) (simp add: byte_def)
  then show ?thesis using c by (simp add: escape_byte_def Let_def) (simp add: byte_def)
qed

lemma valid_escape_rune:
  assumes "s \<noteq> []"
  shows "valid_utf8 (escape_rune s)"
proof -
  obtain r w where d: "decode_rune s = (r, w)" by force
  consider "r = rune_error \<and> w = 1" | "r = 8232 \<or> r = 8233" | "\<not> (r = rune_error \<and> w = 1)" "escape_rune s = take w s"
    by (cases "r = rune_error \<and> w = 1"; cases "r = 8232 \<or> r = 8233") (auto simp: escape_rune_def d)
  then show ?thesis
  proof cases
    case 1
    then show ?thesis by (simp add: escape_rune_def d) (intro valid_utf8_ascii_list, simp add: byte_def)
  next
    case 2
    then show ?thesis
      by (elim disjE; simp add: escape_rune_def d rune_error_def)
        (intro valid_utf8_ascii_list, simp add: byte_def hex_digit_def)+
  next
    case 3
    then have "take w s = rune_text s" using d by (auto simp: rune_text_def)
    then show ?thesis using 3 valid_utf8_rune_text [OF assms, of "[]"] by simp
  qed
qed

lemma valid_escape_string: "valid_utf8 (escape_string s)"
proof (induction s rule: escape_string.induct)
  case (1 s)
  show ?case
  proof (cases s)
    case Nil
    then show ?thesis by (simp add: escape_string.simps)
  next
    case (Cons c cs)
    show ?thesis
    proof (cases "byte c < 128")
      case True
      then show ?thesis using 1(1) [OF Cons True] Cons valid_utf8_append [OF valid_utf8_ascii_list [OF valid_escape_byte [OF True]]]
        by (simp add: escape_string.simps [of "c # cs"])
    next
      case False
      then show ?thesis using 1(2) [OF Cons False] Cons valid_utf8_append [OF valid_escape_rune [of s]]
        by (simp add: escape_string.simps [of "c # cs"])
    qed
  qed
qed

lemma valid_quote: "valid_utf8 (quote_string s)"
proof -
  have "valid_utf8 (escape_string s @ [CHR 0x22])"
    using valid_utf8_append [OF valid_escape_string, of s "[CHR 0x22]"] valid_utf8_ascii_list [of "[CHR 0x22]"] by (simp add: byte_def)
  then show ?thesis by (simp add: quote_string_def valid_utf8_ascii byte_def)
qed

lemma valid_join: "(\<And>t. t \<in> set ts \<Longrightarrow> valid_utf8 t) \<Longrightarrow> valid_utf8 (join_with '','' ts)"
proof (induction ts)
  case (Cons t ts)
  then show ?case
    by (cases ts) (simp_all add: valid_utf8_append valid_utf8_ascii byte_def)
qed simp

lemma valid_number: "number_text x \<Longrightarrow> valid_utf8 x"
proof (rule valid_utf8_ascii_list)
  assume "number_text x"
  moreover have "list_all (\<lambda>c. byte c < 128) ds" if "list_all json_digit ds" for ds
    using that by (auto simp: list_all_iff json_digit_def)
  ultimately show "list_all (\<lambda>c. byte c < 128) x"
    by (auto simp: number_text_def integer_text_def fraction_text_ok_def exponent_text_def) (simp_all add: byte_def)
qed

lemma canonical_valid:
  "canonical_json v = Some t \<Longrightarrow> valid_utf8 t"
  "canonical_items vs = Some ts \<Longrightarrow> u \<in> set ts \<Longrightarrow> valid_utf8 u"
  "canonical_members ms = Some ts \<Longrightarrow> u \<in> set ts \<Longrightarrow> valid_utf8 u"
proof (induction v and vs and ms arbitrary: t and ts u and ts u rule: canonical_json_canonical_items_canonical_members.induct)
  case (5 vs)
  then obtain ts where ts: "canonical_items vs = Some ts" "t = ''['' @ join_with '','' ts @ '']''" by auto
  then have "valid_utf8 (join_with '','' ts)" using 5 by (intro valid_join) blast
  then show ?case using ts by (simp add: valid_utf8_ascii valid_utf8_append byte_def)
next
  case (6 ms)
  then obtain ts where ts: "canonical_members ms = Some ts" "t = ''{'' @ join_with '','' ts @ ''}''" by auto
  then have "valid_utf8 (join_with '','' ts)" using 6 by (intro valid_join) blast
  then show ?case using ts by (simp add: valid_utf8_ascii valid_utf8_append byte_def)
next
  case (4 s)
  then show ?case using valid_number valid_json_number_iff by (auto split: if_splits)
next
  case (10 k v ms)
  then obtain t' ts' where "canonical_json v = Some t'" "canonical_members ms = Some ts'"
    "ts = (quote_string k @ '':'' @ t') # ts'" by (auto split: option.splits)
  with 10 show ?case by (auto simp: valid_utf8_append valid_quote valid_utf8_ascii byte_def)
qed (auto simp: valid_quote valid_utf8_ascii byte_def split: if_splits option.splits)

section \<open>Admission, restoration and validation agree\<close>



text \<open>
  A validated answer is canonical: it fits the limit of stored values, parses to the value that was checked, and
  validating it again gives it back unchanged.
\<close>

theorem validated_value_is_canonical:
  assumes "validate_candidate env c candidate = Inr t"
  shows "length t \<le> max_value_bytes \<and>
    (\<exists>v. parse_json candidate max_candidate_depth max_candidate_values = Inr v \<and> se_check env (ct_schema c) v \<and>
       parse_json t max_candidate_depth max_candidate_values = Inr v) \<and>
    validate_candidate env c t = Inr t"
proof -
  obtain v where v: "parse_json candidate max_candidate_depth max_candidate_values = Inr v" "se_check env (ct_schema c) v"
    "canonical_json v = Some t" "length t \<le> max_value_bytes"
    using assms by (auto simp: validate_candidate_def split: if_splits sum.splits option.splits)
  have "parse_json t max_candidate_depth max_candidate_values = Inr v"
    using parse_json_sound [OF v(1)] v(3) parse_canonical by blast
  moreover have "valid_utf8 t" using canonical_valid(1) v(3) by blast
  moreover have "length t \<le> max_candidate_bytes" using v(4) by (simp add: max_value_bytes_def max_candidate_bytes_def)
  ultimately show ?thesis using v by (simp add: validate_candidate_def)
qed

definition sample_schema_environment :: "unit schema_environment" where
  "sample_schema_environment = \<lparr>se_rank = (\<lambda>_ _. 0), se_pattern_ok = (\<lambda>_. True), se_digest = (\<lambda>_. ''d''),
     se_compile = (\<lambda>_. Some ()), se_check = (\<lambda>_ v. v \<noteq> JNull)\<rparr>"


lemma validated_value_is_canonical_witness:
  "validate_candidate sample_schema_environment \<lparr>ct_schema = (), ct_digest = [], ct_canonical = []\<rparr> ''[]'' = Inr ''[]''"
proof -
  have "parse_json ''[ ]'' max_candidate_depth max_candidate_values = Inr (JArray [])" by code_simp
  moreover have "valid_utf8 ''[ ]''" by (intro valid_utf8_ascii_list) (simp add: byte_def)
  ultimately have "validate_candidate sample_schema_environment \<lparr>ct_schema = (), ct_digest = [], ct_canonical = []\<rparr> ''[ ]'' = Inr ''[]''"
    by (simp add: validate_candidate_def sample_schema_environment_def max_candidate_bytes_def max_value_bytes_def)
  from validated_value_is_canonical [OF this] show ?thesis by simp
qed

section \<open>The order of visits decides\<close>

definition add_nodes :: "nat \<Rightarrow> preflight_state \<Rightarrow> preflight_state" where
  "add_nodes n st = st\<lparr>ps_nodes := ps_nodes st + n\<rparr>"

lemma walk_true: "walk_schema rank ok defs follow inside (JBool b) st = count_node st"
  by (simp add: walk_schema.simps sum_bind_def split: sum.split)

lemma walk_trues:
  "walk_each rank ok defs follow inside (replicate n (JBool True)) st =
     (if ps_nodes st + n \<le> max_schema_nodes \<or> n = 0 then Inr (add_nodes n st) else Inl NodesExceeded)"
  by (induction n arbitrary: st) (auto simp: walk_true count_node_def add_nodes_def Let_def)

definition wide :: json_value where "wide = JArray (replicate 256 (JBool True))"

definition broad_schema :: json_value where
  "broad_schema = JObject [(''allOf'', JArray [JObject [(''prefixItems'', wide)]]), (''prefixItems'', wide)]"

definition shared_definition :: json_object where
  "shared_definition = [(''$defs'', JObject [(''a'', JObject [(''$ref'', JString ''#/$defs/b'')]), (''b'', broad_schema)])]"

lemma walk_inner:
  assumes "ps_members st < 4000" "ps_branches st \<le> max_branches" "ps_nodes st < max_schema_nodes"
  shows "walk_schema rank ok defs follow inside (JObject [(''prefixItems'', wide)]) st =
    (if ps_nodes st + 257 \<le> max_schema_nodes then Inr (add_nodes 257 (st\<lparr>ps_members := ps_members st + 1\<rparr>)) else Inl NodesExceeded)"
  using assms
  by (simp add: walk_schema.simps [of _ _ _ _ _ "JObject _"] count_node_def check_object_def allowed_keyword_def check_pattern_def
      walk_reference_def branch_children_def schema_array_def prefix_children_def wide_def walk_trues max_array_entries_def
      check_value_arrays_def check_value_array_def child_list_def property_members_def definition_members_def visit_def Let_def
      max_schema_members_def add_nodes_def max_schema_nodes_def)

lemmas walk_defs = count_node_def check_object_def allowed_keyword_def check_pattern_def
  walk_reference_def branch_children_def schema_array_def prefix_children_def max_array_entries_def
  check_value_arrays_def check_value_array_def child_list_def property_members_def definition_members_def visit_def Let_def
  max_schema_members_def max_schema_nodes_def max_branches_def add_nodes_def

lemma walk_broad:
  assumes "ps_members st < 3000" "ps_branches st < max_branches" "ps_nodes st \<le> 600"
  shows "walk_schema rank ok defs follow inside broad_schema st =
    (if ps_nodes st + 514 \<le> max_schema_nodes
     then Inr (st\<lparr>ps_nodes := ps_nodes st + 514, ps_members := ps_members st + 3, ps_branches := ps_branches st + 1\<rparr>)
     else Inl NodesExceeded)"
  unfolding broad_schema_def using assms walk_inner [of "st\<lparr>ps_nodes := Suc (ps_nodes st), ps_members := Suc (Suc (ps_members st)),
      ps_branches := Suc (ps_branches st)\<rparr>" rank ok defs follow inside]
  by (simp add: walk_schema.simps [of _ _ _ _ _ "JObject [(''allOf'', _), _]"] walk_defs walk_trues wide_def)

lemma ref_name_b: "ref_name ''#/$defs/b'' = Some ''b''"
  by (simp add: ref_name_def starts_with_def)

lemma walk_ref_b:
  assumes "''b'' \<notin> set (ps_used st)" "ps_members st < 2000" "ps_branches st < max_branches" "ps_nodes st \<le> 599" "ps_refs st = 0"
    and follow: "follow = walk_schema rank ok [(''a'', x), (''b'', broad_schema)] follow' True"
  shows "walk_schema rank ok [(''a'', x), (''b'', broad_schema)] follow False (JObject [(''$ref'', JString ''#/$defs/b'')]) st =
    (if ps_nodes st + 515 \<le> max_schema_nodes
     then Inr (st\<lparr>ps_used := ''b'' # ps_used st, ps_nodes := ps_nodes st + 515, ps_members := ps_members st + 4,
       ps_branches := ps_branches st + 1, ps_refs := 1\<rparr>)
     else Inl NodesExceeded)"
  using assms walk_broad [of "st\<lparr>ps_nodes := Suc (ps_nodes st), ps_members := Suc (ps_members st),
      ps_used := ''b'' # ps_used st, ps_refs := Suc 0\<rparr>" rank ok "[(''a'', x), (''b'', broad_schema)]" follow' True]
  by (cases "ps_nodes st + 515 \<le> max_schema_nodes")
    (simp_all add: walk_schema.simps [of _ _ _ _ _ "JObject [(''$ref'', _)]"] walk_defs ref_name_b max_refs_def)

definition rank_first :: "string \<Rightarrow> nat \<Rightarrow> string \<Rightarrow> nat" where
  "rank_first first _ k = (if k = first then 0 else 1)"

lemma preflight_shared:
  "(\<exists>st. preflight (rank_first ''a'') ok shared_definition = Inr st) \<and>
   preflight (rank_first ''b'') ok shared_definition = Inl NodesExceeded"
proof -
  let ?d = "[(''a'', JObject [(''$ref'', JString ''#/$defs/b'')]), (''b'', broad_schema)]"
  let ?s = "\<lparr>ps_used = [], ps_nodes = 1, ps_members = 1, ps_branches = 0, ps_refs = 0\<rparr>"
  have top: "walk_at rank ok ?d max_refs False = walk_schema rank ok ?d (walk_at rank ok ?d 127 True) False" for rank
    using walk_at.simps(2) [of rank ok ?d 127 False] by (simp add: max_refs_def)
  have root: "preflight rank ok shared_definition =
      walk_unused rank ok ?d (walk_at rank ok ?d 127 True) (visit rank ?s ?d) ?s" for rank
    using top [of rank] by (simp add: preflight_def shared_definition_def walk_defs
        walk_schema.simps [of _ _ _ _ _ "JObject [(''$defs'', _)]"])
  have level: "walk_at rank ok ?d 127 True = walk_schema rank ok ?d (walk_at rank ok ?d 126 True) True" for rank
    using walk_at.simps(2) [of rank ok ?d 126 True] by simp
  have a: "visit (rank_first ''a'') ?s ?d = ?d" "visit (rank_first ''b'') ?s ?d = [(''b'', broad_schema), hd ?d]"
    by (simp_all add: visit_def rank_first_def)
  have "\<exists>st. preflight (rank_first ''a'') ok shared_definition = Inr st"
    unfolding root a using walk_ref_b [OF _ _ _ _ _ level, of ?s] by (simp add: max_schema_nodes_def max_branches_def)
  moreover have "preflight (rank_first ''b'') ok shared_definition = Inl NodesExceeded"
    unfolding root a
    using walk_broad [of ?s "rank_first ''b''" ok ?d "walk_at (rank_first ''b'') ok ?d 127 True" False]
      walk_ref_b [OF _ _ _ _ _ level, of "\<lparr>ps_used = [], ps_nodes = 515, ps_members = 4, ps_branches = 1, ps_refs = 0\<rparr>"]
    by (simp add: max_schema_nodes_def max_branches_def)
  ultimately show ?thesis ..
qed

text \<open>
  Admission is not a function of the schema: there is a schema within all limits of the parser that is admitted
  or rejected according to the order in which the map of its definitions is visited, because a definition that is visited
  before the reference to it is counted twice.
\<close>

theorem admission_depends_on_map_order:
  "\<exists>root first second. wf_json max_document_depth (JObject root) \<and> json_count (JObject root) \<le> max_document_values \<and>
     (\<exists>st. preflight first (\<lambda>_. True) root = Inr st) \<and> preflight second (\<lambda>_. True) root = Inl NodesExceeded"
proof -
  have "wf_json (Suc (Suc (Suc (Suc (Suc (Suc (Suc d))))))) (JObject shared_definition)" for d
    by (simp add: shared_definition_def broad_schema_def wide_def valid_utf8_ascii_list byte_def max_string_bytes_def)
  from this [of 25] have "wf_json max_document_depth (JObject shared_definition)" by (simp add: max_document_depth_def numeral_eq_Suc)
  moreover have "json_count (JObject shared_definition) \<le> max_document_values"
    by (simp add: shared_definition_def broad_schema_def wide_def max_document_values_def sum_list_replicate)
  ultimately show ?thesis using preflight_shared [of "\<lambda>_. True"] by blast
qed

end
