(* ===== verification/Record_Collectors.thy ===== *)
theory Record_Collectors
  imports Appendices
begin

text \<open>
  The records a compaction carries over from the entries it removes (\<^verbatim>\<open>compaction/file_operations.go\<close>,
  \<^verbatim>\<open>compaction/appendices.go\<close>): file operations read from tool arguments and shell commands, outcomes of validation
  commands, and references to work that is still active. Decoding of JSON, the shell parser and the expansion of its
  words are libraries: they are the fields of an environment. A parsed command is the list of its nodes in
  the order of \<open>syntax.Walk\<close>.
\<close>

section \<open>The libraries\<close>

datatype redirect_op =
    RdrOut | AppOut | RdrIn | RdrInOut | DplIn | DplOut | RdrClob | AppClob | Hdoc | DashHdoc | WordHdoc
  | RdrAll | RdrAllClob | AppAll | AppAllClob

datatype 'w shell_node = CallExpr "'w list" | Stmt "(redirect_op \<times> 'w option) list" | OtherNode

record ('j, 'w) decoders =
  dec_lower :: "string \<Rightarrow> string"
  dec_details :: "string \<Rightarrow> (string \<Rightarrow> 'j option) option"
  dec_args :: "string \<Rightarrow> (string \<Rightarrow> 'j option) option"
  dec_string :: "'j \<Rightarrow> string option"
  dec_files :: "'j \<Rightarrow> file_operation list option"
  dec_validations :: "string \<Rightarrow> validation_record list option"
  dec_work :: "string \<Rightarrow> active_work_record list option"
  dec_shell :: "string \<Rightarrow> 'w shell_node list option"
  dec_word_empty :: "'w \<Rightarrow> bool"
  dec_fields :: "'w \<Rightarrow> string list option"

section \<open>Shell commands\<close>

definition shell_static_fields :: "('j, 'w) decoders \<Rightarrow> 'w option \<Rightarrow> string list option" where
  "shell_static_fields d w =
     (case w of None \<Rightarrow> None | Some w \<Rightarrow> if dec_word_empty d w then None else dec_fields d w)"

definition single_shell_static_field :: "('j, 'w) decoders \<Rightarrow> 'w \<Rightarrow> string option" where
  "single_shell_static_field d w = (case shell_static_fields d (Some w) of Some [f] \<Rightarrow> Some f | _ \<Rightarrow> None)"

definition looks_like_shell_path :: "string \<Rightarrow> bool" where
  "looks_like_shell_path path =
     (let path = trim_space path
      in if path = [] \<or> starts_with ''-'' path \<or> starts_with ''s/'' path then False
         else str_contains path ''/'' \<or> str_contains path ''.'')"

definition shell_path_fields :: "('j, 'w) decoders \<Rightarrow> 'w option \<Rightarrow> string list" where
  "shell_path_fields d w =
     (case shell_static_fields d w of None \<Rightarrow> [] | Some fs \<Rightarrow> filter looks_like_shell_path fs)"

definition append_new :: "string list \<Rightarrow> string list \<Rightarrow> string list" where
  "append_new paths fs = foldl (\<lambda>ps f. if f \<in> set ps then ps else ps @ [f]) paths fs"

definition append_shell_call_paths :: "('j, 'w) decoders \<Rightarrow> string list \<Rightarrow> 'w list \<Rightarrow> string list" where
  "append_shell_call_paths d paths args =
     foldl (\<lambda>ps w. append_new ps (shell_path_fields d (Some w))) paths (tl args)"

definition append_shell_redirect_paths ::
  "('j, 'w) decoders \<Rightarrow> string list \<Rightarrow> (redirect_op \<times> 'w option) list \<Rightarrow> string list" where
  "append_shell_redirect_paths d paths redirs =
     foldl (\<lambda>ps r. append_new ps (shell_path_fields d (snd r))) paths redirs"

definition shell_command_path_tokens :: "('j, 'w) decoders \<Rightarrow> string \<Rightarrow> string list" where
  "shell_command_path_tokens d command =
     (case dec_shell d command of
        None \<Rightarrow> []
      | Some nodes \<Rightarrow>
          foldl (\<lambda>ps node. case node of
                     CallExpr args \<Rightarrow> append_shell_call_paths d ps args
                   | Stmt redirs \<Rightarrow> append_shell_redirect_paths d ps redirs
                   | OtherNode \<Rightarrow> ps) [] nodes)"

definition shell_redirect_writes :: "redirect_op \<Rightarrow> bool" where
  "shell_redirect_writes r \<longleftrightarrow>
     r \<in> {RdrOut, AppOut, RdrInOut, RdrClob, AppClob, RdrAll, RdrAllClob, AppAll, AppAllClob}"

definition shell_command_mutates :: "string \<Rightarrow> bool" where
  "shell_command_mutates command \<longleftrightarrow> command \<in> {''cp'', ''mv'', ''rm'', ''mkdir'', ''touch'', ''tee''}"

definition command_uses_in_place_edit :: "('j, 'w) decoders \<Rightarrow> string \<Rightarrow> 'w list \<Rightarrow> bool" where
  "command_uses_in_place_edit d command args \<longleftrightarrow>
     (command = ''sed'' \<or> command = ''perl'') \<and>
     list_ex (\<lambda>w. case shell_static_fields d (Some w) of
                     None \<Rightarrow> False | Some fs \<Rightarrow> list_ex (starts_with ''-i'') fs) args"

definition shell_call_looks_mutating :: "('j, 'w) decoders \<Rightarrow> 'w list \<Rightarrow> bool" where
  "shell_call_looks_mutating d args =
     (case args of
        [] \<Rightarrow> False
      | w # rest \<Rightarrow>
          (case single_shell_static_field d w of
             None \<Rightarrow> False
           | Some command \<Rightarrow>
               let command = dec_lower d command
               in shell_command_mutates command \<or> command_uses_in_place_edit d command rest))"

text \<open>The walk stops descending at the first mutating node, so it finds one exactly if there is one.\<close>

definition shell_command_looks_mutating :: "('j, 'w) decoders \<Rightarrow> string \<Rightarrow> bool" where
  "shell_command_looks_mutating d command =
     (case dec_shell d command of
        None \<Rightarrow> False
      | Some nodes \<Rightarrow>
          list_ex (\<lambda>node. case node of
                     CallExpr args \<Rightarrow> shell_call_looks_mutating d args
                   | Stmt redirs \<Rightarrow> list_ex (\<lambda>r. shell_redirect_writes (fst r)) redirs
                   | OtherNode \<Rightarrow> False) nodes)"

section \<open>File operations\<close>

definition command_preview_limit :: nat where "command_preview_limit = 160"

definition truncate_command :: "string \<Rightarrow> string" where
  "truncate_command command =
     (let command = trim_space command
      in if length command \<le> command_preview_limit then command
         else take (command_preview_limit - 3) command @ ''...'')"

definition string_argument :: "('j, 'w) decoders \<Rightarrow> (string \<Rightarrow> 'j option) \<Rightarrow> string \<Rightarrow> string option" where
  "string_argument d args key =
     (case Option.bind (args key) (dec_string d) of
        None \<Rightarrow> None
      | Some v \<Rightarrow> if trim_space v = [] then None else Some (trim_space v))"

definition tool_operation :: "entry \<Rightarrow> string \<Rightarrow> string \<Rightarrow> string \<Rightarrow> file_operation" where
  "tool_operation e action path command =
     \<lparr>fo_entry_id = ent_id e, fo_action = action, fo_path = path, fo_tool = ent_tool_name e, fo_command = command\<rparr>"

definition url_argument_file_operation where
  "url_argument_file_operation d e args =
     (case string_argument d args ''url'' of None \<Rightarrow> [] | Some url \<Rightarrow> [tool_operation e ''read'' url []])"

definition path_argument_file_operation where
  "path_argument_file_operation d e args action =
     (case (case string_argument d args ''path'' of Some p \<Rightarrow> Some p | None \<Rightarrow> string_argument d args ''pattern'') of
        None \<Rightarrow> [] | Some path \<Rightarrow> [tool_operation e action path []])"

definition bash_file_operations where
  "bash_file_operations d e args =
     (case string_argument d args ''command'' of
        None \<Rightarrow> []
      | Some command \<Rightarrow>
          let action = (if shell_command_looks_mutating d command then ''modified'' else ''read'')
          in map (\<lambda>path. tool_operation e action path (truncate_command command)) (shell_command_path_tokens d command))"

definition file_operations_from_tool_entry :: "('j, 'w) decoders \<Rightarrow> entry \<Rightarrow> file_operation list" where
  "file_operations_from_tool_entry d e =
     (if ent_type e \<noteq> EntryMessage \<or> msg_role (ent_message e) \<noteq> RoleToolResult then []
      else
        case (if trim_space (ent_tool_args_json e) \<noteq> [] then dec_args d (ent_tool_args_json e) else Some (\<lambda>k. None)) of
          None \<Rightarrow> []
        | Some args \<Rightarrow>
            let tool = ent_tool_name e
            in if tool = ''read'' then path_argument_file_operation d e args ''read''
               else if tool = ''edit'' \<or> tool = ''write'' then path_argument_file_operation d e args ''modified''
               else if tool = ''bash'' then bash_file_operations d e args
               else if tool \<in> {''find'', ''grep'', ''ls'', ''ast''} then path_argument_file_operation d e args ''read''
               else if tool = ''fetch'' then url_argument_file_operation d e args
               else [])"

definition file_operations_key :: string where "file_operations_key = ''file_operations''"

definition file_operations_from_prior_compaction :: "('j, 'w) decoders \<Rightarrow> entry \<Rightarrow> file_operation list" where
  "file_operations_from_prior_compaction d e =
     (if ent_type e \<noteq> EntryCompaction then []
      else
        case dec_details d (ent_data_json e) of
          None \<Rightarrow> []
        | Some details \<Rightarrow>
            (case details file_operations_key of
               None \<Rightarrow> [] | Some raw \<Rightarrow> (case dec_files d raw of None \<Rightarrow> [] | Some ops \<Rightarrow> ops)))"

definition trim_operation :: "file_operation \<Rightarrow> file_operation" where
  "trim_operation r =
     r\<lparr>fo_action := trim_space (fo_action r), fo_path := trim_space (fo_path r), fo_tool := trim_space (fo_tool r),
       fo_command := trim_space (fo_command r)\<rparr>"

definition operation_key :: "file_operation \<Rightarrow> string" where
  "operation_key r =
     fo_action r @ [CHR 0x00] @ fo_path r @ [CHR 0x00] @ fo_tool r @ [CHR 0x00] @ fo_command r"

definition append_unique_file_operation ::
  "file_operation list \<times> string set \<Rightarrow> file_operation \<Rightarrow> file_operation list \<times> string set" where
  "append_unique_file_operation st r =
     (let (operations, seen) = st; r = trim_operation r
      in if fo_action r = [] \<or> fo_path r = [] then (operations, seen)
         else if operation_key r \<in> seen then (operations, seen)
         else (operations @ [r], insert (operation_key r) seen))"

fun collect_files_loop ::
  "('j, 'w) decoders \<Rightarrow> file_operation list \<times> string set \<Rightarrow> entry list \<Rightarrow> file_operation list" where
  "collect_files_loop d st [] = fst st"
| "collect_files_loop d st (e # es) =
     (let st = foldl append_unique_file_operation st (file_operations_from_prior_compaction d e);
          st = foldl append_unique_file_operation st (file_operations_from_tool_entry d e)
      in if length (fst st) \<ge> max_file_operations then take max_file_operations (fst st)
         else collect_files_loop d st es)"

definition collect_file_operations :: "('j, 'w) decoders \<Rightarrow> entry list \<Rightarrow> file_operation list" where
  "collect_file_operations d entries = collect_files_loop d ([], {}) entries"

section \<open>Validation records\<close>

text \<open>\<open>strings.ToValidUTF8\<close> with an empty replacement.\<close>

function drop_invalid_utf8 :: "string \<Rightarrow> string" where
  "drop_invalid_utf8 s =
     (if s = [] then []
      else (if decode_rune s = (rune_error, 1) then [] else take (snd (decode_rune s)) s)
           @ drop_invalid_utf8 (drop (snd (decode_rune s)) s))"
  by pat_completeness auto
termination
proof (relation "measure length", simp)
  fix s :: string
  assume "s \<noteq> []"
  then show "(drop (snd (decode_rune s)) s, s) \<in> measure length" using decode_rune_width(1) [of s] by simp
qed

declare drop_invalid_utf8.simps [simp del]

definition max_record_field_bytes :: nat where "max_record_field_bytes = 4096"

definition bounded_record_field :: "string \<Rightarrow> string" where
  "bounded_record_field v =
     (let v = trim_space v
      in if length v \<le> max_record_field_bytes then v else drop_invalid_utf8 (take max_record_field_bytes v))"

definition validation_prefixes :: "string list" where
  "validation_prefixes =
     [''go test '', ''go vet '', ''golangci-lint '', ''staticcheck '',
      ''go tool task build'', ''go tool task ci'', ''go tool task test'', ''go tool task lint'', ''go tool task fmt-check'',
      ''task build'', ''task ci'', ''task test'', ''task lint'', ''task fmt-check'',
      ''vfox exec golang -- go test '', ''vfox exec golang -- go vet '',
      ''vfox exec golang -- go tool golangci-lint '', ''vfox exec golang -- go tool staticcheck '',
      ''vfox exec golang -- go tool task build'', ''vfox exec golang -- go tool task ci'',
      ''vfox exec golang -- go tool task test'', ''vfox exec golang -- go tool task lint'',
      ''vfox exec golang -- go tool task fmt-check'']"

definition is_validation_command :: "string \<Rightarrow> bool" where
  "is_validation_command command =
     (let command = trim_space command
      in list_ex (\<lambda>p. command = trim_space p \<or> starts_with p command) validation_prefixes)"

definition validation_outcome_of :: "(string \<Rightarrow> string) \<Rightarrow> string \<Rightarrow> validation_outcome" where
  "validation_outcome_of lower status =
     (let s = lower (trim_space status)
      in if s = ''completed'' \<or> s = ''success'' \<or> s = ''passed'' then ValidationPassed
         else if s = ''failed'' \<or> s = ''error'' then ValidationFailed
         else if s = ''canceled'' \<or> s = ''cancelled'' then ValidationCanceled
         else ValidationUnknown)"

definition validation_command :: "('j, 'w) decoders \<Rightarrow> entry \<Rightarrow> string option" where
  "validation_command d e =
     (if ent_tool_name e \<noteq> ''bash'' then None
      else case dec_args d (ent_tool_args_json e) of
          None \<Rightarrow> None
        | Some args \<Rightarrow>
            (case string_argument d args ''command'' of
               None \<Rightarrow> None
             | Some command \<Rightarrow> if is_validation_command command then Some command else None))"

definition validation_records_from_compaction :: "('j, 'w) decoders \<Rightarrow> entry \<Rightarrow> validation_record list" where
  "validation_records_from_compaction d e =
     (if ent_type e \<noteq> EntryCompaction then []
      else case dec_validations d (ent_data_json e) of None \<Rightarrow> [] | Some rs \<Rightarrow> rs)"

definition entry_validations :: "('j, 'w) decoders \<Rightarrow> entry \<Rightarrow> validation_record list" where
  "entry_validations d e =
     validation_records_from_compaction d e
     @ (case validation_command d e of
          None \<Rightarrow> []
        | Some command \<Rightarrow> [\<lparr>vr_entry_id = ent_id e, vr_command = command,
                           vr_outcome = validation_outcome_of (dec_lower d) (ent_tool_status e)\<rparr>])"

definition bounded_validation :: "validation_record \<Rightarrow> validation_record" where
  "bounded_validation r =
     r\<lparr>vr_entry_id := bounded_record_field (vr_entry_id r), vr_command := bounded_record_field (vr_command r)\<rparr>"

definition add_validation ::
  "(string \<Rightarrow> validation_record option) \<times> string list \<Rightarrow> validation_record
     \<Rightarrow> (string \<Rightarrow> validation_record option) \<times> string list" where
  "add_validation st r =
     (let (by_command, order) = st; r = bounded_validation r; command = vr_command r
      in if trim_space command = [] then (by_command, order)
         else (by_command(command \<mapsto> r),
               (if by_command command = None then order else remove1 command order) @ [command]))"

definition collect_validation_records :: "('j, 'w) decoders \<Rightarrow> entry list \<Rightarrow> validation_record list" where
  "collect_validation_records d entries =
     (let (by_command, order) = foldl (\<lambda>st e. foldl add_validation st (entry_validations d e)) (Map.empty, []) entries;
          order = (if length order > max_validation_records then drop (length order - max_validation_records) order else order)
      in map (\<lambda>c. the (by_command c)) order)"

section \<open>Active work\<close>

definition normalized_active_work_kind :: "string \<Rightarrow> string" where
  "normalized_active_work_kind kind =
     (if kind = ''agent'' \<or> kind = ''agent_task'' then ''agent_task''
      else if kind = ''tool'' \<or> kind = ''background_tool'' then ''background_tool''
      else if kind = ''workflow'' then ''workflow'' else [])"

definition is_active_work_kind :: "string \<Rightarrow> bool" where
  "is_active_work_kind kind \<longleftrightarrow> normalized_active_work_kind kind \<noteq> []"

definition is_active_work_state :: "string \<Rightarrow> bool" where
  "is_active_work_state s \<longleftrightarrow> s = ''queued'' \<or> s = ''running'' \<or> s = ''unknown''"

definition argument_or_empty :: "('j, 'w) decoders \<Rightarrow> (string \<Rightarrow> 'j option) \<Rightarrow> string \<Rightarrow> string" where
  "argument_or_empty d args key = (case string_argument d args key of None \<Rightarrow> [] | Some v \<Rightarrow> v)"

definition active_work_id :: "('j, 'w) decoders \<Rightarrow> (string \<Rightarrow> 'j option) \<Rightarrow> string \<Rightarrow> string" where
  "active_work_id d details kind =
     (let work_id = argument_or_empty d details ''task_id''
      in if work_id \<noteq> [] \<or> kind \<noteq> ''workflow'' then work_id
         else case find (\<lambda>key. argument_or_empty d details key \<noteq> []) [''workflow_task_id'', ''run_id'', ''workflow_id''] of
             None \<Rightarrow> [] | Some key \<Rightarrow> argument_or_empty d details key)"

definition active_work_record_of :: "('j, 'w) decoders \<Rightarrow> entry \<Rightarrow> active_work_record option" where
  "active_work_record_of d e =
     (case dec_details d (ent_data_json e) of
        None \<Rightarrow> None
      | Some details \<Rightarrow>
          let kind = normalized_active_work_kind (argument_or_empty d details ''kind'');
              work_id = active_work_id d details kind;
              state = argument_or_empty d details ''state'';
              owner = argument_or_empty d details ''owning_session''
          in if \<not> is_active_work_kind kind \<or> work_id = [] then None
             else Some \<lparr>aw_entry_id = ent_id e, aw_id = work_id, aw_kind = kind,
                         aw_state = (if state = [] then ''unknown'' else state),
                         aw_owning_session = (if owner = [] then ent_session_id e else owner)\<rparr>)"

definition active_work_records_from_compaction :: "('j, 'w) decoders \<Rightarrow> entry \<Rightarrow> active_work_record list" where
  "active_work_records_from_compaction d e =
     (if ent_type e \<noteq> EntryCompaction then []
      else case dec_work d (ent_data_json e) of None \<Rightarrow> [] | Some rs \<Rightarrow> rs)"

definition entry_work :: "('j, 'w) decoders \<Rightarrow> entry \<Rightarrow> active_work_record list" where
  "entry_work d e =
     active_work_records_from_compaction d e
     @ (case active_work_record_of d e of None \<Rightarrow> [] | Some r \<Rightarrow> [r])"

definition bounded_active_work_record :: "active_work_record \<Rightarrow> active_work_record" where
  "bounded_active_work_record r =
     \<lparr>aw_entry_id = bounded_record_field (aw_entry_id r), aw_id = bounded_record_field (aw_id r),
      aw_kind = bounded_record_field (aw_kind r), aw_state = bounded_record_field (aw_state r),
      aw_owning_session = bounded_record_field (aw_owning_session r)\<rparr>"

definition work_key :: "active_work_record \<Rightarrow> string" where
  "work_key r = aw_kind r @ [CHR 0x00] @ aw_id r"

definition add_active_work_record ::
  "(string \<Rightarrow> active_work_record option) \<times> string list \<Rightarrow> active_work_record
     \<Rightarrow> (string \<Rightarrow> active_work_record option) \<times> string list" where
  "add_active_work_record st r =
     (let (by_key, order) = st; r = bounded_active_work_record r
      in if aw_kind r = [] \<or> aw_id r = [] then (by_key, order)
         else (by_key(work_key r \<mapsto> r), if by_key (work_key r) = None then order @ [work_key r] else order))"

definition collect_active_work_records :: "('j, 'w) decoders \<Rightarrow> entry list \<Rightarrow> active_work_record list" where
  "collect_active_work_records d entries =
     (let (by_key, order) = foldl (\<lambda>st e. foldl add_active_work_record st (entry_work d e)) (Map.empty, []) entries;
          out = filter (\<lambda>r. is_active_work_state (aw_state r)) (map (\<lambda>k. the (by_key k)) order)
      in if length out > max_active_work_records then drop (length out - max_active_work_records) out else out)"

text \<open>The three collectors together, as \<open>PlanBranch\<close> calls them on the entries it compacts.\<close>

definition collect_records ::
  "('j, 'w) decoders \<Rightarrow> entry list \<Rightarrow> file_operation list \<times> validation_record list \<times> active_work_record list" where
  "collect_records d entries =
     (collect_file_operations d entries, collect_validation_records d entries, collect_active_work_records d entries)"

section \<open>Reference collections\<close>

text \<open>The first element, or the last element, of each key.\<close>

fun first_by :: "('a \<Rightarrow> 'k) \<Rightarrow> 'k set \<Rightarrow> 'a list \<Rightarrow> 'a list" where
  "first_by key seen [] = []"
| "first_by key seen (x # xs) =
     (if key x \<in> seen then first_by key seen xs else x # first_by key (insert (key x) seen) xs)"

fun latest_by :: "('a \<Rightarrow> 'k) \<Rightarrow> 'a list \<Rightarrow> 'a list" where
  "latest_by key [] = []"
| "latest_by key (x # xs) =
     (if key x \<in> key ` set xs then latest_by key xs else x # latest_by key xs)"

lemma first_by_append:
  "first_by key seen (xs @ ys) = first_by key seen xs @ first_by key (seen \<union> key ` set xs) ys"
  by (induction key seen xs rule: first_by.induct) (simp_all add: insert_absorb)

lemma first_by_keys: "key ` set (first_by key seen xs) = key ` set xs - seen"
  by (induction key seen xs rule: first_by.induct) auto

lemma first_by_distinct: "distinct (map key (first_by key seen xs))"
proof (induction key seen xs rule: first_by.induct)
  case (2 key seen x xs)
  then show ?case using first_by_keys [of key "insert (key x) seen" xs] by auto
qed simp

lemma latest_by_snoc: "latest_by key (xs @ [x]) = filter (\<lambda>y. key y \<noteq> key x) (latest_by key xs) @ [x]"
  by (induction xs) auto

lemma latest_by_keys: "key ` set (latest_by key xs) = key ` set xs"
  by (induction xs) auto

lemma latest_by_distinct: "distinct (map key (latest_by key xs))"
  using latest_by_keys [of key] by (induction xs) auto

section \<open>File operations: the first of each key\<close>

definition operation_kept :: "file_operation \<Rightarrow> bool" where
  "operation_kept r \<longleftrightarrow> fo_action r \<noteq> [] \<and> fo_path r \<noteq> []"

definition entry_operations :: "('j, 'w) decoders \<Rightarrow> entry \<Rightarrow> file_operation list" where
  "entry_operations d e = file_operations_from_prior_compaction d e @ file_operations_from_tool_entry d e"

definition file_candidates :: "('j, 'w) decoders \<Rightarrow> entry list \<Rightarrow> file_operation list" where
  "file_candidates d entries = filter operation_kept (map trim_operation (concat (map (entry_operations d) entries)))"

lemma append_unique_operations:
  "foldl append_unique_file_operation (ops, seen) rs =
     (ops @ first_by operation_key seen (filter operation_kept (map trim_operation rs)),
      seen \<union> operation_key ` set (filter operation_kept (map trim_operation rs)))"
proof (induction rs arbitrary: ops seen)
  case (Cons r rs)
  then show ?case
    by (auto simp: append_unique_file_operation_def Let_def operation_kept_def insert_absorb)
qed simp

lemma file_candidates_Cons:
  "file_candidates d (e # es) = filter operation_kept (map trim_operation (entry_operations d e)) @ file_candidates d es"
  by (simp add: file_candidates_def)

lemma collect_files_loop_first:
  "length ops < max_file_operations \<Longrightarrow>
     collect_files_loop d (ops, seen) es = take max_file_operations (ops @ first_by operation_key seen (file_candidates d es))"
proof (induction es arbitrary: ops seen)
  case Nil
  then show ?case by (simp add: file_candidates_def)
next
  case (Cons e es)
  define here where "here = filter operation_kept (map trim_operation (entry_operations d e))"
  have step: "foldl append_unique_file_operation (foldl append_unique_file_operation (ops, seen)
        (file_operations_from_prior_compaction d e)) (file_operations_from_tool_entry d e)
      = (ops @ first_by operation_key seen here, seen \<union> operation_key ` set here)"
    using append_unique_operations [of ops seen "entry_operations d e"] by (simp add: entry_operations_def here_def)
  have all: "ops @ first_by operation_key seen (file_candidates d (e # es)) =
      (ops @ first_by operation_key seen here) @ first_by operation_key (seen \<union> operation_key ` set here) (file_candidates d es)"
    by (simp add: file_candidates_Cons here_def [symmetric] first_by_append)
  show ?case
  proof (cases "length (ops @ first_by operation_key seen here) \<ge> max_file_operations")
    case True
    then show ?thesis unfolding all using step by (simp add: Let_def)
  next
    case False
    then show ?thesis unfolding all using step Cons.IH by (simp add: Let_def)
  qed
qed

lemma collect_file_operations_first:
  "collect_file_operations d entries = take max_file_operations (first_by operation_key {} (file_candidates d entries))"
  by (simp add: collect_file_operations_def collect_files_loop_first max_file_operations_def)

text \<open>
  C37. What is collected: the first 64 different operations of the entries, trimmed, with an action and a path. Stopping early does not change the
  result. Later operations only fill what earlier ones leave, so the oldest operations are the ones that are kept.
\<close>

theorem file_operations_keep_oldest:
  "collect_file_operations d entries = take max_file_operations (first_by operation_key {} (file_candidates d entries))
   \<and> distinct (map operation_key (collect_file_operations d entries))
   \<and> (\<exists>new. collect_file_operations d (entries @ later) = collect_file_operations d entries @ new
          \<and> length new \<le> max_file_operations - length (collect_file_operations d entries))"
proof -
  let ?a = "first_by operation_key {} (file_candidates d entries)"
  let ?b = "first_by operation_key (operation_key ` set (file_candidates d entries)) (file_candidates d later)"
  have "file_candidates d (entries @ later) = file_candidates d entries @ file_candidates d later"
    by (simp add: file_candidates_def)
  then have "collect_file_operations d (entries @ later) = take max_file_operations ?a @ take (max_file_operations - length ?a) ?b"
    by (simp add: collect_file_operations_first first_by_append)
  moreover have "length (take (max_file_operations - length ?a) ?b) \<le> max_file_operations - length (take max_file_operations ?a)"
    by simp
  moreover have "distinct (map operation_key (take max_file_operations ?a))"
    using first_by_distinct [of operation_key "{}"] by (metis distinct_take take_map)
  ultimately show ?thesis by (simp add: collect_file_operations_first)
qed

section \<open>Validation records: the latest of each command\<close>

definition validation_candidates :: "('j, 'w) decoders \<Rightarrow> entry list \<Rightarrow> validation_record list" where
  "validation_candidates d entries =
     filter (\<lambda>r. trim_space (vr_command r) \<noteq> []) (map bounded_validation (concat (map (entry_validations d) entries)))"

definition validation_state ::
  "validation_record list \<Rightarrow> (string \<Rightarrow> validation_record option) \<times> string list \<Rightarrow> bool" where
  "validation_state rs st \<longleftrightarrow>
     snd st = map vr_command (latest_by vr_command rs)
     \<and> (\<forall>r \<in> set (latest_by vr_command rs). fst st (vr_command r) = Some r)
     \<and> (\<forall>c. fst st c \<noteq> None \<longrightarrow> c \<in> vr_command ` set rs)"

lemma remove1_filter_distinct: "distinct xs \<Longrightarrow> remove1 x xs = filter (\<lambda>y. y \<noteq> x) xs"
  by (simp add: distinct_remove1_removeAll removeAll_filter_not_eq) (metis (mono_tags))

lemma map_filter_key: "map key (filter (\<lambda>y. key y \<noteq> k) xs) = filter (\<lambda>c. c \<noteq> k) (map key xs)"
  by (induction xs) auto

lemma add_validation_state:
  assumes "validation_state rs st"
  shows "validation_state (rs @ filter (\<lambda>r. trim_space (vr_command r) \<noteq> []) [bounded_validation r]) (add_validation st r)"
proof (cases "trim_space (vr_command (bounded_validation r)) = []")
  case True
  then show ?thesis using assms by (simp add: add_validation_def Let_def case_prod_unfold)
next
  case False
  let ?r = "bounded_validation r"
  let ?c = "vr_command ?r"
  have order: "(if fst st ?c = None then snd st else remove1 ?c (snd st)) = filter (\<lambda>c. c \<noteq> ?c) (snd st)"
  proof (cases "fst st ?c")
    case None
    have "?c \<notin> set (snd st)"
    proof
      assume "?c \<in> set (snd st)"
      then obtain q where "q \<in> set (latest_by vr_command rs)" "vr_command q = ?c"
        using assms by (auto simp: validation_state_def)
      then show False using assms None by (auto simp: validation_state_def)
    qed
    then have "filter (\<lambda>c. c \<noteq> ?c) (snd st) = snd st" by (auto intro!: filter_True)
    then show ?thesis using None by simp
  next
    case (Some q)
    have "distinct (snd st)" using assms latest_by_distinct [of vr_command rs] by (simp add: validation_state_def)
    then show ?thesis using Some by (simp add: remove1_filter_distinct)
  qed
  show ?thesis using False assms order
    by (auto simp: validation_state_def add_validation_def Let_def case_prod_unfold latest_by_snoc map_filter_key)
qed

lemma add_validations_state:
  "validation_state rs st \<Longrightarrow>
     validation_state (rs @ filter (\<lambda>r. trim_space (vr_command r) \<noteq> []) (map bounded_validation qs)) (foldl add_validation st qs)"
proof (induction qs arbitrary: rs st)
  case (Cons q qs)
  from Cons.IH [OF add_validation_state [OF Cons.prems, of q]] show ?case by (simp split: if_splits)
qed simp

lemma foldl_concat: "foldl (\<lambda>st e. foldl f st (g e)) st es = foldl f st (concat (map g es))"
  by (induction es arbitrary: st) simp_all

lemma map_the_latest:
  assumes "validation_state rs st"
  shows "map (\<lambda>c. the (fst st c)) (snd st) = latest_by vr_command rs"
proof -
  have "map (\<lambda>c. the (fst st c)) (map vr_command (latest_by vr_command rs)) = latest_by vr_command rs"
    unfolding map_map by (rule map_idI) (use assms in \<open>simp add: validation_state_def\<close>)
  then show ?thesis using assms by (simp add: validation_state_def)
qed

text \<open>
  For each command the latest outcome is collected, in the order of these outcomes, and of these the newest 32.
\<close>

lemma validation_records_newest:
  "collect_validation_records d entries =
     retain_newest (latest_by vr_command (validation_candidates d entries)) max_validation_records"
proof -
  define st where "st = foldl (\<lambda>st e. foldl add_validation st (entry_validations d e)) (Map.empty, []) entries"
  have "validation_state [] (Map.empty, [])" by (simp add: validation_state_def)
  from add_validations_state [OF this, of "concat (map (entry_validations d) entries)"]
  have inv: "validation_state (validation_candidates d entries) st"
    by (simp add: st_def foldl_concat validation_candidates_def)
  have len: "length (snd st) = length (latest_by vr_command (validation_candidates d entries))"
    using inv by (simp add: validation_state_def)
  show ?thesis
    unfolding collect_validation_records_def st_def [symmetric] Let_def case_prod_unfold
    using map_the_latest [OF inv] len by (auto simp: retain_newest_def drop_map [symmetric])
qed

section \<open>Active work: the latest state of each task\<close>

definition work_candidates :: "('j, 'w) decoders \<Rightarrow> entry list \<Rightarrow> active_work_record list" where
  "work_candidates d entries =
     filter (\<lambda>r. aw_kind r \<noteq> [] \<and> aw_id r \<noteq> []) (map bounded_active_work_record (concat (map (entry_work d) entries)))"

definition latest_work :: "active_work_record list \<Rightarrow> string \<Rightarrow> active_work_record option" where
  "latest_work rs k = find (\<lambda>r. work_key r = k) (rev rs)"

definition work_keys :: "active_work_record list \<Rightarrow> string list" where
  "work_keys rs = first_by (\<lambda>k. k) {} (map work_key rs)"

definition work_state :: "active_work_record list \<Rightarrow> (string \<Rightarrow> active_work_record option) \<times> string list \<Rightarrow> bool" where
  "work_state rs st \<longleftrightarrow> fst st = latest_work rs \<and> snd st = work_keys rs"

lemma latest_work_None: "latest_work rs k = None \<longleftrightarrow> k \<notin> work_key ` set rs"
  by (auto simp: latest_work_def find_None_iff)

lemma add_active_work_state:
  assumes "work_state rs st"
  shows "work_state (rs @ filter (\<lambda>r. aw_kind r \<noteq> [] \<and> aw_id r \<noteq> []) [bounded_active_work_record r]) (add_active_work_record st r)"
proof (cases "aw_kind (bounded_active_work_record r) = [] \<or> aw_id (bounded_active_work_record r) = []")
  case True
  then show ?thesis using assms by (auto simp: add_active_work_record_def Let_def case_prod_unfold)
next
  case False
  let ?r = "bounded_active_work_record r"
  have "latest_work (rs @ [?r]) = (latest_work rs)(work_key ?r \<mapsto> ?r)"
    by (rule ext) (simp add: latest_work_def)
  moreover have "work_keys (rs @ [?r]) = (if latest_work rs (work_key ?r) = None then work_keys rs @ [work_key ?r] else work_keys rs)"
    by (simp add: work_keys_def first_by_append latest_work_None)
  ultimately show ?thesis using False assms
    by (simp add: work_state_def add_active_work_record_def Let_def case_prod_unfold)
qed

lemma add_active_works_state:
  "work_state rs st \<Longrightarrow>
     work_state (rs @ filter (\<lambda>r. aw_kind r \<noteq> [] \<and> aw_id r \<noteq> []) (map bounded_active_work_record qs))
       (foldl add_active_work_record st qs)"
proof (induction qs arbitrary: rs st)
  case (Cons q qs)
  from Cons.IH [OF add_active_work_state [OF Cons.prems, of q]] show ?case by (auto split: if_splits)
qed simp

text \<open>
  Each task appears once, where it was first mentioned, with the state that was recorded last, and only while this state
  may still need attention; of these the newest 32 are collected.
\<close>

lemma active_work_latest:
  "collect_active_work_records d entries =
     retain_newest (filter (\<lambda>r. is_active_work_state (aw_state r))
       (map (\<lambda>k. the (latest_work (work_candidates d entries) k)) (work_keys (work_candidates d entries))))
       max_active_work_records"
proof -
  define st where "st = foldl (\<lambda>st e. foldl add_active_work_record st (entry_work d e)) (Map.empty, []) entries"
  have "work_state [] (Map.empty, [])" by (auto simp: work_state_def latest_work_def work_keys_def)
  from add_active_works_state [OF this, of "concat (map (entry_work d) entries)"]
  have "work_state (work_candidates d entries) st" by (simp add: st_def foldl_concat work_candidates_def)
  then show ?thesis
    unfolding collect_active_work_records_def st_def [symmetric] Let_def case_prod_unfold
    by (auto simp: work_state_def retain_newest_def)
qed

section \<open>Bounds\<close>

lemma length_drop_invalid: "length (drop_invalid_utf8 s) \<le> length s"
proof (induction s rule: drop_invalid_utf8.induct)
  case (1 s)
  show ?case
  proof (cases "s = []")
    case False
    then have "length (drop_invalid_utf8 (drop (snd (decode_rune s)) s)) \<le> length s - snd (decode_rune s)"
      using 1 by simp
    then show ?thesis using False decode_rune_width [OF False]
      by (subst drop_invalid_utf8.simps) (auto simp: min_def)
  qed (simp add: drop_invalid_utf8.simps)
qed

lemma bounded_record_field_length: "length (bounded_record_field v) \<le> max_record_field_bytes"
  using length_drop_invalid [of "take max_record_field_bytes (trim_space v)"]
  by (auto simp: bounded_record_field_def Let_def)

lemma truncate_command_length: "length (truncate_command command) \<le> command_preview_limit"
  by (simp add: truncate_command_def Let_def command_preview_limit_def)

lemma retain_newest_length: "length (retain_newest xs n) \<le> n"
  by (simp add: retain_newest_def)

text \<open>
  C36. The validation records that a plan carries are the latest outcome of each command, the newest 32 of them; the active
  work it carries is each task where it was first mentioned, in the state recorded last, only while that state may need
  attention, the newest 32 of them.
\<close>

theorem collected_records_are_latest:
  "collect_validation_records d entries =
     retain_newest (latest_by vr_command (validation_candidates d entries)) max_validation_records
   \<and> collect_active_work_records d entries =
     retain_newest (filter (\<lambda>r. is_active_work_state (aw_state r))
       (map (\<lambda>k. the (latest_work (work_candidates d entries) k)) (work_keys (work_candidates d entries))))
       max_active_work_records"
  using validation_records_newest active_work_latest by blast

text \<open>
  However long the history, a plan carries at most 64 file operations and 32 records of each other kind, which
  is what the appended sections retain.
\<close>

lemma collected_records_bounds:
  assumes "collect_records d entries = (files, validations, work)"
  shows "length files \<le> max_file_operations" "length validations \<le> max_validation_records"
    "length work \<le> max_active_work_records" "q \<in> set validations \<Longrightarrow> length (vr_command q) \<le> max_record_field_bytes"
proof -
  have r: "files = collect_file_operations d entries" "validations = collect_validation_records d entries"
    "work = collect_active_work_records d entries" using assms by (simp_all add: collect_records_def)
  show "length files \<le> max_file_operations" by (simp add: r collect_file_operations_first)
  show "length validations \<le> max_validation_records" unfolding r validation_records_newest by (rule retain_newest_length)
  show "length work \<le> max_active_work_records" unfolding r active_work_latest by (rule retain_newest_length)
  assume "q \<in> set validations"
  then have "q \<in> set (latest_by vr_command (validation_candidates d entries))"
    unfolding r(2) validation_records_newest by (auto simp: retain_newest_def dest: in_set_dropD split: if_splits)
  moreover have "set (latest_by vr_command xs) \<subseteq> set xs" for xs :: "validation_record list"
    by (induction xs) auto
  ultimately have "q \<in> set (validation_candidates d entries)" by blast
  then show "length (vr_command q) \<le> max_record_field_bytes"
    by (auto simp: validation_candidates_def bounded_validation_def bounded_record_field_length)
qed

lemma plan_branch_records:
  assumes "plan_branch collect branch target counter = Inr p"
  shows "pln_records p = collect (take (pln_first_kept_index p) branch)"
proof -
  obtain ms ids sp where pay: "summary_payload branch (boundary_of branch)
      (split_cut branch (pln_first_kept_index p) (boundary_of branch)) = (ms, ids, sp)"
    by (rule prod_cases3)
  have "make_plan collect branch (fst (previous_compaction_boundary branch)) (pln_first_kept_index p) (default_counter counter)
      (ent_id (branch ! pln_first_kept_index p)) (ms, ids, sp) = Inr p"
    using plan_branch_InrD [OF assms] unfolding pay by blast
  from make_plan_Inr [OF this] show ?thesis by blast
qed

text \<open>
  A plan that is carried out: the records of the compacted entries, all of them as they are retained by the appended sections.
\<close>

theorem planned_records_fit_sections:
  assumes "plan_branch (collect_records d) branch recent_tail_tokens count_tokens = Inr plan"
    and "pln_records plan = (files, validations, work)"
  shows "(files, validations, work) = collect_records d (take (pln_first_kept_index plan) branch)
    \<and> retain_newest files max_file_operations = files
    \<and> retain_newest validations max_validation_records = validations
    \<and> retain_newest work max_active_work_records = work
    \<and> (\<forall>r \<in> set validations. length (vr_command r) \<le> max_record_field_bytes)"
proof -
  have c: "collect_records d (take (pln_first_kept_index plan) branch) = (files, validations, work)"
    using plan_branch_records [OF assms(1)] assms(2) by simp
  note bounds = collected_records_bounds [OF c]
  have "\<forall>r \<in> set validations. length (vr_command r) \<le> max_record_field_bytes" by (blast intro: bounds(4))
  then show ?thesis unfolding c using bounds(1-3) by (simp add: retain_newest_def)
qed

definition no_decoders :: "(unit, unit) decoders" where
  "no_decoders =
     \<lparr>dec_lower = id, dec_details = (\<lambda>_. None), dec_args = (\<lambda>_. None), dec_string = (\<lambda>_. None), dec_files = (\<lambda>_. None),
      dec_validations = (\<lambda>_. None), dec_work = (\<lambda>_. None), dec_shell = (\<lambda>_. None), dec_word_empty = (\<lambda>_. True),
      dec_fields = (\<lambda>_. None)\<rparr>"

theorem planned_records_fit_sections_witness:
  "\<exists>plan files validations work.
     plan_branch (collect_records no_decoders) sample_branch 1 (Some (\<lambda>s. int (length s))) = Inr plan
     \<and> (files, validations, work) = collect_records no_decoders (take (pln_first_kept_index plan) sample_branch)
     \<and> retain_newest files max_file_operations = files"
proof -
  obtain plan where plan: "plan_branch (collect_records no_decoders) sample_branch 1 (Some (\<lambda>s. int (length s))) = Inr plan"
    using sample_branch_planned by blast
  obtain files validations work where "pln_records plan = (files, validations, work)" by (rule prod_cases3)
  from plan planned_records_fit_sections [OF plan this] show ?thesis by blast
qed

end
