(* ===== verification/Workflow_Progress.thy ===== *)
theory Workflow_Progress
  imports Go_Strings
begin

text \<open>
  Progress of an evaluation (\<^verbatim>\<open>internal/workflowprogress/progress.go\<close>): the emitter that validates and numbers events,
  and the validation of events that come from an isolated worker. The emitter holds its mutex while it emits, so a call is
  one step. The encoder of custom data is a parameter (it fails with \<open>None\<close>), the sink answers an event with an error or
  accepts it (a nil sink accepts everything), and the context is the question whether it is done.
\<close>

section \<open>Data\<close>

definition contract_version :: int where "contract_version = 1"
definition max_events :: nat where "max_events = 256"
definition max_id_bytes :: nat where "max_id_bytes = 128"
definition max_text_bytes :: nat where "max_text_bytes = 4096"
definition max_data_bytes :: nat where "max_data_bytes = 16384"

datatype progress_state = StatePending | StateRunning | StateSucceeded | StateFailed | StateCanceled

fun state_text :: "progress_state \<Rightarrow> string" where
  "state_text StatePending = ''pending''"
| "state_text StateRunning = ''running''"
| "state_text StateSucceeded = ''succeeded''"
| "state_text StateFailed = ''failed''"
| "state_text StateCanceled = ''canceled''"

record phase_body =
  ph_id :: string
  ph_title :: string
  ph_state :: string

record item_body =
  it_id :: string
  it_phase :: string
  it_title :: string
  it_state :: string

record 'd custom_body =
  cu_name :: string
  cu_data :: 'd

record log_body =
  lg_level :: string
  lg_message :: string

record 'd progress_event =
  pe_phase :: "phase_body option"
  pe_item :: "item_body option"
  pe_custom :: "'d custom_body option"
  pe_log :: "log_body option"
  pe_kind :: string
  pe_version :: int
  pe_sequence :: nat

datatype progress_error =
    IDRequired | IDTooLong | TextRequired | TextTooLong | InvalidState | DataNotEncoded | DataTooLong
  | ContextDone | EventLimit | PhaseNotDeclared | StateTerminal | StateRepeated | SinkFailed
  | UnsupportedVersion | SequenceOutside | NotOneBody | UnknownKind | MissingBody

record emitter =
  em_phases :: "string \<Rightarrow> progress_state option"
  em_items :: "string \<Rightarrow> progress_state option"
  em_count :: nat

definition new_emitter :: emitter where
  "new_emitter = \<lparr>em_phases = Map.empty, em_items = Map.empty, em_count = 0\<rparr>"

section \<open>Validation\<close>

definition valid_id :: "string \<Rightarrow> progress_error option" where
  "valid_id v = (if trim_space v = [] then Some IDRequired else if length v > max_id_bytes then Some IDTooLong else None)"

definition valid_text :: "string \<Rightarrow> progress_error option" where
  "valid_text v = (if trim_space v = [] then Some TextRequired else if length v > max_text_bytes then Some TextTooLong else None)"

definition parse_state :: "string \<Rightarrow> progress_state option" where
  "parse_state v = find (\<lambda>s. state_text s = v) [StatePending, StateRunning, StateSucceeded, StateFailed, StateCanceled]"

definition terminal :: "progress_state \<Rightarrow> bool" where
  "terminal s \<longleftrightarrow> s = StateSucceeded \<or> s = StateFailed \<or> s = StateCanceled"

definition validate_transition :: "string \<Rightarrow> (string \<Rightarrow> progress_state option) \<Rightarrow> progress_state \<Rightarrow> progress_error option" where
  "validate_transition ident states new =
     (case states ident of
        None \<Rightarrow> None
      | Some previous \<Rightarrow> if terminal previous then Some StateTerminal else if previous = new then Some StateRepeated else None)"

text \<open>The first check that fails.\<close>

fun first_error :: "'e option list \<Rightarrow> 'e option" where
  "first_error [] = None"
| "first_error (None # cs) = first_error cs"
| "first_error (Some e # cs) = Some e"

definition state_error :: "string \<Rightarrow> progress_error option" where
  "state_error v = (if parse_state v = None then Some InvalidState else None)"

definition data_error :: "('d \<Rightarrow> string option) \<Rightarrow> 'd \<Rightarrow> progress_error option" where
  "data_error encode data =
     (case encode data of None \<Rightarrow> Some DataNotEncoded
      | Some t \<Rightarrow> if length t > max_data_bytes then Some DataTooLong else None)"

definition validate_phase :: "phase_body option \<Rightarrow> progress_error option" where
  "validate_phase p =
     (case p of None \<Rightarrow> Some MissingBody
      | Some p \<Rightarrow> first_error [valid_id (ph_id p), valid_text (ph_title p), state_error (ph_state p)])"

definition validate_item :: "item_body option \<Rightarrow> progress_error option" where
  "validate_item i =
     (case i of None \<Rightarrow> Some MissingBody
      | Some i \<Rightarrow> first_error [valid_id (it_id i), if it_phase i \<noteq> [] then valid_id (it_phase i) else None,
                              valid_text (it_title i), state_error (it_state i)])"

definition validate_custom :: "('d \<Rightarrow> string option) \<Rightarrow> 'd custom_body option \<Rightarrow> progress_error option" where
  "validate_custom encode c =
     (case c of None \<Rightarrow> Some MissingBody | Some c \<Rightarrow> first_error [valid_text (cu_name c), data_error encode (cu_data c)])"

definition validate_log :: "log_body option \<Rightarrow> progress_error option" where
  "validate_log l =
     (case l of None \<Rightarrow> Some MissingBody | Some l \<Rightarrow> first_error [valid_text (lg_level l), valid_text (lg_message l)])"

definition bool_int :: "bool \<Rightarrow> int" where "bool_int b = (if b then 1 else 0)"

definition validate_progress_event :: "('d \<Rightarrow> string option) \<Rightarrow> 'd progress_event \<Rightarrow> progress_error option" where
  "validate_progress_event encode e =
     (if pe_version e \<noteq> contract_version then Some UnsupportedVersion
      else if pe_sequence e = 0 \<or> pe_sequence e > max_events then Some SequenceOutside
      else if bool_int (pe_phase e \<noteq> None) + bool_int (pe_item e \<noteq> None) + bool_int (pe_custom e \<noteq> None)
           + bool_int (pe_log e \<noteq> None) \<noteq> 1 then Some NotOneBody
      else if pe_kind e = ''phase'' then validate_phase (pe_phase e)
      else if pe_kind e = ''item'' then validate_item (pe_item e)
      else if pe_kind e = ''event'' then validate_custom encode (pe_custom e)
      else if pe_kind e = ''log'' then validate_log (pe_log e)
      else Some UnknownKind)"

section \<open>The emitter\<close>

text \<open>
  \<open>emit_progress\<close> returns the error, the event it handed to the sink, and the new state. The check and the commit of the callers
  are functions of the state.
\<close>

definition emit_progress ::
  "bool \<Rightarrow> ('d progress_event \<Rightarrow> bool) \<Rightarrow> 'd progress_event \<Rightarrow> (emitter \<Rightarrow> progress_error option) \<Rightarrow> (emitter \<Rightarrow> emitter)
     \<Rightarrow> emitter \<Rightarrow> progress_error option \<times> 'd progress_event option \<times> emitter" where
  "emit_progress context_done sink event check commit em =
     (if context_done then (Some ContextDone, None, em)
      else if em_count em \<ge> max_events then (Some EventLimit, None, em)
      else case check em of
          Some e \<Rightarrow> (Some e, None, em)
        | None \<Rightarrow>
            let event = event\<lparr>pe_version := contract_version, pe_sequence := em_count em + 1\<rparr>
            in if \<not> sink event then (Some SinkFailed, Some event, em)
               else (None, Some event, (commit em)\<lparr>em_count := em_count em + 1\<rparr>))"

datatype 'd progress_call =
    CallPhase string string string
  | CallItem string string string string
  | CallEvent string "'d option"
  | CallLog string string

definition phase_event :: "string \<Rightarrow> string \<Rightarrow> string \<Rightarrow> 'd progress_event" where
  "phase_event ident title s =
     \<lparr>pe_phase = Some \<lparr>ph_id = ident, ph_title = title, ph_state = s\<rparr>, pe_item = None, pe_custom = None, pe_log = None,
      pe_kind = ''phase'', pe_version = 0, pe_sequence = 0\<rparr>"

definition item_event :: "string \<Rightarrow> string \<Rightarrow> string \<Rightarrow> string \<Rightarrow> 'd progress_event" where
  "item_event ident ph title s =
     \<lparr>pe_phase = None, pe_item = Some \<lparr>it_id = ident, it_phase = ph, it_title = title, it_state = s\<rparr>, pe_custom = None,
      pe_log = None, pe_kind = ''item'', pe_version = 0, pe_sequence = 0\<rparr>"

definition custom_event :: "string \<Rightarrow> 'd \<Rightarrow> 'd progress_event" where
  "custom_event name data =
     \<lparr>pe_phase = None, pe_item = None, pe_custom = Some \<lparr>cu_name = name, cu_data = data\<rparr>, pe_log = None,
      pe_kind = ''event'', pe_version = 0, pe_sequence = 0\<rparr>"

definition log_event :: "string \<Rightarrow> string \<Rightarrow> 'd progress_event" where
  "log_event level message =
     \<lparr>pe_phase = None, pe_item = None, pe_custom = None, pe_log = Some \<lparr>lg_level = level, lg_message = message\<rparr>,
      pe_kind = ''log'', pe_version = 0, pe_sequence = 0\<rparr>"

text \<open>The four methods; \<open>nil_data\<close> is the empty map that stands for nil data.\<close>

fun emitter_call ::
  "('d \<Rightarrow> string option) \<Rightarrow> 'd \<Rightarrow> bool \<Rightarrow> ('d progress_event \<Rightarrow> bool) \<Rightarrow> 'd progress_call \<Rightarrow> emitter
     \<Rightarrow> progress_error option \<times> 'd progress_event option \<times> emitter" where
  "emitter_call encode nil_data context_done sink (CallPhase ident title s) em =
     (case first_error [valid_id ident, valid_text title, state_error s] of
        Some e \<Rightarrow> (Some e, None, em)
      | None \<Rightarrow>
          let parsed = the (parse_state s)
          in emit_progress context_done sink (phase_event ident title s)
               (\<lambda>em. validate_transition ident (em_phases em) parsed)
               (\<lambda>em. em\<lparr>em_phases := (em_phases em)(ident \<mapsto> parsed)\<rparr>) em)"
| "emitter_call encode nil_data context_done sink (CallItem ident ph title s) em =
     (case first_error [valid_id ident, if ph \<noteq> [] then valid_id ph else None, valid_text title, state_error s] of
        Some e \<Rightarrow> (Some e, None, em)
      | None \<Rightarrow>
          let parsed = the (parse_state s)
          in emit_progress context_done sink (item_event ident ph title s)
               (\<lambda>em. if ph \<noteq> [] \<and> em_phases em ph = None then Some PhaseNotDeclared
                     else validate_transition ident (em_items em) parsed)
               (\<lambda>em. em\<lparr>em_items := (em_items em)(ident \<mapsto> parsed)\<rparr>) em)"
| "emitter_call encode nil_data context_done sink (CallEvent name data) em =
     (let data = (case data of None \<Rightarrow> nil_data | Some d \<Rightarrow> d)
      in case first_error [valid_text name, data_error encode data] of
          Some e \<Rightarrow> (Some e, None, em)
        | None \<Rightarrow> emit_progress context_done sink (custom_event name data) (\<lambda>em. None) (\<lambda>em. em) em)"
| "emitter_call encode nil_data context_done sink (CallLog level message) em =
     (case first_error [valid_text level, valid_text message] of
        Some e \<Rightarrow> (Some e, None, em)
      | None \<Rightarrow> emit_progress context_done sink (log_event level message) (\<lambda>em. None) (\<lambda>em. em) em)"

section \<open>What reaches the sink\<close>

lemma first_error_None: "first_error cs = None \<longleftrightarrow> set cs \<subseteq> {None}"
  by (induction cs rule: first_error.induct) auto

lemma parse_state_text: "parse_state v = Some s \<Longrightarrow> state_text s = v"
  by (auto simp: parse_state_def split: if_splits)

text \<open>Every outcome of \<open>emit_progress\<close>: rejected without a trace, refused by the sink, or accepted and counted.\<close>

lemma emit_cases:
  assumes "emit_progress context_done sink event check commit em = (err, sent, em')"
  shows "(err \<noteq> None \<and> sent = None \<and> em' = em)
    \<or> (em_count em < max_events \<and> check em = None
       \<and> sent = Some (event\<lparr>pe_version := contract_version, pe_sequence := em_count em + 1\<rparr>)
       \<and> (err = Some SinkFailed \<and> em' = em \<or> err = None \<and> em' = (commit em)\<lparr>em_count := em_count em + 1\<rparr>))"
proof (cases "context_done \<or> em_count em \<ge> max_events \<or> check em \<noteq> None")
  case True
  then show ?thesis using assms by (cases context_done; cases "em_count em \<ge> max_events"; cases "check em") (auto simp: emit_progress_def)
next
  case False
  then show ?thesis using assms
    by (cases "sink (event\<lparr>pe_version := contract_version, pe_sequence := em_count em + 1\<rparr>)") (auto simp: emit_progress_def Let_def)
qed

lemma emit_sent:
  assumes "emit_progress context_done sink event check commit em = (err, Some e, em')"
  shows "e = event\<lparr>pe_version := contract_version, pe_sequence := em_count em + 1\<rparr> \<and> em_count em < max_events"
  using emit_cases [OF assms] by auto

lemmas validate_progress_defs = validate_progress_event_def validate_phase_def validate_item_def validate_custom_def validate_log_def bool_int_def

lemma checked_call:
  assumes "(case x of Some e \<Rightarrow> (Some e, None, em) | None \<Rightarrow> r) = (err, sent, em')" and "err = None \<or> sent \<noteq> None"
  shows "x = None \<and> r = (err, sent, em')"
  using assms by (cases x) auto

lemma sent_event_valid:
  assumes "emitter_call encode nil_data context_done sink call em = (err, Some event, em')"
  shows "validate_progress_event encode event = None \<and> pe_sequence event = em_count em + 1"
proof (cases call)
  case (CallPhase ident title s)
  note c = checked_call [OF assms [unfolded CallPhase emitter_call.simps Let_def] disjI2 [OF option.distinct(2)]]
  show ?thesis using c emit_sent [OF conjunct2 [OF c]]
    by (simp add: phase_event_def validate_progress_defs first_error_None)
next
  case (CallItem ident ph title s)
  note c = checked_call [OF assms [unfolded CallItem emitter_call.simps Let_def] disjI2 [OF option.distinct(2)]]
  show ?thesis using c emit_sent [OF conjunct2 [OF c]]
    by (auto simp: item_event_def validate_progress_defs first_error_None split: if_splits)
next
  case (CallEvent name data)
  note c = checked_call [OF assms [unfolded CallEvent emitter_call.simps Let_def] disjI2 [OF option.distinct(2)]]
  show ?thesis using c emit_sent [OF conjunct2 [OF c]]
    by (simp add: custom_event_def validate_progress_defs first_error_None)
next
  case (CallLog level message)
  note c = checked_call [OF assms [unfolded CallLog emitter_call.simps] disjI2 [OF option.distinct(2)]]
  show ?thesis using c emit_sent [OF conjunct2 [OF c]]
    by (simp add: log_event_def validate_progress_defs first_error_None)
qed

section \<open>The history of an emitter\<close>

text \<open>An accepted call: what it sent and what it changed.\<close>

inductive accepted_event :: "emitter \<Rightarrow> 'd progress_event \<Rightarrow> emitter \<Rightarrow> bool" for em e em' where
  phase: "pe_phase e = Some p \<Longrightarrow> pe_item e = None \<Longrightarrow> parse_state (ph_state p) = Some s \<Longrightarrow>
    validate_transition (ph_id p) (em_phases em) s = None \<Longrightarrow>
    em' = em\<lparr>em_phases := (em_phases em)(ph_id p \<mapsto> s), em_count := em_count em + 1\<rparr> \<Longrightarrow> accepted_event em e em'"
| item: "pe_phase e = None \<Longrightarrow> pe_item e = Some i \<Longrightarrow> parse_state (it_state i) = Some s \<Longrightarrow>
    it_phase i = [] \<or> em_phases em (it_phase i) \<noteq> None \<Longrightarrow> validate_transition (it_id i) (em_items em) s = None \<Longrightarrow>
    em' = em\<lparr>em_items := (em_items em)(it_id i \<mapsto> s), em_count := em_count em + 1\<rparr> \<Longrightarrow> accepted_event em e em'"
| other: "pe_phase e = None \<Longrightarrow> pe_item e = None \<Longrightarrow> em' = em\<lparr>em_count := em_count em + 1\<rparr> \<Longrightarrow> accepted_event em e em'"

lemma emit_accepted:
  assumes "emit_progress context_done sink event check commit em = (None, sent, em')"
  shows "em_count em < max_events \<and> check em = None
    \<and> sent = Some (event\<lparr>pe_version := contract_version, pe_sequence := em_count em + 1\<rparr>)
    \<and> em' = (commit em)\<lparr>em_count := em_count em + 1\<rparr>"
  using emit_cases [OF assms] by auto

lemma state_error_None: "state_error s = None \<Longrightarrow> parse_state s = Some (the (parse_state s))"
  by (cases "parse_state s") (simp_all add: state_error_def)

lemma accepted_call:
  assumes "emitter_call encode nil_data context_done sink call em = (None, sent, em')"
  shows "\<exists>e. sent = Some e \<and> em_count em < max_events \<and> accepted_event em e em'"
proof (cases call)
  case (CallPhase ident title s)
  note c = checked_call [OF assms [unfolded CallPhase emitter_call.simps Let_def] disjI1 [OF refl]]
  have st: "parse_state s = Some (the (parse_state s))" using c by (intro state_error_None) (simp add: first_error_None)
  note a = emit_accepted [OF conjunct2 [OF c]]
  obtain e :: "'a progress_event" where e: "sent = Some e" "pe_phase e = Some \<lparr>ph_id = ident, ph_title = title, ph_state = s\<rparr>"
    "pe_item e = None"
    using a by (simp add: phase_event_def)
  have "accepted_event em e em'"
    by (rule accepted_event.phase [OF e(2,3), of "the (parse_state s)"]) (use st a in \<open>simp_all only: phase_body.simps\<close>)
  then show ?thesis using e(1) a by blast
next
  case (CallItem ident ph title s)
  note c = checked_call [OF assms [unfolded CallItem emitter_call.simps Let_def] disjI1 [OF refl]]
  have "parse_state s = Some (the (parse_state s))" using c by (intro state_error_None) (simp add: first_error_None)
  then have p: "parse_state (it_state \<lparr>it_id = ident, it_phase = ph, it_title = title, it_state = s\<rparr>) = Some (the (parse_state s))"
    by simp
  note a = emit_accepted [OF conjunct2 [OF c]]
  then have check: "ph = [] \<or> em_phases em ph \<noteq> None" "validate_transition ident (em_items em) (the (parse_state s)) = None"
    by (metis option.distinct(1), metis option.distinct(1))
  obtain e :: "'a progress_event" where e: "sent = Some e" "pe_phase e = None"
    "pe_item e = Some \<lparr>it_id = ident, it_phase = ph, it_title = title, it_state = s\<rparr>"
    using a by (simp add: item_event_def)
  have "accepted_event em e em'"
    by (rule accepted_event.item [OF e(2,3) p]) (use check a in simp_all)
  then show ?thesis using e(1) a by blast
next
  case (CallEvent name data)
  note c = checked_call [OF assms [unfolded CallEvent emitter_call.simps Let_def] disjI1 [OF refl]]
  show ?thesis using emit_accepted [OF conjunct2 [OF c]] by (auto intro!: accepted_event.other simp: custom_event_def)
next
  case (CallLog level message)
  note c = checked_call [OF assms [unfolded CallLog emitter_call.simps] disjI1 [OF refl]]
  show ?thesis using emit_accepted [OF conjunct2 [OF c]] by (auto intro!: accepted_event.other simp: log_event_def)
qed

lemma rejected_call:
  assumes "emitter_call encode nil_data context_done sink call em = (Some err, sent, em')"
  shows "em' = em"
  using assms by (cases call) (auto simp: emit_progress_def Let_def split: option.splits if_splits)

record 'd progress_trace =
  tr_emitter :: emitter
  tr_events :: "'d progress_event list"

definition trace_init :: "'d progress_trace \<Rightarrow> bool" where
  "trace_init t \<longleftrightarrow> t = \<lparr>tr_emitter = new_emitter, tr_events = []\<rparr>"

definition call_trace :: "('d \<Rightarrow> string option) \<Rightarrow> 'd \<Rightarrow> bool \<Rightarrow> ('d progress_event \<Rightarrow> bool) \<Rightarrow> 'd progress_call \<Rightarrow> 'd progress_trace
    \<Rightarrow> 'd progress_trace" where
  "call_trace encode nil_data context_done sink call t =
     (case emitter_call encode nil_data context_done sink call (tr_emitter t) of
        (None, Some e, em) \<Rightarrow> \<lparr>tr_emitter = em, tr_events = tr_events t @ [e]\<rparr>
      | (_, _, em) \<Rightarrow> t\<lparr>tr_emitter := em\<rparr>)"

inductive trace_step :: "('d \<Rightarrow> string option) \<Rightarrow> 'd \<Rightarrow> 'd progress_trace \<Rightarrow> 'd progress_trace \<Rightarrow> bool" for encode nil_data where
  "trace_step encode nil_data t (call_trace encode nil_data context_done sink call t)"

text \<open>The states a phase or an item went through.\<close>

definition phase_history :: "string \<Rightarrow> 'd progress_event list \<Rightarrow> progress_state list" where
  "phase_history i evs =
     concat (map (\<lambda>e. case pe_phase e of None \<Rightarrow> []
                    | Some p \<Rightarrow> if ph_id p = i then [the (parse_state (ph_state p))] else []) evs)"

definition item_history :: "string \<Rightarrow> 'd progress_event list \<Rightarrow> progress_state list" where
  "item_history i evs =
     concat (map (\<lambda>e. case pe_item e of None \<Rightarrow> []
                    | Some x \<Rightarrow> if it_id x = i then [the (parse_state (it_state x))] else []) evs)"

definition last_state :: "progress_state list \<Rightarrow> progress_state option" where
  "last_state ss = (if ss = [] then None else Some (last ss))"

text \<open>A life: no state twice in a row, and none after a terminal one.\<close>

definition life :: "progress_state list \<Rightarrow> bool" where
  "life ss \<longleftrightarrow> successively (\<noteq>) ss \<and> list_all (\<lambda>s. \<not> terminal s) (butlast ss)"

definition declared_before :: "'d progress_event list \<Rightarrow> bool" where
  "declared_before evs \<longleftrightarrow>
     (\<forall>k < length evs. \<forall>i. pe_item (evs ! k) = Some i \<and> it_phase i \<noteq> [] \<longrightarrow> phase_history (it_phase i) (take k evs) \<noteq> [])"

definition trace_inv :: "('d \<Rightarrow> string option) \<Rightarrow> 'd progress_trace \<Rightarrow> bool" where
  "trace_inv encode t \<longleftrightarrow>
     em_count (tr_emitter t) = length (tr_events t) \<and> length (tr_events t) \<le> max_events
     \<and> map pe_sequence (tr_events t) = [1..<Suc (length (tr_events t))]
     \<and> (\<forall>e \<in> set (tr_events t). validate_progress_event encode e = None)
     \<and> (\<forall>i. em_phases (tr_emitter t) i = last_state (phase_history i (tr_events t)) \<and> life (phase_history i (tr_events t)))
     \<and> (\<forall>i. em_items (tr_emitter t) i = last_state (item_history i (tr_events t)) \<and> life (item_history i (tr_events t)))
     \<and> declared_before (tr_events t)"

lemma history_snoc:
  "phase_history i (evs @ [e]) = phase_history i evs
     @ (case pe_phase e of None \<Rightarrow> [] | Some p \<Rightarrow> if ph_id p = i then [the (parse_state (ph_state p))] else [])"
  "item_history i (evs @ [e]) = item_history i evs
     @ (case pe_item e of None \<Rightarrow> [] | Some x \<Rightarrow> if it_id x = i then [the (parse_state (it_state x))] else [])"
  by (simp_all add: phase_history_def item_history_def)

lemma last_state_snoc [simp]: "last_state (ss @ [s]) = Some s"
  by (simp add: last_state_def)

lemma life_snoc:
  assumes "life ss" and "validate_transition i states s = None" and "states i = last_state ss"
  shows "life (ss @ [s])"
proof (cases "ss = []")
  case True
  then show ?thesis by (simp add: life_def)
next
  case False
  then have "states i = Some (last ss)" using assms(3) by (simp add: last_state_def)
  then have ok: "\<not> terminal (last ss)" "last ss \<noteq> s" using assms(2) by (auto simp: validate_transition_def split: if_splits)
  have "list_all (\<lambda>s. \<not> terminal s) (butlast ss @ [last ss])" using assms(1) ok(1) by (simp add: life_def)
  then show ?thesis using False assms(1) ok(2) by (simp add: life_def successively_append_iff)
qed

lemma declared_before_snoc:
  assumes "declared_before evs" and "\<And>i. pe_item e = Some i \<Longrightarrow> it_phase i \<noteq> [] \<Longrightarrow> phase_history (it_phase i) evs \<noteq> []"
  shows "declared_before (evs @ [e])"
  using assms by (auto simp: declared_before_def nth_append less_Suc_eq)

lemma accepted_event_inv:
  assumes "trace_inv encode t" and "accepted_event (tr_emitter t) e em'" and "em_count (tr_emitter t) < max_events"
    and "validate_progress_event encode e = None" and "pe_sequence e = em_count (tr_emitter t) + 1"
  shows "trace_inv encode \<lparr>tr_emitter = em', tr_events = tr_events t @ [e]\<rparr>"
  using assms(2)
proof cases
  case (phase p s)
  have "life (phase_history (ph_id p) (tr_events t) @ [s])"
    by (rule life_snoc [OF _ phase(4)]) (use assms(1) in \<open>simp_all add: trace_inv_def\<close>)
  moreover have "declared_before (tr_events t @ [e])"
    by (rule declared_before_snoc) (use assms(1) phase in \<open>simp_all add: trace_inv_def\<close>)
  ultimately show ?thesis using assms phase by (auto simp: trace_inv_def history_snoc)
next
  case (item i s)
  have "life (item_history (it_id i) (tr_events t) @ [s])"
    by (rule life_snoc [OF _ item(5)]) (use assms(1) in \<open>simp_all add: trace_inv_def\<close>)
  moreover have "declared_before (tr_events t @ [e])"
    by (rule declared_before_snoc) (use assms(1) item in \<open>auto simp: trace_inv_def last_state_def\<close>)
  ultimately show ?thesis using assms item by (auto simp: trace_inv_def history_snoc)
next
  case other
  have "declared_before (tr_events t @ [e])"
    by (rule declared_before_snoc) (use assms(1) other in \<open>simp_all add: trace_inv_def\<close>)
  then show ?thesis using assms other by (auto simp: trace_inv_def history_snoc)
qed

lemma trace_init_inv: "trace_init t \<Longrightarrow> trace_inv encode t"
  by (auto simp: trace_init_def trace_inv_def new_emitter_def phase_history_def item_history_def last_state_def life_def declared_before_def)

lemma trace_step_inv:
  assumes "trace_inv encode t" and "trace_step encode nil_data t t'"
  shows "trace_inv encode t'"
  using assms(2)
proof cases
  case (1 context_done sink call)
  obtain err sent em' where c: "emitter_call encode nil_data context_done sink call (tr_emitter t) = (err, sent, em')"
    by (rule prod_cases3)
  show ?thesis
  proof (cases err)
    case None
    obtain e where e: "sent = Some e" "em_count (tr_emitter t) < max_events" "accepted_event (tr_emitter t) e em'"
      using accepted_call [OF c [unfolded None]] by blast
    then have "t' = \<lparr>tr_emitter = em', tr_events = tr_events t @ [e]\<rparr>" using 1 c None by (simp add: call_trace_def)
    then show ?thesis using accepted_event_inv [OF assms(1) e(3,2)] sent_event_valid [OF c [unfolded e(1)]] by simp
  next
    case (Some x)
    then have "t' = t" using 1 c rejected_call [OF c [unfolded Some]] by (simp add: call_trace_def)
    then show ?thesis using assms(1) by simp
  qed
qed

interpretation progress: invariant_machine trace_init "trace_step encode nil_data" "trace_inv encode" for encode nil_data
  by unfold_locales (rule trace_init_inv, assumption, rule trace_step_inv, assumption+)

text \<open>
  C38. In every history of calls, whatever the sink refuses: the accepted events are numbered without gaps and at most 256, each passes the validation
  that a worker's events have to pass, no phase or item leaves a terminal state or repeats a state, and an item names
  only a phase that was announced before it.
\<close>

theorem progress_history_sound:
  assumes "reachable_from trace_init (trace_step encode nil_data) t"
  shows "length (tr_events t) \<le> max_events
    \<and> map pe_sequence (tr_events t) = [1..<Suc (length (tr_events t))]
    \<and> list_all (\<lambda>e. validate_progress_event encode e = None) (tr_events t)
    \<and> life (phase_history i (tr_events t)) \<and> life (item_history i (tr_events t))
    \<and> declared_before (tr_events t)"
  using progress.reachable_inv [OF assms] unfolding trace_inv_def list_all_iff by blast

definition sample_trace :: "unit progress_trace" where
  "sample_trace =
     call_trace (\<lambda>_. Some []) () False (\<lambda>_. True) (CallPhase ''build'' ''Build'' ''running'')
       \<lparr>tr_emitter = new_emitter, tr_events = []\<rparr>"

theorem progress_history_sound_witness:
  "length (tr_events sample_trace) \<le> max_events
    \<and> map pe_sequence (tr_events sample_trace) = [1..<Suc (length (tr_events sample_trace))]
    \<and> list_all (\<lambda>e. validate_progress_event (\<lambda>_. Some []) e = None) (tr_events sample_trace)
    \<and> life (phase_history ''build'' (tr_events sample_trace)) \<and> life (item_history ''build'' (tr_events sample_trace))
    \<and> declared_before (tr_events sample_trace)"
proof (rule progress_history_sound)
  have "trace_step (\<lambda>_. Some []) () \<lparr>tr_emitter = new_emitter, tr_events = []\<rparr> sample_trace"
    unfolding sample_trace_def by (rule trace_step.intros)
  then show "reachable_from trace_init (trace_step (\<lambda>_. Some []) ()) sample_trace"
    by (meson reachable_from.intros trace_init_def)
qed

end
