(* ===== verification/Text_Layout.thy ===== *)
theory Text_Layout
  imports Go_Strings
begin

text \<open>
  Layout of text in terminal cells (\<^verbatim>\<open>tui/text.go\<close>, \<^verbatim>\<open>tui/line.go\<close>): segments, fitting, truncation, word
  wrapping of plain text, and the same operations on styled lines. The segmentation of a text into graphemes
  with their widths and the width of a text come from the library \<^verbatim>\<open>displaywidth\<close>: they are the parameters
  \<open>graphemes\<close> and \<open>str_width\<close>. A style is a value of any type.
\<close>

section \<open>Segments\<close>

record segment =
  seg_text :: string
  seg_width :: int

definition tab_display_width :: int where "tab_display_width = 4"

definition tab_text :: string where "tab_text = [CHR 0x09]"

definition segment_display_width :: "string \<Rightarrow> int \<Rightarrow> int" where
  "segment_display_width t w = (if t = tab_text then tab_display_width else max 0 w)"

definition segments :: "(string \<Rightarrow> (string \<times> int) list) \<Rightarrow> string \<Rightarrow> segment list" where
  "segments graphemes t =
     map (\<lambda>(g, w). \<lparr>seg_text = g, seg_width = segment_display_width g w\<rparr>) (graphemes t)"

definition join_segments :: "segment list \<Rightarrow> string" where
  "join_segments segs = concat (map seg_text segs)"

definition text_width :: "(string \<Rightarrow> int) \<Rightarrow> string \<Rightarrow> int" where
  "text_width str_width t = (if t = [] then 0 else str_width t)"

abbreviation rune_len :: "string \<Rightarrow> nat" where "rune_len \<equiv> rune_count"

section \<open>Fitting and truncation\<close>

text \<open>The loop of \<open>Fit\<close>: segments without width always fit; the first one that does not ends it.\<close>

fun fit_loop :: "int \<Rightarrow> int \<Rightarrow> segment list \<Rightarrow> string" where
  "fit_loop width used [] = []"
| "fit_loop width used (s # ss) =
     (if seg_width s = 0 then seg_text s @ fit_loop width used ss
      else if used + seg_width s > width then []
      else seg_text s @ fit_loop width (used + seg_width s) ss)"

definition fit :: "(string \<Rightarrow> (string \<times> int) list) \<Rightarrow> string \<Rightarrow> int \<Rightarrow> string" where
  "fit graphemes t width =
     (if width \<le> 0 \<or> t = [] then [] else fit_loop width 0 (segments graphemes t))"

definition ellipsis_cell :: string where "ellipsis_cell = encode_rune 8230"

definition truncate_text ::
  "(string \<Rightarrow> (string \<times> int) list) \<Rightarrow> (string \<Rightarrow> int) \<Rightarrow> string \<Rightarrow> int \<Rightarrow> string" where
  "truncate_text graphemes str_width t width =
     (if width \<le> 0 \<or> t = [] then []
      else if text_width str_width t \<le> width then t
      else if width = 1 then ellipsis_cell
      else fit graphemes t (width - 1) @ ellipsis_cell)"

definition repeat_text :: "string \<Rightarrow> int \<Rightarrow> string" where
  "repeat_text t n = concat (replicate (nat n) t)"

definition pad_right ::
  "(string \<Rightarrow> (string \<times> int) list) \<Rightarrow> (string \<Rightarrow> int) \<Rightarrow> string \<Rightarrow> int \<Rightarrow> string" where
  "pad_right graphemes str_width t width =
     (if width \<le> 0 then []
      else
        let fitted = fit graphemes t width;
            padding = width - text_width str_width fitted
        in if padding \<le> 0 then fitted else fitted @ repeat_text '' '' padding)"

section \<open>Wrapping\<close>

text \<open>
  The loop of \<open>wrapBreakIndex\<close> over the remaining segments, given as texts and widths. It keeps the
  width used so far, the index \<open>limit\<close> and the index of the last white space (\<open>None\<close> for the \<open>-1\<close> of the code).
\<close>

definition breaks_word :: "string \<Rightarrow> bool" where
  "breaks_word t \<longleftrightarrow> t = '' '' \<or> t = tab_text"

fun break_scan :: "int \<Rightarrow> int \<Rightarrow> nat \<Rightarrow> nat option \<Rightarrow> (string \<times> int) list \<Rightarrow> nat \<times> nat option" where
  "break_scan width used limit last_space [] = (limit, last_space)"
| "break_scan width used limit last_space ((t, w) # ss) =
     (if w = 0 then break_scan width used (Suc limit) last_space ss
      else if used + w > width then (limit, last_space)
      else break_scan width (used + w) (Suc limit) (if breaks_word t then Some limit else last_space) ss)"

definition wrap_break_index :: "int \<Rightarrow> (string \<times> int) list \<Rightarrow> nat" where
  "wrap_break_index width cells =
     (let (limit, last_space) = break_scan width 0 0 None cells
      in if limit = 0 then 1
         else case last_space of
             Some p \<Rightarrow> if limit < length cells \<and> 0 < p then Suc p else limit
           | None \<Rightarrow> limit)"

definition segment_cell :: "segment \<Rightarrow> string \<times> int" where
  "segment_cell s = (seg_text s, seg_width s)"

definition trim_leading_spaces :: "segment list \<Rightarrow> segment list" where
  "trim_leading_spaces segs = dropWhile (\<lambda>s. breaks_word (seg_text s)) segs"

text \<open>\<open>strings.TrimRight\<close> with the cutset of one space.\<close>

definition trim_right_spaces :: "string \<Rightarrow> string" where
  "trim_right_spaces t = rev (dropWhile (\<lambda>c. c = CHR '' '') (rev t))"

text \<open>The loop of \<open>wrapLogicalLineWithMode\<close>; \<open>keep\<close> is \<open>preserveWhitespace\<close>.\<close>

lemma wrap_break_index_pos: "1 \<le> wrap_break_index width cells"
  by (simp add: wrap_break_index_def split: prod.splits option.splits)

lemma length_trim_leading: "length (trim_leading_spaces segs) \<le> length segs"
  by (simp add: trim_leading_spaces_def length_dropWhile_le)

function wrap_loop :: "bool \<Rightarrow> int \<Rightarrow> segment list \<Rightarrow> string list" where
  "wrap_loop keep width segs =
     (if segs = [] then []
      else
        let b = wrap_break_index width (map segment_cell segs);
            wrapped = join_segments (take b segs);
            line = (if keep then wrapped else trim_right_spaces wrapped);
            rest = (if keep then drop b segs else trim_leading_spaces (drop b segs))
        in line # wrap_loop keep width rest)"
  by pat_completeness auto
termination
proof (relation "measure (\<lambda>(keep, width, segs). length segs)", simp, clarify)
  fix keep :: bool and width :: int and segs :: "segment list"
  assume "segs \<noteq> []"
  moreover have "1 \<le> wrap_break_index width (map segment_cell segs)" by (rule wrap_break_index_pos)
  moreover have "length (trim_leading_spaces (drop b segs)) \<le> length segs - b" for b
    using length_trim_leading [of "drop b segs"] by simp
  ultimately have "length (if keep then drop (wrap_break_index width (map segment_cell segs)) segs
      else trim_leading_spaces (drop (wrap_break_index width (map segment_cell segs)) segs)) < length segs"
    by (cases keep) (auto simp: Suc_le_eq intro: le_less_trans [OF _ diff_less])
  then show "((keep, width, if keep then drop (wrap_break_index width (map segment_cell segs)) segs
      else trim_leading_spaces (drop (wrap_break_index width (map segment_cell segs)) segs)), keep, width, segs)
      \<in> measure (\<lambda>(keep, width, segs). length segs)" by simp
qed

declare wrap_loop.simps [simp del]

definition wrap_logical_line ::
  "(string \<Rightarrow> (string \<times> int) list) \<Rightarrow> bool \<Rightarrow> int \<Rightarrow> string \<Rightarrow> string list" where
  "wrap_logical_line graphemes keep width line =
     (if line = [] then [[]]
      else
        let lines = wrap_loop keep width (segments graphemes line)
        in if lines = [] then [[]] else lines)"

definition wrap_with_mode ::
  "(string \<Rightarrow> (string \<times> int) list) \<Rightarrow> bool \<Rightarrow> int \<Rightarrow> string \<Rightarrow> string list" where
  "wrap_with_mode graphemes keep width t =
     (if width \<le> 0 then [[]]
      else concat (map (wrap_logical_line graphemes keep width) (split_byte (CHR 0x0A) t)))"

definition wrap_text where "wrap_text graphemes t width = wrap_with_mode graphemes False width t"

definition wrap_preserve_whitespace where
  "wrap_preserve_whitespace graphemes t width = wrap_with_mode graphemes True width t"

section \<open>Styled lines\<close>

record 'st span =
  span_style :: 'st
  span_text :: string

record 'st line =
  line_text :: string
  line_style :: 'st
  line_spans :: "'st span list"

record 'st styled_segment =
  sty_style :: 'st
  sty_text :: string
  sty_width :: int

definition new_line :: "'st \<Rightarrow> string \<Rightarrow> 'st line" where
  "new_line style t = \<lparr>line_text = t, line_style = style, line_spans = []\<rparr>"

definition line_width :: "(string \<Rightarrow> int) \<Rightarrow> 'st line \<Rightarrow> int" where
  "line_width str_width l =
     (if line_spans l = [] then text_width str_width (line_text l)
      else (\<Sum>s\<leftarrow>line_spans l. text_width str_width (span_text s)))"

definition with_prefix :: "'st line \<Rightarrow> string \<Rightarrow> 'st \<Rightarrow> 'st line" where
  "with_prefix l p style =
     (if p = [] then l
      else if line_spans l = [] then
        l\<lparr>line_text := p @ line_text l,
          line_spans := [\<lparr>span_style = style, span_text = p\<rparr>,
                         \<lparr>span_style = line_style l, span_text = line_text l\<rparr>]\<rparr>
      else
        l\<lparr>line_text := p @ line_text l,
          line_spans := \<lparr>span_style = style, span_text = p\<rparr> # line_spans l\<rparr>)"

definition styled_segments :: "(string \<Rightarrow> (string \<times> int) list) \<Rightarrow> 'st line \<Rightarrow> 'st styled_segment list" where
  "styled_segments graphemes l =
     (let spans = (if line_spans l = [] then [\<lparr>span_style = line_style l, span_text = line_text l\<rparr>] else line_spans l)
      in concat (map (\<lambda>sp. map (\<lambda>s. \<lparr>sty_style = span_style sp, sty_text = seg_text s, sty_width = seg_width s\<rparr>)
                             (segments graphemes (span_text sp))) spans))"

text \<open>\<open>lineFromStyledSegments\<close> joins neighbours of equal style into one span.\<close>

definition push_span :: "'st styled_segment \<Rightarrow> 'st span list \<Rightarrow> 'st span list" where
  "push_span s spans =
     (if spans \<noteq> [] \<and> span_style (last spans) = sty_style s
      then butlast spans @ [(last spans)\<lparr>span_text := span_text (last spans) @ sty_text s\<rparr>]
      else spans @ [\<lparr>span_style = sty_style s, span_text = sty_text s\<rparr>])"

definition line_from_styled_segments :: "'st styled_segment list \<Rightarrow> 'st \<Rightarrow> 'st line" where
  "line_from_styled_segments segs fallback =
     foldl (\<lambda>l s. l\<lparr>line_text := line_text l @ sty_text s, line_spans := push_span s (line_spans l)\<rparr>)
       \<lparr>line_text = [], line_style = fallback, line_spans = []\<rparr> segs"

fun styled_prefix :: "int \<Rightarrow> int \<Rightarrow> 'st styled_segment list \<Rightarrow> 'st styled_segment list" where
  "styled_prefix width used [] = []"
| "styled_prefix width used (s # ss) =
     (if sty_width s = 0 then s # styled_prefix width used ss
      else if used + sty_width s > width then []
      else s # styled_prefix width (used + sty_width s) ss)"

definition last_segment_style :: "'st styled_segment list \<Rightarrow> 'st \<Rightarrow> 'st" where
  "last_segment_style segs fallback = (if segs = [] then fallback else sty_style (last segs))"

definition line_truncate ::
  "(string \<Rightarrow> (string \<times> int) list) \<Rightarrow> (string \<Rightarrow> int) \<Rightarrow> 'st line \<Rightarrow> int \<Rightarrow> 'st line" where
  "line_truncate graphemes str_width l width =
     (if width \<le> 0 then new_line (line_style l) []
      else if line_width str_width l \<le> width then l
      else if line_spans l = [] then new_line (line_style l) (truncate_text graphemes str_width (line_text l) width)
      else
        let ew = text_width str_width ellipsis_cell
        in if width = ew then
             line_from_styled_segments [\<lparr>sty_style = line_style l, sty_text = ellipsis_cell, sty_width = ew\<rparr>] (line_style l)
           else
             let p = styled_prefix (width - ew) 0 (styled_segments graphemes l)
             in line_from_styled_segments
                  (p @ [\<lparr>sty_style = last_segment_style p (line_style l), sty_text = ellipsis_cell, sty_width = ew\<rparr>])
                  (line_style l))"

definition styled_cell :: "'st styled_segment \<Rightarrow> string \<times> int" where
  "styled_cell s = (sty_text s, sty_width s)"

definition trim_leading_space_segments :: "'st styled_segment list \<Rightarrow> 'st styled_segment list" where
  "trim_leading_space_segments segs = dropWhile (\<lambda>s. breaks_word (sty_text s)) segs"

definition trim_trailing_space_segments :: "'st styled_segment list \<Rightarrow> 'st styled_segment list" where
  "trim_trailing_space_segments segs = rev (dropWhile (\<lambda>s. breaks_word (sty_text s)) (rev segs))"

lemma length_trim_leading_styled: "length (trim_leading_space_segments segs) \<le> length segs"
  by (simp add: trim_leading_space_segments_def length_dropWhile_le)

function styled_wrap_loop :: "bool \<Rightarrow> int \<Rightarrow> 'st \<Rightarrow> 'st styled_segment list \<Rightarrow> 'st line list" where
  "styled_wrap_loop keep width style segs =
     (if segs = [] then []
      else
        let b = wrap_break_index width (map styled_cell segs);
            wrapped = (if keep then take b segs else trim_trailing_space_segments (take b segs));
            rest = (if keep then drop b segs else trim_leading_space_segments (drop b segs))
        in line_from_styled_segments wrapped style # styled_wrap_loop keep width style rest)"
  by pat_completeness auto
termination
proof (relation "measure (\<lambda>(keep, width, style, segs). length segs)", simp, clarify)
  fix keep :: bool and width :: int and style :: 'st and segs :: "'st styled_segment list"
  assume "segs \<noteq> []"
  moreover have "1 \<le> wrap_break_index width (map styled_cell segs)" by (rule wrap_break_index_pos)
  moreover have "length (trim_leading_space_segments (drop b segs)) \<le> length segs - b" for b
    using length_trim_leading_styled [of "drop b segs"] by simp
  ultimately have "length (if keep then drop (wrap_break_index width (map styled_cell segs)) segs
      else trim_leading_space_segments (drop (wrap_break_index width (map styled_cell segs)) segs)) < length segs"
    by (cases keep) (auto simp: Suc_le_eq intro: le_less_trans [OF _ diff_less])
  then show "((keep, width, style, if keep then drop (wrap_break_index width (map styled_cell segs)) segs
      else trim_leading_space_segments (drop (wrap_break_index width (map styled_cell segs)) segs)),
      keep, width, style, segs) \<in> measure (\<lambda>(keep, width, style, segs). length segs)" by simp
qed

declare styled_wrap_loop.simps [simp del]

definition line_wrap_with_mode ::
  "(string \<Rightarrow> (string \<times> int) list) \<Rightarrow> bool \<Rightarrow> int \<Rightarrow> 'st line \<Rightarrow> 'st line list" where
  "line_wrap_with_mode graphemes keep width l =
     (if width \<le> 0 then [new_line (line_style l) []]
      else if line_spans l = [] then
        map (new_line (line_style l)) (wrap_with_mode graphemes keep width (line_text l))
      else
        let lines = styled_wrap_loop keep width (line_style l) (styled_segments graphemes l)
        in if lines = [] then [new_line (line_style l) []] else lines)"

text \<open>\<open>wrapStyledSegmentsCells\<close> breaks at any segment; a line that is full is closed at once.\<close>

fun wrap_cells_loop ::
  "int \<Rightarrow> 'st \<Rightarrow> 'st styled_segment list \<Rightarrow> int \<Rightarrow> 'st styled_segment list \<Rightarrow> 'st line list" where
  "wrap_cells_loop width style cur used [] =
     (if cur \<noteq> [] then [line_from_styled_segments cur style] else [])"
| "wrap_cells_loop width style cur used (s # ss) =
     (let full = (0 < sty_width s \<and> 0 < used \<and> used + sty_width s > width);
          closed = (if full then [line_from_styled_segments cur style] else []);
          cur' = (if full then [] else cur) @ [s];
          used' = (if full then 0 else used) + sty_width s
      in if used' \<ge> width
         then closed @ line_from_styled_segments cur' style # wrap_cells_loop width style [] 0 ss
         else closed @ wrap_cells_loop width style cur' used' ss)"

definition line_wrap_cells :: "(string \<Rightarrow> (string \<times> int) list) \<Rightarrow> 'st line \<Rightarrow> int \<Rightarrow> 'st line list" where
  "line_wrap_cells graphemes l width =
     (let segs = styled_segments graphemes l
      in if width \<le> 0 \<or> segs = [] then [new_line (line_style l) []]
         else
           let lines = wrap_cells_loop width (line_style l) [] 0 segs
           in if lines = [] then [new_line (line_style l) []] else lines)"

section \<open>Where a line is broken\<close>

definition cells_width :: "(string \<times> int) list \<Rightarrow> int" where
  "cells_width cells = (\<Sum>c\<leftarrow>cells. snd c)"

lemma cells_width_simps [simp]:
  "cells_width [] = 0" "cells_width (c # cs) = snd c + cells_width cs"
  "cells_width (xs @ ys) = cells_width xs + cells_width ys"
  by (simp_all add: cells_width_def)

lemma cells_width_nonneg: "(\<And>c. c \<in> set cells \<Longrightarrow> 0 \<le> snd c) \<Longrightarrow> 0 \<le> cells_width cells"
  unfolding cells_width_def by (rule sum_list_nonneg_int) auto

lemma cells_width_take_mono:
  assumes "\<And>c. c \<in> set cells \<Longrightarrow> 0 \<le> snd c" and "m \<le> n"
  shows "cells_width (take m cells) \<le> cells_width (take n cells)"
proof -
  have "take n cells = take m cells @ take (n - m) (drop m cells)"
    using assms(2) by (metis le_add_diff_inverse take_add)
  moreover have "0 \<le> cells_width (take (n - m) (drop m cells))"
    by (rule cells_width_nonneg) (use assms(1) in \<open>auto dest!: in_set_takeD in_set_dropD\<close>)
  ultimately show ?thesis by simp
qed

text \<open>The scan stops at the first segment that does not fit and remembers a white space it has passed.\<close>

lemma break_scan_stops:
  assumes "break_scan width used limit ls cells = (l, p)" and "used \<le> width"
  shows "\<exists>n. l = limit + n \<and> n \<le> length cells \<and> used + cells_width (take n cells) \<le> width
    \<and> (n < length cells \<longrightarrow> used + cells_width (take (Suc n) cells) > width)"
  using assms
proof (induction width used limit ls cells rule: break_scan.induct)
  case (2 width used limit ls t w ss)
  consider "w = 0" | "w \<noteq> 0" "used + w > width" | "w \<noteq> 0" "used + w \<le> width" by linarith
  then show ?case
  proof cases
    case 1
    with 2 obtain n where "l = Suc limit + n" "n \<le> length ss" "used + cells_width (take n ss) \<le> width"
      "n < length ss \<longrightarrow> used + cells_width (take (Suc n) ss) > width" by fastforce
    then show ?thesis using 1 by (intro exI [of _ "Suc n"]) auto
  next
    case 2
    then show ?thesis using "2.prems" by (intro exI [of _ 0]) auto
  next
    case 3
    then have "break_scan width (used + w) (Suc limit) (if breaks_word t then Some limit else ls) ss = (l, p)"
      using "2.prems" by simp
    then obtain n where "l = Suc limit + n" "n \<le> length ss" "used + w + cells_width (take n ss) \<le> width"
      "n < length ss \<longrightarrow> used + w + cells_width (take (Suc n) ss) > width"
      using 2(2) 3 by fastforce
    then show ?thesis by (intro exI [of _ "Suc n"]) auto
  qed
qed auto

lemma break_scan_mono: "break_scan width used limit ls cells = (l, p) \<Longrightarrow> limit \<le> l"
  by (induction width used limit ls cells rule: break_scan.induct) (auto split: if_splits)

lemma break_scan_space:
  assumes "break_scan width used limit ls cells = (l, Some p)"
  shows "ls = Some p \<or> (limit \<le> p \<and> p < l \<and> breaks_word (fst (cells ! (p - limit))))"
  using assms
proof (induction width used limit ls cells rule: break_scan.induct)
  case (2 width used limit ls t w ss)
  have step: ?case if r: "break_scan width u (Suc limit) ls' ss = (l, Some p)"
    and ih: "ls' = Some p \<or> (Suc limit \<le> p \<and> p < l \<and> breaks_word (fst (ss ! (p - Suc limit))))"
    and ls': "ls' = ls \<or> (ls' = Some limit \<and> breaks_word t)" for u ls'
  proof -
    have "limit < l" using break_scan_mono r by (metis Suc_le_eq)
    then show ?thesis using ih ls' by (auto simp: nth_Cons' Suc_diff_Suc)
  qed
  show ?case using 2 step by (auto split: if_splits)
qed auto

text \<open>
  What a break index promises: at least one segment and at most all, a row that fits unless it is a single segment,
  and a reason to stop: a white space or a row that could not take the next segment.
\<close>

definition good_break :: "int \<Rightarrow> (string \<times> int) list \<Rightarrow> nat \<Rightarrow> bool" where
  "good_break width cells b \<longleftrightarrow>
     1 \<le> b \<and> b \<le> length cells \<and> (cells_width (take b cells) \<le> width \<or> b = 1) \<and>
     (b < length cells \<longrightarrow> breaks_word (fst (cells ! (b - 1))) \<or> cells_width (take (Suc b) cells) > width)"

lemma wrap_break_index_good:
  assumes nonneg: "\<And>c. c \<in> set cells \<Longrightarrow> 0 \<le> snd c" and "0 \<le> width" and "cells \<noteq> []"
  shows "good_break width cells (wrap_break_index width cells)"
proof -
  obtain l p where scan: "break_scan width 0 0 None cells = (l, p)" by fastforce
  have le: "l \<le> length cells" and fits: "cells_width (take l cells) \<le> width"
    and stop: "l < length cells \<Longrightarrow> cells_width (take (Suc l) cells) > width"
    using break_scan_stops [OF scan \<open>0 \<le> width\<close>] by auto
  consider "l = 0" | q where "l \<noteq> 0" "p = Some q" "l < length cells" "0 < q"
    | "l \<noteq> 0" "\<not> (\<exists>q. p = Some q \<and> l < length cells \<and> 0 < q)"
    by blast
  then show ?thesis
  proof cases
    case 1
    have "0 < length cells" using assms(3) by simp
    then have "cells_width (take 1 cells) > width" using stop 1 by simp
    moreover have "cells_width (take 1 cells) \<le> cells_width (take 2 cells)"
      by (rule cells_width_take_mono [OF nonneg]) auto
    ultimately show ?thesis using 1 scan \<open>0 < length cells\<close>
      by (simp add: good_break_def wrap_break_index_def numeral_2_eq_2 Suc_le_eq)
  next
    case 2
    have "wrap_break_index width cells = Suc q" using 2 scan by (simp add: wrap_break_index_def)
    moreover have "q < l" "breaks_word (fst (cells ! q))" using break_scan_space [of width 0 0 None cells l q] scan 2 by auto
    moreover have "cells_width (take (Suc q) cells) \<le> cells_width (take l cells)"
      by (rule cells_width_take_mono [OF nonneg]) (use \<open>q < l\<close> in auto)
    ultimately show ?thesis using 2 fits by (simp add: good_break_def)
  next
    case 3
    then have "wrap_break_index width cells = l"
      using scan by (cases p) (auto simp: wrap_break_index_def)
    then show ?thesis using 3 le fits stop by (simp add: good_break_def)
  qed
qed

lemma good_break_pos: "good_break width cells b \<Longrightarrow> 0 < b"
  by (simp add: good_break_def)

text \<open>The rows of a line: its segments cut at good breaks.\<close>

inductive line_rows :: "int \<Rightarrow> ('a \<Rightarrow> string \<times> int) \<Rightarrow> 'a list list \<Rightarrow> 'a list \<Rightarrow> bool" for width cell where
  "line_rows width cell [] []"
| "good_break width (map cell xs) b \<Longrightarrow> line_rows width cell ps (drop b xs) \<Longrightarrow> line_rows width cell (take b xs # ps) xs"

inductive_cases line_rows_ConsE: "line_rows width cell (p # ps) xs"

lemma line_rows_concat: "line_rows width cell ps xs \<Longrightarrow> concat ps = xs"
  by (induction rule: line_rows.induct) auto

lemma line_rows_width:
  "line_rows width cell ps xs \<Longrightarrow> p \<in> set ps \<Longrightarrow> p \<noteq> [] \<and> (cells_width (map cell p) \<le> width \<or> length p = 1)"
proof (induction rule: line_rows.induct)
  case (2 xs b ps)
  then show ?case by (cases "b = 1") (auto simp: good_break_def take_map min_def split: if_splits)
qed simp

lemma line_rows_loop:
  assumes Nil: "f [] = []"
    and Cons: "\<And>xs. xs \<noteq> [] \<Longrightarrow> f xs = g (take (wrap_break_index width (map cell xs)) xs)
      # f (drop (wrap_break_index width (map cell xs)) xs)"
    and "0 \<le> width" and "list_all (\<lambda>x. 0 \<le> snd (cell x)) xs"
  shows "\<exists>ps. line_rows width cell ps xs \<and> f xs = map g ps"
  using assms(4)
proof (induction "length xs" arbitrary: xs rule: less_induct)
  case less
  show ?case
  proof (cases "xs = []")
    case True
    then show ?thesis by (intro exI [of _ "[]"]) (simp add: Nil line_rows.intros)
  next
    case False
    define b where "b = wrap_break_index width (map cell xs)"
    have good: "good_break width (map cell xs) b" unfolding b_def
      by (rule wrap_break_index_good) (use less.prems assms(3) False in \<open>auto simp: list_all_iff\<close>)
    have "length (drop b xs) < length xs" using good_break_pos [OF good] False by simp
    moreover have "list_all (\<lambda>x. 0 \<le> snd (cell x)) (drop b xs)"
      using less.prems by (auto simp: list_all_iff dest: in_set_dropD)
    ultimately obtain ps where "line_rows width cell ps (drop b xs)" "f (drop b xs) = map g ps"
      using less.hyps by blast
    then show ?thesis using good Cons [OF False]
      by (intro exI [of _ "take b xs # ps"]) (simp add: b_def line_rows.intros)
  qed
qed

lemma segments_nonneg: "list_all (\<lambda>s. 0 \<le> snd (segment_cell s)) (segments graphemes t)"
  by (auto simp: list_all_iff segment_cell_def segments_def segment_display_width_def tab_display_width_def)

lemma styled_segments_nonneg: "list_all (\<lambda>s. 0 \<le> snd (styled_cell s)) (styled_segments graphemes l)"
  by (auto simp: list_all_iff styled_cell_def styled_segments_def segments_def segment_display_width_def
      tab_display_width_def Let_def)

lemma wrap_loop_rows:
  assumes "0 \<le> width"
  shows "\<exists>ps. line_rows width segment_cell ps (segments graphemes t)
    \<and> wrap_loop True width (segments graphemes t) = map join_segments ps"
  by (rule line_rows_loop [OF _ _ assms segments_nonneg])
    (simp add: wrap_loop.simps, subst wrap_loop.simps, simp add: Let_def)

lemma styled_wrap_loop_rows:
  assumes "0 \<le> width"
  shows "\<exists>ps. line_rows width styled_cell ps (styled_segments graphemes l)
    \<and> styled_wrap_loop True width style (styled_segments graphemes l) = map (\<lambda>p. line_from_styled_segments p style) ps"
  by (rule line_rows_loop [OF _ _ assms styled_segments_nonneg])
    (simp add: styled_wrap_loop.simps, subst styled_wrap_loop.simps, simp add: Let_def)

section \<open>What the layout promises\<close>

definition row_fits :: "int \<Rightarrow> ('a \<Rightarrow> string \<times> int) \<Rightarrow> 'a list \<Rightarrow> bool" where
  "row_fits width cell p \<longleftrightarrow> cells_width (map cell p) \<le> width \<or> length p = 1"

lemma join_concat: "concat (map join_segments ps) = join_segments (concat ps)"
  by (induction ps) (simp_all add: join_segments_def)

lemma join_all_segments: "concat (map fst (graphemes t)) = t \<Longrightarrow> join_segments (segments graphemes t) = t"
  by (simp add: join_segments_def segments_def comp_def case_prod_unfold)

lemma wrap_logical_line_rows:
  assumes "concat (map fst (graphemes t)) = t" and "0 < width"
  shows "\<exists>ps. wrap_logical_line graphemes True width t = map join_segments ps
    \<and> concat (map join_segments ps) = t \<and> list_all (row_fits width segment_cell) ps"
proof (cases "t = []")
  case True
  then show ?thesis using assms(2)
    by (intro exI [of _ "[[]]"]) (simp add: wrap_logical_line_def join_segments_def row_fits_def)
next
  case False
  obtain ps where ps: "line_rows width segment_cell ps (segments graphemes t)"
    "wrap_loop True width (segments graphemes t) = map join_segments ps"
    using wrap_loop_rows [of width] assms(2) by force
  have "concat (map join_segments ps) = t"
    using join_all_segments [of graphemes t] assms(1) by (simp add: join_concat line_rows_concat [OF ps(1)])
  moreover from this have "ps \<noteq> []" using False by auto
  moreover have "list_all (row_fits width segment_cell) ps"
    using line_rows_width [OF ps(1)] by (simp add: list_all_iff row_fits_def)
  ultimately show ?thesis using False ps(2) by (intro exI [of _ ps]) (simp add: wrap_logical_line_def)
qed

lemma map_choice: "(\<And>x. x \<in> set xs \<Longrightarrow> \<exists>y. f x = g y \<and> P x y) \<Longrightarrow> \<exists>ys. map f xs = map g ys \<and> list_all2 P xs ys"
proof (induction xs)
  case (Cons x xs)
  obtain y ys where "f x = g y" "P x y" "map f xs = map g ys" "list_all2 P xs ys"
    using Cons by (metis list.set_intros)
  then show ?case by (intro exI [of _ "y # ys"]) simp
qed simp

text \<open>
  Wrapping with preserved white space loses nothing: the rows of each logical line put together are the line, and
  joined by line feeds they are the text. No row is wider than the area, except a single segment that is.
\<close>

theorem wrapped_rows_rebuild_text:
  assumes graphemes: "\<forall>t. concat (map fst (graphemes t)) = t" and "0 < width"
  shows "\<exists>lines. wrap_preserve_whitespace graphemes t width = concat (map (map join_segments) lines)
    \<and> join_with [CHR 0x0A] (map (\<lambda>rows. concat (map join_segments rows)) lines) = t
    \<and> list_all (list_all (row_fits width segment_cell)) lines"
proof -
  have "\<exists>lines. map (wrap_logical_line graphemes True width) (split_byte (CHR 0x0A) t) = map (map join_segments) lines
    \<and> list_all2 (\<lambda>l ps. concat (map join_segments ps) = l \<and> list_all (row_fits width segment_cell) ps)
        (split_byte (CHR 0x0A) t) lines"
    by (rule map_choice) (use wrap_logical_line_rows [OF _ assms(2)] graphemes in blast)
  then obtain lines where l: "map (wrap_logical_line graphemes True width) (split_byte (CHR 0x0A) t) = map (map join_segments) lines"
    and r: "list_all2 (\<lambda>l ps. concat (map join_segments ps) = l \<and> list_all (row_fits width segment_cell) ps)
      (split_byte (CHR 0x0A) t) lines" by blast
  have "map (\<lambda>rows. concat (map join_segments rows)) lines = split_byte (CHR 0x0A) t"
    using r by (induction rule: list_all2_induct) auto
  moreover have "list_all (list_all (row_fits width segment_cell)) lines"
    using r by (induction rule: list_all2_induct) auto
  ultimately show ?thesis using l assms(2)
    by (intro exI [of _ lines]) (simp add: wrap_preserve_whitespace_def wrap_with_mode_def)
qed

text \<open>A terminal in which every byte is one segment of width one.\<close>

definition byte_cells :: "string \<Rightarrow> (string \<times> int) list" where
  "byte_cells t = map (\<lambda>c. ([c], 1)) t"

lemma byte_cells_graphemes: "concat (map fst (byte_cells t)) = t"
  by (simp add: byte_cells_def comp_def)

theorem wrapped_rows_rebuild_text_witness:
  "\<exists>lines. wrap_preserve_whitespace byte_cells ''hello world'' 8 = concat (map (map join_segments) lines)
    \<and> join_with [CHR 0x0A] (map (\<lambda>rows. concat (map join_segments rows)) lines) = ''hello world''
    \<and> list_all (list_all (row_fits 8 segment_cell)) lines"
  by (rule wrapped_rows_rebuild_text) (simp_all add: byte_cells_graphemes)

text \<open>\<open>Fit\<close> returns the longest run of leading segments that fits.\<close>

lemma snd_segment_cell [simp]: "snd (segment_cell s) = seg_width s"
  by (simp add: segment_cell_def)

lemma fit_loop_stops:
  assumes "used \<le> width"
  shows "\<exists>n \<le> length segs. fit_loop width used segs = join_segments (take n segs)
    \<and> used + cells_width (map segment_cell (take n segs)) \<le> width
    \<and> (n < length segs \<longrightarrow> used + cells_width (map segment_cell (take (Suc n) segs)) > width)"
  using assms
proof (induction width used segs rule: fit_loop.induct)
  case (2 width used s ss)
  consider "seg_width s = 0" | "seg_width s \<noteq> 0" "used + seg_width s > width"
    | "seg_width s \<noteq> 0" "used + seg_width s \<le> width" by linarith
  then show ?case
  proof cases
    case 1
    with 2 obtain n where "n \<le> length ss" "fit_loop width used ss = join_segments (take n ss)"
      "used + cells_width (map segment_cell (take n ss)) \<le> width"
      "n < length ss \<longrightarrow> used + cells_width (map segment_cell (take (Suc n) ss)) > width" by fastforce
    then show ?thesis using 1 by (intro exI [of _ "Suc n"]) (auto simp: join_segments_def snd_segment_cell)
  next
    case 2
    then show ?thesis using "2.prems" by (intro exI [of _ 0]) (auto simp: join_segments_def snd_segment_cell)
  next
    case 3
    with 2 obtain n where "n \<le> length ss" "fit_loop width (used + seg_width s) ss = join_segments (take n ss)"
      "used + seg_width s + cells_width (map segment_cell (take n ss)) \<le> width"
      "n < length ss \<longrightarrow> used + seg_width s + cells_width (map segment_cell (take (Suc n) ss)) > width" by fastforce
    then show ?thesis using 3 by (intro exI [of _ "Suc n"]) (auto simp: join_segments_def snd_segment_cell)
  qed
qed (simp add: join_segments_def)

theorem fit_longest_prefix:
  assumes "0 < width" and "t \<noteq> []"
  shows "\<exists>n. fit graphemes t width = join_segments (take n (segments graphemes t))
    \<and> (\<forall>m. m \<le> length (segments graphemes t) \<longrightarrow>
          (cells_width (map segment_cell (take m (segments graphemes t))) \<le> width \<longleftrightarrow> m \<le> n))"
proof -
  let ?s = "segments graphemes t"
  obtain n where n: "n \<le> length ?s" "fit_loop width 0 ?s = join_segments (take n ?s)"
    "cells_width (map segment_cell (take n ?s)) \<le> width"
    "n < length ?s \<longrightarrow> cells_width (map segment_cell (take (Suc n) ?s)) > width"
    using fit_loop_stops [of 0 width ?s] assms by auto
  have mono: "cells_width (map segment_cell (take a ?s)) \<le> cells_width (map segment_cell (take b ?s))" if "a \<le> b" for a b
    unfolding take_map [symmetric]
    by (rule cells_width_take_mono [OF _ that]) (use segments_nonneg [of graphemes t] in \<open>auto simp: list_all_iff\<close>)
  have "cells_width (map segment_cell (take m ?s)) \<le> width \<longleftrightarrow> m \<le> n" if "m \<le> length ?s" for m
  proof (cases "m \<le> n")
    case True
    then show ?thesis using mono [OF True] n(3) by simp
  next
    case False
    then have "cells_width (map segment_cell (take (Suc n) ?s)) \<le> cells_width (map segment_cell (take m ?s))"
      by (intro mono) simp
    then show ?thesis using False n(4) that by simp
  qed
  then show ?thesis using n(2) assms by (intro exI [of _ n]) (simp add: fit_def)
qed

theorem fit_longest_prefix_witness:
  "\<exists>n. fit byte_cells ''hello'' 3 = join_segments (take n (segments byte_cells ''hello''))
    \<and> (\<forall>m. m \<le> length (segments byte_cells ''hello'') \<longrightarrow>
          (cells_width (map segment_cell (take m (segments byte_cells ''hello''))) \<le> 3 \<longleftrightarrow> m \<le> n))"
  by (rule fit_longest_prefix) simp_all

text \<open>The styled content of a line: every byte with its style.\<close>

definition spans_content :: "'st span list \<Rightarrow> ('st \<times> char) list" where
  "spans_content spans = concat (map (\<lambda>s. map (Pair (span_style s)) (span_text s)) spans)"

definition styled_content :: "'st line \<Rightarrow> ('st \<times> char) list" where
  "styled_content l =
     (if line_spans l = [] then map (Pair (line_style l)) (line_text l) else spans_content (line_spans l))"

definition segments_content :: "'st styled_segment list \<Rightarrow> ('st \<times> char) list" where
  "segments_content segs = concat (map (\<lambda>s. map (Pair (sty_style s)) (sty_text s)) segs)"

lemma segments_content_simps [simp]:
  "segments_content [] = []"
  "segments_content (xs @ ys) = segments_content xs @ segments_content ys"
  by (simp_all add: segments_content_def)

lemma concat_segments_content: "concat (map segments_content ps) = segments_content (concat ps)"
  by (induction ps) simp_all

lemma spans_content_append: "spans_content (xs @ ys) = spans_content xs @ spans_content ys"
  by (simp add: spans_content_def)

lemma spans_content_push:
  "spans_content (push_span s spans) = spans_content spans @ segments_content [s]"
proof (cases "spans \<noteq> [] \<and> span_style (last spans) = sty_style s")
  case True
  then have "spans_content spans = spans_content (butlast spans @ [last spans])" by simp
  also have "\<dots> = spans_content (butlast spans) @ map (Pair (sty_style s)) (span_text (last spans))"
    using True unfolding spans_content_append by (simp add: spans_content_def)
  finally show ?thesis using True
    by (simp add: push_span_def spans_content_append) (simp add: spans_content_def segments_content_def)
next
  case False
  then have "push_span s spans = spans @ [\<lparr>span_style = sty_style s, span_text = sty_text s\<rparr>]"
    unfolding push_span_def by (rule if_not_P)
  then show ?thesis by (simp add: spans_content_append) (simp add: spans_content_def segments_content_def)
qed

lemma push_span_not_Nil: "push_span s spans \<noteq> []"
  by (simp add: push_span_def)

lemma line_from_styled_segments_snoc:
  "line_from_styled_segments (segs @ [s]) style =
     (let l = line_from_styled_segments segs style
      in l\<lparr>line_text := line_text l @ sty_text s, line_spans := push_span s (line_spans l)\<rparr>)"
  by (simp add: line_from_styled_segments_def Let_def)

lemma line_from_styled_segments_content:
  "spans_content (line_spans (line_from_styled_segments segs style)) = segments_content segs
   \<and> line_text (line_from_styled_segments segs style) = map snd (segments_content segs)
   \<and> (line_spans (line_from_styled_segments segs style) = [] \<longleftrightarrow> segs = [])"
proof (induction segs rule: rev_induct)
  case Nil
  show ?case by (simp add: line_from_styled_segments_def spans_content_def)
next
  case (snoc s segs)
  then show ?case
    by (simp add: line_from_styled_segments_snoc Let_def spans_content_push push_span_not_Nil segments_content_def comp_def)
qed

lemma styled_content_of_segments: "styled_content (line_from_styled_segments segs style) = segments_content segs"
proof (cases "segs = []")
  case True
  then show ?thesis by (simp add: line_from_styled_segments_def styled_content_def)
next
  case False
  then show ?thesis using line_from_styled_segments_content [of segs style] by (simp add: styled_content_def)
qed

lemma styled_segments_content:
  assumes "\<forall>t. concat (map fst (graphemes t)) = t"
  shows "segments_content (styled_segments graphemes l) = styled_content l"
proof -
  have one: "segments_content (map (\<lambda>s. \<lparr>sty_style = st, sty_text = seg_text s, sty_width = seg_width s\<rparr>) (segments graphemes t))
      = map (Pair st) t" for st :: 'a and t
  proof -
    have "segments_content (map (\<lambda>s. \<lparr>sty_style = st, sty_text = seg_text s, sty_width = seg_width s\<rparr>) (segments graphemes t))
        = map (Pair st) (join_segments (segments graphemes t))"
      by (simp add: segments_content_def join_segments_def map_concat comp_def)
    then show ?thesis using join_all_segments [of graphemes t] assms by simp
  qed
  have all: "segments_content (concat (map (\<lambda>sp. map (\<lambda>s. \<lparr>sty_style = span_style sp, sty_text = seg_text s, sty_width = seg_width s\<rparr>)
      (segments graphemes (span_text sp))) spans)) = spans_content spans" for spans :: "'a span list"
    by (induction spans) (simp_all add: one spans_content_def)
  have "spans_content [\<lparr>span_style = line_style l, span_text = line_text l\<rparr>] = map (Pair (line_style l)) (line_text l)"
    by (simp add: spans_content_def)
  then show ?thesis using all by (simp add: styled_segments_def styled_content_def)
qed

lemma wrap_cells_loop_content:
  "concat (map styled_content (wrap_cells_loop width style cur used segs)) = segments_content cur @ segments_content segs"
  by (induction width style cur used segs rule: wrap_cells_loop.induct)
    (auto simp: styled_content_of_segments Let_def segments_content_def)

text \<open>Wrapping a styled line keeps every byte and its style, whether it breaks at words or at cells.\<close>

theorem styled_wrap_keeps_content:
  assumes graphemes: "\<forall>t. concat (map fst (graphemes t)) = t" and "0 < width" and "line_spans l \<noteq> []"
  shows "concat (map styled_content (line_wrap_with_mode graphemes True width l)) = styled_content l
    \<and> concat (map styled_content (line_wrap_cells graphemes l width)) = styled_content l"
proof
  obtain ps where ps: "line_rows width styled_cell ps (styled_segments graphemes l)"
    "styled_wrap_loop True width (line_style l) (styled_segments graphemes l) =
       map (\<lambda>p. line_from_styled_segments p (line_style l)) ps"
    using styled_wrap_loop_rows [of width] assms(2) by force
  have "concat (map styled_content (styled_wrap_loop True width (line_style l) (styled_segments graphemes l))) = styled_content l"
    by (simp add: ps(2) comp_def styled_content_of_segments concat_segments_content line_rows_concat [OF ps(1)]
        styled_segments_content [OF graphemes])
  moreover have "styled_content (new_line (line_style l) []) = []" by (simp add: styled_content_def new_line_def)
  ultimately show "concat (map styled_content (line_wrap_with_mode graphemes True width l)) = styled_content l"
    using assms(2,3) by (auto simp: line_wrap_with_mode_def Let_def)
  have "concat (map styled_content (wrap_cells_loop width (line_style l) [] 0 (styled_segments graphemes l))) = styled_content l"
    by (simp add: wrap_cells_loop_content styled_segments_content [OF graphemes])
  then show "concat (map styled_content (line_wrap_cells graphemes l width)) = styled_content l"
    using assms(2) styled_segments_content [OF graphemes, of l]
    by (auto simp: line_wrap_cells_def Let_def styled_content_def new_line_def)
qed

end
