(* ===== verification/Cell_Screen.thy ===== *)
theory Cell_Screen
  imports Text_Layout
begin

text \<open>
  Drawing in terminal cells: rectangles (\<^verbatim>\<open>tui/types.go\<close>), the draw helpers of \<^verbatim>\<open>tui/text.go\<close>, the cell
  buffer and the renderer that sends only changed cells to the screen (\<^verbatim>\<open>tui/buffer.go\<close>). What is drawn is a sequence of calls
  of \<open>SetContent\<close>, given as data; a cell buffer and a screen are two receivers of these calls.
  Nil receivers, on which nothing happens, are left out, and so is the reuse of storage.
\<close>

section \<open>Cells and calls\<close>

record 'st cell =
  cell_style :: 'st
  cell_comb :: "nat list"
  cell_rune :: nat

text \<open>One call of \<open>SetContent\<close>: column, row and content.\<close>

type_synonym 'st put = "int \<times> int \<times> 'st cell"

record rect =
  rect_x :: int
  rect_y :: int
  rect_width :: int
  rect_height :: int

definition rect_empty :: "rect \<Rightarrow> bool" where
  "rect_empty r \<longleftrightarrow> rect_width r \<le> 0 \<or> rect_height r \<le> 0"

definition rect_inner :: "rect \<Rightarrow> int \<Rightarrow> rect" where
  "rect_inner r padding =
     (if padding \<le> 0 then r
      else \<lparr>rect_x = rect_x r + padding, rect_y = rect_y r + padding,
            rect_width = max 0 (rect_width r - padding * 2), rect_height = max 0 (rect_height r - padding * 2)\<rparr>)"

section \<open>Writing segments\<close>

definition blank :: "'st \<Rightarrow> 'st cell" where
  "blank style = \<lparr>cell_style = style, cell_comb = [], cell_rune = 32\<rparr>"

definition segment_runes :: "string \<Rightarrow> nat \<times> nat list" where
  "segment_runes t = (case go_runes t of [] \<Rightarrow> (32, []) | r # rs \<Rightarrow> (r, rs))"

definition can_write_at :: "int \<Rightarrow> int \<Rightarrow> int \<Rightarrow> bool" where
  "can_write_at column row width \<longleftrightarrow> 0 \<le> row \<and> 0 \<le> column \<and> 0 < width"

definition can_write_segment :: "int \<Rightarrow> segment \<Rightarrow> bool" where
  "can_write_segment width s \<longleftrightarrow> 0 < seg_width s \<and> seg_width s \<le> width"

text \<open>Calls for a run of blanks in the columns from one to another.\<close>

definition blanks :: "int \<Rightarrow> int \<Rightarrow> int \<Rightarrow> 'st \<Rightarrow> 'st put list" where
  "blanks start stop row style = map (\<lambda>column. (column, row, blank style)) [start..stop - 1]"

definition write_tab_segment :: "int \<Rightarrow> int \<Rightarrow> int \<Rightarrow> 'st \<Rightarrow> int \<times> 'st put list" where
  "write_tab_segment column row width style =
     (let spaces = min tab_display_width width in (spaces, blanks column (column + spaces) row style))"

definition write_segment :: "int \<Rightarrow> int \<Rightarrow> int \<Rightarrow> segment \<Rightarrow> 'st \<Rightarrow> int \<times> 'st put list" where
  "write_segment column row width s style =
     (if \<not> can_write_at column row width then (0, [])
      else if seg_text s = tab_text then write_tab_segment column row width style
      else if \<not> can_write_segment width s then (0, [])
      else
        let (mainc, combc) = segment_runes (seg_text s)
        in (seg_width s,
            (column, row, \<lparr>cell_style = style, cell_comb = combc, cell_rune = mainc\<rparr>)
            # blanks (column + 1) (column + seg_width s) row style))"

text \<open>The loop shared by \<open>drawTextAt\<close> and \<open>WriteCellsNoFill\<close>.\<close>

fun draw_segments :: "int \<Rightarrow> int \<Rightarrow> int \<Rightarrow> 'st \<Rightarrow> int \<Rightarrow> segment list \<Rightarrow> int \<times> 'st put list" where
  "draw_segments column row width style used [] = (used, [])"
| "draw_segments column row width style used (s # ss) =
     (if used + seg_width s > width then (used, [])
      else
        let (n, puts) = write_segment (column + used) row (width - used) s style;
            (used', more) = draw_segments column row width style (used + n) ss
        in (used', puts @ more))"

definition draw_text_at ::
  "(string \<Rightarrow> (string \<times> int) list) \<Rightarrow> int \<Rightarrow> int \<Rightarrow> int \<Rightarrow> 'st \<Rightarrow> string \<Rightarrow> int \<times> 'st put list" where
  "draw_text_at graphemes column row width style t = draw_segments column row width style 0 (segments graphemes t)"

definition write_cells_no_fill ::
  "(string \<Rightarrow> (string \<times> int) list) \<Rightarrow> int \<Rightarrow> int \<Rightarrow> int \<Rightarrow> string \<Rightarrow> 'st \<Rightarrow> int \<times> 'st put list" where
  "write_cells_no_fill graphemes column row width t style =
     (if row < 0 \<or> column < 0 \<or> width \<le> 0 then (0, [])
      else draw_segments column row width style 0 (segments graphemes t))"

definition write_cells ::
  "(string \<Rightarrow> (string \<times> int) list) \<Rightarrow> int \<Rightarrow> int \<Rightarrow> int \<Rightarrow> string \<Rightarrow> 'st \<Rightarrow> int \<times> 'st put list" where
  "write_cells graphemes column row width t style =
     (if row < 0 \<or> column < 0 \<or> width \<le> 0 then (0, [])
      else
        let (used, puts) = write_cells_no_fill graphemes column row width t style
        in (max used width, puts @ blanks (column + used) (column + width) row style))"

section \<open>Drawing lines\<close>

definition draw_text ::
  "(string \<Rightarrow> (string \<times> int) list) \<Rightarrow> rect \<Rightarrow> 'st \<Rightarrow> string \<Rightarrow> 'st put list" where
  "draw_text graphemes r style t =
     (if rect_empty r then [] else snd (draw_text_at graphemes (rect_x r) (rect_y r) (rect_width r) style t))"

fun draw_spans :: "(string \<Rightarrow> (string \<times> int) list) \<Rightarrow> int \<Rightarrow> int \<Rightarrow> int \<Rightarrow> 'st span list \<Rightarrow> 'st put list" where
  "draw_spans graphemes column row remaining [] = []"
| "draw_spans graphemes column row remaining (s # ss) =
     (if remaining \<le> 0 then []
      else
        let (drawn, puts) = draw_text_at graphemes column row remaining (span_style s) (span_text s)
        in puts @ draw_spans graphemes (column + drawn) row (remaining - drawn) ss)"

definition draw_line :: "(string \<Rightarrow> (string \<times> int) list) \<Rightarrow> rect \<Rightarrow> 'st line \<Rightarrow> 'st put list" where
  "draw_line graphemes r l =
     (if rect_empty r then []
      else if line_spans l = [] then
        snd (draw_text_at graphemes (rect_x r) (rect_y r) (rect_width r) (line_style l) (line_text l))
      else draw_spans graphemes (rect_x r) (rect_y r) (rect_width r) (line_spans l))"

definition draw_lines :: "(string \<Rightarrow> (string \<times> int) list) \<Rightarrow> rect \<Rightarrow> 'st line list \<Rightarrow> 'st put list" where
  "draw_lines graphemes r lines =
     (if rect_empty r then []
      else concat (map (\<lambda>row. draw_line graphemes
                          \<lparr>rect_x = rect_x r, rect_y = rect_y r + int row, rect_width = rect_width r, rect_height = 1\<rparr>
                          (lines ! row))
                     [0..<nat (min (rect_height r) (int (length lines)))]))"

section \<open>The cell buffer\<close>

record 'st cell_buffer =
  cb_cells :: "'st cell list"
  cb_width :: int
  cb_height :: int

definition new_cell_buffer :: "int \<Rightarrow> int \<Rightarrow> 'st \<Rightarrow> 'st cell_buffer" where
  "new_cell_buffer width height style =
     \<lparr>cb_cells = replicate (nat (max 0 width * max 0 height)) (blank style),
      cb_width = max 0 width, cb_height = max 0 height\<rparr>"

definition buffer_offset :: "'st cell_buffer \<Rightarrow> int \<Rightarrow> int \<Rightarrow> nat" where
  "buffer_offset b column row = nat (row * cb_width b + column)"

definition in_buffer :: "'st cell_buffer \<Rightarrow> int \<Rightarrow> int \<Rightarrow> bool" where
  "in_buffer b column row \<longleftrightarrow> 0 \<le> column \<and> 0 \<le> row \<and> column < cb_width b \<and> row < cb_height b"

definition buffer_cell :: "'st cell_buffer \<Rightarrow> int \<Rightarrow> int \<Rightarrow> 'st cell" where
  "buffer_cell b column row = cb_cells b ! buffer_offset b column row"

definition set_content :: "'st cell_buffer \<Rightarrow> 'st put \<Rightarrow> 'st cell_buffer" where
  "set_content b p =
     (let (column, row, c) = p
      in if column < 0 \<or> row < 0 \<or> column \<ge> cb_width b \<or> row \<ge> cb_height b then b
         else b\<lparr>cb_cells := (cb_cells b)[buffer_offset b column row :=
                  (if cell_rune c = 0 then c\<lparr>cell_rune := 32\<rparr> else c)]\<rparr>)"

section \<open>The renderer\<close>

text \<open>
  The renderer keeps a copy of the frame it flushed last. \<open>cell_equal\<close> is \<open>Cell.Equal\<close>; \<open>write_changed\<close> visits the
  cells row by row.
\<close>

definition cell_equal :: "'st cell \<Rightarrow> 'st cell \<Rightarrow> bool" where
  "cell_equal c d \<longleftrightarrow>
     cell_rune c = cell_rune d \<and> cell_style c = cell_style d \<and> length (cell_comb c) = length (cell_comb d) \<and>
     list_all2 (=) (cell_comb c) (cell_comb d)"

definition write_changed :: "'st cell_buffer option \<Rightarrow> 'st cell_buffer \<Rightarrow> bool \<Rightarrow> 'st put list" where
  "write_changed previous frame force =
     concat (map (\<lambda>row. concat (map (\<lambda>column.
         let c = buffer_cell frame column row
         in if \<not> force \<and> (case previous of Some p \<Rightarrow> cell_equal c (buffer_cell p column row) | None \<Rightarrow> False)
            then [] else [(column, row, c)])
       [0..cb_width frame - 1])) [0..cb_height frame - 1])"

definition flush :: "'st cell_buffer option \<Rightarrow> 'st cell_buffer \<Rightarrow> 'st put list \<times> 'st cell_buffer option" where
  "flush previous frame =
     (let force = (case previous of None \<Rightarrow> True
                     | Some p \<Rightarrow> cb_width p \<noteq> cb_width frame \<or> cb_height p \<noteq> cb_height frame)
      in (write_changed previous frame force, Some frame))"

section \<open>Where a drawing writes\<close>

text \<open>
  Calls in one row, strictly from left to right, from a first column up to but not including a last one.
\<close>

definition in_columns :: "int \<Rightarrow> int \<Rightarrow> int \<Rightarrow> 'st put list \<Rightarrow> bool" where
  "in_columns row lo hi puts \<longleftrightarrow>
     sorted_wrt (<) (map fst puts) \<and> (\<forall>p \<in> set puts. fst (snd p) = row \<and> lo \<le> fst p \<and> fst p < hi)"

lemma in_columns_Nil [simp]: "in_columns row lo hi []"
  by (simp add: in_columns_def)

lemma in_columns_append:
  "in_columns row a b xs \<Longrightarrow> in_columns row b c ys \<Longrightarrow> a \<le> b \<Longrightarrow> b \<le> c \<Longrightarrow> in_columns row a c (xs @ ys)"
  by (fastforce simp: in_columns_def sorted_wrt_append)

lemma in_columns_widen: "in_columns row b c xs \<Longrightarrow> a \<le> b \<Longrightarrow> c \<le> d \<Longrightarrow> in_columns row a d xs"
  by (fastforce simp: in_columns_def)

lemma in_columns_blanks: "in_columns row a b (blanks a b row style)"
  by (auto simp: in_columns_def blanks_def comp_def sorted_wrt_upto)

lemma write_segment_in_columns:
  assumes "write_segment column row width s style = (n, puts)"
  shows "0 \<le> n \<and> n \<le> max 0 width \<and> in_columns row column (column + n) puts
    \<and> (puts \<noteq> [] \<longrightarrow> 0 \<le> column \<and> 0 \<le> row)"
proof -
  consider "\<not> can_write_at column row width \<or> (seg_text s \<noteq> tab_text \<and> \<not> can_write_segment width s)" "n = 0" "puts = []"
    | "can_write_at column row width" "n = min tab_display_width width" "puts = blanks column (column + n) row style"
    | c where "can_write_at column row width" "can_write_segment width s" "n = seg_width s"
        "puts = (column, row, c) # blanks (column + 1) (column + seg_width s) row style"
    using assms by (auto simp: write_segment_def write_tab_segment_def Let_def case_prod_unfold split: if_splits)
  then show ?thesis
  proof cases
    case 1
    then show ?thesis by simp
  next
    case 2
    then show ?thesis by (auto simp: in_columns_blanks can_write_at_def tab_display_width_def)
  next
    case 3
    then have "in_columns row column (column + 1) [(column, row, c)]" by (simp add: in_columns_def)
    from in_columns_append [OF this in_columns_blanks [of row "column + 1" "column + seg_width s" style]]
    show ?thesis using 3 by (simp add: can_write_at_def can_write_segment_def)
  qed
qed

lemma draw_segments_in_columns:
  assumes "draw_segments column row width style used ss = (used', puts)" and "used \<le> width"
    and "list_all (\<lambda>s. 0 \<le> seg_width s) ss"
  shows "used \<le> used' \<and> used' \<le> width \<and> in_columns row (column + used) (column + used') puts
    \<and> (\<forall>p \<in> set puts. 0 \<le> fst p \<and> 0 \<le> fst (snd p))"
  using assms
proof (induction column row width style used ss arbitrary: used' puts rule: draw_segments.induct)
  case (2 column row width style used s ss)
  show ?case
  proof (cases "used + seg_width s > width")
    case True
    then show ?thesis using "2.prems" by simp
  next
    case False
    obtain n ps where w: "write_segment (column + used) row (width - used) s style = (n, ps)" by fastforce
    obtain u more where d: "draw_segments column row width style (used + n) ss = (u, more)" by fastforce
    have r: "used' = u" "puts = ps @ more" using "2.prems"(1) False w d by auto
    have one: "0 \<le> n" "n \<le> width - used" "in_columns row (column + used) (column + used + n) ps"
      "ps \<noteq> [] \<longrightarrow> 0 \<le> column + used \<and> 0 \<le> row"
      using write_segment_in_columns [OF w] "2.prems"(2) by auto
    have rest: "used + n \<le> u" "u \<le> width" "in_columns row (column + (used + n)) (column + u) more"
      "\<forall>p \<in> set more. 0 \<le> fst p \<and> 0 \<le> fst (snd p)"
      using "2.IH" [OF False w [symmetric] refl d] one(2) "2.prems"(3) by auto
    have "in_columns row (column + used) (column + u) (ps @ more)"
      using in_columns_append [OF one(3), of "column + u" more] rest one by (simp add: add.assoc)
    moreover have "0 \<le> fst p \<and> 0 \<le> fst (snd p)" if "p \<in> set ps" for p
      using one(3,4) that by (fastforce simp: in_columns_def)
    ultimately show ?thesis using r rest one by auto
  qed
qed simp

lemma draw_text_at_in_columns:
  assumes "draw_text_at graphemes column row width style t = (used, puts)" and "0 \<le> width"
  shows "0 \<le> used \<and> used \<le> width \<and> in_columns row column (column + used) puts
    \<and> (\<forall>p \<in> set puts. 0 \<le> fst p \<and> 0 \<le> fst (snd p))"
  using draw_segments_in_columns [of column row width style 0 "segments graphemes t" used puts] assms segments_nonneg [of graphemes t]
  by (simp add: draw_text_at_def)

lemma draw_spans_in_columns:
  "0 \<le> remaining \<Longrightarrow> in_columns row column (column + remaining) (draw_spans graphemes column row remaining spans)
    \<and> (\<forall>p \<in> set (draw_spans graphemes column row remaining spans). 0 \<le> fst p \<and> 0 \<le> fst (snd p))"
proof (induction graphemes column row remaining spans rule: draw_spans.induct)
  case (2 graphemes column row remaining s ss)
  show ?case
  proof (cases "remaining \<le> 0")
    case False
    obtain drawn puts where d: "draw_text_at graphemes column row remaining (span_style s) (span_text s) = (drawn, puts)" by fastforce
    have one: "0 \<le> drawn" "drawn \<le> remaining" "in_columns row column (column + drawn) puts"
      "\<forall>p \<in> set puts. 0 \<le> fst p \<and> 0 \<le> fst (snd p)"
      using draw_text_at_in_columns [OF d "2.prems"] by auto
    have rest: "in_columns row (column + drawn) (column + drawn + (remaining - drawn))
        (draw_spans graphemes (column + drawn) row (remaining - drawn) ss)"
      "\<forall>p \<in> set (draw_spans graphemes (column + drawn) row (remaining - drawn) ss). 0 \<le> fst p \<and> 0 \<le> fst (snd p)"
      using "2.IH" [OF False d [symmetric] refl] one(2) by auto
    have "in_columns row column (column + remaining) (puts @ draw_spans graphemes (column + drawn) row (remaining - drawn) ss)"
      by (rule in_columns_append [OF one(3)]) (use rest one in simp_all)
    then show ?thesis using False d one rest by auto
  qed simp
qed simp

lemma draw_line_in_columns:
  "in_columns (rect_y r) (rect_x r) (rect_x r + rect_width r) (draw_line graphemes r l)
    \<and> (\<forall>p \<in> set (draw_line graphemes r l). 0 \<le> fst p \<and> 0 \<le> fst (snd p))"
proof (cases "rect_empty r")
  case False
  then have w: "0 \<le> rect_width r" by (simp add: rect_empty_def)
  show ?thesis
  proof (cases "line_spans l = []")
    case True
    obtain used puts where d: "draw_text_at graphemes (rect_x r) (rect_y r) (rect_width r) (line_style l) (line_text l) = (used, puts)"
      by fastforce
    have one: "used \<le> rect_width r" "in_columns (rect_y r) (rect_x r) (rect_x r + used) puts"
      "\<forall>p \<in> set puts. 0 \<le> fst p \<and> 0 \<le> fst (snd p)"
      using draw_text_at_in_columns [OF d w] by auto
    then show ?thesis using False True d in_columns_widen [OF one(2), of "rect_x r" "rect_x r + rect_width r"]
      by (simp add: draw_line_def)
  next
    case spans: False
    then show ?thesis using False draw_spans_in_columns [OF w] by (simp add: draw_line_def)
  qed
qed (simp add: draw_line_def)

text \<open>
  Drawing lines into a rectangle only writes cells of the rectangle, in the rows of the lines given, never outside the first
  quadrant and no cell twice.
\<close>

definition put_position :: "'st put \<Rightarrow> int \<times> int" where
  "put_position p = (fst p, fst (snd p))"

lemma in_columns_positions_distinct: "in_columns row lo hi puts \<Longrightarrow> distinct (map put_position puts)"
proof -
  assume "in_columns row lo hi puts"
  then have "distinct (map fst puts)" by (simp add: in_columns_def strict_sorted_iff)
  then show ?thesis
    by (auto simp: distinct_map inj_on_def put_position_def)
qed

lemma rows_positions_distinct:
  assumes "\<And>i. i < n \<Longrightarrow> in_columns (y + int i) lo hi (f i)"
  shows "distinct (map put_position (concat (map f [0..<n])))"
  using assms
proof (induction n)
  case (Suc n)
  have "put_position ` set (f i) \<inter> put_position ` set (f n) = {}" if "i < n" for i
    using Suc.prems [of i] Suc.prems [of n] that by (fastforce simp: in_columns_def put_position_def)
  then have "put_position ` (\<Union>i<n. set (f i)) \<inter> put_position ` set (f n) = {}" by blast
  moreover have "distinct (map put_position (f n))"
    using Suc.prems [of n] in_columns_positions_distinct by blast
  moreover have "distinct (map put_position (concat (map f [0..<n])))" using Suc by simp
  moreover have "set (concat (map f [0..<n])) = (\<Union>i<n. set (f i))" by (simp add: lessThan_atLeast0)
  ultimately show ?case by simp
qed simp

theorem drawing_stays_in_rectangle:
  "(\<forall>p \<in> set (draw_lines graphemes r lines).
      rect_x r \<le> fst p \<and> fst p < rect_x r + rect_width r \<and> 0 \<le> fst p \<and>
      rect_y r \<le> fst (snd p) \<and> fst (snd p) < rect_y r + min (rect_height r) (int (length lines)) \<and> 0 \<le> fst (snd p))
   \<and> distinct (map put_position (draw_lines graphemes r lines))"
proof (cases "rect_empty r")
  case False
  define n where "n = nat (min (rect_height r) (int (length lines)))"
  define f where "f i = draw_line graphemes
    \<lparr>rect_x = rect_x r, rect_y = rect_y r + int i, rect_width = rect_width r, rect_height = 1\<rparr> (lines ! i)" for i
  have d: "draw_lines graphemes r lines = concat (map f [0..<n])"
    using False by (simp add: draw_lines_def n_def f_def [abs_def])
  have cols: "in_columns (rect_y r + int i) (rect_x r) (rect_x r + rect_width r) (f i)" for i
    using draw_line_in_columns [of "\<lparr>rect_x = rect_x r, rect_y = rect_y r + int i, rect_width = rect_width r, rect_height = 1\<rparr>"
        graphemes "lines ! i"]
    by (simp add: f_def)
  have quadrant: "0 \<le> fst p \<and> 0 \<le> fst (snd p)" if "p \<in> set (f i)" for i p
    using draw_line_in_columns [of "\<lparr>rect_x = rect_x r, rect_y = rect_y r + int i, rect_width = rect_width r, rect_height = 1\<rparr>"] that
    unfolding f_def by blast
  have "rect_x r \<le> fst p \<and> fst p < rect_x r + rect_width r \<and> 0 \<le> fst p \<and>
      rect_y r \<le> fst (snd p) \<and> fst (snd p) < rect_y r + min (rect_height r) (int (length lines)) \<and> 0 \<le> fst (snd p)"
    if p: "p \<in> set (concat (map f [0..<n]))" for p
  proof -
    obtain i where i: "i < n" "p \<in> set (f i)" using p by auto
    then have "fst (snd p) = rect_y r + int i" "rect_x r \<le> fst p" "fst p < rect_x r + rect_width r"
      using cols [of i] by (auto simp: in_columns_def)
    moreover have "int i < min (rect_height r) (int (length lines))" using i(1) by (simp only: n_def zless_nat_eq_int_zless)
    ultimately show ?thesis using quadrant [OF i(2)] by simp
  qed
  then show ?thesis unfolding d using rows_positions_distinct [OF cols] by blast
qed (simp add: draw_lines_def)

theorem drawing_stays_in_rectangle_witness:
  "let puts = draw_lines byte_cells \<lparr>rect_x = 2, rect_y = 3, rect_width = 4, rect_height = 1\<rparr>
        [new_line () ''hello'', new_line () ''world'']
   in (\<forall>p \<in> set puts. 2 \<le> fst p \<and> fst p < 6 \<and> 0 \<le> fst p \<and> 3 \<le> fst (snd p) \<and> fst (snd p) < 4 \<and> 0 \<le> fst (snd p))
      \<and> distinct (map put_position puts)"
  using drawing_stays_in_rectangle [of byte_cells "\<lparr>rect_x = 2, rect_y = 3, rect_width = 4, rect_height = 1\<rparr>"
      "[new_line () ''hello'', new_line () ''world'']"] by (simp add: Let_def)

section \<open>The cell buffer as a receiver\<close>

definition buffer_ok :: "'st cell_buffer \<Rightarrow> bool" where
  "buffer_ok b \<longleftrightarrow> 0 \<le> cb_width b \<and> 0 \<le> cb_height b \<and> length (cb_cells b) = nat (cb_width b * cb_height b)"

lemma offset_in_range:
  assumes "buffer_ok b" and "in_buffer b column row"
  shows "buffer_offset b column row < length (cb_cells b)"
proof -
  have "row * cb_width b + column < (row + 1) * cb_width b" using assms by (simp add: in_buffer_def algebra_simps)
  also have "\<dots> \<le> cb_height b * cb_width b"
    using assms by (intro mult_right_mono) (simp_all add: in_buffer_def buffer_ok_def)
  finally have "row * cb_width b + column < cb_width b * cb_height b" by (simp add: mult.commute)
  moreover have "0 \<le> row * cb_width b + column" using assms by (simp add: in_buffer_def)
  ultimately show ?thesis using assms by (simp add: buffer_offset_def buffer_ok_def)
qed

lemma offset_injective:
  assumes "in_buffer b c r" and "in_buffer b c' r'" and "buffer_offset b c r = buffer_offset b c' r'"
  shows "c = c' \<and> r = r'"
proof -
  have nn: "0 \<le> r * cb_width b + c" "0 \<le> r' * cb_width b + c'" using assms(1,2) by (simp_all add: in_buffer_def)
  then have eq: "r * cb_width b + c = r' * cb_width b + c'"
    using assms(3) unfolding buffer_offset_def by (simp add: eq_nat_nat_iff)
  have "(r * cb_width b + c) mod cb_width b = c" "(r' * cb_width b + c') mod cb_width b = c'"
    using assms(1,2) by (simp_all add: in_buffer_def)
  then have c: "c = c'" using eq by simp
  with eq have "r * cb_width b = r' * cb_width b" by simp
  moreover have "cb_width b \<noteq> 0" using assms(1) by (auto simp: in_buffer_def)
  ultimately show ?thesis using c by simp
qed

lemma new_cell_buffer_ok: "buffer_ok (new_cell_buffer width height style)"
  by (simp add: buffer_ok_def new_cell_buffer_def)

lemma set_content_ok [simp]: "buffer_ok (set_content b p) = buffer_ok b"
  by (simp add: buffer_ok_def set_content_def Let_def split: prod.splits)

lemma set_content_size [simp]:
  "cb_width (set_content b p) = cb_width b" "cb_height (set_content b p) = cb_height b"
  by (simp_all add: set_content_def Let_def split: prod.splits)

lemma set_content_in_buffer [simp]: "in_buffer (set_content b p) c r = in_buffer b c r"
  by (simp add: in_buffer_def)

definition stored_cell :: "'st cell \<Rightarrow> 'st cell" where
  "stored_cell c = (if cell_rune c = 0 then c\<lparr>cell_rune := 32\<rparr> else c)"

text \<open>A call changes the cell it names, if the buffer has it, and no other.\<close>

lemma buffer_cell_set_content:
  assumes "buffer_ok b" and "in_buffer b c r"
  shows "buffer_cell (set_content b p) c r = (if put_position p = (c, r) then stored_cell (snd (snd p)) else buffer_cell b c r)"
proof (cases p)
  case (fields column row new)
  have off: "buffer_offset (b\<lparr>cb_cells := xs\<rparr>) c r = buffer_offset b c r" for xs by (simp add: buffer_offset_def)
  show ?thesis
  proof (cases "in_buffer b column row")
    case True
    then have "set_content b p = b\<lparr>cb_cells := (cb_cells b)[buffer_offset b column row := stored_cell new]\<rparr>"
      unfolding set_content_def fields by (auto simp: in_buffer_def stored_cell_def)
    moreover have "buffer_offset b column row \<noteq> buffer_offset b c r" if "(column, row) \<noteq> (c, r)"
      using offset_injective [OF True assms(2)] that by auto
    ultimately show ?thesis using offset_in_range [OF assms]
      by (cases "(column, row) = (c, r)") (auto simp: fields put_position_def buffer_cell_def off)
  next
    case False
    then have "set_content b p = b" by (auto simp: set_content_def fields in_buffer_def)
    then show ?thesis using False assms(2) by (auto simp: fields put_position_def)
  qed
qed

section \<open>The screen\<close>

text \<open>A screen keeps the content it was last given for each position.\<close>

type_synonym 'st screen = "int \<times> int \<Rightarrow> 'st cell"

definition show_puts :: "'st put list \<Rightarrow> 'st screen \<Rightarrow> 'st screen" where
  "show_puts puts scr = foldl (\<lambda>scr p. scr(put_position p := snd (snd p))) scr puts"

lemma show_puts_at:
  "\<forall>p \<in> set puts. snd (snd p) = content (put_position p) \<Longrightarrow>
     show_puts puts scr x = (if x \<in> put_position ` set puts then content x else scr x)"
proof (induction puts arbitrary: scr)
  case Nil
  then show ?case by (simp add: show_puts_def)
next
  case (Cons p puts)
  define scr' where "scr' = scr(put_position p := snd (snd p))"
  have "show_puts (p # puts) scr x = show_puts puts scr' x" by (simp add: show_puts_def scr'_def)
  moreover have "show_puts puts scr' x = (if x \<in> put_position ` set puts then content x else scr' x)"
    using Cons by simp
  moreover have "scr' x = (if x = put_position p then content x else scr x)" using Cons.prems by (simp add: scr'_def)
  ultimately show ?case by (cases "x = put_position p") auto
qed

lemma cell_equal_iff: "cell_equal c d \<longleftrightarrow> c = d"
  by (auto simp: cell_equal_def list_all2_eq [symmetric])

definition resent :: "'st cell_buffer option \<Rightarrow> 'st cell_buffer \<Rightarrow> bool \<Rightarrow> int \<Rightarrow> int \<Rightarrow> bool" where
  "resent previous frame force c r \<longleftrightarrow>
     in_buffer frame c r \<and> (force \<or> (\<forall>p. previous = Some p \<longrightarrow> buffer_cell frame c r \<noteq> buffer_cell p c r))"

lemma write_changed_puts:
  "set (write_changed previous frame force) = {(c, r, buffer_cell frame c r) | c r. resent previous frame force c r}"
  by (cases previous; cases force)
    (auto simp: write_changed_def Let_def cell_equal_iff in_buffer_def resent_def split: if_splits)

lemma write_changed_positions:
  "(c, r) \<in> put_position ` set (write_changed previous frame force) \<longleftrightarrow> resent previous frame force c r"
  by (simp add: write_changed_puts image_def put_position_def)

record 'st display =
  dp_previous :: "'st cell_buffer option"
  dp_screen :: "'st screen"

definition flush_display :: "'st display \<Rightarrow> 'st cell_buffer \<Rightarrow> 'st display" where
  "flush_display d frame =
     (let (puts, previous) = flush (dp_previous d) frame
      in \<lparr>dp_previous = previous, dp_screen = show_puts puts (dp_screen d)\<rparr>)"

definition display_init :: "'st display \<Rightarrow> bool" where
  "display_init d \<longleftrightarrow> dp_previous d = None"

inductive display_step :: "'st display \<Rightarrow> 'st display \<Rightarrow> bool" where
  "display_step d (flush_display d frame)"

definition display_inv :: "'st display \<Rightarrow> bool" where
  "display_inv d \<longleftrightarrow>
     (case dp_previous d of None \<Rightarrow> True
      | Some p \<Rightarrow> \<forall>c r. in_buffer p c r \<longrightarrow> dp_screen d (c, r) = buffer_cell p c r)"

lemma flush_display_at:
  assumes "display_inv d"
  shows "dp_screen (flush_display d frame) (c, r) = (if in_buffer frame c r then buffer_cell frame c r else dp_screen d (c, r))"
proof -
  define force where "force = (case dp_previous d of None \<Rightarrow> True
    | Some p \<Rightarrow> cb_width p \<noteq> cb_width frame \<or> cb_height p \<noteq> cb_height frame)"
  let ?puts = "write_changed (dp_previous d) frame force"
  have "dp_screen (flush_display d frame) = show_puts ?puts (dp_screen d)"
    by (simp add: flush_display_def flush_def force_def Let_def)
  moreover have "\<forall>p \<in> set ?puts. snd (snd p) = (\<lambda>(c, r). buffer_cell frame c r) (put_position p)"
    by (auto simp: write_changed_puts put_position_def)
  ultimately have at: "dp_screen (flush_display d frame) (c, r) =
      (if (c, r) \<in> put_position ` set ?puts then buffer_cell frame c r else dp_screen d (c, r))"
    using show_puts_at [of ?puts "\<lambda>(c, r). buffer_cell frame c r" "dp_screen d" "(c, r)"] by simp
  have "dp_screen d (c, r) = buffer_cell p c r"
    if "dp_previous d = Some p" "\<not> force" "in_buffer frame c r" for p
  proof -
    have "in_buffer p c r" using that by (simp add: force_def in_buffer_def)
    then show ?thesis using assms that(1) by (simp add: display_inv_def)
  qed
  then show ?thesis unfolding at write_changed_positions
    by (cases "dp_previous d") (auto simp: resent_def force_def)
qed

lemma flush_display_previous [simp]: "dp_previous (flush_display d frame) = Some frame"
  by (simp add: flush_display_def flush_def Let_def)

lemma display_inv_step:
  assumes "display_inv d" and "display_step d d'"
  shows "display_inv d'"
proof -
  obtain frame where "d' = flush_display d frame" using assms(2) by (auto elim: display_step.cases)
  then show ?thesis by (simp add: display_inv_def flush_display_at [OF assms(1)])
qed

interpretation display: invariant_machine display_init display_step display_inv
  by unfold_locales (simp add: display_init_def display_inv_def, rule display_inv_step)

text \<open>
  C40. After a flush the screen shows the frame, and nothing else has changed, although only changed cells were sent: when the
  size is the same, no call repeats what its position already shows.
\<close>

theorem flush_shows_frame:
  assumes "reachable_from display_init display_step d"
  shows "dp_screen (flush_display d frame) (c, r) = (if in_buffer frame c r then buffer_cell frame c r else dp_screen d (c, r))
    \<and> (dp_previous d = Some p \<and> cb_width p = cb_width frame \<and> cb_height p = cb_height frame \<longrightarrow>
        (\<forall>q \<in> set (fst (flush (dp_previous d) frame)). dp_screen d (put_position q) \<noteq> snd (snd q)))"
proof -
  have inv: "display_inv d" using assms by (rule display.reachable_inv)
  have "dp_screen d (put_position q) \<noteq> snd (snd q)"
    if "dp_previous d = Some p" "cb_width p = cb_width frame" "cb_height p = cb_height frame"
      "q \<in> set (fst (flush (dp_previous d) frame))" for q
  proof -
    have "q \<in> set (write_changed (Some p) frame False)" using that by (simp add: flush_def)
    then obtain c r where q: "q = (c, r, buffer_cell frame c r)" "in_buffer frame c r"
      "buffer_cell frame c r \<noteq> buffer_cell p c r" by (auto simp: write_changed_puts resent_def)
    then have "in_buffer p c r" using that by (simp add: in_buffer_def)
    then show ?thesis using inv that(1) q by (simp add: display_inv_def put_position_def)
  qed
  then show ?thesis using flush_display_at [OF inv] by blast
qed

definition sample_display :: "unit display" where
  "sample_display = \<lparr>dp_previous = None, dp_screen = (\<lambda>x. \<lparr>cell_style = (), cell_comb = [], cell_rune = 63\<rparr>)\<rparr>"

definition sample_frame :: "unit cell_buffer" where
  "sample_frame = set_content (new_cell_buffer 2 1 ()) (1, 0, \<lparr>cell_style = (), cell_comb = [], cell_rune = 104\<rparr>)"

theorem flush_shows_frame_witness:
  "let d = flush_display sample_display (new_cell_buffer 2 1 ())
   in dp_screen (flush_display d sample_frame) (1, 0)
        = (if in_buffer sample_frame 1 0 then buffer_cell sample_frame 1 0 else dp_screen d (1, 0))
    \<and> (dp_previous d = Some (new_cell_buffer 2 1 ()) \<and> cb_width (new_cell_buffer 2 1 ()) = cb_width sample_frame
          \<and> cb_height (new_cell_buffer 2 1 ()) = cb_height sample_frame \<longrightarrow>
        (\<forall>q \<in> set (fst (flush (dp_previous d) sample_frame)). dp_screen d (put_position q) \<noteq> snd (snd q)))"
  unfolding Let_def
proof (rule flush_shows_frame)
  have "display_init sample_display" by (simp add: display_init_def sample_display_def)
  then show "reachable_from display_init display_step (flush_display sample_display (new_cell_buffer 2 1 ()))"
    by (rule reachable_from.step [OF reachable_from.start]) (rule display_step.intros)
qed

end
