(* ===== verification/Text_Area.thy ===== *)
theory Text_Area
  imports Text_Layout "HOL-Library.Sublist"
begin

text \<open>
  The prompt editor of the terminal (\<^verbatim>\<open>tui/textarea.go\<close>) and the borders drawn around it (\<^verbatim>\<open>tui/box.go\<close>). The
  text is a Go string, edited as a slice of runes with a cursor between them. The abstract editor is a pair of
  the runes before and after the cursor; every method is shown to implement one of its operations.
  Methods on a nil area, which do nothing, and the metadata map, which no method reads, are left out.
\<close>

section \<open>Data\<close>

record text_area =
  ta_text :: string
  ta_label :: string
  ta_chars :: "string list"
  ta_cursor :: int

definition new_text_area :: text_area where
  "new_text_area = \<lparr>ta_text = [], ta_label = [], ta_chars = [], ta_cursor = 0\<rparr>"

definition chars_of :: "nat list \<Rightarrow> string list" where
  "chars_of runes = map encode_rune runes"

definition clamp_cursor :: "int \<Rightarrow> nat \<Rightarrow> nat" where
  "clamp_cursor c n = (if c < 0 then 0 else if c > int n then n else nat c)"

definition set_runes :: "text_area \<Rightarrow> nat list \<Rightarrow> int \<Rightarrow> text_area" where
  "set_runes area runes c =
     area\<lparr>ta_text := string_of_runes runes, ta_chars := chars_of runes,
       ta_cursor := int (clamp_cursor c (length runes))\<rparr>"

definition set_text :: "text_area \<Rightarrow> string \<Rightarrow> text_area" where
  "set_text area t = set_runes area (go_runes t) (int (length (go_runes t)))"

definition clear_text :: "text_area \<Rightarrow> string \<times> text_area" where
  "clear_text area = (ta_text area, set_text area [])"

definition update_area :: "text_area \<Rightarrow> (nat list \<Rightarrow> nat \<Rightarrow> nat list \<times> nat) \<Rightarrow> text_area" where
  "update_area area mutator =
     (let runes = go_runes (ta_text area);
          c = clamp_cursor (ta_cursor area) (length runes);
          (runes', c') = mutator runes c
      in set_runes area runes' (int c'))"

section \<open>Mutations of runes and cursor\<close>

text \<open>
  The functions clamp the cursor they are given; \<open>Update\<close> has done so before it calls them, so the model takes it as a
  natural number and clamps it at the end of the text. The loops that run backwards or forwards while a condition on the
  rune holds are shared.
\<close>

fun back_while :: "(nat \<Rightarrow> bool) \<Rightarrow> nat list \<Rightarrow> nat \<Rightarrow> nat" where
  "back_while P runes 0 = 0"
| "back_while P runes (Suc i) = (if P (runes ! i) then back_while P runes i else Suc i)"

function forward_while :: "(nat \<Rightarrow> bool) \<Rightarrow> nat list \<Rightarrow> nat \<Rightarrow> nat" where
  "forward_while P runes i = (if i < length runes \<and> P (runes ! i) then forward_while P runes (Suc i) else i)"
  by pat_completeness auto
termination by (relation "measure (\<lambda>(P, runes, i). length runes - i)") auto

declare forward_while.simps [simp del]

definition insert_rune_at :: "nat \<Rightarrow> nat list \<Rightarrow> nat \<Rightarrow> nat list \<times> nat" where
  "insert_rune_at ch runes c =
     (if ch = 0 then (runes, c)
      else let c = min c (length runes) in (take c runes @ [ch] @ drop c runes, Suc c))"

definition move_cursor_left :: "nat list \<Rightarrow> nat \<Rightarrow> nat" where
  "move_cursor_left runes c = (let c = min c (length runes) in if 0 < c then c - 1 else c)"

definition move_cursor_right :: "nat list \<Rightarrow> nat \<Rightarrow> nat" where
  "move_cursor_right runes c = (let c = min c (length runes) in if c < length runes then Suc c else c)"

definition current_line_start :: "nat list \<Rightarrow> nat \<Rightarrow> nat" where
  "current_line_start runes c = back_while (\<lambda>r. r \<noteq> 10) runes (min c (length runes))"

definition current_line_end :: "nat list \<Rightarrow> nat \<Rightarrow> nat" where
  "current_line_end runes c = forward_while (\<lambda>r. r \<noteq> 10) runes (min c (length runes))"

definition word_left :: "nat list \<Rightarrow> nat \<Rightarrow> nat" where
  "word_left runes c =
     back_while (\<lambda>r. \<not> is_space r) runes (back_while is_space runes (min c (length runes)))"

definition word_right :: "nat list \<Rightarrow> nat \<Rightarrow> nat" where
  "word_right runes c =
     forward_while (\<lambda>r. \<not> is_space r) runes (forward_while is_space runes (min c (length runes)))"

definition delete_backward_at :: "nat list \<Rightarrow> nat \<Rightarrow> nat list \<times> nat" where
  "delete_backward_at runes c =
     (let c = min c (length runes)
      in if c = 0 then (runes, c) else (take (c - 1) runes @ drop c runes, c - 1))"

definition delete_forward_at :: "nat list \<Rightarrow> nat \<Rightarrow> nat list \<times> nat" where
  "delete_forward_at runes c =
     (let c = min c (length runes)
      in if c \<ge> length runes then (runes, c) else (take c runes @ drop (Suc c) runes, c))"

definition delete_word_backward_at :: "nat list \<Rightarrow> nat \<Rightarrow> nat list \<times> nat" where
  "delete_word_backward_at runes c =
     (let c = min c (length runes); start = word_left runes c in (take start runes @ drop c runes, start))"

definition delete_word_forward_at :: "nat list \<Rightarrow> nat \<Rightarrow> nat list \<times> nat" where
  "delete_word_forward_at runes c =
     (let c = min c (length runes); stop = word_right runes c in (take c runes @ drop stop runes, c))"

definition delete_to_line_start_at :: "nat list \<Rightarrow> nat \<Rightarrow> nat list \<times> nat" where
  "delete_to_line_start_at runes c =
     (let c = min c (length runes); start = current_line_start runes c in (take start runes @ drop c runes, start))"

definition delete_to_line_end_at :: "nat list \<Rightarrow> nat \<Rightarrow> nat list \<times> nat" where
  "delete_to_line_end_at runes c =
     (let c = min c (length runes); stop = current_line_end runes c in (take c runes @ drop stop runes, c))"

section \<open>Methods\<close>

datatype area_method =
    InsertRune nat | SetText string | ClearText
  | MoveLeft | MoveRight | MoveWordLeft | MoveWordRight | MoveLineStart | MoveLineEnd
  | DeleteBackward | DeleteForward | DeleteWordBackward | DeleteWordForward
  | DeleteToLineStart | DeleteToLineEnd

fun call_area :: "area_method \<Rightarrow> text_area \<Rightarrow> text_area" where
  "call_area (InsertRune ch) area = update_area area (insert_rune_at ch)"
| "call_area (SetText t) area = set_text area t"
| "call_area ClearText area = snd (clear_text area)"
| "call_area MoveLeft area = update_area area (\<lambda>runes c. (runes, move_cursor_left runes c))"
| "call_area MoveRight area = update_area area (\<lambda>runes c. (runes, move_cursor_right runes c))"
| "call_area MoveWordLeft area = update_area area (\<lambda>runes c. (runes, word_left runes c))"
| "call_area MoveWordRight area = update_area area (\<lambda>runes c. (runes, word_right runes c))"
| "call_area MoveLineStart area = update_area area (\<lambda>runes c. (runes, current_line_start runes c))"
| "call_area MoveLineEnd area = update_area area (\<lambda>runes c. (runes, current_line_end runes c))"
| "call_area DeleteBackward area = update_area area delete_backward_at"
| "call_area DeleteForward area = update_area area delete_forward_at"
| "call_area DeleteWordBackward area = update_area area delete_word_backward_at"
| "call_area DeleteWordForward area = update_area area delete_word_forward_at"
| "call_area DeleteToLineStart area = update_area area delete_to_line_start_at"
| "call_area DeleteToLineEnd area = update_area area delete_to_line_end_at"

section \<open>Borders\<close>

record border =
  bd_horizontal :: string
  bd_vertical :: string
  bd_top_left :: string
  bd_top_right :: string
  bd_bottom_left :: string
  bd_bottom_right :: string
  bd_middle_left :: string
  bd_middle_right :: string

definition rounded_border :: border where
  "rounded_border =
     \<lparr>bd_horizontal = encode_rune 0x2500, bd_vertical = encode_rune 0x2502,
      bd_top_left = encode_rune 0x256D, bd_top_right = encode_rune 0x256E,
      bd_bottom_left = encode_rune 0x2570, bd_bottom_right = encode_rune 0x256F,
      bd_middle_left = encode_rune 0x251C, bd_middle_right = encode_rune 0x2524\<rparr>"

datatype border_title_align = BorderTitleLeft | BorderTitleRight

definition border_title_label ::
  "(string \<Rightarrow> (string \<times> int) list) \<Rightarrow> (string \<Rightarrow> int) \<Rightarrow> string \<Rightarrow> int \<Rightarrow> border_title_align \<Rightarrow> string" where
  "border_title_label graphemes str_width title width align =
     (let title = trim_space (replace_all [CHR 0x0A] '' '' title)
      in if title = [] then []
         else if align = BorderTitleRight then
           truncate_text graphemes str_width (title @ encode_rune 0x2500 @ encode_rune 0x2500) width
         else truncate_text graphemes str_width ('' '' @ title @ '' '') width)"

definition border_line_with_border ::
  "(string \<Rightarrow> (string \<times> int) list) \<Rightarrow> (string \<Rightarrow> int) \<Rightarrow> int \<Rightarrow> string \<Rightarrow> string \<Rightarrow> string \<Rightarrow> border
     \<Rightarrow> border_title_align \<Rightarrow> string" where
  "border_line_with_border graphemes str_width width title left right bd align =
     (let left_width = text_width str_width left; right_width = text_width str_width right
      in if width \<le> 0 then []
         else if width \<le> left_width then truncate_text graphemes str_width left width
         else if width \<le> left_width + right_width then truncate_text graphemes str_width (left @ right) width
         else
           let inner_width = max 0 (width - left_width - right_width)
           in if title = [] then left @ repeat_text (bd_horizontal bd) inner_width @ right
              else
                let label = border_title_label graphemes str_width title inner_width align;
                    fill = repeat_text (bd_horizontal bd) (max 0 (inner_width - text_width str_width label));
                    inner = (if align = BorderTitleRight then fill @ label else label @ fill)
                in left @ inner @ right)"

definition top_border where
  "top_border graphemes str_width width title =
     border_line_with_border graphemes str_width width title (bd_top_left rounded_border) (bd_top_right rounded_border)
       rounded_border BorderTitleRight"

definition middle_border where
  "middle_border graphemes str_width width =
     border_line_with_border graphemes str_width width [] (bd_middle_left rounded_border) (bd_middle_right rounded_border)
       rounded_border BorderTitleLeft"

definition bottom_border where
  "bottom_border graphemes str_width width =
     border_line_with_border graphemes str_width width [] (bd_bottom_left rounded_border) (bd_bottom_right rounded_border)
       rounded_border BorderTitleLeft"

section \<open>Rendering\<close>

record 'st text_area_render =
  rn_lines :: "'st line list"
  rn_cursor_col :: int
  rn_cursor_row :: int

record 'st text_area_styles =
  st_border :: 'st
  st_body :: 'st

definition text_area_body_lines :: "(string \<Rightarrow> (string \<times> int) list) \<Rightarrow> nat list \<Rightarrow> int \<Rightarrow> string list" where
  "text_area_body_lines graphemes runes width =
     (if runes = [] then [[]] else wrap_preserve_whitespace graphemes (string_of_runes runes) width)"

definition ends_with_byte :: "char \<Rightarrow> string \<Rightarrow> bool" where
  "ends_with_byte c t \<longleftrightarrow> t \<noteq> [] \<and> last t = c"

definition text_area_cursor_position ::
  "(string \<Rightarrow> (string \<times> int) list) \<Rightarrow> (string \<Rightarrow> int) \<Rightarrow> nat list \<Rightarrow> int \<Rightarrow> int \<Rightarrow> int \<times> int" where
  "text_area_cursor_position graphemes str_width runes c width =
     (let p = string_of_runes (take (clamp_cursor c (length runes)) runes);
          lines = wrap_preserve_whitespace graphemes p width
      in if lines = [] then (0, 0)
         else if ends_with_byte (CHR 0x0A) p then (int (length lines) - 1, 0)
         else (int (length lines) - 1, text_width str_width (last lines)))"

definition visible_lines :: "'l list \<Rightarrow> int \<Rightarrow> int \<Rightarrow> 'l list \<times> int" where
  "visible_lines lines max_rows cursor_row =
     (if max_rows < 1 \<or> int (length lines) \<le> max_rows then (lines, 0)
      else
        let start = max 0 (cursor_row - max_rows + 1);
            start = (if start + max_rows > int (length lines) then int (length lines) - max_rows else start)
        in (take (nat max_rows) (drop (nat start) lines), start))"

definition text_area_border_padding :: int where "text_area_border_padding = 4"
definition text_area_cursor_column_offset :: int where "text_area_cursor_column_offset = 2"

definition render_text_area ::
  "(string \<Rightarrow> (string \<times> int) list) \<Rightarrow> (string \<Rightarrow> int) \<Rightarrow> nat list \<Rightarrow> int \<Rightarrow> int \<Rightarrow> int \<Rightarrow> 'st text_area_styles \<Rightarrow> string
     \<Rightarrow> 'st text_area_render" where
  "render_text_area graphemes str_width runes c width max_rows styles label =
     (let inner_width = max 1 (width - text_area_border_padding);
          body = text_area_body_lines graphemes runes inner_width;
          (cursor_row, cursor_column) = text_area_cursor_position graphemes str_width runes c inner_width;
          (visible, skipped) = visible_lines body max_rows cursor_row;
          side = bd_vertical rounded_border
      in \<lparr>rn_lines =
            new_line (st_border styles) (top_border graphemes str_width width label)
            # map (\<lambda>l. new_line (st_body styles)
                          (side @ '' '' @ pad_right graphemes str_width l inner_width @ '' '' @ side)) visible
            @ [new_line (st_border styles) (bottom_border graphemes str_width width)],
          rn_cursor_col = text_area_cursor_column_offset + cursor_column,
          rn_cursor_row = 1 + cursor_row - skipped\<rparr>)"

definition area_render where
  "area_render graphemes str_width area width max_rows styles =
     render_text_area graphemes str_width (go_runes (ta_text area)) (ta_cursor area) width max_rows styles (ta_label area)"

section \<open>The loops\<close>

lemma back_while_takeWhile:
  "i \<le> length runes \<Longrightarrow> back_while P runes i = i - length (takeWhile P (rev (take i runes)))"
  by (induction i) (simp_all add: take_Suc_conv_app_nth)

lemma forward_while_takeWhile:
  "i \<le> length runes \<Longrightarrow> forward_while P runes i = i + length (takeWhile P (drop i runes))"
proof (induction P runes i rule: forward_while.induct)
  case (1 P runes i)
  then show ?case
    by (cases "i < length runes")
      (auto simp: forward_while.simps [of P runes i] forward_while.simps [of P runes "length runes"]
        Cons_nth_drop_Suc [symmetric])
qed

lemma back_while_le: "back_while P runes i \<le> i"
  by (induction i) (auto simp: le_SucI)

section \<open>The abstract editor\<close>

text \<open>
  A pair of the runes before and after the cursor. A movement shifts a number of runes over the cursor, a deletion
  drops them; the number is one, or reaches over white space and a word, or to the next line feed.
\<close>

type_synonym editor = "nat list \<times> nat list"

definition shift_left :: "nat \<Rightarrow> editor \<Rightarrow> editor" where
  "shift_left n e = (take (length (fst e) - n) (fst e), drop (length (fst e) - n) (fst e) @ snd e)"

definition shift_right :: "nat \<Rightarrow> editor \<Rightarrow> editor" where
  "shift_right n e = (fst e @ take n (snd e), drop n (snd e))"

definition drop_left :: "nat \<Rightarrow> editor \<Rightarrow> editor" where
  "drop_left n e = (take (length (fst e) - n) (fst e), snd e)"

definition drop_right :: "nat \<Rightarrow> editor \<Rightarrow> editor" where
  "drop_right n e = (fst e, drop n (snd e))"

definition word_reach :: "nat list \<Rightarrow> nat" where
  "word_reach rs =
     length (takeWhile is_space rs) + length (takeWhile (\<lambda>r. \<not> is_space r) (dropWhile is_space rs))"

definition line_reach :: "nat list \<Rightarrow> nat" where
  "line_reach rs = length (takeWhile (\<lambda>r. r \<noteq> 10) rs)"

fun edit :: "area_method \<Rightarrow> editor \<Rightarrow> editor" where
  "edit (InsertRune ch) e = (if ch = 0 then e else (fst e @ [stored_rune ch], snd e))"
| "edit (SetText t) e = (go_runes t, [])"
| "edit ClearText e = ([], [])"
| "edit MoveLeft e = shift_left 1 e"
| "edit MoveRight e = shift_right 1 e"
| "edit MoveWordLeft e = shift_left (word_reach (rev (fst e))) e"
| "edit MoveWordRight e = shift_right (word_reach (snd e)) e"
| "edit MoveLineStart e = shift_left (line_reach (rev (fst e))) e"
| "edit MoveLineEnd e = shift_right (line_reach (snd e)) e"
| "edit DeleteBackward e = drop_left 1 e"
| "edit DeleteForward e = drop_right 1 e"
| "edit DeleteWordBackward e = drop_left (word_reach (rev (fst e))) e"
| "edit DeleteWordForward e = drop_right (word_reach (snd e)) e"
| "edit DeleteToLineStart e = drop_left (line_reach (rev (fst e))) e"
| "edit DeleteToLineEnd e = drop_right (line_reach (snd e)) e"

definition editor_of :: "text_area \<Rightarrow> editor" where
  "editor_of area =
     (let runes = go_runes (ta_text area); c = clamp_cursor (ta_cursor area) (length runes)
      in (take c runes, drop c runes))"

lemma clamp_cursor_le: "clamp_cursor c n \<le> n"
  by (auto simp: clamp_cursor_def)

lemma clamp_cursor_id [simp]: "clamp_cursor (int c) n = min c n"
  by (simp add: clamp_cursor_def)

lemma editor_of_set_runes:
  "editor_of (set_runes area runes (int c)) = (map stored_rune (take c runes), map stored_rune (drop c runes))"
  by (simp add: editor_of_def set_runes_def Let_def go_runes_string_of_runes take_map drop_map min_def)

lemma word_left_reach:
  assumes "c \<le> length runes"
  shows "word_left runes c = c - word_reach (rev (take c runes))"
proof -
  let ?b = "rev (take c runes)"
  define i where "i = back_while is_space runes c"
  have i: "i = c - length (takeWhile is_space ?b)" "i \<le> c"
    using back_while_takeWhile [OF assms] back_while_le by (simp_all add: i_def)
  have le: "length (takeWhile is_space ?b) \<le> c" using length_takeWhile_le [of is_space ?b] assms by simp
  have "rev (take i runes) = drop (c - i) ?b"
    using i(2) assms by (simp add: drop_rev min_def)
  also have "\<dots> = dropWhile is_space ?b"
    using i(1) le by (simp add: dropWhile_eq_drop)
  finally have "rev (take i runes) = dropWhile is_space ?b" .
  then show ?thesis
    using back_while_takeWhile [of i runes] i assms
    by (simp add: word_left_def word_reach_def i_def [symmetric])
qed

lemma word_right_reach:
  assumes "c \<le> length runes"
  shows "word_right runes c = c + word_reach (drop c runes)"
proof -
  let ?a = "drop c runes"
  define i where "i = forward_while is_space runes c"
  have i: "i = c + length (takeWhile is_space ?a)"
    using forward_while_takeWhile [OF assms] by (simp add: i_def)
  have "i \<le> length runes" using length_takeWhile_le [of is_space ?a] i assms by simp
  moreover have "drop i runes = dropWhile is_space ?a"
    by (simp add: i dropWhile_eq_drop add.commute)
  ultimately show ?thesis
    using forward_while_takeWhile [of i runes] assms i
    by (simp add: word_right_def word_reach_def i_def [symmetric])
qed

lemma current_line_start_reach:
  "c \<le> length runes \<Longrightarrow> current_line_start runes c = c - line_reach (rev (take c runes))"
  by (simp add: current_line_start_def line_reach_def back_while_takeWhile)

lemma current_line_end_reach:
  "c \<le> length runes \<Longrightarrow> current_line_end runes c = c + line_reach (drop c runes)"
  by (simp add: current_line_end_def line_reach_def forward_while_takeWhile)

lemmas reach_simps = word_left_reach word_right_reach current_line_start_reach current_line_end_reach

text \<open>Every method of the area is the operation of the abstract editor.\<close>

lemma update_area_editor:
  assumes "\<And>runes c. c \<le> length runes \<Longrightarrow> map stored_rune runes = runes \<Longrightarrow>
      (map stored_rune (take (snd (f runes c)) (fst (f runes c))), map stored_rune (drop (snd (f runes c)) (fst (f runes c))))
        = h (take c runes, drop c runes)"
  shows "editor_of (update_area area f) = h (editor_of area)"
proof -
  define runes where "runes = go_runes (ta_text area)"
  define c where "c = clamp_cursor (ta_cursor area) (length runes)"
  have "editor_of (update_area area f) =
      (map stored_rune (take (snd (f runes c)) (fst (f runes c))), map stored_rune (drop (snd (f runes c)) (fst (f runes c))))"
    by (simp add: update_area_def runes_def [symmetric] c_def [symmetric] Let_def case_prod_unfold editor_of_set_runes)
  also have "\<dots> = h (take c runes, drop c runes)"
    by (rule assms) (simp_all add: c_def clamp_cursor_le, simp add: runes_def)
  finally show ?thesis by (simp add: editor_of_def runes_def [symmetric] c_def [symmetric])
qed

lemma stored_take_drop:
  assumes "map stored_rune runes = runes"
  shows "map stored_rune (take i runes) = take i runes" "map stored_rune (drop i runes) = drop i runes"
  using assms by (metis take_map, metis drop_map)

text \<open>A movement to the left or to the right, and the deletion over it.\<close>

lemma moves_shift:
  assumes "c \<le> length runes"
  shows "(take (c - n) runes, drop (c - n) runes) = shift_left n (take c runes, drop c runes)"
    and "n \<le> length runes - c \<Longrightarrow> (take (c + n) runes, drop (c + n) runes) = shift_right n (take c runes, drop c runes)"
proof -
  have "drop (c - n) (take c runes @ drop c runes) = drop (c - n) (take c runes) @ drop c runes"
    using assms by (subst drop_append) simp
  then have "drop (c - n) runes = drop (c - n) (take c runes) @ drop c runes" by simp
  moreover have "length (take c runes) = c" "take (c - n) (take c runes) = take (c - n) runes" using assms by simp_all
  ultimately show "(take (c - n) runes, drop (c - n) runes) = shift_left n (take c runes, drop c runes)"
    by (simp only: shift_left_def fst_conv snd_conv)
  show "n \<le> length runes - c \<Longrightarrow> (take (c + n) runes, drop (c + n) runes) = shift_right n (take c runes, drop c runes)"
    by (simp add: shift_right_def take_add add.commute)
qed

lemma reach_le: "word_reach rs \<le> length rs" "line_reach rs \<le> length rs"
proof -
  have "length (takeWhile (\<lambda>r. \<not> is_space r) (dropWhile is_space rs)) \<le> length (dropWhile is_space rs)"
    by (rule length_takeWhile_le)
  moreover have "length (takeWhile is_space rs) + length (dropWhile is_space rs) = length rs"
    by (metis length_append takeWhile_dropWhile_id)
  ultimately show "word_reach rs \<le> length rs" by (simp add: word_reach_def)
  show "line_reach rs \<le> length rs" by (simp add: line_reach_def length_takeWhile_le)
qed

lemma reach_drop_le: "word_reach (drop c runes) \<le> length runes - c" "line_reach (drop c runes) \<le> length runes - c"
  using reach_le [of "drop c runes"] by simp_all

lemma move_cursor_left_le: "c \<le> length runes \<Longrightarrow> move_cursor_left runes c = c - 1"
  by (simp add: move_cursor_left_def)

lemma editor_call: "editor_of (call_area m area) = edit m (editor_of area)"
proof (cases m)
  case (InsertRune ch)
  show ?thesis unfolding InsertRune call_area.simps
    by (rule update_area_editor) (auto simp: insert_rune_at_def stored_take_drop)
next
  case (SetText t)
  then show ?thesis using editor_of_set_runes [of area "go_runes t" "length (go_runes t)"]
    by (simp add: set_text_def)
next
  case ClearText
  then show ?thesis using editor_of_set_runes [of area "[]" 0]
    by (simp add: clear_text_def set_text_def)
next
  case MoveLeft
  show ?thesis unfolding MoveLeft call_area.simps edit.simps
    by (rule update_area_editor)
      (simp add: move_cursor_left_le stored_take_drop moves_shift(1) del: One_nat_def)
next
  case MoveRight
  show ?thesis unfolding MoveRight call_area.simps edit.simps
    by (rule update_area_editor)
      (auto simp: move_cursor_right_def stored_take_drop shift_right_def min_def take_Suc_conv_app_nth drop_Suc tl_drop
        hd_drop_conv_nth take_Suc)
next
  case MoveWordLeft
  show ?thesis unfolding MoveWordLeft call_area.simps edit.simps
    by (rule update_area_editor) (simp add: reach_simps stored_take_drop moves_shift(1))
next
  case MoveWordRight
  show ?thesis unfolding MoveWordRight call_area.simps edit.simps
    by (rule update_area_editor) (simp add: reach_simps stored_take_drop moves_shift(2) reach_drop_le)
next
  case MoveLineStart
  show ?thesis unfolding MoveLineStart call_area.simps edit.simps
    by (rule update_area_editor) (simp add: reach_simps stored_take_drop moves_shift(1))
next
  case MoveLineEnd
  show ?thesis unfolding MoveLineEnd call_area.simps edit.simps
    by (rule update_area_editor) (simp add: reach_simps stored_take_drop moves_shift(2) reach_drop_le)
next
  case DeleteBackward
  show ?thesis unfolding DeleteBackward call_area.simps edit.simps
    by (rule update_area_editor) (auto simp: delete_backward_at_def stored_take_drop drop_left_def Let_def min_absorb1)
next
  case DeleteForward
  show ?thesis unfolding DeleteForward call_area.simps edit.simps
    by (rule update_area_editor) (auto simp: delete_forward_at_def stored_take_drop drop_right_def min_def Let_def)
next
  case DeleteWordBackward
  show ?thesis unfolding DeleteWordBackward call_area.simps edit.simps
    by (rule update_area_editor)
      (simp add: delete_word_backward_at_def reach_simps stored_take_drop drop_left_def Let_def)
next
  case DeleteWordForward
  show ?thesis unfolding DeleteWordForward call_area.simps edit.simps
    by (rule update_area_editor)
      (simp add: delete_word_forward_at_def reach_simps stored_take_drop drop_right_def min_def Let_def add.commute)
next
  case DeleteToLineStart
  show ?thesis unfolding DeleteToLineStart call_area.simps edit.simps
    by (rule update_area_editor)
      (simp add: delete_to_line_start_at_def reach_simps stored_take_drop drop_left_def Let_def)
next
  case DeleteToLineEnd
  show ?thesis unfolding DeleteToLineEnd call_area.simps edit.simps
    by (rule update_area_editor)
      (simp add: delete_to_line_end_at_def reach_simps stored_take_drop drop_right_def min_def Let_def add.commute)
qed

text \<open>
  C39. Every method of the text area, called on any area, changes the stored text, cells and cursor exactly as the operation
  of the abstract editor changes the runes before and after the cursor.
\<close>

theorem text_area_refines_editor: "editor_of (call_area m area) = edit m (editor_of area)"
  by (rule editor_call)

section \<open>The state of an area\<close>

text \<open>
  The cursor stands in the text and the cells are the runes of the text, one by one. The step relation is the call of
  any method; a new area satisfies the invariant.
\<close>

definition area_ok :: "text_area \<Rightarrow> bool" where
  "area_ok area \<longleftrightarrow>
     0 \<le> ta_cursor area \<and> ta_cursor area \<le> int (length (go_runes (ta_text area))) \<and>
     ta_chars area = chars_of (go_runes (ta_text area)) \<and> concat (ta_chars area) = ta_text area"

definition area_init :: "text_area \<Rightarrow> bool" where
  "area_init area \<longleftrightarrow> area = new_text_area"

definition area_step :: "text_area \<Rightarrow> text_area \<Rightarrow> bool" where
  "area_step area area' \<longleftrightarrow> (\<exists>m. area' = call_area m area)"

lemma encode_stored_rune: "encode_rune (stored_rune r) = encode_rune r"
proof (cases "valid_rune r")
  case False
  then show ?thesis
    by (auto simp: stored_rune_def encode_rune_def rune_error_def valid_rune_def surrogate_def)
qed simp

lemma set_runes_ok: "area_ok (set_runes area runes c)"
proof -
  have "chars_of (map stored_rune runes) = chars_of runes" "concat (chars_of runes) = string_of_runes runes"
    by (simp_all add: chars_of_def comp_def encode_stored_rune string_of_runes_def)
  then show ?thesis by (simp add: area_ok_def set_runes_def go_runes_string_of_runes clamp_cursor_le)
qed

lemma call_area_ok: "area_ok (call_area m area)"
  by (cases m) (simp_all add: update_area_def Let_def case_prod_unfold set_runes_ok clear_text_def set_text_def)

interpretation area: invariant_machine area_init area_step area_ok
  by unfold_locales
    (simp add: area_init_def new_text_area_def area_ok_def chars_of_def, auto simp: area_step_def call_area_ok)

theorem text_area_invariant:
  assumes "reachable_from area_init area_step area"
  shows "area_ok area"
  by (rule area.reachable_inv [OF assms])

theorem text_area_invariant_witness: "area_ok (call_area (InsertRune 65) new_text_area)"
proof (rule text_area_invariant)
  have "area_step new_text_area (call_area (InsertRune 65) new_text_area)"
    unfolding area_step_def by (rule exI) (rule refl)
  then show "reachable_from area_init area_step (call_area (InsertRune 65) new_text_area)"
    by (meson area_init_def reachable_from.intros)
qed

text \<open>The whole text is what the two sides of the editor spell.\<close>

lemma editor_of_text: "area_ok area \<Longrightarrow> string_of_runes (fst (editor_of area) @ snd (editor_of area)) = ta_text area"
  unfolding area_ok_def editor_of_def Let_def fst_conv snd_conv append_take_drop_id
  by (metis chars_of_def string_of_runes_def)

lemma delete_undoes_insert:
  assumes "ch \<noteq> 0"
  shows "editor_of (call_area DeleteBackward (call_area (InsertRune ch) area)) = editor_of area"
  unfolding editor_call using assms by (simp add: drop_left_def)

section \<open>The rendered cursor\<close>

text \<open>Rows of a beginning of the segments are at most the rows of all of them.\<close>

lemma break_scan_append:
  assumes "break_scan width used limit ls xs = (l, p)" and "l < limit + length xs"
  shows "break_scan width used limit ls (xs @ ys) = (l, p)"
  using assms
proof (induction width used limit ls xs rule: break_scan.induct)
  case (2 width used limit ls t w ss)
  then show ?case by (auto split: if_splits)
qed simp

lemma wrap_break_index_prefix:
  assumes "0 \<le> width" and "xs \<noteq> []"
  shows "wrap_break_index width xs = length xs \<or> wrap_break_index width (xs @ ys) = wrap_break_index width xs"
proof -
  obtain l p where scan: "break_scan width 0 0 None xs = (l, p)" by fastforce
  show ?thesis
  proof (cases "l < length xs")
    case True
    then have "break_scan width 0 0 None (xs @ ys) = (l, p)" using break_scan_append [OF scan] by simp
    then show ?thesis using scan True by (cases p) (simp_all add: wrap_break_index_def)
  next
    case False
    then have "l = length xs" using break_scan_stops [OF scan assms(1)] by simp
    then show ?thesis using scan assms(2) by (cases p) (simp_all add: wrap_break_index_def)
  qed
qed

lemma wrap_loop_step:
  "segs \<noteq> [] \<Longrightarrow> wrap_loop True width segs = join_segments (take (wrap_break_index width (map segment_cell segs)) segs)
     # wrap_loop True width (drop (wrap_break_index width (map segment_cell segs)) segs)"
  by (simp add: wrap_loop.simps [of True width segs] Let_def)

lemma wrap_loop_Nil [simp]: "wrap_loop keep width [] = []"
  by (simp add: wrap_loop.simps)

lemma wrap_loop_prefix_rows:
  assumes "0 \<le> width"
  shows "length (wrap_loop True width xs) \<le> length (wrap_loop True width (xs @ ys))"
proof (induction "length xs" arbitrary: xs rule: less_induct)
  case less
  show ?case
  proof (cases "xs = []")
    case False
    define b where "b = wrap_break_index width (map segment_cell xs)"
    have b: "1 \<le> b" by (simp add: b_def wrap_break_index_pos [simplified])
    consider "b = length xs" | "wrap_break_index width (map segment_cell (xs @ ys)) = b"
      using wrap_break_index_prefix [OF assms, of "map segment_cell xs" "map segment_cell ys"] False by (auto simp: b_def)
    then show ?thesis
    proof cases
      case 1
      then have "length (wrap_loop True width xs) = 1"
        using False wrap_loop_step [of xs width] by (simp add: b_def)
      moreover have "wrap_loop True width (xs @ ys) \<noteq> []"
        using False wrap_loop_step [of "xs @ ys" width] by simp
      ultimately show ?thesis by (simp add: Suc_le_eq)
    next
      case 2
      have "length (wrap_loop True width (drop b xs)) \<le> length (wrap_loop True width (drop b xs @ drop (b - length xs) ys))"
      proof -
        have shorter: "length (drop b xs) < length xs" using b False by simp
        show ?thesis
        proof (cases "b \<le> length xs")
          case True
          then show ?thesis using less [OF shorter] by simp
        qed simp
      qed
      then show ?thesis using False 2 wrap_loop_step [of xs width] wrap_loop_step [of "xs @ ys" width]
        by (simp add: b_def)
    qed
  qed simp
qed

lemma split_byte_append:
  "split_byte c (p @ q) = butlast (split_byte c p) @ [last (split_byte c p) @ hd (split_byte c q)] @ tl (split_byte c q)"
proof (induction p)
  case (Cons x p)
  obtain l ls where s: "split_byte c p = l # ls" by (cases "split_byte c p") auto
  show ?case using Cons by (cases ls) (auto simp: s split: list.splits)
qed (cases "split_byte c q"; simp)

lemma wrap_logical_line_length:
  "length (wrap_logical_line graphemes True width t) =
     (if t = [] then 1 else max 1 (length (wrap_loop True width (segments graphemes t))))"
  by (cases "wrap_loop True width (segments graphemes t)") (auto simp: wrap_logical_line_def Let_def)

text \<open>
  The cursor stands between two graphemes of its line: the segmentation of what precedes it is the beginning of the
  segmentation of the line.
\<close>

definition cursor_on_boundary :: "(string \<Rightarrow> (string \<times> int) list) \<Rightarrow> string \<Rightarrow> string \<Rightarrow> bool" where
  "cursor_on_boundary graphemes before after \<longleftrightarrow>
     prefix (graphemes (last (split_byte (CHR 0x0A) before)))
       (graphemes (last (split_byte (CHR 0x0A) before) @ hd (split_byte (CHR 0x0A) after)))"

lemma wrapped_line_prefix_rows:
  assumes "0 \<le> width" and "prefix (graphemes u) (graphemes (u @ v))"
  shows "length (wrap_logical_line graphemes True width u) \<le> length (wrap_logical_line graphemes True width (u @ v))"
proof (cases "u = []")
  case True
  then show ?thesis by (simp add: wrap_logical_line_length)
next
  case False
  obtain zs where "graphemes (u @ v) = graphemes u @ zs" using assms(2) by (auto elim: prefixE)
  then have "segments graphemes (u @ v) = segments graphemes u @ map (\<lambda>(g, w). \<lparr>seg_text = g, seg_width = segment_display_width g w\<rparr>) zs"
    by (simp add: segments_def)
  then have "length (wrap_loop True width (segments graphemes u)) \<le> length (wrap_loop True width (segments graphemes (u @ v)))"
    using wrap_loop_prefix_rows [OF assms(1)] by simp
  then show ?thesis using False by (simp add: wrap_logical_line_length)
qed

lemma wrapped_prefix_rows:
  assumes "0 < width" and "cursor_on_boundary graphemes before after"
  shows "length (wrap_preserve_whitespace graphemes before width) \<le> length (wrap_preserve_whitespace graphemes (before @ after) width)"
proof -
  let ?w = "wrap_logical_line graphemes True width" and ?u = "last (split_byte (CHR 0x0A) before)"
    and ?v = "hd (split_byte (CHR 0x0A) after)"
  have "concat (map ?w (split_byte (CHR 0x0A) before)) = concat (map ?w (butlast (split_byte (CHR 0x0A) before) @ [?u]))"
    by simp
  moreover have "length (?w ?u) \<le> length (?w (?u @ ?v))"
    by (rule wrapped_line_prefix_rows) (use assms in \<open>simp_all add: cursor_on_boundary_def\<close>)
  ultimately show ?thesis using assms(1)
    by (simp add: wrap_preserve_whitespace_def wrap_with_mode_def split_byte_append del: append_butlast_last_id)
qed

lemma wrap_preserve_not_Nil: "wrap_preserve_whitespace graphemes t width \<noteq> []"
proof -
  obtain l ls where "split_byte (CHR 0x0A) t = l # ls" by (cases "split_byte (CHR 0x0A) t") auto
  moreover have "wrap_logical_line graphemes True width l \<noteq> []"
    using wrap_logical_line_length [of graphemes width l] by (auto split: if_splits)
  ultimately show ?thesis by (simp add: wrap_preserve_whitespace_def wrap_with_mode_def)
qed

text \<open>The viewport shows a run of lines of the height of the area, and the row of the cursor is in it.\<close>

lemma visible_lines_show_row:
  assumes "visible_lines lines max_rows row = (visible, skipped)" and "0 \<le> row" and "row < int (length lines)"
  shows "0 \<le> skipped \<and> skipped \<le> row \<and> row - skipped < int (length visible)
    \<and> visible = take (length visible) (drop (nat skipped) lines) \<and> (1 \<le> max_rows \<longrightarrow> int (length visible) \<le> max_rows)"
proof (cases "max_rows < 1 \<or> int (length lines) \<le> max_rows")
  case True
  then show ?thesis using assms by (auto simp: visible_lines_def)
next
  case False
  define start where "start = (if max 0 (row - max_rows + 1) + max_rows > int (length lines)
    then int (length lines) - max_rows else max 0 (row - max_rows + 1))"
  have "visible_lines lines max_rows row = (take (nat max_rows) (drop (nat start) lines), start)"
    unfolding visible_lines_def start_def Let_def using False by (simp only: if_False)
  then have v: "visible = take (nat max_rows) (drop (nat start) lines)" "skipped = start" using assms(1) by simp_all
  have s: "0 \<le> start" "start + max_rows \<le> int (length lines)" "start \<le> row" "row < start + max_rows"
    using False assms(2,3) by (auto simp: start_def max_def split: if_splits)
  then have "length visible = nat max_rows" using v False by simp
  then show ?thesis using v s False by simp
qed

lemma string_of_runes_append: "string_of_runes (xs @ ys) = string_of_runes xs @ string_of_runes ys"
  by (simp add: string_of_runes_def)

lemma cursor_row_in_body:
  assumes "0 < width"
    and "cursor_on_boundary graphemes (string_of_runes (take (clamp_cursor c (length runes)) runes))
      (string_of_runes (drop (clamp_cursor c (length runes)) runes))"
  shows "0 \<le> fst (text_area_cursor_position graphemes str_width runes c width)
    \<and> fst (text_area_cursor_position graphemes str_width runes c width) < int (length (text_area_body_lines graphemes runes width))"
proof -
  let ?p = "string_of_runes (take (clamp_cursor c (length runes)) runes)"
  let ?q = "string_of_runes (drop (clamp_cursor c (length runes)) runes)"
  have whole: "?p @ ?q = string_of_runes runes" by (simp add: string_of_runes_append [symmetric])
  have row: "fst (text_area_cursor_position graphemes str_width runes c width) = int (length (wrap_preserve_whitespace graphemes ?p width)) - 1"
    using wrap_preserve_not_Nil by (simp add: text_area_cursor_position_def Let_def)
  have "length (wrap_preserve_whitespace graphemes ?p width) \<le> length (text_area_body_lines graphemes runes width)"
  proof (cases "runes = []")
    case True
    then show ?thesis using assms(1)
      by (simp add: text_area_body_lines_def wrap_preserve_whitespace_def wrap_with_mode_def wrap_logical_line_def string_of_runes_def)
  next
    case False
    then show ?thesis using wrapped_prefix_rows [OF assms] whole by (simp add: text_area_body_lines_def)
  qed
  moreover have "0 < length (wrap_preserve_whitespace graphemes ?p width)" using wrap_preserve_not_Nil by simp
  ultimately show ?thesis unfolding row by simp
qed

text \<open>The rendered cursor lies between the two borders, and the area has at most the rows it may take.\<close>

theorem rendered_cursor_in_box:
  assumes "cursor_on_boundary graphemes (string_of_runes (take (clamp_cursor c (length runes)) runes))
      (string_of_runes (drop (clamp_cursor c (length runes)) runes))"
    and "render_text_area graphemes str_width runes c width max_rows styles label = r"
  shows "1 \<le> rn_cursor_row r \<and> rn_cursor_row r \<le> int (length (rn_lines r)) - 2
    \<and> (1 \<le> max_rows \<longrightarrow> int (length (rn_lines r)) \<le> max_rows + 2)"
proof -
  let ?w = "max 1 (width - text_area_border_padding)"
  obtain row col where pos: "text_area_cursor_position graphemes str_width runes c ?w = (row, col)" by fastforce
  obtain visible skipped where vis:
    "visible_lines (text_area_body_lines graphemes runes ?w) max_rows row = (visible, skipped)" by fastforce
  have "0 \<le> row \<and> row < int (length (text_area_body_lines graphemes runes ?w))"
    using cursor_row_in_body [of ?w graphemes c runes str_width] assms(1) pos by simp
  then have "skipped \<le> row \<and> row - skipped < int (length visible) \<and> (1 \<le> max_rows \<longrightarrow> int (length visible) \<le> max_rows)"
    using visible_lines_show_row [OF vis] by blast
  moreover have "rn_cursor_row r = 1 + row - skipped" "length (rn_lines r) = length visible + 2"
    using assms(2) by (auto simp: render_text_area_def Let_def pos vis)
  ultimately show ?thesis by simp
qed

definition sample_runes :: "nat list" where
  "sample_runes = map of_char ''hello world''"

definition byte_width :: "string \<Rightarrow> int" where
  "byte_width t = int (length t)"

definition plain_styles :: "unit text_area_styles" where
  "plain_styles = \<lparr>st_border = (), st_body = ()\<rparr>"

lemma sample_boundary:
  "cursor_on_boundary byte_cells (string_of_runes (take (clamp_cursor 8 (length sample_runes)) sample_runes))
     (string_of_runes (drop (clamp_cursor 8 (length sample_runes)) sample_runes))"
  by code_simp

theorem rendered_cursor_in_box_witness:
  "let r = render_text_area byte_cells byte_width sample_runes 8 12 1 plain_styles []
   in 1 \<le> rn_cursor_row r \<and> rn_cursor_row r \<le> int (length (rn_lines r)) - 2
    \<and> (1 \<le> (1::int) \<longrightarrow> int (length (rn_lines r)) \<le> 1 + 2)"
  unfolding Let_def by (rule rendered_cursor_in_box [OF sample_boundary refl])

text \<open>
  The position of the cursor is computed by wrapping only the text before it. A word that the whole text moves to the
  next row is still on the first row when it is wrapped alone: with eight cells, the text \<open>hello world\<close> is drawn as
  two rows, and the cursor inside \<open>world\<close> is drawn behind the first row, in column eight, where no cell of the row is.
\<close>

theorem cursor_drawn_off_its_rune:
  "text_area_body_lines byte_cells sample_runes 8 = [''hello '', ''world'']
   \<and> take 8 sample_runes = map of_char ''hello wo''
   \<and> text_area_cursor_position byte_cells byte_width sample_runes 8 8 = (0, 8)"
  by code_simp

end
