(* ===== verification/List_Widgets.thy ===== *)
theory List_Widgets
  imports Text_Area
begin

text \<open>
  Lists of the terminal: the searchable list and the completion popup (\<^verbatim>\<open>tui/list.go\<close>) and the viewports over lines
  and over items of different heights (\<^verbatim>\<open>tui/viewport.go\<close>, \<^verbatim>\<open>tui/util.go\<close>). The fuzzy search is a library: a function from the
  query and the texts of the items to the indices of the matches. Styles are values of any type.
\<close>

section \<open>The searchable list\<close>

record list_item =
  li_value :: string
  li_title :: string
  li_description :: string
  li_meta :: string

record search_list =
  sl_title :: string
  sl_subtitle :: string
  sl_query :: string
  sl_items :: "list_item list"
  sl_filtered :: "list_item list"
  sl_selected :: int
  sl_show_details :: bool
  sl_searchable :: bool

definition tail_items :: "'a list \<Rightarrow> int \<Rightarrow> 'a list" where
  "tail_items items n =
     (if n < 0 \<or> int (length items) \<le> n then items else drop (length items - nat n) items)"

definition clamp_selection :: "int \<Rightarrow> int \<Rightarrow> int" where
  "clamp_selection i n = (if n \<le> 0 then 0 else min (max 0 i) (n - 1))"

text \<open>\<open>moveSelection\<close>: the loop adds the count until the index is not negative.\<close>

function lift_index :: "int \<Rightarrow> int \<Rightarrow> int" where
  "lift_index i n = (if i < 0 \<and> 0 < n then lift_index (i + n) n else i)"
  by pat_completeness auto
termination by (relation "measure (\<lambda>(i, n). nat (- i))") auto

declare lift_index.simps [simp del]

definition move_selection :: "int \<Rightarrow> int \<Rightarrow> int \<Rightarrow> int" where
  "move_selection i delta n = (if n \<le> 0 then 0 else lift_index (i + delta) n smod n)"

definition item_source :: "list_item \<Rightarrow> string" where
  "item_source x = join_with '' '' [li_title x, li_description x, li_meta x, li_value x]"

definition fuzzy_list_items :: "(string \<Rightarrow> string list \<Rightarrow> nat list) \<Rightarrow> string \<Rightarrow> list_item list \<Rightarrow> list_item list" where
  "fuzzy_list_items find_from query items = map (\<lambda>i. items ! i) (find_from query (map item_source items))"

definition apply_filter :: "(string \<Rightarrow> string list \<Rightarrow> nat list) \<Rightarrow> search_list \<Rightarrow> search_list" where
  "apply_filter find_from l =
     (let query = trim_space (sl_query l);
          filtered = (if query = [] then sl_items l else fuzzy_list_items find_from query (sl_items l))
      in l\<lparr>sl_filtered := filtered, sl_selected := clamp_selection (sl_selected l) (int (length filtered))\<rparr>)"

definition new_list :: "(string \<Rightarrow> string list \<Rightarrow> nat list) \<Rightarrow> string \<Rightarrow> string \<Rightarrow> list_item list \<Rightarrow> bool \<Rightarrow> search_list" where
  "new_list find_from title subtitle items searchable =
     apply_filter find_from
       \<lparr>sl_title = title, sl_subtitle = subtitle, sl_query = [], sl_items = items, sl_filtered = [],
        sl_selected = 0, sl_show_details = True, sl_searchable = searchable\<rparr>"

definition selected_item :: "search_list \<Rightarrow> list_item option" where
  "selected_item l =
     (if sl_filtered l = [] then None
      else Some (sl_filtered l ! nat (min (max 0 (sl_selected l)) (int (length (sl_filtered l)) - 1))))"

definition selected_value :: "search_list \<Rightarrow> string option" where
  "selected_value l = map_option li_value (selected_item l)"

definition set_selected_index :: "search_list \<Rightarrow> int \<Rightarrow> search_list" where
  "set_selected_index l i = l\<lparr>sl_selected := clamp_selection i (int (length (sl_filtered l)))\<rparr>"

definition list_move_selection :: "search_list \<Rightarrow> int \<Rightarrow> search_list" where
  "list_move_selection l delta = l\<lparr>sl_selected := move_selection (sl_selected l) delta (int (length (sl_filtered l)))\<rparr>"

definition append_query_rune :: "(string \<Rightarrow> string list \<Rightarrow> nat list) \<Rightarrow> search_list \<Rightarrow> nat \<Rightarrow> search_list" where
  "append_query_rune find_from l ch =
     (if \<not> sl_searchable l \<or> ch = 0 then l
      else apply_filter find_from (l\<lparr>sl_query := sl_query l @ encode_rune ch\<rparr>))"

definition backspace_query :: "(string \<Rightarrow> string list \<Rightarrow> nat list) \<Rightarrow> search_list \<Rightarrow> search_list" where
  "backspace_query find_from l =
     (if sl_query l = [] then l
      else apply_filter find_from (l\<lparr>sl_query := string_of_runes (butlast (go_runes (sl_query l)))\<rparr>))"

section \<open>Rendering the list\<close>

definition list_chrome_rows :: int where "list_chrome_rows = 8"
definition list_horizontal_padding :: int where "list_horizontal_padding = 4"

definition window_start :: "search_list \<Rightarrow> int \<Rightarrow> int" where
  "window_start l max_items =
     (if int (length (sl_filtered l)) \<le> max_items then 0
      else min (max 0 (sl_selected l - max_items sdiv 2)) (int (length (sl_filtered l)) - max_items))"

record 'st list_styles =
  ls_border :: 'st
  ls_accent_bold :: 'st
  ls_muted :: 'st
  ls_text :: 'st
  ls_selected :: 'st
  ls_dim :: 'st

definition list_row ::
  "(string \<Rightarrow> (string \<times> int) list) \<Rightarrow> (string \<Rightarrow> int) \<Rightarrow> string \<Rightarrow> int \<Rightarrow> 'st \<Rightarrow> 'st \<Rightarrow> 'st line" where
  "list_row graphemes str_width t width content_style border_style =
     (let side = bd_vertical rounded_border; body = '' '' @ pad_right graphemes str_width t width @ '' ''
      in \<lparr>line_text = side @ body @ side, line_style = content_style,
          line_spans = [\<lparr>span_style = border_style, span_text = side\<rparr>,
                        \<lparr>span_style = content_style, span_text = body\<rparr>,
                        \<lparr>span_style = border_style, span_text = side\<rparr>]\<rparr>)"

definition item_text :: "search_list \<Rightarrow> int \<Rightarrow> list_item \<Rightarrow> string" where
  "item_text l i x =
     (if i = sl_selected l then encode_rune 0x2192 @ '' '' else ''  '') @ li_title x
     @ (if li_meta x \<noteq> [] then '' '' @ li_meta x else [])
     @ (if sl_show_details l \<and> li_description x \<noteq> [] then '' '' @ encode_rune 0x2014 @ '' '' @ li_description x else [])"

definition item_line ::
  "(string \<Rightarrow> (string \<times> int) list) \<Rightarrow> (string \<Rightarrow> int) \<Rightarrow> search_list \<Rightarrow> int \<Rightarrow> int \<Rightarrow> 'st list_styles \<Rightarrow> 'st line" where
  "item_line graphemes str_width l i width styles =
     (if i < 0 \<or> i \<ge> int (length (sl_filtered l)) then list_row graphemes str_width [] width (ls_muted styles) (ls_border styles)
      else list_row graphemes str_width (item_text l i (sl_filtered l ! nat i)) width
             (if i = sl_selected l then ls_selected styles else ls_text styles) (ls_border styles))"

definition item_lines ::
  "(string \<Rightarrow> (string \<times> int) list) \<Rightarrow> (string \<Rightarrow> int) \<Rightarrow> search_list \<Rightarrow> int \<Rightarrow> int \<Rightarrow> 'st list_styles \<Rightarrow> 'st line list" where
  "item_lines graphemes str_width l width max_items styles =
     (if sl_filtered l = [] then [list_row graphemes str_width ''No matches'' width (ls_muted styles) (ls_border styles)]
      else
        let start = window_start l max_items;
            stop = min (start + max_items) (int (length (sl_filtered l)))
        in map (\<lambda>i. item_line graphemes str_width l i width styles) [start..stop - 1])"

definition hint_line ::
  "(string \<Rightarrow> (string \<times> int) list) \<Rightarrow> (string \<Rightarrow> int) \<Rightarrow> search_list \<Rightarrow> int \<Rightarrow> int \<Rightarrow> 'st list_styles \<Rightarrow> string \<Rightarrow> 'st line" where
  "hint_line graphemes str_width l content_width width styles hint =
     (let position =
            (if sl_filtered l \<noteq> [] then
               '' '' @ truncate_text graphemes str_width
                 (''('' @ itoa (sl_selected l + 1) @ ''/'' @ itoa (int (length (sl_filtered l))) @ '')'') (max 0 (width sdiv 4))
             else [])
      in list_row graphemes str_width (hint @ position) content_width (ls_dim styles) (ls_border styles))"

text \<open>\<open>Render\<close>; \<open>hint\<close> is the text of the key names, put together before the position.\<close>

definition render_hint :: "string \<Rightarrow> string \<Rightarrow> string \<Rightarrow> string \<Rightarrow> string" where
  "render_hint up down confirm cancel =
     up @ ''/'' @ down @ '' navigate '' @ encode_rune 0xB7 @ '' '' @ confirm @ '' select '' @ encode_rune 0xB7 @ '' ''
     @ cancel @ '' cancel''"

definition render_list ::
  "(string \<Rightarrow> (string \<times> int) list) \<Rightarrow> (string \<Rightarrow> int) \<Rightarrow> search_list \<Rightarrow> int \<Rightarrow> int \<Rightarrow> 'st list_styles \<Rightarrow> string \<Rightarrow> 'st line list" where
  "render_list graphemes str_width l width height styles hint =
     (let width = max 1 width; height = max 1 height;
          content_width = max 1 (width - list_horizontal_padding);
          max_items = max 1 (height - list_chrome_rows);
          row = (\<lambda>t style. list_row graphemes str_width t content_width style (ls_border styles));
          lines = [new_line (ls_border styles) (top_border graphemes str_width width []), row (sl_title l) (ls_accent_bold styles)]
            @ (if sl_subtitle l \<noteq> [] then [row (sl_subtitle l) (ls_muted styles)] else [])
            @ (if sl_searchable l then [row (''Search: '' @ sl_query l) (ls_text styles)] else [])
            @ [new_line (ls_border styles) (middle_border graphemes str_width width)]
            @ item_lines graphemes str_width l content_width max_items styles
            @ [hint_line graphemes str_width l content_width width styles hint,
               new_line (ls_border styles) (bottom_border graphemes str_width width)]
      in tail_items lines height)"

section \<open>The completion popup\<close>

record autocomplete =
  ac_items :: "list_item list"
  ac_selected :: int

definition ac_set_items :: "autocomplete \<Rightarrow> list_item list \<Rightarrow> autocomplete" where
  "ac_set_items a items = a\<lparr>ac_items := items, ac_selected := clamp_selection (ac_selected a) (int (length items))\<rparr>"

definition new_autocomplete :: "list_item list \<Rightarrow> autocomplete" where
  "new_autocomplete items = ac_set_items \<lparr>ac_items = [], ac_selected = 0\<rparr> items"

definition ac_set_selected_index :: "autocomplete \<Rightarrow> int \<Rightarrow> autocomplete" where
  "ac_set_selected_index a i = a\<lparr>ac_selected := clamp_selection i (int (length (ac_items a)))\<rparr>"

definition ac_move_selection :: "autocomplete \<Rightarrow> int \<Rightarrow> autocomplete" where
  "ac_move_selection a delta = a\<lparr>ac_selected := move_selection (ac_selected a) delta (int (length (ac_items a)))\<rparr>"

definition ac_selected_item :: "autocomplete \<Rightarrow> list_item option" where
  "ac_selected_item a =
     (if ac_items a = [] then None else Some (ac_items a ! nat (clamp_selection (ac_selected a) (int (length (ac_items a))))))"

definition ac_render_limit :: "int \<Rightarrow> int \<Rightarrow> int" where
  "ac_render_limit max_items n = (if max_items \<le> 0 \<or> max_items > n then n else max_items)"

definition ac_window_start :: "autocomplete \<Rightarrow> int \<Rightarrow> int" where
  "ac_window_start a limit =
     (if limit \<le> 0 \<or> int (length (ac_items a)) \<le> limit \<or> ac_selected a < limit then 0
      else min (ac_selected a - limit + 1) (int (length (ac_items a)) - limit))"

section \<open>Viewports\<close>

definition slice_viewport :: "'a list \<Rightarrow> int \<Rightarrow> int \<Rightarrow> 'a list" where
  "slice_viewport items offset height =
     (if height \<le> 0 \<or> items = [] then []
      else
        let start = min (max 0 offset) (max 0 (int (length items) - height));
            stop = min (start + height) (int (length items))
        in take (nat (stop - start)) (drop (nat start) items))"

record virtual_item =
  vi_index :: nat
  vi_row_offset :: int
  vi_height :: int

record virtual_metrics =
  vm_window_start :: int
  vm_window_end :: int
  vm_offset :: int
  vm_max_offset :: int
  vm_total_height :: int

record virtual_result =
  vr_items :: "virtual_item list"
  vr_start :: int
  vr_end :: int
  vr_offset :: int
  vr_max_offset :: int
  vr_total :: int

definition sum_positive_heights :: "int list \<Rightarrow> int" where
  "sum_positive_heights heights = (\<Sum>h\<leftarrow>heights. max 0 h)"

definition new_virtual_metrics :: "int list \<Rightarrow> int \<Rightarrow> int \<Rightarrow> virtual_metrics" where
  "new_virtual_metrics heights viewport_height offset =
     (let height = max 0 viewport_height;
          sum = sum_positive_heights heights;
          max_offset = max 0 (sum - height);
          offset = min (max 0 offset) max_offset;
          start = max 0 (sum - height - offset)
      in \<lparr>vm_window_start = start, vm_window_end = start + height, vm_offset = offset,
          vm_max_offset = max_offset, vm_total_height = sum\<rparr>)"

definition metrics_empty :: "virtual_metrics \<Rightarrow> bool" where
  "metrics_empty m \<longleftrightarrow> vm_window_end m \<le> vm_window_start m \<or> vm_total_height m = 0"

text \<open>The loop of \<open>visibleVirtualListItems\<close>; \<open>None\<close> is the start index \<open>-1\<close>.\<close>

fun visible_items_loop :: "int \<Rightarrow> int \<Rightarrow> nat \<Rightarrow> int \<Rightarrow> nat option \<Rightarrow> nat \<Rightarrow> int list \<Rightarrow> virtual_item list \<times> nat option \<times> nat" where
  "visible_items_loop ws we i edge first stop [] = ([], first, stop)"
| "visible_items_loop ws we i edge first stop (h # hs) =
     (let height = max 0 h;
          bottom = edge + height;
          hit = (0 < height \<and> bottom > ws \<and> edge < we);
          first' = (if hit \<and> first = None then Some i else first);
          stop' = (if hit then Suc i else stop);
          here = (if hit then [\<lparr>vi_index = i, vi_row_offset = edge - ws, vi_height = height\<rparr>] else [])
      in if bottom \<ge> we then (here, first', stop')
         else let (items, first'', stop'') = visible_items_loop ws we (Suc i) bottom first' stop' hs
              in (here @ items, first'', stop''))"

definition visible_virtual_items :: "int list \<Rightarrow> int \<Rightarrow> int \<Rightarrow> virtual_item list \<times> int \<times> int" where
  "visible_virtual_items heights ws we =
     (let (items, first, stop) = visible_items_loop ws we 0 0 None 0 heights
      in (items, (case first of None \<Rightarrow> 0 | Some i \<Rightarrow> int i), int stop))"

definition virtual_list :: "int list \<Rightarrow> int \<Rightarrow> int \<Rightarrow> virtual_result" where
  "virtual_list heights viewport_height offset =
     (let m = new_virtual_metrics heights viewport_height offset;
          (items, start, stop) = (if metrics_empty m then ([], 0, 0)
             else visible_virtual_items heights (vm_window_start m) (vm_window_end m))
      in \<lparr>vr_items = items, vr_start = start, vr_end = stop, vr_offset = vm_offset m,
          vr_max_offset = vm_max_offset m, vr_total = int (length heights)\<rparr>)"

section \<open>Selections\<close>

lemma lift_index_nonneg: "0 < n \<Longrightarrow> 0 \<le> lift_index i n"
  by (induction i n rule: lift_index.induct) (subst lift_index.simps, simp)

lemma lift_index_mod: "lift_index i n mod n = i mod n"
  by (induction i n rule: lift_index.induct) (subst lift_index.simps, simp)

text \<open>Moving the selection wraps around the list in both directions.\<close>

lemma move_selection_mod: "0 < n \<Longrightarrow> move_selection i delta n = (i + delta) mod n"
  by (simp add: move_selection_def smod_nonneg lift_index_nonneg lift_index_mod)

definition selection_valid :: "int \<Rightarrow> nat \<Rightarrow> bool" where
  "selection_valid i n \<longleftrightarrow> 0 \<le> i \<and> (if n = 0 then i = 0 else i < int n)"

lemma clamp_selection_valid: "selection_valid (clamp_selection i (int n)) n"
  by (auto simp: selection_valid_def clamp_selection_def)

lemma move_selection_valid: "selection_valid (move_selection i delta (int n)) n"
proof (cases "n = 0")
  case False
  then show ?thesis by (simp add: selection_valid_def move_selection_mod)
qed (simp add: selection_valid_def move_selection_def)

text \<open>
  The operations of a list, as a step relation. The invariant: what is shown is what the current query selects, all of it comes
  from the items, and the selected row is one of the rows shown.
\<close>

definition shown_items :: "(string \<Rightarrow> string list \<Rightarrow> nat list) \<Rightarrow> search_list \<Rightarrow> list_item list" where
  "shown_items find_from l =
     (if trim_space (sl_query l) = [] then sl_items l
      else fuzzy_list_items find_from (trim_space (sl_query l)) (sl_items l))"

definition list_ok :: "(string \<Rightarrow> string list \<Rightarrow> nat list) \<Rightarrow> search_list \<Rightarrow> bool" where
  "list_ok find_from l \<longleftrightarrow>
     sl_filtered l = shown_items find_from l \<and> selection_valid (sl_selected l) (length (sl_filtered l))"

inductive list_init :: "(string \<Rightarrow> string list \<Rightarrow> nat list) \<Rightarrow> search_list \<Rightarrow> bool" for find_from where
  "list_init find_from (new_list find_from title subtitle items searchable)"

inductive list_step :: "(string \<Rightarrow> string list \<Rightarrow> nat list) \<Rightarrow> search_list \<Rightarrow> search_list \<Rightarrow> bool" for find_from where
  "list_step find_from l (append_query_rune find_from l ch)"
| "list_step find_from l (backspace_query find_from l)"
| "list_step find_from l (set_selected_index l i)"
| "list_step find_from l (list_move_selection l delta)"

lemma apply_filter_ok: "list_ok find_from (apply_filter find_from l)"
  by (auto simp: list_ok_def apply_filter_def Let_def shown_items_def clamp_selection_valid)

lemma list_init_ok: "list_init find_from l \<Longrightarrow> list_ok find_from l"
  by (induction rule: list_init.induct) (simp add: new_list_def apply_filter_ok)

lemma list_step_ok: "list_ok find_from l \<Longrightarrow> list_step find_from l l' \<Longrightarrow> list_ok find_from l'"
proof (erule list_step.cases, goal_cases)
  case (3 l i)
  then show ?case by (simp add: list_ok_def shown_items_def set_selected_index_def clamp_selection_valid)
next
  case (4 l delta)
  then show ?case by (simp add: list_ok_def shown_items_def list_move_selection_def move_selection_valid)
qed (auto simp: append_query_rune_def backspace_query_def apply_filter_ok)

interpretation search_list: invariant_machine "list_init find_from" "list_step find_from" "list_ok find_from"
  for find_from
  by unfold_locales (rule list_init_ok, assumption, rule list_step_ok, assumption+)

text \<open>The rows of the window: the selected row is one of them, whatever was typed and moved.\<close>

lemma window_shows_selected:
  assumes "selection_valid (sl_selected l) (length (sl_filtered l))" and "sl_filtered l \<noteq> []" and "1 \<le> n"
  shows "0 \<le> window_start l n \<and> window_start l n \<le> sl_selected l
    \<and> sl_selected l < min (window_start l n + n) (int (length (sl_filtered l)))"
proof -
  have s: "0 \<le> sl_selected l" "sl_selected l < int (length (sl_filtered l))"
    using assms(1,2) by (auto simp: selection_valid_def)
  have half: "n sdiv 2 = n div 2" using assms(3) by (simp add: sdiv_nonneg)
  have "0 \<le> n div 2" "n div 2 < n" using assms(3) by simp_all
  then show ?thesis using s unfolding window_start_def half by (auto simp: min_def max_def)
qed

lemma item_lines_at:
  assumes "sl_filtered l \<noteq> []" and "1 \<le> n" and "selection_valid (sl_selected l) (length (sl_filtered l))"
  shows "list_row graphemes str_width (item_text l (sl_selected l) (sl_filtered l ! nat (sl_selected l))) width
      (ls_selected styles) (ls_border styles) \<in> set (item_lines graphemes str_width l width n styles)"
proof -
  have "sl_selected l \<in> set [window_start l n..min (window_start l n + n) (int (length (sl_filtered l))) - 1]"
    using window_shows_selected [OF assms(3,1,2)] by simp
  then have "item_line graphemes str_width l (sl_selected l) width styles \<in> set (item_lines graphemes str_width l width n styles)"
    using assms(1) unfolding item_lines_def Let_def by simp
  moreover have "0 \<le> sl_selected l" "sl_selected l < int (length (sl_filtered l))"
    using assms(1,3) by (auto simp: selection_valid_def)
  ultimately show ?thesis by (simp add: item_line_def)
qed

lemma item_lines_length: "1 \<le> n \<Longrightarrow> length (item_lines graphemes str_width l width n styles) \<le> nat n"
  by (auto simp: item_lines_def Let_def)

lemma tail_items_middle:
  assumes "x \<in> set e" and "int (length a + length b + length c + length d + length e + length f) \<le> n"
  shows "x \<in> set (tail_items (a @ b @ c @ d @ e @ f) n)"
  using assms by (simp add: tail_items_def)

text \<open>
  In a list of at least nine rows, which has room for one item, the whole frame is rendered and the selected item, drawn as selected, is
  in it; the library only has to return indices of the items it was given.
\<close>

theorem selected_item_is_rendered:
  assumes library: "\<forall>query texts. \<forall>i \<in> set (find_from query texts). i < length texts"
    and reachable: "reachable_from (list_init find_from) (list_step find_from) l"
    and selected: "selected_item l = Some x" and "9 \<le> height"
  shows "x \<in> set (sl_items l)
    \<and> list_row graphemes str_width (item_text l (sl_selected l) x) (max 1 (max 1 width - list_horizontal_padding))
        (ls_selected styles) (ls_border styles) \<in> set (render_list graphemes str_width l width height styles hint)"
proof -
  have ok: "sl_filtered l = shown_items find_from l" "selection_valid (sl_selected l) (length (sl_filtered l))"
    using search_list.reachable_inv [OF reachable] unfolding list_ok_def by blast+
  have ne: "sl_filtered l \<noteq> []" using selected by (auto simp: selected_item_def split: if_splits)
  then have range: "0 \<le> sl_selected l" "sl_selected l < int (length (sl_filtered l))"
    using ok(2) by (auto simp: selection_valid_def)
  then have x: "x = sl_filtered l ! nat (sl_selected l)"
    using selected ne by (simp add: selected_item_def min_def)
  then have "x \<in> set (shown_items find_from l)" using range ok(1) by (metis nat_less_iff nth_mem)
  moreover have "set (fuzzy_list_items find_from q (sl_items l)) \<subseteq> set (sl_items l)" for q
  proof
    fix y assume "y \<in> set (fuzzy_list_items find_from q (sl_items l))"
    then obtain i where "i \<in> set (find_from q (map item_source (sl_items l)))" "y = sl_items l ! i"
      by (auto simp: fuzzy_list_items_def)
    moreover from this have "i < length (sl_items l)" using library by (metis length_map)
    ultimately show "y \<in> set (sl_items l)" by simp
  qed
  ultimately have "x \<in> set (sl_items l)" by (auto simp: shown_items_def split: if_splits)
  moreover
  let ?w = "max 1 (max 1 width - list_horizontal_padding)" and ?n = "max 1 (height - list_chrome_rows)"
  have "list_row graphemes str_width (item_text l (sl_selected l) x) ?w (ls_selected styles) (ls_border styles)
      \<in> set (item_lines graphemes str_width l ?w ?n styles)"
    unfolding x by (rule item_lines_at [OF ne _ ok(2)]) simp
  moreover have "int (length (item_lines graphemes str_width l ?w ?n styles)) \<le> height - 8"
    using item_lines_length [of ?n graphemes str_width l ?w styles] assms(4) by (simp add: list_chrome_rows_def)
  ultimately have "list_row graphemes str_width (item_text l (sl_selected l) x) ?w (ls_selected styles) (ls_border styles)
      \<in> set (render_list graphemes str_width l width height styles hint)"
    unfolding render_list_def Let_def using assms(4) by (intro tail_items_middle) simp_all
  with \<open>x \<in> set (sl_items l)\<close> show ?thesis by blast
qed

definition no_matches :: "string \<Rightarrow> string list \<Rightarrow> nat list" where
  "no_matches query texts = []"

definition sample_list :: search_list where
  "sample_list = new_list no_matches ''models'' [] [\<lparr>li_value = ''a'', li_title = ''A'', li_description = [], li_meta = []\<rparr>] False"

definition unit_list_styles :: "unit list_styles" where
  "unit_list_styles = \<lparr>ls_border = (), ls_accent_bold = (), ls_muted = (), ls_text = (), ls_selected = (), ls_dim = ()\<rparr>"

theorem selected_item_is_rendered_witness:
  "\<lparr>li_value = ''a'', li_title = ''A'', li_description = [], li_meta = []\<rparr> \<in> set (sl_items sample_list)
    \<and> list_row byte_cells byte_width
        (item_text sample_list (sl_selected sample_list) \<lparr>li_value = ''a'', li_title = ''A'', li_description = [], li_meta = []\<rparr>)
        (max 1 (max 1 20 - list_horizontal_padding)) (ls_selected unit_list_styles) (ls_border unit_list_styles)
      \<in> set (render_list byte_cells byte_width sample_list 20 9 unit_list_styles [])"
proof (rule selected_item_is_rendered)
  show "\<forall>query texts. \<forall>i \<in> set (no_matches query texts). i < length texts" by (simp add: no_matches_def)
  show "reachable_from (list_init no_matches) (list_step no_matches) sample_list"
    unfolding sample_list_def by (rule reachable_from.start) (rule list_init.intros)
  show "selected_item sample_list = Some \<lparr>li_value = ''a'', li_title = ''A'', li_description = [], li_meta = []\<rparr>"
    by (simp add: sample_list_def new_list_def apply_filter_def selected_item_def clamp_selection_def Let_def)
qed simp

text \<open>The popup: its selection stays valid, and its window of \<open>limit\<close> rows holds the selected one.\<close>

definition ac_ok :: "autocomplete \<Rightarrow> bool" where
  "ac_ok a \<longleftrightarrow> selection_valid (ac_selected a) (length (ac_items a))"

lemma ac_operations_ok:
  "ac_ok (new_autocomplete items)" "ac_ok (ac_set_items a items)" "ac_ok (ac_set_selected_index a i)" "ac_ok (ac_move_selection a d)"
  by (simp_all add: ac_ok_def new_autocomplete_def ac_set_items_def ac_set_selected_index_def ac_move_selection_def
      clamp_selection_valid move_selection_valid)

lemma ac_window_shows_selected:
  assumes "ac_ok a" and "ac_items a \<noteq> []" and "limit = ac_render_limit max_items (int (length (ac_items a)))"
  shows "0 \<le> ac_window_start a limit \<and> ac_window_start a limit + limit \<le> int (length (ac_items a))
    \<and> ac_window_start a limit \<le> ac_selected a \<and> ac_selected a < ac_window_start a limit + limit"
proof -
  have "0 < length (ac_items a)" using assms(2) by simp
  then have "0 \<le> ac_selected a" "ac_selected a < int (length (ac_items a))"
    using assms(1) by (auto simp: ac_ok_def selection_valid_def)
  then show ?thesis unfolding assms(3) ac_window_start_def ac_render_limit_def by (auto simp: min_def)
qed

section \<open>The visible part of a list of different heights\<close>

definition item_top :: "int list \<Rightarrow> nat \<Rightarrow> int" where
  "item_top heights i = sum_positive_heights (take i heights)"

definition item_visible :: "int list \<Rightarrow> int \<Rightarrow> int \<Rightarrow> nat \<Rightarrow> bool" where
  "item_visible heights ws we i \<longleftrightarrow>
     0 < heights ! i \<and> item_top heights (Suc i) > ws \<and> item_top heights i < we"

definition visible_item :: "int list \<Rightarrow> int \<Rightarrow> nat \<Rightarrow> virtual_item" where
  "visible_item heights ws i =
     \<lparr>vi_index = i, vi_row_offset = item_top heights i - ws, vi_height = max 0 (heights ! i)\<rparr>"

lemma item_top_Suc: "i < length heights \<Longrightarrow> item_top heights (Suc i) = item_top heights i + max 0 (heights ! i)"
  by (simp add: item_top_def sum_positive_heights_def take_Suc_conv_app_nth)

lemma item_top_mono: "i \<le> j \<Longrightarrow> item_top heights i \<le> item_top heights j"
proof (induction j)
  case (Suc j)
  have "item_top heights j \<le> item_top heights (Suc j)"
    by (cases "j < length heights") (simp_all add: item_top_Suc, simp add: item_top_def)
  then show ?case using Suc by (cases "i = Suc j") auto
qed simp

lemma visible_items_loop_filter:
  "i \<le> length heights \<Longrightarrow>
     fst (visible_items_loop ws we i (item_top heights i) first stop (drop i heights)) =
       map (visible_item heights ws) (filter (item_visible heights ws we) [i..<length heights])"
proof (induction "length heights - i" arbitrary: i first stop)
  case 0
  then show ?case by simp
next
  case (Suc n)
  then have i: "i < length heights" by simp
  then have d: "drop i heights = heights ! i # drop (Suc i) heights" by (simp add: Cons_nth_drop_Suc)
  have u: "[i..<length heights] = i # [Suc i..<length heights]" using i by (simp add: upt_conv_Cons)
  have hit: "(0 < max 0 (heights ! i) \<and> item_top heights i + max 0 (heights ! i) > ws \<and> item_top heights i < we)
      = item_visible heights ws we i"
    by (auto simp: item_visible_def item_top_Suc [OF i] max_def)
  show ?case
  proof (cases "item_top heights (Suc i) \<ge> we")
    case True
    have "\<not> item_visible heights ws we j" if "Suc i \<le> j" for j
      using item_top_mono [OF that, of heights] True by (simp add: item_visible_def)
    then have "filter (item_visible heights ws we) [Suc i..<length heights] = []" by (simp add: filter_empty_conv)
    then show ?thesis using True unfolding d u
      by (simp add: Let_def item_top_Suc [OF i, symmetric] hit [unfolded item_top_Suc [OF i, symmetric]] visible_item_def)
  next
    case False
    have "fst (visible_items_loop ws we (Suc i) (item_top heights (Suc i)) f s (drop (Suc i) heights)) =
        map (visible_item heights ws) (filter (item_visible heights ws we) [Suc i..<length heights])" for f s
      using Suc i by simp
    then show ?thesis using False unfolding d u
      by (simp add: Let_def case_prod_unfold item_top_Suc [OF i, symmetric] hit [unfolded item_top_Suc [OF i, symmetric]]
          visible_item_def)
  qed
qed

text \<open>
  The virtual list returns exactly the items of which a row lies in the window, each with its place relative to the window, and the
  window lies within the list, anchored at its end by the offset.
\<close>

theorem virtual_list_shows_window:
  assumes "virtual_list heights viewport_height offset = r"
    and "ws = max 0 (sum_positive_heights heights - viewport_height - vr_offset r)"
    and "0 < viewport_height"
  shows "vr_items r = map (visible_item heights ws)
      (filter (item_visible heights ws (ws + viewport_height)) [0..<length heights])
    \<and> vr_offset r = min (max 0 offset) (vr_max_offset r)
    \<and> vr_max_offset r = max 0 (sum_positive_heights heights - viewport_height)"
proof -
  define m where "m = new_virtual_metrics heights viewport_height offset"
  have r: "vr_items r = (if metrics_empty m then [] else fst (visible_virtual_items heights (vm_window_start m) (vm_window_end m)))"
    "vr_offset r = vm_offset m" "vr_max_offset r = vm_max_offset m"
    unfolding assms(1) [symmetric] virtual_list_def m_def [symmetric] Let_def case_prod_unfold by simp_all
  have total_height: "vm_total_height m = sum_positive_heights heights"
    by (simp add: m_def new_virtual_metrics_def Let_def)
  have "vm_window_start m = max 0 (sum_positive_heights heights - viewport_height - vm_offset m)
    \<and> vm_window_end m = vm_window_start m + viewport_height"
    using assms(3) by (simp add: m_def new_virtual_metrics_def Let_def max_def)
  moreover from this have width: "vm_window_end m = vm_window_start m + viewport_height" by (rule conjunct2)
  ultimately have ws: "ws = vm_window_start m" "vm_window_end m = ws + viewport_height"
    using assms(2) r(2) by simp_all
  have items: "fst (visible_virtual_items heights a b) = map (visible_item heights a) (filter (item_visible heights a b) [0..<length heights])" for a b
    using visible_items_loop_filter [of 0 heights a b None 0]
    by (simp add: visible_virtual_items_def Let_def case_prod_unfold item_top_def sum_positive_heights_def)
  have none: "filter (item_visible heights ws (ws + viewport_height)) [0..<length heights] = []" if empty: "metrics_empty m"
  proof -
    have sum: "sum_positive_heights heights = 0"
      using empty width total_height assms(3) unfolding metrics_empty_def by linarith
    have "\<not> item_visible heights ws (ws + viewport_height) i" if "i < length heights" for i
    proof -
      have "item_top heights (Suc i) \<le> item_top heights (length heights)" using that by (intro item_top_mono) simp
      then show ?thesis using sum assms(2) by (auto simp: item_visible_def item_top_def)
    qed
    then show ?thesis by (simp add: filter_empty_conv)
  qed
  have "vr_items r = map (visible_item heights ws) (filter (item_visible heights ws (ws + viewport_height)) [0..<length heights])"
    using r(1) none items ws by (cases "metrics_empty m") simp_all
  then show ?thesis using r assms(3) by (simp add: m_def new_virtual_metrics_def Let_def max_def)
qed

theorem virtual_list_shows_window_witness:
  "let r = virtual_list [2, 0, 3] 2 1
   in vr_items r = map (visible_item [2, 0, 3] 2) (filter (item_visible [2, 0, 3] 2 (2 + 2)) [0..<length [2::int, 0, 3]])
    \<and> vr_offset r = min (max 0 1) (vr_max_offset r)
    \<and> vr_max_offset r = max 0 (sum_positive_heights [2, 0, 3] - 2)"
  unfolding Let_def
  by (rule virtual_list_shows_window [OF refl]) (code_simp, simp)

end
