(* ===== verification/Spec2Isabelle.thy ===== *)
theory Spec2Isabelle
  imports Context_Usage Summary_Reduction Truncation Steering_Inbox Mutation_Queue Combinator
    Task_Runtime Lease_Refinement Edit_Diff
    Session_Messages Session_Replay
    Timestamp Overflow_Recovery Output_Schema
    Record_Collectors Workflow_Progress Cell_Screen List_Widgets
begin

text \<open>
  A verification library for \<^bold>\<open>librecode\<close>, a coding assistant written in Go. The program keeps
  conversations in a database, sends them to model providers, compacts them when the context window
  of the model fills up, lets the model run tools over the files of the user, and executes background
  tasks under leases. The library models the parts that carry this logic and proves what makes them
  correct. The sources are under \<^verbatim>\<open>src/internal\<close>; every definition names its function in the manifest.

  \<^bold>\<open>The parts and their theories.\<close>

  \<^item> \<^bold>\<open>Shared.\<close> \<open>Prelude\<close> holds the facts on lists, options and sums, the locale of invariant machines
    (initial states, steps, reachability, rule induction) that every state machine below interprets,
    and the locale of measured lists. \<open>Go_Strings\<close> models the functions of \<^verbatim>\<open>strings\<close> and \<^verbatim>\<open>utf8\<close> the sources use,
    on byte strings; \<open>Go_Json\<close> is \<^verbatim>\<open>json.Valid\<close>; \<open>Db_Time\<close> is the text form of instants in the tables
    (\<^verbatim>\<open>time.RFC3339Nano\<close>) and its textual order.

  \<^item> \<^bold>\<open>Numbers and messages.\<close> \<open>Units\<close> (\<^verbatim>\<open>units\<close>, \<^verbatim>\<open>mapsutil\<close>), \<open>Entities\<close> (\<^verbatim>\<open>database/entity.go\<close>,
    \<^verbatim>\<open>model/messages.go\<close>), \<open>Llm_Usage\<close> (\<^verbatim>\<open>llm/usage*.go\<close>, \<^verbatim>\<open>llmconv\<close>).

  \<^item> \<^bold>\<open>The context window\<close> (\<^verbatim>\<open>contextwindow\<close>): \<open>Context_Window\<close> estimates tokens, \<open>Context_Budget\<close> divides the
    window between input, output and reserve, \<open>Context_Usage\<close> estimates what a request occupies, anchored at
    the usage the provider reported last.

  \<^item> \<^bold>\<open>Compaction\<close> (\<^verbatim>\<open>compaction\<close>, \<^verbatim>\<open>assistant/context_summary.go\<close>, \<^verbatim>\<open>context_compaction.go\<close>): \<open>Compaction_Groups\<close>
    cuts a history into semantic groups and packs them into chunks, \<open>Compaction_Plan\<close> chooses the cut
    point and the payload, \<open>Checkpoint\<close> is the grammar a summary must have, \<open>Appendices\<close> the
    deterministic sections appended to it, \<open>Record_Collectors\<close> the records in these sections, read from
    the compacted entries (\<^verbatim>\<open>file_operations.go\<close>, \<^verbatim>\<open>appendices.go\<close>), and \<open>Summary_Reduction\<close> the requests to the provider, their repair,
    and the recursive reduction. A plan flows from \<open>plan_branch\<close> through \<open>partition\<close> into
    \<open>summarize_compaction\<close>.

  \<^item> \<^bold>\<open>Tools\<close> (\<^verbatim>\<open>tool\<close>): \<open>Truncation\<close> bounds their output, \<open>Mutation_Queue\<close> orders concurrent changes of files,
    \<open>Edit_Diff\<close> finds the texts an edit replaces, exactly or up to typographic variants, and applies the edit.

  \<^item> \<^bold>\<open>Sessions\<close> (\<^verbatim>\<open>database/session_store.go\<close>, \<^verbatim>\<open>session_entry_repository.go\<close>, \<^verbatim>\<open>session_message_repository.go\<close>,
    \<^verbatim>\<open>session_repository.go\<close>, \<^verbatim>\<open>entry_metadata.go\<close>, \<^verbatim>\<open>assistant/runtime_context.go\<close>): conversations are trees of entries.
    \<open>Session_Store\<close> models the tables with the constraints of their schema, the validation and every append;
    \<open>Session_Tree\<close> the recursive queries (branch, subtree, tree), the deletion of a subtree and the
    step relation of the tables with its invariant; \<open>Session_Branch\<close> what these operations
    promise in every reachable state; \<open>Session_Messages\<close> transcripts and their pages; \<open>Session_Context\<close> the model
    context that is replayed from a branch, labels and the usage anchor; \<open>Session_Replay\<close> joins the repository with the
    planner of compactions: both account for the same messages, and a plan that is carried out
    yields the context it promised.

  \<^item> \<^bold>\<open>Provider calls\<close> (\<^verbatim>\<open>assistant/retry.go\<close>, \<^verbatim>\<open>response_classification.go\<close>, \<^verbatim>\<open>context_overflow_compaction.go\<close>,
    \<^verbatim>\<open>context_auto_compaction.go\<close>): \<open>Provider_Errors\<close> decides which failures are tried again and how long a retry
    waits; \<open>Overflow_Recovery\<close> classifies responses and models the whole way of a prompt to the provider, with the
    compaction before the request, the single replay after an overflow and the compaction after the response. \<open>Timestamp\<close>
    is the 32-bit time of credentials (\<^verbatim>\<open>timestamp\<close>).

  \<^item> \<^bold>\<open>Structured output\<close> (\<^verbatim>\<open>outputschema\<close>): \<open>Json_Text\<close> models the tokens of \<^verbatim>\<open>json.Decoder\<close>, the bounded parser and the
    canonical encoder, \<open>Json_Roundtrip\<close> and \<open>Json_Sound\<close> prove that they are inverse to each other on values, and
    \<open>Output_Schema\<close> models the preflight, admission, restoration and use of schemas.

  \<^item> \<^bold>\<open>Workflow progress\<close> (\<^verbatim>\<open>workflowprogress\<close>): \<open>Workflow_Progress\<close> models the emitter of progress events and the validation
    of events from an isolated worker, with the invariant of every history of calls.

  \<^item> \<^bold>\<open>Terminal widgets\<close> (\<^verbatim>\<open>tui\<close>): \<open>Text_Layout\<close> wraps and fits plain and styled text (\<^verbatim>\<open>text.go\<close>, \<^verbatim>\<open>line.go\<close>); \<open>Text_Area\<close> is the prompt
    editor, shown to implement an abstract editor, with its borders and its rendered cursor (\<^verbatim>\<open>textarea.go\<close>, \<^verbatim>\<open>box.go\<close>);
    \<open>Cell_Screen\<close> the drawing of lines, the cell buffer and the renderer that sends only changed cells (\<^verbatim>\<open>buffer.go\<close>);
    \<open>List_Widgets\<close> selections, their windows and the viewports (\<^verbatim>\<open>list.go\<close>, \<^verbatim>\<open>viewport.go\<close>).

  \<^item> \<^bold>\<open>Concurrency\<close>: \<open>Steering_Inbox\<close> (\<^verbatim>\<open>assistant/steering_inbox.go\<close>) lets the user steer a run that is
    active; \<open>Combinator\<close> (\<^verbatim>\<open>workflowkernel\<close>) runs items on a bounded pool of workers. Both are step
    relations whose steps are the critical sections of the code, so reachability covers every interleaving.

  \<^item> \<^bold>\<open>Background tasks\<close> (\<^verbatim>\<open>database/task_repository.go\<close>, \<^verbatim>\<open>completion_repository.go\<close>, \<^verbatim>\<open>taskruntime\<close>):
    \<open>Task_Store\<close> models the tables and every transaction over them, \<open>Completion_Store\<close> the deliveries of finished
    tasks to their sessions, \<open>Task_Leases\<close> what a lease promises, \<open>Task_Recovery\<close> the recovery of abandoned
    tasks, \<open>Lease_Refinement\<close> the abstract lease service these transactions implement, and
    \<open>Task_Runtime\<close> the scheduler that runs handlers over the tables.

  \<^bold>\<open>How the code is rendered.\<close> A struct is a record, an enumeration a datatype, a byte string a list of
  characters. Go's \<^verbatim>\<open>int\<close> is \<^typ>\<open>int\<close> where the values are sizes of data in memory; where 64-bit
  arithmetic can matter (\<open>Units\<close>) the words are written out. An error is a value of a sum type. A database
  transaction is a function from tables to an error or new tables, so a failed transaction leaves the tables
  as they were. Shared memory guarded by a mutex is a step relation on an explicit store.

  \<^bold>\<open>What the lemmas show.\<close> For each machine an invariant that every step preserves (unique ids, capacities,
  gapless event numbers, exclusion of conflicting reservations); for each optimised routine its equivalence
  with a reference definition or the optimality of its result (longest prefix, fewest chunks, shortest
  tail); for the leases a refinement of an abstract service and the safety of their holders; for the
  loops termination and bounds on what they send; for the textual formats that they are read back.

  \<^bold>\<open>Bounds and fuel.\<close> The compaction of a history makes at most 260 provider requests: two per chunk
  and level, with at most 32 chunks in a partition and at most four rounds of reduction.
  The recovery loop, whose end depends on the tables, is a partial function in batches of 100 rows, and
  \<open>recover_expired_total_and_complete\<close> proves that it returns: each full batch leaves fewer abandoned tasks.
  The branch and the subtree queries follow rows of the tables and are partial functions too; they return
  in every reachable state, and never on a cycle of parents. The tree of nodes takes the depth it may reach as an argument.
  The loops of the JSON parser get the length of their input as fuel, and \<open>parser_total_and_sound\<close> proves that they never
  run out of it. No other definition uses fuel; recursion that is not structural has a termination proof.

  \<^bold>\<open>Parameters.\<close> Code that is not in the repository is an argument of the definitions that use it: the client
  of the provider and its log, JSON encoding and redaction, the resolution of symbolic links, UUID
  generation and parsing, Unicode normalisation, grapheme segmentation and display width, fuzzy search, the shell parser, the grammar of MIME types and the clock, the handlers of the scheduler and the items of the combinators. Hypotheses on them
  state documented behaviour only (for instance that a client logs each request).

  \<^bold>\<open>What is not modelled.\<close> The terminal application over the widgets, the wire formats of the providers, the OAuth
  flows, the embedding of script runtimes, configuration and discovery of files, the repositories of agent, tool and workflow tasks, and the
  wiring of services. Within the parts above, row scanning, error wrapping, logging, timers and contexts are left
  out. Deleting a whole session cascades into the tables of agents and workflows and is left out. The manifest lists every component with its status.
\<close>

end
